(* ===== verification/CPrelude.thy ===== *)
theory CPrelude
  imports Complex_Main "HOL-Library.Word" "HOL-Library.Signed_Division"
begin

section \<open>Shared prelude: C integers, byte strings, positional digits\<close>

text \<open>
  What every component theory shares. C integers are \<open>int\<close> with the wrap-around of
  the target (LP64: \<open>int\<close> 32 bit, \<open>long\<close> 64 bit) written out by \<open>wrap_s\<close>; C division
  truncates, which is the library's \<open>sdiv\<close> and \<open>smod\<close>. A \<open>char *\<close> is the list of the
  bytes of the object it points to, the terminating zero and whatever lies behind it
  included; \<open>rd\<close> reads one byte and gives 0 outside the object.
\<close>

named_theorems c_simps \<open>evaluation rules of the C operations\<close>
named_theorems scan_bounds \<open>progress and bounds of the scanning functions\<close>

type_synonym c_str = "int list"

subsection \<open>Machine integers\<close>

definition wrap_s :: "nat \<Rightarrow> int \<Rightarrow> int" where
  "wrap_s w x = (x + 2 ^ (w - 1)) mod 2 ^ w - 2 ^ (w - 1)"

definition in_s :: "nat \<Rightarrow> int \<Rightarrow> bool" where
  "in_s w x \<longleftrightarrow> - (2 ^ (w - 1)) \<le> x \<and> x < 2 ^ (w - 1)"

abbreviation s32 :: "int \<Rightarrow> int" where "s32 \<equiv> wrap_s 32"
abbreviation s64 :: "int \<Rightarrow> int" where "s64 \<equiv> wrap_s 64"

lemma wrap_s_id: "0 < w \<Longrightarrow> in_s w x \<Longrightarrow> wrap_s w x = x"
proof -
  assume w: "0 < w" and r: "in_s w x"
  have "(2::int) ^ w = 2 * 2 ^ (w - 1)"
    using w by (cases w) auto
  then have "(x + 2 ^ (w - 1)) mod 2 ^ w = x + 2 ^ (w - 1)"
    using r by (intro mod_pos_pos_trivial) (auto simp: in_s_def)
  then show ?thesis by (simp add: wrap_s_def)
qed

lemma in_s_wrap_s: "0 < w \<Longrightarrow> in_s w (wrap_s w x)"
proof -
  assume w: "0 < w"
  have e: "(2::int) ^ w = 2 * 2 ^ (w - 1)"
    using w by (cases w) auto
  have "0 \<le> (x + 2 ^ (w - 1)) mod 2 ^ w" and "(x + 2 ^ (w - 1)) mod 2 ^ w < 2 ^ w"
    by simp_all
  then show ?thesis using e by (simp add: in_s_def wrap_s_def)
qed

lemma wrap_s_mod: "wrap_s w x mod 2 ^ w = x mod 2 ^ w"
  unfolding wrap_s_def by (metis add_diff_cancel_right' mod_diff_left_eq)

lemma wrap_s_cong: "x mod 2 ^ w = y mod 2 ^ w \<Longrightarrow> wrap_s w x = wrap_s w y"
  unfolding wrap_s_def by (metis mod_add_left_eq)

lemma wrap_s_lin: "wrap_s w (wrap_s w x * b + d) = wrap_s w (x * b + d)"
  by (rule wrap_s_cong) (metis mod_add_left_eq mod_mult_left_eq wrap_s_mod)

lemma s32_id [simp]: "- 2147483648 \<le> x \<Longrightarrow> x \<le> 2147483647 \<Longrightarrow> s32 x = x"
  by (rule wrap_s_id) (auto simp: in_s_def)

lemma s64_id [simp]:
  "- 9223372036854775808 \<le> x \<Longrightarrow> x \<le> 9223372036854775807 \<Longrightarrow> s64 x = x"
  by (rule wrap_s_id) (auto simp: in_s_def)

text \<open>C division agrees with \<open>div\<close> and \<open>mod\<close> on non-negative operands.\<close>

lemma sdiv_nonneg [c_simps]: "0 \<le> (a::int) \<Longrightarrow> 0 < b \<Longrightarrow> a sdiv b = a div b"
  by (auto simp: signed_divide_int_def sgn_if)

lemma smod_nonneg [c_simps]: "0 \<le> (a::int) \<Longrightarrow> 0 < b \<Longrightarrow> a smod b = a mod b"
  by (auto simp: signed_modulo_int_def sgn_if)

subsection \<open>Byte strings\<close>

definition rd :: "c_str \<Rightarrow> nat \<Rightarrow> int" where
  "rd s i = (if i < length s then s ! i else 0)"

definition cs :: "string \<Rightarrow> c_str" where
  "cs s = map of_char s"

definition nonul :: "c_str \<Rightarrow> bool" where
  "nonul s \<longleftrightarrow> 0 \<notin> set s"

lemma rd_nonzero_less [dest]: "rd s i \<noteq> 0 \<Longrightarrow> i < length s"
  by (auto simp: rd_def split: if_splits)

lemma rd_progress: "rd s i \<noteq> 0 \<Longrightarrow> length s - Suc i < length s - i"
  by (auto dest!: rd_nonzero_less)

lemma rd_append_left [simp]: "i < length a \<Longrightarrow> rd (a @ b) i = a ! i"
  by (simp add: rd_def nth_append)

lemma rd_append_nul [simp]: "rd (a @ 0 # b) (length a) = 0"
  by (simp add: rd_def nth_append)

lemma rd_end [simp]: "length s \<le> i \<Longrightarrow> rd s i = 0"
  by (simp add: rd_def)

lemma rd_nonul: "nonul s \<Longrightarrow> i < length s \<Longrightarrow> rd s i \<noteq> 0"
  by (metis nonul_def nth_mem rd_def)

lemma rd_off [simp]: "rd (p @ xs) (length p + k) = rd xs k" "rd (p @ xs) (length p) = rd xs 0"
  "rd (p @ xs) (Suc (length p)) = rd xs 1" "rd (p @ xs) (Suc (Suc (length p))) = rd xs 2"
  "rd (p @ xs) (Suc (length p + k)) = rd xs (Suc k)"
  by (auto simp: rd_def nth_append)

lemma rd_Cons [simp]: "rd (x # xs) 0 = x" "rd (x # xs) (Suc k) = rd xs k" "rd (x # xs) (numeral v) = rd xs (pred_numeral v)"
  by (auto simp: rd_def numeral_eq_Suc)

text \<open>C's \<open>strlen\<close> scan \<open>while (s[i] != 0) i = i + 1\<close> from index \<open>i\<close>.\<close>

function strlen_from :: "c_str \<Rightarrow> nat \<Rightarrow> nat" where
  "strlen_from s i = (if rd s i \<noteq> 0 then strlen_from s (i + 1) else i)"
  by pat_completeness auto
termination
  by (relation "measure (\<lambda>(s, i). length s - i)") (auto dest: rd_nonzero_less)

declare strlen_from.simps [simp del]

lemma strlen_from_eq:
  assumes "nonul a" and "i \<le> length a"
  shows "strlen_from (a @ 0 # b) i = length a"
  using assms(2)
proof (induction "length a - i" arbitrary: i)
  case 0
  then have "i = length a" by simp
  then show ?case by (simp add: strlen_from.simps [of _ "length a"])
next
  case (Suc k)
  then have lt: "i < length a" by simp
  then have nz: "rd (a @ 0 # b) i \<noteq> 0"
    using assms(1) by (metis nonul_def nth_mem rd_append_left)
  have "strlen_from (a @ 0 # b) (i + 1) = length a"
    using Suc lt by simp
  with nz show ?case by (simp add: strlen_from.simps [of _ i])
qed

subsection \<open>Positional digits, least significant first\<close>

fun dval :: "nat \<Rightarrow> nat list \<Rightarrow> nat" where
  "dval b [] = 0"
| "dval b (d # ds) = d + b * dval b ds"

lemma dval_append: "dval b (xs @ ys) = dval b xs + b ^ length xs * dval b ys"
  by (induction xs) (auto simp: algebra_simps)

lemma dval_replicate_0 [simp]: "dval b (replicate n 0) = 0"
  by (induction n) auto

lemma dval_less: "\<forall>d \<in> set ds. d < b \<Longrightarrow> dval b ds < b ^ length ds"
proof (induction ds)
  case Nil
  then show ?case by simp
next
  case (Cons d ds)
  then have IH: "dval b ds + 1 \<le> b ^ length ds" and d: "d < b" by auto
  from mult_le_mono2 [OF IH, of b] have "b * dval b ds + b \<le> b * b ^ length ds"
    by (simp add: algebra_simps)
  with d show ?case by simp
qed

text \<open>Decimal text, most significant digit first: the value of a byte list of digits.\<close>

definition dec_val :: "c_str \<Rightarrow> int" where
  "dec_val ds = foldl (\<lambda>v c. v * 10 + (c - 48)) 0 ds"

definition is_dec :: "int \<Rightarrow> bool" where
  "is_dec c \<longleftrightarrow> 48 \<le> c \<and> c \<le> 57"

function dec_text :: "nat \<Rightarrow> c_str" where
  "dec_text n = (if n < 10 then [48 + int n] else dec_text (n div 10) @ [48 + int (n mod 10)])"
  by pat_completeness auto
termination
  by (relation "measure id") auto

declare dec_text.simps [simp del]

definition int_text :: "int \<Rightarrow> c_str" where
  "int_text x = (if x < 0 then 45 # dec_text (nat (- x)) else dec_text (nat x))"

lemma dec_text_digits: "c \<in> set (dec_text n) \<Longrightarrow> is_dec c"
proof (induction n rule: dec_text.induct)
  case (1 n)
  then show ?case
    by (cases "n < 10") (auto simp: dec_text.simps [of n] is_dec_def)
qed

lemma dec_text_nonempty [simp]: "dec_text n \<noteq> []"
  by (subst dec_text.simps) simp

lemma dec_val_snoc: "dec_val (ds @ [c]) = dec_val ds * 10 + (c - 48)"
  by (simp add: dec_val_def)

lemma dec_val_dec_text: "dec_val (dec_text n) = int n"
proof (induction n rule: dec_text.induct)
  case (1 n)
  then show ?case
  proof (cases "n < 10")
    case True
    then show ?thesis by (simp add: dec_text.simps [of n] dec_val_def)
  next
    case False
    have "int (n div 10) * 10 + int (n mod 10) = int n" by presburger
    with False 1 show ?thesis by (simp add: dec_text.simps [of n] dec_val_snoc)
  qed
qed

end
