(* ===== verification/Ieee754.thy ===== *)
theory Ieee754
  imports CPrelude
begin

section \<open>IEEE 754 binary64 as the C sources use it\<close>

text \<open>
  A \<open>double\<close> is its 64-bit pattern. The exact result of an operation on finite
  doubles is a fraction of integers times a power of two, and \<open>d_round\<close> rounds it to the
  nearest double, ties to even. The operations follow
  the standard (and AArch64, the target of the compiler) on zeros, infinities and NaN;
  the payload of a NaN result is the default NaN. \<open>double\<close> to \<open>long\<close> is \<open>FCVTZS\<close>: it
  truncates and saturates.
\<close>

unbundle bit_operations_syntax

type_synonym double = "64 word"

subsection \<open>Fields and classification\<close>

definition d_sign :: "double \<Rightarrow> bool" where
  "d_sign x = bit x 63"

definition d_exp :: "double \<Rightarrow> nat" where
  "d_exp x = unat (drop_bit 52 x AND 0x7FF)"

definition d_man :: "double \<Rightarrow> nat" where
  "d_man x = unat (x AND 0x000FFFFFFFFFFFFF)"

definition d_isnan :: "double \<Rightarrow> bool" where
  "d_isnan x \<longleftrightarrow> d_exp x = 2047 \<and> d_man x \<noteq> 0"

definition d_isinf :: "double \<Rightarrow> bool" where
  "d_isinf x \<longleftrightarrow> d_exp x = 2047 \<and> d_man x = 0"

definition d_finite :: "double \<Rightarrow> bool" where
  "d_finite x \<longleftrightarrow> d_exp x \<noteq> 2047"

text \<open>A finite double is \<open>\<plusminus> d_m x * 2 ^ d_e x\<close>.\<close>

definition d_m :: "double \<Rightarrow> int" where
  "d_m x = (if d_exp x = 0 then int (d_man x) else int (d_man x) + 2 ^ 52)"

definition d_e :: "double \<Rightarrow> int" where
  "d_e x = (if d_exp x = 0 then - 1074 else int (d_exp x) - 1075)"

definition d_sm :: "double \<Rightarrow> int" where
  "d_sm x = (if d_sign x then - d_m x else d_m x)"

definition d_val :: "double \<Rightarrow> real" where
  "d_val x = of_int (d_sm x) * 2 powi d_e x"

subsection \<open>Rounding \<open>(n / d) * 2 ^ e\<close> to the nearest double\<close>

definition d_pack :: "bool \<Rightarrow> int \<Rightarrow> double" where
  "d_pack s bits = of_int bits + (if s then 0x8000000000000000 else 0)"

definition d_inf :: "bool \<Rightarrow> double" where
  "d_inf s = d_pack s (2047 * 2 ^ 52)"

definition d_qnan :: double where
  "d_qnan = 0x7FF8000000000000"

definition d_scale :: "int \<Rightarrow> int \<Rightarrow> int \<Rightarrow> int \<times> int" where
  "d_scale e n d = (if 0 \<le> e then (n, d * 2 ^ nat e) else (n * 2 ^ nat (- e), d))"

function d_blen :: "int \<Rightarrow> int" where
  "d_blen n = (if n \<le> 0 then 0 else d_blen (n div 2) + 1)"
  by pat_completeness auto
termination
  by (relation "measure nat") auto

declare d_blen.simps [simp del]

definition d_ilog :: "int \<Rightarrow> int \<Rightarrow> int" where
  "d_ilog n d =
     (let k = d_blen n - d_blen d; (N, D) = d_scale k n d
      in if D \<le> N then k else k - 1)"

definition d_rne :: "int \<Rightarrow> int \<Rightarrow> int" where
  "d_rne N D =
     (let q = N div D; r = N mod D
      in if D < 2 * r \<or> (D = 2 * r \<and> odd q) then q + 1 else q)"

definition d_round :: "bool \<Rightarrow> int \<Rightarrow> int \<Rightarrow> int \<Rightarrow> double" where
  "d_round s n d e =
     (if n = 0 then d_pack s 0
      else let E = max (d_ilog n d + e - 52) (- 1074); (N, D) = d_scale (E - e) n d;
               bits = (E + 1074) * 2 ^ 52 + d_rne N D
           in if 2047 * 2 ^ 52 \<le> bits then d_inf s else d_pack s bits)"

subsection \<open>Operations\<close>

definition d_neg :: "double \<Rightarrow> double" where
  "d_neg x = x XOR 0x8000000000000000"

definition d_add :: "double \<Rightarrow> double \<Rightarrow> double" where
  "d_add x y =
     (if d_isnan x \<or> d_isnan y then d_qnan
      else if d_isinf x then (if d_isinf y \<and> d_sign x \<noteq> d_sign y then d_qnan else x)
      else if d_isinf y then y
      else let e = min (d_e x) (d_e y);
               t = d_sm x * 2 ^ nat (d_e x - e) + d_sm y * 2 ^ nat (d_e y - e)
           in if t = 0 then d_pack (d_sign x \<and> d_sign y) 0
              else d_round (t < 0) \<bar>t\<bar> 1 e)"

definition d_sub :: "double \<Rightarrow> double \<Rightarrow> double" where
  "d_sub x y = d_add x (d_neg y)"

definition d_mul :: "double \<Rightarrow> double \<Rightarrow> double" where
  "d_mul x y =
     (let s = (d_sign x \<noteq> d_sign y)
      in if d_isnan x \<or> d_isnan y then d_qnan
         else if d_isinf x \<or> d_isinf y
              then (if (d_m x = 0 \<and> \<not> d_isinf x) \<or> (d_m y = 0 \<and> \<not> d_isinf y)
                    then d_qnan else d_inf s)
         else d_round s (d_m x * d_m y) 1 (d_e x + d_e y))"

definition d_div :: "double \<Rightarrow> double \<Rightarrow> double" where
  "d_div x y =
     (let s = (d_sign x \<noteq> d_sign y)
      in if d_isnan x \<or> d_isnan y then d_qnan
         else if d_isinf x then (if d_isinf y then d_qnan else d_inf s)
         else if d_isinf y then d_pack s 0
         else if d_m y = 0 then (if d_m x = 0 then d_qnan else d_inf s)
         else d_round s (d_m x) (d_m y) (d_e x - d_e y))"

definition d_of_long :: "int \<Rightarrow> double" where
  "d_of_long v = d_round (v < 0) \<bar>v\<bar> 1 0"

definition d_trunc :: "double \<Rightarrow> int" where
  "d_trunc x = (if 0 \<le> d_e x then d_m x * 2 ^ nat (d_e x) else d_m x div 2 ^ nat (- d_e x))"

definition d_to_long :: "double \<Rightarrow> int" where
  "d_to_long x =
     (if d_isnan x then 0
      else if d_isinf x \<or> 2 ^ 63 \<le> d_trunc x
           then (if d_sign x then - 9223372036854775808 else 9223372036854775807)
      else (if d_sign x then - d_trunc x else d_trunc x))"

definition d_ge_zero :: "double \<Rightarrow> bool" where
  "d_ge_zero x \<longleftrightarrow> \<not> d_isnan x \<and> (\<not> d_sign x \<or> (d_exp x = 0 \<and> d_man x = 0))"

text \<open>Widening of a \<open>float\<close> (its 32-bit pattern) to \<open>double\<close>, always exact.\<close>

definition d_of_float :: "32 word \<Rightarrow> double" where
  "d_of_float f =
     (let s = bit f 31; e = int (unat (drop_bit 23 f AND 0xFF)); m = int (unat (f AND 0x7FFFFF))
      in if e = 255 then (if m = 0 then d_inf s else d_pack s (2047 * 2 ^ 52 + m * 2 ^ 29))
         else if e = 0 then d_round s m 1 (- 149)
         else d_round s (m + 2 ^ 23) 1 (e - 150))"

subsection \<open>Exactness\<close>

lemma d_blen_bounds:
  "0 < n \<Longrightarrow> 1 \<le> d_blen n \<and> 2 ^ nat (d_blen n - 1) \<le> n \<and> n < 2 ^ nat (d_blen n)"
proof (induction n rule: d_blen.induct)
  case (1 n)
  show ?case
  proof (cases "n div 2 = 0")
    case True
    with "1.prems" have "n = 1" by presburger
    then show ?thesis by (simp add: d_blen.simps)
  next
    case False
    define k where "k = d_blen (n div 2)"
    have pos: "0 < n div 2" using False "1.prems" by linarith
    then have IH: "1 \<le> k" "2 ^ nat (k - 1) \<le> n div 2" "n div 2 < 2 ^ nat k"
      using "1.IH" "1.prems" unfolding k_def by auto
    have b: "d_blen n = k + 1" using "1.prems" by (simp add: d_blen.simps [of n] k_def)
    have p: "(2::int) ^ nat k = 2 * 2 ^ nat (k - 1)" and p': "(2::int) ^ nat (k + 1) = 2 * 2 ^ nat k"
      using IH(1) by (simp_all add: nat_diff_distrib nat_add_distrib flip: power_Suc)
    have "2 * (n div 2) \<le> n" "n \<le> 2 * (n div 2) + 1" by linarith+
    then show ?thesis using b IH p p' by simp
  qed
qed

lemma d_scale_quot:
  assumes "0 < n" "0 < d" "d_scale e n d = (N, D)"
  shows "0 < N" "0 < D" "real_of_int N / real_of_int D = real_of_int n / real_of_int d * 2 powi (- e)"
proof -
  show "0 < N" and "0 < D" using assms by (auto simp: d_scale_def split: if_splits)
  show "real_of_int N / real_of_int D = real_of_int n / real_of_int d * 2 powi (- e)"
    using assms by (auto simp: d_scale_def power_int_def field_simps split: if_splits)
qed

lemma powi_nat: "0 \<le> k \<Longrightarrow> real_of_int (2 ^ nat k) = 2 powi k"
  by (simp add: power_int_def)

lemma powi_mono: "a \<le> b \<Longrightarrow> (2::real) powi a \<le> 2 powi b"
  by (simp add: power_int_increasing)

lemma d_ilog_bounds:
  assumes n: "0 < n" and d: "0 < d"
  shows "2 powi (d_ilog n d) \<le> real_of_int n / real_of_int d"
    and "real_of_int n / real_of_int d < 2 powi (d_ilog n d + 1)"
proof -
  define a b k where "a = d_blen n" and "b = d_blen d" and "k = a - b"
  obtain N D where ND: "d_scale k n d = (N, D)" by fastforce
  note sc = d_scale_quot [OF n d ND]
  let ?q = "real_of_int n / real_of_int d"
  have nb: "1 \<le> a" "2 powi (a - 1) \<le> real_of_int n" "real_of_int n < 2 powi a"
    using d_blen_bounds [OF n] unfolding a_def
    by (smt (verit) of_int_le_iff of_int_less_iff powi_nat)+
  have db: "1 \<le> b" "2 powi (b - 1) \<le> real_of_int d" "real_of_int d < 2 powi b"
    using d_blen_bounds [OF d] unfolding b_def
    by (smt (verit) of_int_le_iff of_int_less_iff powi_nat)+
  have p1: "(2::real) powi (k - 1) * 2 powi b = 2 powi (a - 1)"
    by (simp add: k_def flip: power_int_add)
  have p2: "(2::real) powi (k + 1) * 2 powi (b - 1) = 2 powi a"
    by (simp add: k_def flip: power_int_add)
  have lo: "2 powi (k - 1) \<le> ?q"
  proof -
    have "2 powi (k - 1) * real_of_int d \<le> 2 powi (k - 1) * 2 powi b"
      using db(3) by (intro mult_left_mono) auto
    with p1 nb(2) show ?thesis using d by (simp add: field_simps)
  qed
  have hi: "?q < 2 powi (k + 1)"
  proof -
    have "2 powi (k + 1) * 2 powi (b - 1) \<le> 2 powi (k + 1) * real_of_int d"
      using db(2) by (intro mult_left_mono) auto
    with p2 nb(3) show ?thesis using d by (simp add: field_simps)
  qed
  have cmp: "D \<le> N \<longleftrightarrow> 2 powi k \<le> ?q"
  proof -
    have "D \<le> N \<longleftrightarrow> 1 \<le> real_of_int N / real_of_int D" using sc(2) by simp
    also have "\<dots> \<longleftrightarrow> 1 \<le> ?q * 2 powi (- k)" by (simp only: sc(3))
    also have "\<dots> \<longleftrightarrow> 2 powi k \<le> ?q"
      using d by (simp add: power_int_minus field_simps)
    finally show ?thesis .
  qed
  have il: "d_ilog n d = (if D \<le> N then k else k - 1)"
    by (simp add: d_ilog_def Let_def a_def [symmetric] b_def [symmetric] k_def [symmetric] ND)
  show "2 powi (d_ilog n d) \<le> ?q" using il cmp lo by auto
  show "?q < 2 powi (d_ilog n d + 1)" using il cmp hi by auto
qed

lemma and_mask_52: "(x :: 64 word) AND 0x000FFFFFFFFFFFFF = take_bit 52 x"
  by (simp add: take_bit_eq_mask mask_eq_exp_minus_1)

lemma and_mask_11: "(x :: 64 word) AND 0x7FF = take_bit 11 x"
  by (simp add: take_bit_eq_mask mask_eq_exp_minus_1)

lemma uint_exp_field: "uint (take_bit 11 (drop_bit 52 (x :: 64 word))) = uint x div 2 ^ 52 mod 2 ^ 11"
proof -
  have "take_bit 64 (uint x) = uint x" by (rule bintr_uint) simp
  then show ?thesis
    by (simp only: unsigned_take_bit_eq unsigned_drop_bit_eq) (simp add: take_bit_eq_mod drop_bit_eq_div)
qed

lemma unat_d_pack:
  assumes "0 \<le> bits" "bits < 2 ^ 63"
  shows "uint (d_pack s bits) = bits + (if s then 2 ^ 63 else 0)"
  using assms by (auto simp: d_pack_def uint_word_ariths uint_word_of_int of_int_eq_iff)

lemma d_pack_fields:
  assumes "0 \<le> bits" "bits < 2 ^ 63"
  shows "d_sign (d_pack s bits) = s"
    and "int (d_exp (d_pack s bits)) = bits div 2 ^ 52"
    and "int (d_man (d_pack s bits)) = bits mod 2 ^ 52"
proof -
  let ?x = "d_pack s bits"
  note u = unat_d_pack [OF assms, of s]
  have "bit ?x 63 \<longleftrightarrow> bit (uint ?x) 63"
    by (simp add: bit_uint_iff)
  also have "\<dots> \<longleftrightarrow> odd (uint ?x div 2 ^ 63)"
    by (rule bit_iff_odd)
  also have "\<dots> \<longleftrightarrow> s" using assms by (auto simp: u div_add1_eq)
  finally show "d_sign ?x = s" by (simp add: d_sign_def)
  have "int (d_exp ?x) = uint ?x div 2 ^ 52 mod 2 ^ 11"
    by (simp add: d_exp_def and_mask_11 uint_exp_field del: take_bit_drop_bit)
  also have "\<dots> = bits div 2 ^ 52"
  proof -
    have "(bits + 2048 * 2 ^ 52) div 2 ^ 52 = 2048 + bits div 2 ^ 52"
      by (rule div_mult_self1) simp
    moreover have "0 \<le> bits div 2 ^ 52" "bits div 2 ^ 52 < 2048"
      using assms by (simp_all add: pos_imp_zdiv_nonneg_iff)
    ultimately show ?thesis by (simp add: u)
  qed
  finally show "int (d_exp ?x) = bits div 2 ^ 52" .
  have "int (d_man ?x) = uint ?x mod 2 ^ 52"
    by (simp add: d_man_def and_mask_52 take_bit_eq_mod uint_mod_distrib)
  also have "\<dots> = bits mod 2 ^ 52"
    using mod_mult_self1 [of bits 2048 "2 ^ 52"] by (simp add: u)
  finally show "int (d_man ?x) = bits mod 2 ^ 52" .
qed

lemma d_pack_val:
  assumes E: "- 1074 \<le> E" and q: "0 \<le> q" "q < 2 ^ 53" and norm: "E = - 1074 \<or> 2 ^ 52 \<le> q"
    and fin: "(E + 1074) * 2 ^ 52 + q < 2047 * 2 ^ 52"
  shows "d_finite (d_pack s ((E + 1074) * 2 ^ 52 + q))"
    and "d_sign (d_pack s ((E + 1074) * 2 ^ 52 + q)) = s"
    and "d_val (d_pack s ((E + 1074) * 2 ^ 52 + q)) = (if s then - 1 else 1) * of_int q * 2 powi E"
proof -
  let ?b = "(E + 1074) * 2 ^ 52 + q" and ?x = "d_pack s ((E + 1074) * 2 ^ 52 + q)"
  have b: "0 \<le> ?b" "?b < 2 ^ 63" using E q fin by auto
  note f = d_pack_fields [OF b, of s]
  show "d_sign ?x = s" by (rule f)
  have ex: "int (d_exp ?x) = E + 1074 + q div 2 ^ 52"
    unfolding f(2) by simp
  have mn: "int (d_man ?x) = q mod 2 ^ 52" unfolding f(3) by (rule mod_mult_self3)
  have "?b div 2 ^ 52 < 2047" using fin by simp
  then have "int (d_exp ?x) \<noteq> 2047" using f(2) by linarith
  then show "d_finite ?x" unfolding d_finite_def by simp
  have sm: "d_m ?x = q \<and> d_e ?x = E"
  proof (cases "q < 2 ^ 52")
    case True
    then have "E = - 1074" using norm by auto
    moreover have "q div 2 ^ 52 = 0" "q mod 2 ^ 52 = q" using True q by auto
    ultimately have "d_exp ?x = 0" "int (d_man ?x) = q" using ex mn by auto
    then show ?thesis using \<open>E = - 1074\<close> by (simp add: d_m_def d_e_def)
  next
    case False
    then have dm: "q div 2 ^ 52 = 1" "q mod 2 ^ 52 = q - 2 ^ 52" using q(2) div_pos_geq [of "2 ^ 52" q] mod_pos_geq [of "2 ^ 52" q]
        div_pos_pos_trivial [of "q - 2 ^ 52" "2 ^ 52"] mod_pos_pos_trivial [of "q - 2 ^ 52" "2 ^ 52"]
      by simp_all
    then have e': "int (d_exp ?x) = E + 1075" using ex by simp
    moreover have "d_exp ?x \<noteq> 0" using e' E by linarith
    ultimately show ?thesis using mn dm by (simp add: d_m_def d_e_def)
  qed
  then show "d_val ?x = (if s then - 1 else 1) * of_int q * 2 powi E"
    using f(1) unfolding d_val_def d_sm_def by auto
qed

text \<open>Rounding is exact on every number that has a double.\<close>

lemma d_round_exact:
  assumes n: "0 < n" and d: "0 < d"
    and eq: "real_of_int n / real_of_int d * 2 powi e = of_int M * 2 powi F"
    and M: "0 < M" "M < 2 ^ 53" and F: "- 1074 \<le> F" "F \<le> 971"
  shows "d_finite (d_round s n d e)" and "d_sign (d_round s n d e) = s"
    and "d_val (d_round s n d e) = (if s then - 1 else 1) * (of_int M * 2 powi F)"
proof -
  define k E where "k = d_ilog n d + e" and "E = max (k - 52) (- 1074)"
  obtain N D where ND: "d_scale (E - e) n d = (N, D)" by fastforce
  note sc = d_scale_quot [OF n d ND]
  let ?v = "of_int M * 2 powi F :: real"
  have q: "real_of_int n / real_of_int d = ?v * 2 powi (- e)"
    using eq by (simp add: power_int_minus field_simps)
  have kb: "2 powi k \<le> ?v" "?v < 2 powi (k + 1)"
    using mult_right_mono [OF d_ilog_bounds(1) [OF n d], of "2 powi e"]
      mult_strict_right_mono [OF d_ilog_bounds(2) [OF n d], of "2 powi e"]
    unfolding k_def eq by (simp_all add: add_ac flip: power_int_add)
  have "?v < 2 powi (53 + F)"
    using M(2) by (simp add: power_int_add)
  with kb(1) have "(2::real) powi k < 2 powi (53 + F)" by linarith
  then have "k < 53 + F" by (metis linorder_not_less powi_mono)
  then have EF: "E \<le> F" using F by (simp add: E_def)
  define Q where "Q = M * 2 ^ nat (F - E)"
  have "real_of_int N / real_of_int D = ?v * 2 powi (- E)"
    unfolding sc(3) q by (simp flip: power_int_add)
  also have "\<dots> = of_int Q"
    using powi_nat [of "F - E"] EF by (simp add: Q_def mult.assoc flip: power_int_add)
  finally have "real_of_int N = of_int (Q * D)" using sc(2) by (simp add: field_simps)
  then have NQ: "N = Q * D" by linarith
  then have rne: "d_rne N D = Q" using sc(2) by (simp add: d_rne_def Let_def)
  have Qv: "of_int Q * 2 powi E = ?v"
    using powi_nat [of "F - E"] EF by (simp add: Q_def mult.assoc flip: power_int_add)
  have Q0: "0 \<le> Q" using M by (simp add: Q_def)
  have Qhi: "Q < 2 ^ 53"
  proof -
    have "of_int Q * 2 powi E < (2::real) powi (k + 1)" using Qv kb(2) by simp
    also have "\<dots> \<le> 2 powi (53 + E)" by (rule powi_mono) (simp add: E_def)
    finally have "of_int Q < (2::real) ^ 53" by (simp add: power_int_add)
    then show ?thesis by simp
  qed
  have Qlo: "E = - 1074 \<or> 2 ^ 52 \<le> Q"
  proof (cases "E = - 1074")
    case False
    then have "k = 52 + E" by (simp add: E_def max_def split: if_splits)
    then have "(2::real) powi (52 + E) \<le> of_int Q * 2 powi E" using Qv kb(1) by simp
    then have "(2::real) ^ 52 \<le> of_int Q" by (simp add: power_int_add)
    then show ?thesis by simp
  qed simp
  have E1: "- 1074 \<le> E" by (simp add: E_def)
  have fin: "(E + 1074) * 2 ^ 52 + Q < 2047 * 2 ^ 52"
  proof -
    have "E \<le> 971" using EF F by simp
    then have "(E + 1074) * 2 ^ 52 \<le> 2045 * 2 ^ 52" by simp
    with Qhi show ?thesis by simp
  qed
  have r: "d_round s n d e = d_pack s ((E + 1074) * 2 ^ 52 + Q)"
    using n fin by (simp add: d_round_def Let_def k_def [symmetric] E_def [symmetric] ND rne)
  note v = d_pack_val [OF E1 Q0 Qhi Qlo fin, of s]
  show "d_finite (d_round s n d e)" and "d_sign (d_round s n d e) = s"
    unfolding r by (fact v)+
  show "d_val (d_round s n d e) = (if s then - 1 else 1) * (of_int M * 2 powi F)"
    unfolding r v(3) by (simp add: Qv mult.assoc)
qed

corollary d_of_long_exact:
  assumes "\<bar>v\<bar> < 2 ^ 53"
  shows "d_finite (d_of_long v)" and "d_val (d_of_long v) = of_int v"
proof -
  have "d_finite (d_of_long v) \<and> d_val (d_of_long v) = of_int v"
  proof (cases "v = 0")
    case True
    then show ?thesis
      using d_pack_val [of "- 1074" 0 False] by (simp add: d_of_long_def d_round_def)
  next
    case False
    then show ?thesis
      using d_round_exact [of "\<bar>v\<bar>" 1 0 "\<bar>v\<bar>" 0 "v < 0"] assms by (auto simp: d_of_long_def)
  qed
  then show "d_finite (d_of_long v)" and "d_val (d_of_long v) = of_int v" by auto
qed

lemma d_finite_not: "d_finite x \<Longrightarrow> \<not> d_isnan x \<and> \<not> d_isinf x"
  by (auto simp: d_finite_def d_isnan_def d_isinf_def)

lemma d_add_exact:
  assumes x: "d_finite x" and y: "d_finite y"
    and eq: "d_val x + d_val y = of_int M * 2 powi F"
    and M: "M \<noteq> 0" "\<bar>M\<bar> < 2 ^ 53" and F: "- 1074 \<le> F" "F \<le> 971"
  shows "d_finite (d_add x y)" and "d_sign (d_add x y) = (M < 0)"
    and "d_val (d_add x y) = d_val x + d_val y"
proof -
  define e t where "e = min (d_e x) (d_e y)"
    and "t = d_sm x * 2 ^ nat (d_e x - e) + d_sm y * 2 ^ nat (d_e y - e)"
  have "of_int t * 2 powi e = d_val x + d_val y"
    using powi_nat [of "d_e x - e"] powi_nat [of "d_e y - e"]
    by (simp add: t_def d_val_def e_def distrib_right mult.assoc flip: power_int_add)
  with eq have tM: "real_of_int t * 2 powi e = of_int M * 2 powi F" by simp
  then have t0: "t \<noteq> 0" using M by auto
  have sg: "sgn t = sgn M"
  proof -
    have "sgn (real_of_int t * 2 powi e) = sgn (real_of_int M * 2 powi F)" by (simp only: tM)
    then have "sgn (real_of_int t) = sgn (real_of_int M)" by (simp add: sgn_mult)
    then show ?thesis by (simp add: sgn_if split: if_splits)
  qed
  have abs: "real_of_int \<bar>t\<bar> / real_of_int 1 * 2 powi e = of_int \<bar>M\<bar> * 2 powi F"
    using arg_cong [OF tM, of abs] by (simp add: abs_mult)
  have add: "d_add x y = d_round (t < 0) \<bar>t\<bar> 1 e"
    using x y t0 by (simp add: d_add_def d_finite_not Let_def e_def [symmetric] t_def [symmetric])
  note r = d_round_exact [OF _ _ abs, of "t < 0"]
  have neg: "t < 0 \<longleftrightarrow> M < 0" using sg by (auto simp: sgn_if split: if_splits)
  show "d_finite (d_add x y)" and "d_sign (d_add x y) = (M < 0)"
    unfolding add using r t0 M F neg by auto
  have "d_val (d_add x y) = (if M < 0 then - 1 else 1) * (of_int \<bar>M\<bar> * 2 powi F)"
    unfolding add using r(3) t0 M F neg by auto
  then show "d_val (d_add x y) = d_val x + d_val y" using eq by auto
qed

lemma d_trunc_floor: "d_finite x \<Longrightarrow> d_trunc x = \<lfloor>\<bar>d_val x\<bar>\<rfloor>"
proof -
  assume "d_finite x"
  have m: "0 \<le> d_m x" by (simp add: d_m_def)
  have v: "\<bar>d_val x\<bar> = of_int (d_m x) * 2 powi d_e x"
    using m by (simp add: d_val_def d_sm_def abs_mult)
  show ?thesis
  proof (cases "0 \<le> d_e x")
    case True
    then have "\<bar>d_val x\<bar> = of_int (d_m x * 2 ^ nat (d_e x))"
      using v powi_nat [of "d_e x"] by simp
    then show ?thesis using True by (simp only: d_trunc_def floor_of_int if_True)
  next
    case False
    then have "\<bar>d_val x\<bar> = of_int (d_m x) / of_int (2 ^ nat (- d_e x))"
      using v powi_nat [of "- d_e x"] by (simp add: power_int_minus divide_inverse)
    then show ?thesis using False by (simp only: d_trunc_def floor_divide_of_int_eq if_False)
  qed
qed

lemma and_xor_word: "(a XOR b) AND m = (a AND m) XOR (b AND (m :: 'a :: len word))"
  by (rule bit_word_eqI) (auto simp: bit_simps)

lemma d_neg_fields: "d_sign (d_neg x) = (\<not> d_sign x)" "d_exp (d_neg x) = d_exp x" "d_man (d_neg x) = d_man x"
proof -
  have "bit (0x8000000000000000 :: double) 63"
    by (simp add: bit_iff_and_drop_bit_eq_1)
  then show "d_sign (d_neg x) = (\<not> d_sign x)" by (simp add: d_neg_def d_sign_def bit_xor_iff)
  show "d_exp (d_neg x) = d_exp x" "d_man (d_neg x) = d_man x"
    by (simp_all add: d_neg_def d_exp_def d_man_def drop_bit_xor and_xor_word)
qed

lemma d_neg_val: "d_finite (d_neg x) = d_finite x" "d_val (d_neg x) = - d_val x"
  by (auto simp: d_finite_def d_val_def d_sm_def d_m_def d_e_def d_neg_fields algebra_simps)

lemma d_zero_val: "d_finite 0" "d_val 0 = 0"
  by (simp_all add: d_finite_def d_val_def d_sm_def d_m_def d_e_def d_exp_def d_man_def)

text \<open>Rules that evaluate the operations on closed patterns.\<close>

lemmas d_eval =
  d_of_long_def d_round_def d_ilog_def d_scale_def d_rne_def d_blen.simps d_pack_def
  d_add_def d_sub_def d_neg_def d_mul_def d_div_def d_isnan_def d_isinf_def d_exp_def
  d_man_def d_m_def d_e_def d_sm_def d_sign_def d_inf_def d_qnan_def d_to_long_def
  d_trunc_def d_ge_zero_def d_of_float_def bit_iff_and_drop_bit_eq_1 Let_def

end
