(* ===== verification/Mathbuiltins.thy ===== *)
theory Mathbuiltins
  imports Ieee754
begin

section \<open>\<open>libc/mathbuiltins.c\<close>: classification and rounding of doubles\<close>

text \<open>
  The compiler builtins and C99 helpers of \<open>libc/mathbuiltins.c\<close>. The union
  \<open>__fp_bits\<close> reads a double as its bit pattern, so \<open>b.u\<close> is the double itself here.
  A \<open>float\<close> argument is first widened (\<open>d = x\<close>). The C returns an \<open>int\<close>.
\<close>

unbundle bit_operations_syntax

definition builtin_signbit :: "double \<Rightarrow> int" where
  "builtin_signbit x = s32 (uint (drop_bit 63 x))"

definition builtin_signbitf :: "32 word \<Rightarrow> int" where
  "builtin_signbitf x = s32 (uint (drop_bit 63 (d_of_float x)))"

definition builtin_signbitl :: "double \<Rightarrow> int" where
  "builtin_signbitl x = builtin_signbit x"

definition isnand :: "double \<Rightarrow> int" where
  "isnand x =
     (let exp = drop_bit 52 x AND 0x7FF; mant = x AND 0x000FFFFFFFFFFFFF
      in if exp = 0x7FF \<and> mant \<noteq> 0 then 1 else 0)"

definition isnanf :: "32 word \<Rightarrow> int" where
  "isnanf x = isnand (d_of_float x)"

definition isnanl :: "double \<Rightarrow> int" where
  "isnanl x = isnand x"

definition isinfd :: "double \<Rightarrow> int" where
  "isinfd x =
     (let exp = drop_bit 52 x AND 0x7FF; mant = x AND 0x000FFFFFFFFFFFFF
      in if exp = 0x7FF \<and> mant = 0 then (if drop_bit 63 x \<noteq> 0 then - 1 else 1) else 0)"

definition isinff :: "32 word \<Rightarrow> int" where
  "isinff x = isinfd (d_of_float x)"

definition isinfl :: "double \<Rightarrow> int" where
  "isinfl x = isinfd x"

text \<open>\<open>0.5\<close> and \<open>x - 0.5\<close> on the patterns; \<open>(long)\<close> and \<open>(double)\<close> are the conversions.\<close>

definition d_half :: double where
  "d_half = 0x3FE0000000000000"

definition round_c :: "double \<Rightarrow> double" where
  "round_c x =
     (if isnand x \<noteq> 0 then x
      else if isinfd x \<noteq> 0 then x
      else if d_ge_zero x then (let i = d_to_long (d_add x d_half) in d_of_long i)
      else (let i = d_to_long (d_sub x d_half) in d_of_long i))"

subsection \<open>Classification\<close>

lemma d_exp_2047: "d_exp x = 2047 \<longleftrightarrow> drop_bit 52 x AND 0x7FF = 0x7FF"
proof -
  have "unat (0x7FF :: 64 word) = 2047" by simp
  then show ?thesis by (simp add: d_exp_def word_unat_eq_iff)
qed

lemma d_man_0: "d_man x = 0 \<longleftrightarrow> x AND 0x000FFFFFFFFFFFFF = 0"
  unfolding d_man_def by (simp add: unat_eq_0)

lemma uint_sign_shift: "uint (drop_bit 63 (x :: 64 word)) = of_bool (bit x 63)"
proof -
  have "uint (drop_bit 63 x) = uint x div 2 ^ 63"
    by (simp add: drop_bit_eq_div uint_div_distrib)
  moreover have "bit x 63 \<longleftrightarrow> odd (uint x div 2 ^ 63)"
    using bit_uint_iff [of x 63] bit_iff_odd [of "uint x" 63] by simp
  moreover have "0 \<le> uint x div 2 ^ 63" "uint x div 2 ^ 63 < 2"
    using uint_lt2p [of x] by (simp_all add: pos_imp_zdiv_nonneg_iff)
  moreover define q where "q = uint x div 2 ^ 63"
  ultimately have "uint (drop_bit 63 x) = q" "bit x 63 \<longleftrightarrow> odd q" "0 \<le> q" "q < 2"
    by simp_all
  moreover from this have "q = 0 \<or> q = 1" by linarith
  ultimately show ?thesis by auto
qed

lemma isnand_iff: "isnand x = (if d_isnan x then 1 else 0)"
  by (simp add: isnand_def d_isnan_def d_exp_2047 d_man_0 Let_def)

lemma isinfd_iff: "isinfd x = (if d_isinf x then (if d_sign x then - 1 else 1) else 0)"
proof -
  have "drop_bit 63 x = 0 \<longleftrightarrow> \<not> d_sign x"
    using uint_sign_shift [of x] by (auto simp: d_sign_def uint_0_iff of_bool_def split: if_splits)
  then show ?thesis by (simp add: isinfd_def d_isinf_def d_exp_2047 d_man_0 Let_def)
qed

lemma builtin_signbit_iff: "builtin_signbit x = of_bool (d_sign x)"
  by (simp add: builtin_signbit_def uint_sign_shift d_sign_def)

text \<open>Widening a float keeps its class and its sign.\<close>

definition f_isnan :: "32 word \<Rightarrow> bool" where
  "f_isnan f \<longleftrightarrow> drop_bit 23 f AND 0xFF = 0xFF \<and> f AND 0x7FFFFF \<noteq> 0"

definition f_isinf :: "32 word \<Rightarrow> bool" where
  "f_isinf f \<longleftrightarrow> drop_bit 23 f AND 0xFF = 0xFF \<and> f AND 0x7FFFFF = 0"

lemma d_of_float_class:
  "d_isnan (d_of_float f) = f_isnan f \<and> d_isinf (d_of_float f) = f_isinf f
     \<and> d_sign (d_of_float f) = bit f 31"
proof -
  define e m where "e = int (unat (drop_bit 23 f AND 0xFF))" and "m = int (unat (f AND 0x7FFFFF))"
  have "unat (drop_bit 23 f AND 0xFF) \<le> unat (0xFF :: 32 word)"
    and "unat (f AND 0x7FFFFF) \<le> unat (0x7FFFFF :: 32 word)"
    by (rule word_and_le1 [THEN word_le_nat_alt [THEN iffD1]])+
  then have "unat (drop_bit 23 f AND 0xFF) \<le> 255" "unat (f AND 0x7FFFFF) \<le> 8388607"
    by simp_all
  then have eb: "0 \<le> e" "e \<le> 255" and mb: "0 \<le> m" "m < 8388608"
    unfolding e_def m_def by linarith+
  have e255: "e = 255 \<longleftrightarrow> drop_bit 23 f AND 0xFF = 0xFF"
  proof -
    have "unat (0xFF :: 32 word) = 255" by simp
    moreover have "e = 255 \<longleftrightarrow> unat (drop_bit 23 f AND 0xFF) = 255" unfolding e_def by linarith
    ultimately show ?thesis by (simp add: word_unat_eq_iff)
  qed
  have m0: "m = 0 \<longleftrightarrow> f AND 0x7FFFFF = 0" by (simp add: m_def uint_0_iff)
  have unf: "d_of_float f =
     (if e = 255 then (if m = 0 then d_inf (bit f 31) else d_pack (bit f 31) (2047 * 2 ^ 52 + m * 2 ^ 29))
      else if e = 0 then d_round (bit f 31) m 1 (- 149)
      else d_round (bit f 31) (m + 2 ^ 23) 1 (e - 150))"
    by (simp add: d_of_float_def Let_def e_def m_def)
  show ?thesis
  proof (cases "e = 255")
    case True
    have bits: "0 \<le> 2047 * 2 ^ 52 + m * 2 ^ 29" "2047 * 2 ^ 52 + m * 2 ^ 29 < 2 ^ 63"
      using mb by simp_all
    note p = d_pack_fields [OF bits, of "bit f 31"]
    have x: "d_of_float f = d_pack (bit f 31) (2047 * 2 ^ 52 + m * 2 ^ 29)"
      using True by (auto simp: unf d_inf_def)
    have "(2047 * 2 ^ 52 + m * 2 ^ 29) div 2 ^ 52 = 2047" "(2047 * 2 ^ 52 + m * 2 ^ 29) mod 2 ^ 52 = m * 2 ^ 29"
      using mb mod_mult_self3 [of 2047 "2 ^ 52" "m * 2 ^ 29"]
        mod_pos_pos_trivial [of "m * 2 ^ 29" "2 ^ 52"] by (simp_all add: div_add1_eq)
    then have "d_exp (d_of_float f) = 2047" "d_man (d_of_float f) = 0 \<longleftrightarrow> m = 0" "d_sign (d_of_float f) = bit f 31"
      using p unfolding x by auto
    then show ?thesis using True e255 m0 by (simp add: d_isnan_def d_isinf_def f_isnan_def f_isinf_def)
  next
    case False
    have "d_finite (d_of_float f) \<and> d_sign (d_of_float f) = bit f 31"
    proof (cases "e = 0 \<and> m = 0")
      case True
      then show ?thesis
        using d_pack_val [of "- 1074" 0 "bit f 31"] by (simp add: unf d_round_def)
    next
      case nz: False
      define M F where "M = (if e = 0 then m else m + 2 ^ 23)" and "F = (if e = 0 then - 149 else e - 150)"
      have "d_of_float f = d_round (bit f 31) M 1 F"
        using False by (simp add: unf M_def F_def)
      moreover have "0 < M" "M < 2 ^ 53" "- 1074 \<le> F" "F \<le> 971"
        using nz mb eb by (auto simp: M_def F_def)
      ultimately show ?thesis using d_round_exact [of M 1 F M F "bit f 31"] by simp
    qed
    then show ?thesis using False e255 by (auto simp: f_isnan_def f_isinf_def dest: d_finite_not)
  qed
qed

subsection \<open>Rounding\<close>

lemma d_half_val: "d_finite d_half" "d_val d_half = 1 / 2"
  "d_finite (d_neg d_half)" "d_val (d_neg d_half) = - 1 / 2"
  by (simp_all add: d_half_def d_neg_def d_finite_def d_val_def d_sm_def d_m_def d_e_def d_sign_def
      d_exp_def d_man_def bit_iff_and_drop_bit_eq_1 power_int_def power_one_over)

lemma d_ge_zero_val: "d_finite x \<Longrightarrow> d_ge_zero x \<longleftrightarrow> 0 \<le> d_val x"
proof -
  assume x: "d_finite x"
  have "d_m x = 0 \<longleftrightarrow> d_exp x = 0 \<and> d_man x = 0" "0 \<le> d_m x"
    by (auto simp: d_m_def)
  moreover have "\<not> (2::real) powi d_e x \<le> 0" using zero_less_power_int [of "2::real"] by (simp add: not_le)
  ultimately show ?thesis using x
    by (auto simp: d_ge_zero_def d_val_def d_sm_def d_finite_not zero_le_mult_iff)
qed

lemma d_to_long_val:
  assumes x: "d_finite x" and b: "\<bar>d_val x\<bar> < 2 ^ 63"
  shows "d_to_long x = (if d_sign x then - \<lfloor>\<bar>d_val x\<bar>\<rfloor> else \<lfloor>\<bar>d_val x\<bar>\<rfloor>)"
proof -
  have "\<lfloor>\<bar>d_val x\<bar>\<rfloor> < 2 ^ 63" using b by (simp add: floor_less_iff)
  then show ?thesis
    using x by (simp add: d_to_long_def d_trunc_floor d_finite_not)
qed

text \<open>
  One branch of \<open>round\<close>: adding a half of the sign of \<open>x\<close> is exact when the sum has a
  double, and the truncation then gives the nearest integer, halves away from zero.
\<close>

lemma round_branch:
  assumes x: "d_finite x" and h: "d_finite h" and eq: "d_val x + d_val h = of_int M * 2 powi F"
    and M: "M \<noteq> 0" "\<bar>M\<bar> < 2 ^ 53" and F: "- 1074 \<le> F" "F \<le> 0"
  shows "d_val (d_of_long (d_to_long (d_add x h)))
           = (if M < 0 then - 1 else 1) * of_int \<lfloor>\<bar>d_val x + d_val h\<bar>\<rfloor>"
proof -
  have F': "F \<le> 971" using F by simp
  note a = d_add_exact [OF x h eq M F(1) F']
  have p: "(2::real) powi F \<le> 1"
    using F powi_mono [of F 0] by simp
  have "\<bar>d_val x + d_val h\<bar> = of_int \<bar>M\<bar> * 2 powi F"
    unfolding eq by (simp add: abs_mult)
  also have "\<dots> \<le> of_int \<bar>M\<bar> * 1"
    by (rule mult_left_mono [OF p]) simp
  finally have b: "\<bar>d_val x + d_val h\<bar> \<le> of_int \<bar>M\<bar>" by simp
  have M': "real_of_int \<bar>M\<bar> < 2 ^ 53" using M(2) by (metis of_int_less_numeral_power_cancel_iff)
  have "\<bar>d_val (d_add x h)\<bar> < 2 ^ 63" using b M' unfolding a(3) by simp
  then have l: "d_to_long (d_add x h) = (if M < 0 then - 1 else 1) * \<lfloor>\<bar>d_val x + d_val h\<bar>\<rfloor>"
    using d_to_long_val [OF a(1)] a(2,3) by simp
  define f where "f = \<lfloor>\<bar>d_val x + d_val h\<bar>\<rfloor>"
  have "0 \<le> f" "f \<le> \<bar>M\<bar>" unfolding f_def using b by (simp, simp add: floor_le_iff)
  moreover have "\<bar>d_to_long (d_add x h)\<bar> = \<bar>f\<bar>" using l unfolding f_def [symmetric] by simp
  ultimately have "\<bar>d_to_long (d_add x h)\<bar> < 2 ^ 53" using M(2) by simp
  then show ?thesis using l by (simp add: d_of_long_exact)
qed

lemma round_dyadic:
  assumes x: "d_finite x" and eq: "d_val x = of_int j / 2 ^ k" and k: "1 \<le> k" "k \<le> 52"
    and j: "\<bar>j\<bar> < 2 ^ 52"
  shows "d_val (round_c x) = sgn (d_val x) * of_int \<lfloor>\<bar>d_val x\<bar> + 1 / 2\<rfloor>"
proof -
  have h: "(2::real) ^ k = 2 * 2 ^ (k - 1)" using k by (cases k) auto
  have hj: "(2::int) ^ (k - 1) \<le> 2 ^ 51" using k by (intro power_increasing) auto
  have pw: "(2::real) powi (- int k) = 1 / 2 ^ k" by (simp add: power_int_minus divide_inverse)
  have nc: "isnand x = 0" "isinfd x = 0" using x by (simp_all add: isnand_iff isinfd_iff d_finite_not)
  show ?thesis
  proof (cases "0 \<le> d_val x")
    case True
    then have j0: "0 \<le> j" using eq by (simp add: pos_le_divide_eq)
    have s: "d_val x + d_val d_half = of_int (j + 2 ^ (k - 1)) * 2 powi (- int k)"
      using h by (simp add: eq d_half_val pw field_simps)
    have "0 < j + 2 ^ (k - 1)" using j0 by (simp add: add_nonneg_pos)
    then have "d_val (round_c x) = of_int \<lfloor>d_val x + 1 / 2\<rfloor>"
      using round_branch [OF x d_half_val(1) s] j0 j hj k True nc
      by (simp add: round_c_def d_ge_zero_val [OF x] d_half_val)
    then show ?thesis using True by (cases "d_val x = 0") auto
  next
    case False
    then have j0: "j < 0" using eq by (simp add: pos_le_divide_eq not_le)
    have s: "d_val x + d_val (d_neg d_half) = of_int (j - 2 ^ (k - 1)) * 2 powi (- int k)"
      using h by (simp add: eq d_half_val pw field_simps)
    have "j - 2 ^ (k - 1) < 0" using j0 by (simp add: add_neg_nonpos less_trans [of j 0])
    then have "d_val (round_c x) = - of_int \<lfloor>\<bar>d_val x - 1 / 2\<bar>\<rfloor>"
      using round_branch [OF x d_half_val(3) s] j0 j hj k False nc
      by (simp add: round_c_def d_ge_zero_val [OF x] d_half_val d_sub_def)
    moreover have "\<bar>d_val x - 1 / 2\<bar> = \<bar>d_val x\<bar> + 1 / 2" using False by simp
    ultimately show ?thesis using False by simp
  qed
qed

subsection \<open>Properties\<close>

text \<open>C32: the floating point classifiers are right on every bit pattern: \<open>isnan\<close> and \<open>isinf\<close>
  (double, long double and float variants) recognise exactly the NaNs and the infinities,
  \<open>isinf\<close> with the sign, and \<open>__builtin_signbit\<close> is the sign bit, also after the widening
  of a float.\<close>

theorem classification_correct:
  "isnand x = (if d_isnan x then 1 else 0) \<and> isnanl x = isnand x
   \<and> isinfd x = (if d_isinf x then (if d_sign x then - 1 else 1) else 0) \<and> isinfl x = isinfd x
   \<and> builtin_signbit x = of_bool (d_sign x) \<and> builtin_signbitl x = builtin_signbit x
   \<and> isnanf f = (if f_isnan f then 1 else 0)
   \<and> isinff f = (if f_isinf f then (if bit f 31 then - 1 else 1) else 0)
   \<and> builtin_signbitf f = of_bool (bit f 31)"
proof -
  have "builtin_signbitf f = builtin_signbit (d_of_float f)"
    by (simp add: builtin_signbitf_def builtin_signbit_def)
  then show ?thesis
    using d_of_float_class [of f]
    by (simp add: isnand_iff isinfd_iff builtin_signbit_iff isnanl_def isinfl_def builtin_signbitl_def
        isnanf_def isinff_def)
qed

text \<open>C33: \<open>round\<close> rounds to the nearest integer, halves away from zero, for every double that
  is a multiple of \<open>2 ^ -k\<close> (\<open>k \<le> 52\<close>) with a numerator below \<open>2 ^ 52\<close>, and returns NaN and
  the infinities unchanged.\<close>

theorem round_half_away:
  assumes "d_finite x" and "d_val x = of_int j / 2 ^ k" and "1 \<le> k" and "k \<le> 52" and "\<bar>j\<bar> < 2 ^ 52"
  shows "d_val (round_c x) = sgn (d_val x) * of_int \<lfloor>\<bar>d_val x\<bar> + 1 / 2\<rfloor>
    \<and> (\<not> d_finite y \<longrightarrow> round_c y = y)"
proof -
  have "\<not> d_finite y \<Longrightarrow> d_isnan y \<or> d_isinf y" by (auto simp: d_finite_def d_isnan_def d_isinf_def)
  then show ?thesis
    using round_dyadic [OF assms] by (auto simp: round_c_def isnand_iff isinfd_iff)
qed

theorem round_half_away_witness:
  "d_val (round_c 0xC004000000000000) = - 3 \<and> round_c 0x7FF8000000000000 = 0x7FF8000000000000"
proof -
  have v: "d_finite 0xC004000000000000" "d_val 0xC004000000000000 = of_int (- 5) / 2 ^ 1"
    by (simp_all add: d_finite_def d_val_def d_sm_def d_m_def d_e_def d_sign_def
        d_exp_def d_man_def bit_iff_and_drop_bit_eq_1 power_int_def power_one_over)
  have "\<not> d_finite 0x7FF8000000000000" by (simp add: d_finite_def d_exp_def)
  with round_half_away [OF v, of "0x7FF8000000000000"] v(2) show ?thesis by simp
qed


end
