(* ===== verification/Printf.thy ===== *)
theory Printf
  imports CPrelude
begin

section \<open>\<open>libc/printf.c\<close>: the printf family over picolibc's engine\<close>

text \<open>
  \<open>libc/printf.c\<close> holds the variadic wrappers; the formatting engine \<open>vfprintf\<close>, the
  string sink \<open>__file_str_put\<close> and the system call \<open>write\<close> are picolibc's and are
  parameters here. \<open>'w\<close> is the world \<open>write\<close> and \<open>vfprintf\<close> act on, \<open>'a\<close> the variadic
  arguments. For the string variants memory is a map from addresses to bytes, and the
  \<open>struct __file_str\<close> on the stack is the record \<open>file_str\<close>; its \<open>put\<close> field is always
  \<open>__file_str_put\<close> and is handed to the engine as a function.
\<close>

type_synonym mem = "int \<Rightarrow> int"
type_synonym 'w write_fn = "int \<Rightarrow> c_str \<Rightarrow> 'w \<Rightarrow> 'w"

record file_str =
  fs_unget :: int
  fs_flags :: int
  fs_pos :: int
  fs_end :: int
  fs_size :: int

type_synonym put_fn = "int \<Rightarrow> file_str \<times> mem \<Rightarrow> file_str \<times> mem"
type_synonym 'a vfs_fn =
  "put_fn \<Rightarrow> c_str \<Rightarrow> 'a \<Rightarrow> file_str \<times> mem \<Rightarrow> int \<times> file_str \<times> mem"

definition c_char :: "int \<Rightarrow> int" where
  "c_char c = c mod 256"

definition putchar :: "'w write_fn \<Rightarrow> int \<Rightarrow> 'w \<Rightarrow> int \<times> 'w" where
  "putchar write c w = (c, write 1 [c_char c] w)"

definition puts :: "'w write_fn \<Rightarrow> c_str \<Rightarrow> 'w \<Rightarrow> int \<times> 'w" where
  "puts write s w =
     (let i = strlen_from s 0; w1 = write 1 (take i s) w; w2 = write 1 [10] w1
      in (0, w2))"

definition printf :: "('f \<Rightarrow> c_str \<Rightarrow> 'a \<Rightarrow> 'w \<Rightarrow> int \<times> 'w) \<Rightarrow> 'f \<Rightarrow> c_str \<Rightarrow> 'a \<Rightarrow> 'w \<Rightarrow> int \<times> 'w"
  where "printf vfprintf stdout fmt ap w = vfprintf stdout fmt ap w"

definition fprintf :: "('f \<Rightarrow> c_str \<Rightarrow> 'a \<Rightarrow> 'w \<Rightarrow> int \<times> 'w) \<Rightarrow> 'f \<Rightarrow> c_str \<Rightarrow> 'a \<Rightarrow> 'w \<Rightarrow> int \<times> 'w"
  where "fprintf vfprintf stream fmt ap w = vfprintf stream fmt ap w"

definition sprintf :: "'a vfs_fn \<Rightarrow> put_fn \<Rightarrow> int \<Rightarrow> c_str \<Rightarrow> 'a \<Rightarrow> mem \<Rightarrow> int \<times> mem" where
  "sprintf vfprintf file_str_put buf fmt ap m =
     (let f = \<lparr>fs_unget = 0, fs_flags = 2, fs_pos = buf, fs_end = buf + 2147483646, fs_size = 0\<rparr>;
          (r, f', m') = vfprintf file_str_put fmt ap (f, m)
      in (r, m'(fs_pos f' := 0)))"

definition snprintf :: "'a vfs_fn \<Rightarrow> put_fn \<Rightarrow> int \<Rightarrow> int \<Rightarrow> c_str \<Rightarrow> 'a \<Rightarrow> mem \<Rightarrow> int \<times> mem" where
  "snprintf vfprintf file_str_put buf n fmt ap m =
     (let end_ptr = (if n \<le> 0 then buf else buf + (n - 1));
          f = \<lparr>fs_unget = 0, fs_flags = 2, fs_pos = buf, fs_end = end_ptr, fs_size = 0\<rparr>;
          (r, f', m') = vfprintf file_str_put fmt ap (f, m)
      in (r, if 0 < n then m'(fs_pos f' := 0) else m'))"

subsection \<open>Documented behaviour of the picolibc parts\<close>

text \<open>
  \<open>__file_str_put\<close> stores the character and advances unless \<open>pos == end\<close>; \<open>vfprintf\<close>
  sends the formatted text to the stream's \<open>put\<close>, character by character, and returns
  its length; \<open>write\<close> on descriptor 1 appends to the output.
\<close>

definition put_contract :: "put_fn \<Rightarrow> bool" where
  "put_contract put \<longleftrightarrow>
     (\<forall>c f m. put c (f, m) =
        (if fs_pos f \<noteq> fs_end f then (f\<lparr>fs_pos := fs_pos f + 1\<rparr>, m(fs_pos f := c)) else (f, m)))"

definition vfprintf_contract :: "(c_str \<Rightarrow> 'a \<Rightarrow> c_str) \<Rightarrow> 'a vfs_fn \<Rightarrow> bool" where
  "vfprintf_contract text vfs \<longleftrightarrow>
     (\<forall>put fmt ap st. vfs put fmt ap st =
        (int (length (text fmt ap)), fold put (text fmt ap) st))"

definition write_contract :: "('w \<Rightarrow> c_str) \<Rightarrow> 'w write_fn \<Rightarrow> bool" where
  "write_contract out write \<longleftrightarrow> (\<forall>bs w. out (write 1 bs w) = out w @ bs)"

subsection \<open>What the sink holds after the engine ran\<close>

definition mem_write :: "int \<Rightarrow> c_str \<Rightarrow> mem \<Rightarrow> mem" where
  "mem_write a bs m = (\<lambda>x. if a \<le> x \<and> x < a + int (length bs) then bs ! nat (x - a) else m x)"

lemma mem_write_Nil [simp]: "mem_write a [] m = m"
  by (simp add: mem_write_def fun_eq_iff)

lemma mem_write_Cons: "mem_write (a + 1) bs (m(a := b)) = mem_write a (b # bs) m"
proof
  fix x
  have "nat (x - a) = Suc (nat (x - (a + 1)))" if "a + 1 \<le> x" using that by linarith
  then show "mem_write (a + 1) bs (m(a := b)) x = mem_write a (b # bs) m x"
    by (auto simp: mem_write_def)
qed

lemma fold_put:
  assumes put: "put_contract put" and le: "fs_pos f \<le> fs_end f"
  shows "fold put t (f, m) =
    (f\<lparr>fs_pos := fs_pos f + int (min (length t) (nat (fs_end f - fs_pos f)))\<rparr>,
     mem_write (fs_pos f) (take (min (length t) (nat (fs_end f - fs_pos f))) t) m)"
  using le
proof (induction t arbitrary: f m)
  case Nil
  then show ?case by simp
next
  case (Cons c t)
  show ?case
  proof (cases "fs_pos f = fs_end f")
    case True
    then have "put c (f, m) = (f, m)" using put by (simp add: put_contract_def)
    with True Cons.IH [of f m] show ?thesis by simp
  next
    case False
    then have lt: "fs_pos f < fs_end f" using Cons.prems by simp
    have p: "put c (f, m) = (f\<lparr>fs_pos := fs_pos f + 1\<rparr>, m(fs_pos f := c))"
      using put False by (simp add: put_contract_def)
    define k where "k = min (length t) (nat (fs_end f - (fs_pos f + 1)))"
    have k: "min (length (c # t)) (nat (fs_end f - fs_pos f)) = Suc k"
      using lt by (auto simp: k_def)
    have "fold put t (f\<lparr>fs_pos := fs_pos f + 1\<rparr>, m(fs_pos f := c)) =
        (f\<lparr>fs_pos := fs_pos f + 1 + int k\<rparr>, mem_write (fs_pos f + 1) (take k t) (m(fs_pos f := c)))"
      using Cons.IH [of "f\<lparr>fs_pos := fs_pos f + 1\<rparr>"] lt by (simp add: k_def)
    then have "fold put (c # t) (f, m) =
        (f\<lparr>fs_pos := fs_pos f + int (Suc k)\<rparr>, mem_write (fs_pos f) (take (Suc k) (c # t)) m)"
      by (simp add: p add.assoc flip: mem_write_Cons)
    then show ?thesis by (simp only: k)
  qed
qed

text \<open>Storing the terminator right behind the written bytes.\<close>

lemma mem_write_snoc: "(mem_write a bs m)(a + int (length bs) := b) = mem_write a (bs @ [b]) m"
  by (auto simp: mem_write_def fun_eq_iff nth_append)

lemma snprintf_writes:
  assumes "put_contract put" and "vfprintf_contract text vfs"
  shows "snprintf vfs put buf n fmt ap m =
    (int (length (text fmt ap)),
     if 0 < n then mem_write buf (take (nat (n - 1)) (text fmt ap) @ [0]) m else m)"
proof -
  let ?t = "text fmt ap" and ?k = "min (length (text fmt ap)) (nat (n - 1))"
  have "take ?k ?t = take (nat (n - 1)) ?t" by (simp add: min_def)
  moreover have "(mem_write buf (take ?k ?t) m)(buf + int ?k := 0) = mem_write buf (take ?k ?t @ [0]) m"
    using mem_write_snoc [of buf "take ?k ?t" m 0] by simp
  ultimately show ?thesis
    using assms(2) fold_put [OF assms(1)]
    by (auto simp: snprintf_def vfprintf_contract_def Let_def)
qed

subsection \<open>Properties\<close>

text \<open>C26: \<open>snprintf\<close> never writes outside \<open>buf[0 .. n-1]\<close>: it stores the longest prefix of
  the formatted text that fits and a terminator (nothing at all for \<open>n \<le> 0\<close>) and returns the
  length of the whole text, whatever the format engine produces.\<close>

theorem snprintf_bounded:
  assumes "put_contract put" and "vfprintf_contract text vfs"
  shows "fst (snprintf vfs put buf n fmt ap m) = int (length (text fmt ap))
    \<and> (\<forall>a. a < buf \<or> buf + max 0 n \<le> a \<longrightarrow> snd (snprintf vfs put buf n fmt ap m) a = m a)
    \<and> (0 < n \<longrightarrow> snd (snprintf vfs put buf n fmt ap m) (buf + min (n - 1) (int (length (text fmt ap)))) = 0)
    \<and> (\<forall>i. int i < n - 1 \<and> i < length (text fmt ap)
          \<longrightarrow> snd (snprintf vfs put buf n fmt ap m) (buf + int i) = text fmt ap ! i)"
  unfolding snprintf_writes [OF assms]
  by (auto simp: mem_write_def nth_append min_def nat_less_iff)

theorem snprintf_bounded_witness:
  "\<exists>put vfs. put_contract put \<and> vfprintf_contract (\<lambda>fmt ap. fmt) vfs
    \<and> fst (snprintf vfs put 100 3 [104, 101, 108, 108, 111] () (\<lambda>_. 7)) = 5
    \<and> snd (snprintf vfs put 100 3 [104, 101, 108, 108, 111] () (\<lambda>_. 7)) 102 = 0
    \<and> snd (snprintf vfs put 100 3 [104, 101, 108, 108, 111] () (\<lambda>_. 7)) 103 = 7"
proof -
  define put :: put_fn where
    "put = (\<lambda>c (f, m). if fs_pos f \<noteq> fs_end f then (f\<lparr>fs_pos := fs_pos f + 1\<rparr>, m(fs_pos f := c)) else (f, m))"
  define vfs :: "unit vfs_fn" where "vfs = (\<lambda>put fmt ap st. (int (length fmt), fold put fmt st))"
  have c: "put_contract put" "vfprintf_contract (\<lambda>fmt ap. fmt) vfs"
    by (simp_all add: put_contract_def put_def vfprintf_contract_def vfs_def)
  from snprintf_bounded [OF c, of 100 3 "[104, 101, 108, 108, 111]" "()" "\<lambda>_. 7"] c show ?thesis
    by (intro exI [of _ put] exI [of _ vfs]) simp
qed

text \<open>\<open>puts\<close> writes the string up to its terminator and a newline and returns 0.\<close>

theorem puts_line:
  assumes "write_contract out write" and "nonul s"
  shows "fst (puts write (s @ 0 # r) w) = 0 \<and> out (snd (puts write (s @ 0 # r) w)) = out w @ s @ [10]"
  using assms strlen_from_eq [OF assms(2), of 0 r] by (simp add: puts_def write_contract_def Let_def)

theorem puts_line_witness:
  "snd (puts (\<lambda>fd bs w. w @ bs) (cs ''hi'' @ 0 # cs ''junk'') (cs ''> '')) = cs ''> hi'' @ [10]"
  using puts_line [of "\<lambda>w. w" "\<lambda>fd bs w. w @ bs" "cs ''hi''" "cs ''junk''" "cs ''> ''"]
  by (simp add: write_contract_def nonul_def cs_def)

end
