(* ===== verification/Stdio.thy ===== *)
theory Stdio
  imports Printf Ieee754 "HOL-Library.Monad_Syntax"
begin

section \<open>\<open>libc/stdio.c\<close>: integer output and input on the system calls\<close>

text \<open>
  The low-level I/O helpers of \<open>libc/stdio.c\<close>. \<open>write\<close> and \<open>read\<close> are system calls and
  parameters; \<open>rd1 w\<close> stands for \<open>read(0, buf, 1)\<close> and gives its return value, the byte
  in \<open>buf[0]\<close> afterwards and the next world. A store outside the local array of
  \<open>output\<close> is \<open>None\<close>. The loops of \<open>input\<close> end only if the input does, so they are
  partial functions into \<open>option\<close>.
\<close>

type_synonym 'w read_fn = "'w \<Rightarrow> int \<times> int \<times> 'w"

subsection \<open>Output\<close>

definition buf_store :: "c_str \<Rightarrow> int \<Rightarrow> int \<Rightarrow> c_str option" where
  "buf_store buf p v = (if 0 \<le> p \<and> p < int (length buf) then Some (buf[nat p := v]) else None)"

function output_digits :: "c_str \<Rightarrow> int \<Rightarrow> int \<Rightarrow> (c_str \<times> int) option" where
  "output_digits buf p val =
     (if 0 < val
      then do {
        buf' \<leftarrow> buf_store buf p (c_char (val smod 10 + 48));
        output_digits buf' (p - 1) (val sdiv 10)
      }
      else Some (buf, p))"
  by pat_completeness auto
termination
  by (relation "measure (\<lambda>(buf, p, val). nat val)") (auto simp: c_simps)

declare output_digits.simps [simp del]

definition output_int :: "'w write_fn \<Rightarrow> c_str \<Rightarrow> int \<Rightarrow> 'w \<Rightarrow> 'w option" where
  "output_int write buf x w =
     (let neg = (x < 0); val = (if x < 0 then s64 (0 - x) else x)
      in do {
        buf \<leftarrow> buf_store buf 23 10;
        (buf, p) \<leftarrow>
          (if val = 0 then do { buf \<leftarrow> buf_store buf 22 48; Some (buf, 21) }
           else output_digits buf 22 val);
        (buf, p) \<leftarrow>
          (if neg then do { buf \<leftarrow> buf_store buf p 45; Some (buf, p - 1) } else Some (buf, p));
        Some (write 1 (drop (nat (p + 1)) buf) w)
      })"

definition print_char :: "'w write_fn \<Rightarrow> int \<Rightarrow> 'w \<Rightarrow> 'w" where
  "print_char write c w = write 1 [c_char c] w"

definition print_string :: "'w write_fn \<Rightarrow> c_str \<Rightarrow> 'w \<Rightarrow> 'w" where
  "print_string write s w = write 1 (take (strlen_from s 0) s) w"

definition print_double ::
    "('f \<Rightarrow> c_str \<Rightarrow> double \<Rightarrow> 'w \<Rightarrow> int \<times> 'w) \<Rightarrow> 'f \<Rightarrow> double \<Rightarrow> 'w \<Rightarrow> 'w" where
  "print_double vfprintf stdout x w = snd (printf vfprintf stdout [37, 102, 10, 0] x w)"

function stdio_print_pos :: "'w write_fn \<Rightarrow> int \<Rightarrow> 'w \<Rightarrow> 'w" where
  "stdio_print_pos write n w =
     (let w1 = (if 10 \<le> n then stdio_print_pos write (n sdiv 10) w else w)
      in print_char write (s32 (n smod 10 + 48)) w1)"
  by pat_completeness auto
termination
  by (relation "measure (\<lambda>(write, n, w). nat n)") (auto simp: c_simps)

declare stdio_print_pos.simps [simp del]

definition stdio_print_long :: "'w write_fn \<Rightarrow> int \<Rightarrow> 'w \<Rightarrow> 'w" where
  "stdio_print_long write n w =
     (if n < 0 then stdio_print_pos write (s64 (0 - n)) (print_char write 45 w)
      else stdio_print_pos write n w)"

subsection \<open>Input\<close>

definition is_blank :: "int \<Rightarrow> bool" where
  "is_blank b \<longleftrightarrow> b = 32 \<or> b = 10 \<or> b = 13 \<or> b = 9"

partial_function (option) input_skip :: "'w read_fn \<Rightarrow> 'w \<Rightarrow> (int option \<times> 'w) option" where
  "input_skip rd1 w =
     (let (n, b, w1) = rd1 w
      in if n \<le> 0 then Some (None, w1)
         else if \<not> is_blank b then Some (Some b, w1)
         else input_skip rd1 w1)"

partial_function (option) input_digits :: "'w read_fn \<Rightarrow> int \<Rightarrow> int \<Rightarrow> 'w \<Rightarrow> (int \<times> 'w) option" where
  "input_digits rd1 b val w =
     (if 48 \<le> b \<and> b \<le> 57
      then (let val1 = s64 (val * 10 + (b - 48)); (n, b1, w1) = rd1 w
            in if n \<le> 0 then Some (val1, w1) else input_digits rd1 b1 val1 w1)
      else Some (val, w))"

declare input_skip.simps [code] input_digits.simps [code]

definition input_tail :: "'w read_fn \<Rightarrow> bool \<Rightarrow> int \<Rightarrow> 'w \<Rightarrow> (int \<times> 'w) option" where
  "input_tail rd1 neg b w =
     do { (val, w1) \<leftarrow> input_digits rd1 b 0 w; Some (s32 (if neg then s64 (0 - val) else val), w1) }"

definition input :: "'w read_fn \<Rightarrow> 'w \<Rightarrow> (int \<times> 'w) option" where
  "input rd1 w =
     do {
       (b, w1) \<leftarrow> input_skip rd1 w;
       (case b of None \<Rightarrow> Some (0, w1)
        | Some b \<Rightarrow>
            if b = 45 then (let (n, b1, w2) = rd1 w1
                            in if n \<le> 0 then Some (0, w2) else input_tail rd1 True b1 w2)
            else if b = 43 then (let (n, b1, w2) = rd1 w1
                                 in if n \<le> 0 then Some (0, w2) else input_tail rd1 False b1 w2)
            else input_tail rd1 False b w1)
     }"

text \<open>The documented behaviour of \<open>read\<close> on a finite input: one byte at a time, then 0.\<close>

definition read_contract :: "('w \<Rightarrow> c_str) \<Rightarrow> 'w read_fn \<Rightarrow> bool" where
  "read_contract inp rd1 \<longleftrightarrow>
     (\<forall>w. case inp w of
        [] \<Rightarrow> fst (rd1 w) = 0 \<and> inp (snd (snd (rd1 w))) = []
      | b # bs \<Rightarrow> fst (rd1 w) = 1 \<and> fst (snd (rd1 w)) = b \<and> inp (snd (snd (rd1 w))) = bs)"

subsection \<open>Decimal text\<close>

lemma length_dec_text: "n < 10 ^ k \<Longrightarrow> 0 < k \<Longrightarrow> length (dec_text n) \<le> k"
proof (induction n arbitrary: k rule: dec_text.induct)
  case (1 n)
  show ?case
  proof (cases "n < 10")
    case True
    then show ?thesis using 1 by (simp add: dec_text.simps [of n])
  next
    case False
    with 1 obtain j where j: "k = Suc j" "0 < j" by (cases k; cases "k - 1") auto
    then have "n div 10 < 10 ^ j" using "1.prems" by (simp add: less_mult_imp_div_less mult.commute)
    then have "length (dec_text (n div 10)) \<le> j" using 1(1) False j by simp
    then show ?thesis using False j by (simp add: dec_text.simps [of n])
  qed
qed

lemma output_digits_text:
  assumes "0 < n" and "length (dec_text n) \<le> p + 1" and "p < length buf"
  shows "output_digits buf (int p) (int n) =
    Some (take (p + 1 - length (dec_text n)) buf @ dec_text n @ drop (p + 1) buf,
          int p - int (length (dec_text n)))"
  using assms
proof (induction n arbitrary: p buf rule: dec_text.induct)
  case (1 n)
  let ?d = "48 + int (n mod 10)"
  have c: "c_char (int n smod 10 + 48) = ?d"
    by (simp add: c_char_def c_simps zmod_int)
  have st: "buf_store buf (int p) ?d = Some (buf[p := ?d])"
    using "1.prems" by (simp add: buf_store_def)
  have q: "int n sdiv 10 = int (n div 10)" by (simp add: c_simps zdiv_int)
  have unf: "output_digits buf (int p) (int n) = output_digits (buf[p := ?d]) (int p - 1) (int (n div 10))"
    using "1.prems" by (subst output_digits.simps) (simp add: c st q)
  show ?case
  proof (cases "n < 10")
    case True
    then have "output_digits (buf[p := ?d]) (int p - 1) (int (n div 10)) = Some (buf[p := ?d], int p - 1)"
      by (subst output_digits.simps) simp
    then show ?thesis using True "1.prems" unf
      by (simp add: dec_text.simps [of n] upd_conv_take_nth_drop)
  next
    case False
    define t where "t = dec_text (n div 10)"
    have len: "length (dec_text n) = Suc (length t)" and tx: "dec_text n = t @ [?d]"
      using False by (simp_all add: dec_text.simps [of n] t_def)
    have "0 < length t" by (simp add: t_def)
    then have "0 < p" using "1.prems"(2) len by linarith
    then have p: "0 < p" "length t \<le> (p - 1) + 1" "p - 1 < length (buf[p := ?d])"
      and ip: "int (p - 1) = int p - 1" and p1: "p - 1 + 1 = p"
      using "1.prems"(2,3) len by (simp_all add: of_nat_diff)
    have "0 < n div 10" using False by simp
    from "1.IH" [OF False this _ p(3)] p(2)
    have IH: "output_digits (buf[p := ?d]) (int p - 1) (int (n div 10)) =
       Some (take (p - length t) (buf[p := ?d]) @ t @ drop p (buf[p := ?d]), int p - 1 - int (length t))"
      by (simp only: t_def [symmetric] ip p1)
    have "drop p (buf[p := ?d]) = ?d # drop (p + 1) buf"
      using "1.prems"(3) by (simp add: drop_update_swap Cons_nth_drop_Suc [symmetric] drop_update_cancel)
    moreover have "take (p - length t) (buf[p := ?d]) = take (p - length t) buf" by simp
    ultimately show ?thesis using IH unf len tx by simp
  qed
qed

lemma output_int_text:
  assumes "length buf = 24" and "in_s 32 x"
  shows "output_int write buf x w = Some (write 1 (int_text x @ [10]) w)"
proof -
  have xr: "- 2147483648 \<le> x" "x \<le> 2147483647" using assms(2) by (simp_all add: in_s_def)
  let ?b = "buf[23 := 10]"
  have b0: "buf_store buf 23 10 = Some ?b" using assms(1) by (simp add: buf_store_def)
  have d23: "drop 23 ?b = [10]" using assms(1) by (simp flip: Cons_nth_drop_Suc)
  show ?thesis
  proof (cases "x = 0")
    case True
    have "drop 22 (?b[22 := 48]) = [48, 10]"
      using assms(1) d23 by (simp flip: Cons_nth_drop_Suc)
    then show ?thesis
      using True assms(1) b0
      by (simp add: output_int_def Let_def buf_store_def int_text_def dec_text.simps)
  next
    case False
    define n where "n = nat \<bar>x\<bar>"
    have n: "0 < n" "n < 10 ^ 10" and v: "(if x < 0 then s64 (0 - x) else x) = int n"
      using False xr by (auto simp: n_def)
    define t where "t = dec_text n"
    have tl: "length t \<le> 10" "0 < length t" using length_dec_text [OF n(2)] by (simp_all add: t_def)
    have od: "output_digits ?b 22 (int n) =
        Some (take (23 - length t) ?b @ t @ [10], 22 - int (length t))"
      using output_digits_text [OF n(1), of 22 ?b] tl assms(1) d23 by (simp add: t_def)
    show ?thesis
    proof (cases "x < 0")
      case True
      let ?p = "22 - length t"
      have "take (23 - length t) ?b = take ?p ?b @ [?b ! ?p]"
        using tl assms(1) take_Suc_conv_app_nth [of ?p ?b] by (simp add: Suc_diff_le [symmetric])
      then have "buf_store (take (23 - length t) ?b @ t @ [10]) (22 - int (length t)) 45 =
          Some (take ?p ?b @ 45 # t @ [10])"
        using tl assms(1) by (simp add: buf_store_def nat_diff_distrib list_update_append)
      moreover have "drop (nat (22 - int (length t))) (take ?p ?b @ 45 # t @ [10]) = 45 # t @ [10]"
        using tl assms(1) by (simp add: nat_diff_distrib)
      ultimately show ?thesis
        using True v b0 od n
        by (simp add: output_int_def Let_def int_text_def t_def n_def)
    next
      case f: False
      have "drop (nat (23 - int (length t))) (take (23 - length t) ?b @ t @ [10]) = t @ [10]"
        using tl assms(1) by (simp add: nat_diff_distrib)
      then show ?thesis
        using f v b0 od n False
        by (simp add: output_int_def Let_def int_text_def t_def n_def algebra_simps)
    qed
  qed
qed

lemma out_print_char: "write_contract out write \<Longrightarrow> out (print_char write c w) = out w @ [c_char c]"
  by (simp add: print_char_def write_contract_def)

lemma out_print_pos:
  assumes "write_contract out write"
  shows "out (stdio_print_pos write (int n) w) = out w @ dec_text n"
proof (induction n arbitrary: w rule: dec_text.induct)
  case (1 n)
  have c: "s32 (int n smod 10 + 48) = 48 + int (n mod 10)"
    by (simp add: c_simps zmod_int)
  moreover have "c_char (48 + int (n mod 10)) = 48 + int (n mod 10)"
    by (simp add: c_char_def zmod_int)
  moreover have "int n sdiv 10 = int (n div 10)" by (simp add: c_simps zdiv_int)
  ultimately show ?case
    using 1 assms
    by (subst stdio_print_pos.simps) (auto simp: Let_def out_print_char dec_text.simps [of n])
qed

subsection \<open>Reading decimal text\<close>

lemma read_Cons:
  assumes "read_contract inp rd1" and "inp w = b # bs"
  shows "\<exists>w1. rd1 w = (1, b, w1) \<and> inp w1 = bs"
  using spec [OF assms(1) [unfolded read_contract_def], of w] assms(2) by (cases "rd1 w") auto

lemma read_Nil:
  assumes "read_contract inp rd1" and "inp w = []"
  shows "\<exists>b w1. rd1 w = (0, b, w1) \<and> inp w1 = []"
  using spec [OF assms(1) [unfolded read_contract_def], of w] assms(2) by (cases "rd1 w") auto

lemma input_skip_blanks:
  assumes rc: "read_contract inp rd1" and "inp w = ws @ b # rest" and "\<forall>c \<in> set ws. is_blank c"
    and "\<not> is_blank b"
  shows "\<exists>w1. input_skip rd1 w = Some (Some b, w1) \<and> inp w1 = rest"
  using assms(2-)
proof (induction ws arbitrary: w)
  case Nil
  then obtain w1 where "rd1 w = (1, b, w1)" "inp w1 = rest" using read_Cons [OF rc, of w] by auto
  then show ?case using Nil by (subst input_skip.simps) simp
next
  case (Cons c ws)
  then obtain w1 where r: "rd1 w = (1, c, w1)" "inp w1 = ws @ b # rest"
    using read_Cons [OF rc, of w c] by auto
  then have "input_skip rd1 w = input_skip rd1 w1"
    using Cons by (subst input_skip.simps) simp
  then show ?case using Cons r by simp
qed

abbreviation dec_step :: "int \<Rightarrow> int \<Rightarrow> int" where
  "dec_step v c \<equiv> v * 10 + (c - 48)"

lemma input_digits_value:
  assumes rc: "read_contract inp rd1" and "inp w = ds @ rest" and "\<forall>c \<in> set (b # ds). is_dec c"
    and "rest = [] \<or> \<not> is_dec (hd rest)"
  shows "\<exists>w1. input_digits rd1 b (s64 v) w = Some (s64 (foldl dec_step v (b # ds)), w1)
            \<and> inp w1 = tl rest"
  using assms(2-)
proof (induction ds arbitrary: b v w)
  case Nil
  then have b: "48 \<le> b \<and> b \<le> 57" by (simp add: is_dec_def)
  show ?case
  proof (cases rest)
    case Nil': Nil
    then obtain b1 w1 where "rd1 w = (0, b1, w1)" "inp w1 = []"
      using Nil.prems(1) read_Nil [OF rc, of w] by auto
    then show ?thesis
      using b Nil' by (subst input_digits.simps) (simp add: wrap_s_lin Let_def)
  next
    case (Cons c rest')
    then obtain w1 where r: "rd1 w = (1, c, w1)" "inp w1 = rest'"
      using Nil.prems(1) read_Cons [OF rc, of w] by auto
    have "\<not> (48 \<le> c \<and> c \<le> 57)" using Nil.prems Cons by (simp add: is_dec_def)
    then have "input_digits rd1 c x w1 = Some (x, w1)" for x
      by (subst input_digits.simps) (simp only: if_False)
    then show ?thesis
      using b r Cons by (subst input_digits.simps) (simp add: wrap_s_lin Let_def)
  qed
next
  case (Cons c ds)
  then have b: "48 \<le> b \<and> b \<le> 57" by (simp add: is_dec_def)
  obtain w1 where r: "rd1 w = (1, c, w1)" "inp w1 = ds @ rest"
    using Cons.prems(1) read_Cons [OF rc, of w] by auto
  have "input_digits rd1 b (s64 v) w = input_digits rd1 c (s64 (dec_step v b)) w1"
    using b r by (subst input_digits.simps) (simp add: wrap_s_lin Let_def)
  then show ?case using Cons.IH [of w1 c "dec_step v b"] Cons.prems r by simp
qed

text \<open>The sign prefix \<open>input\<close> accepts.\<close>

definition sign_text :: "bool \<Rightarrow> c_str \<Rightarrow> bool" where
  "sign_text neg sg \<longleftrightarrow> (if neg then sg = [45] else sg = [] \<or> sg = [43])"

lemma wrap_32_64: "s32 (s64 x) = s32 x"
proof (rule wrap_s_cong)
  have "(2::int) ^ 32 dvd 2 ^ 64" by (simp add: le_imp_power_dvd)
  then show "s64 x mod 2 ^ 32 = x mod 2 ^ 32"
    by (metis mod_mod_cancel wrap_s_mod)
qed

lemma input_tail_value:
  assumes "read_contract inp rd1" and "inp w = ds @ rest" and "\<forall>c \<in> set (b # ds). is_dec c"
    and "rest = [] \<or> \<not> is_dec (hd rest)"
  shows "\<exists>w1. input_tail rd1 neg b w
           = Some (s32 (if neg then - dec_val (b # ds) else dec_val (b # ds)), w1) \<and> inp w1 = tl rest"
proof -
  let ?v = "dec_val (b # ds)"
  obtain w1 where "input_digits rd1 b 0 w = Some (s64 ?v, w1)" "inp w1 = tl rest"
    using input_digits_value [OF assms, of 0] by (auto simp: dec_val_def)
  moreover have "s32 (s64 (0 - s64 ?v)) = s32 (- ?v)"
  proof -
    have "s64 (0 - s64 ?v) = s64 (s64 ?v * (- 1) + 0)" by simp
    also have "\<dots> = s64 (?v * (- 1) + 0)" by (rule wrap_s_lin)
    finally show ?thesis by (simp add: wrap_32_64)
  qed
  ultimately show ?thesis by (simp add: input_tail_def wrap_32_64)
qed

lemma input_value:
  assumes rc: "read_contract inp rd1" and i: "inp w = ws @ sg @ ds @ rest"
    and ws: "\<forall>c \<in> set ws. is_blank c" and sg: "sign_text neg sg"
    and ds: "ds \<noteq> []" "\<forall>c \<in> set ds. is_dec c" and rest: "rest = [] \<or> \<not> is_dec (hd rest)"
  shows "\<exists>w1. input rd1 w = Some (s32 (if neg then - dec_val ds else dec_val ds), w1) \<and> inp w1 = tl rest"
proof -
  obtain b ds' where d: "ds = b # ds'" using ds by (cases ds) auto
  have nb: "\<not> is_blank b" "b \<noteq> 45" "b \<noteq> 43" using ds d by (auto simp: is_blank_def is_dec_def)
  show ?thesis
  proof (cases sg)
    case Nil
    then have "\<not> neg" using sg by (auto simp: sign_text_def split: if_splits)
    obtain w1 where w1: "input_skip rd1 w = Some (Some b, w1)" "inp w1 = ds' @ rest"
      using input_skip_blanks [OF rc, of w ws b "ds' @ rest"] i ws nb d Nil by auto
    then show ?thesis
      using input_tail_value [OF rc w1(2), of b False] ds d rest nb \<open>\<not> neg\<close> by (simp add: input_def)
  next
    case (Cons g gs)
    then have g: "gs = []" "g = (if neg then 45 else 43)"
      using sg by (auto simp: sign_text_def split: if_splits)
    then have "\<not> is_blank g" by (auto simp: is_blank_def)
    then obtain w1 where w1: "input_skip rd1 w = Some (Some g, w1)" "inp w1 = b # ds' @ rest"
      using input_skip_blanks [OF rc, of w ws g "ds @ rest"] i ws d Cons g by auto
    obtain w2 where "rd1 w1 = (1, b, w2)" and w2: "inp w2 = ds' @ rest"
      using read_Cons [OF rc w1(2)] by auto
    then show ?thesis
      using input_tail_value [OF rc w2, of b neg] ds d rest w1 g by (auto simp: input_def)
  qed
qed

text \<open>On a finite input both loops end, whatever the bytes are.\<close>

lemma input_digits_total:
  assumes rc: "read_contract inp rd1"
  shows "\<exists>v w1. input_digits rd1 b val w = Some (v, w1)"
proof (induction "inp w" arbitrary: b val w)
  case Nil
  then obtain b1 w1 where "rd1 w = (0, b1, w1)" using read_Nil [OF rc, of w] by metis
  then show ?case by (subst input_digits.simps) (simp add: Let_def)
next
  case (Cons c cs)
  then obtain w1 where "rd1 w = (1, c, w1)" "cs = inp w1" using read_Cons [OF rc, of w] by metis
  then show ?case using Cons.hyps(1) [of w1] by (subst input_digits.simps) (simp add: Let_def)
qed

lemma input_skip_total:
  assumes rc: "read_contract inp rd1"
  shows "\<exists>b w1. input_skip rd1 w = Some (b, w1)"
proof (induction "inp w" arbitrary: w)
  case Nil
  then obtain b1 w1 where "rd1 w = (0, b1, w1)" using read_Nil [OF rc, of w] by metis
  then show ?case by (subst input_skip.simps) simp
next
  case (Cons c cs)
  then obtain w1 where "rd1 w = (1, c, w1)" "cs = inp w1" using read_Cons [OF rc, of w] by metis
  then show ?case using Cons.hyps(1) [of w1] by (subst input_skip.simps) simp
qed

lemma input_tail_total: "read_contract inp rd1 \<Longrightarrow> \<exists>v w1. input_tail rd1 neg b w = Some (v, w1)"
  using input_digits_total [of inp rd1 b 0 w] by (auto simp: input_tail_def)

subsection \<open>Properties\<close>

text \<open>C27: \<open>output\<close> prints every \<open>int\<close>, \<open>INT_MIN\<close> included, as its decimal text and a newline in
  one \<open>write\<close>, and none of its stores leaves the 24-byte local array.\<close>

theorem output_prints:
  assumes "write_contract out write" and "length buf = 24" and "in_s 32 x"
  shows "\<exists>w'. output_int write buf x w = Some w' \<and> out w' = out w @ int_text x @ [10]"
  using output_int_text [OF assms(2,3), of "write" w] assms(1) by (simp add: write_contract_def)

theorem output_prints_witness:
  "\<exists>w'. output_int (\<lambda>fd bs w. w @ bs) (replicate 24 7) (- 2147483648) [] = Some w'
     \<and> w' = cs ''-2147483648'' @ [10]"
  using output_prints [of "\<lambda>w. w" "\<lambda>fd bs w. w @ bs" "replicate 24 7" "- 2147483648" "[]"]
  by (simp add: write_contract_def in_s_def int_text_def dec_text.simps cs_def)


definition list_read :: "c_str \<Rightarrow> int \<times> int \<times> c_str" where
  "list_read w = (case w of [] \<Rightarrow> (0, 0, []) | b # bs \<Rightarrow> (1, b, bs))"

lemma list_read_contract: "read_contract (\<lambda>w. w) list_read"
  by (simp add: read_contract_def list_read_def split: list.split)


text \<open>C29: \<open>input\<close> returns on every finite input: its two loops end at the end of the input
  whatever bytes it holds.\<close>

theorem input_returns:
  assumes "read_contract inp rd1"
  shows "\<exists>v w1. input rd1 w = Some (v, w1)"
proof -
  obtain b w1 where s: "input_skip rd1 w = Some (b, w1)" using input_skip_total [OF assms] by blast
  obtain n b1 w2 where r: "rd1 w1 = (n, b1, w2)" by (cases "rd1 w1")
  note t = input_tail_total [OF assms, of True b1 w2] input_tail_total [OF assms, of False b1 w2]
  show ?thesis
  proof (cases b)
    case None
    then show ?thesis using s by (simp add: input_def)
  next
    case (Some c)
    then show ?thesis using s r t input_tail_total [OF assms, of False c w1] by (auto simp: input_def)
  qed
qed

theorem input_returns_witness: "\<exists>v w1. input list_read (cs ''  - +'') = Some (v, w1)"
  using input_returns [OF list_read_contract] .

text \<open>C30: round trip. What \<open>output\<close> prints for an \<open>int\<close> is read back by \<open>input\<close> as that \<open>int\<close>.\<close>

theorem output_input_roundtrip:
  assumes "write_contract out write" and "read_contract inp rd1" and "length buf = 24" and "in_s 32 x"
    and "inp v = out (the (output_int write buf x w))" and "out w = []"
  shows "\<exists>v1. input rd1 v = Some (x, v1) \<and> inp v1 = []"
proof -
  let ?sg = "if x < 0 then [45] else []" and ?ds = "dec_text (nat \<bar>x\<bar>)"
  have "out (the (output_int write buf x w)) = ?sg @ ?ds @ [10]"
    using output_int_text [OF assms(3,4), of "write" w] assms(1,6) by (simp add: write_contract_def int_text_def)
  then have "\<exists>w1. input rd1 v = Some (s32 (if x < 0 then - dec_val ?ds else dec_val ?ds), w1) \<and> inp w1 = tl [10]"
    using assms(5) by (intro input_value [OF assms(2), of v "[]" ?sg])
      (auto simp: sign_text_def dec_text_digits, simp add: is_dec_def)
  then show ?thesis using assms(4) by (auto simp: dec_val_dec_text in_s_def)
qed

theorem output_input_roundtrip_witness:
  "\<exists>v1. input list_read (the (output_int (\<lambda>fd bs w. w @ bs) (replicate 24 0) (- 7) [])) = Some (- 7, v1) \<and> v1 = []"
  using output_input_roundtrip [of "\<lambda>w. w" "\<lambda>fd bs w. w @ bs", OF _ list_read_contract, of "replicate 24 0" "- 7" _ "[]"]
  by (simp add: write_contract_def in_s_def)

text \<open>C31: the recursive digit printer \<open>__stdio_print_long\<close> prints every
  \<open>long\<close> but \<open>LONG_MIN\<close> as its decimal text; for \<open>LONG_MIN\<close> the negation wraps and it prints the
  two characters \<open>-(\<close>.\<close>

theorem stdio_print_long_text:
  assumes "write_contract out write" and "in_s 64 n"
  shows "out (stdio_print_long write n w) = out w @ (if n = - (2 ^ 63) then [45, 40] else int_text n)"
proof -
  have "s64 (0 - n) = - n" if "n < 0" "n \<noteq> - (2 ^ 63)"
    using that assms(2) s64_id [of "- n"] by (simp add: in_s_def)
  then have "n \<noteq> - (2 ^ 63) \<Longrightarrow> out (stdio_print_long write n w) = out w @ int_text n"
    using out_print_pos [OF assms(1), of "nat \<bar>n\<bar>"] out_print_char [OF assms(1)]
    by (auto simp: stdio_print_long_def int_text_def c_char_def)
  moreover have "out (stdio_print_long write (- (2 ^ 63)) w) = out w @ [45, 40]"
    using out_print_char [OF assms(1)]
    by (simp add: stdio_print_long_def wrap_s_def stdio_print_pos.simps signed_modulo_int_def c_char_def)
  ultimately show ?thesis by auto
qed

theorem stdio_print_long_text_witness:
  "stdio_print_long (\<lambda>fd bs w. w @ bs) (- 305) [] = cs ''-305''
   \<and> stdio_print_long (\<lambda>fd bs w. w @ bs) (- 9223372036854775808) [] = cs ''-(''"
  using stdio_print_long_text [of "\<lambda>w. w" "\<lambda>fd bs w. w @ bs" "- 305" "[]"]
    stdio_print_long_text [of "\<lambda>w. w" "\<lambda>fd bs w. w @ bs" "- 9223372036854775808" "[]"]
  by (simp add: write_contract_def in_s_def int_text_def dec_text.simps cs_def)

end
