(* ===== verification/Sscanf.thy ===== *)
theory Sscanf
  imports Ieee754
begin

section \<open>\<open>libc/sscanf.c\<close>: formatted input from a string\<close>

text \<open>
  The scanner of \<open>libc/sscanf.c\<close>, function by function. \<open>str\<close> and \<open>fmt\<close> are byte
  strings of the prelude and the indices \<open>si\<close>, \<open>fi\<close> and \<open>pi\<close> are \<open>nat\<close>. The C writes
  results through the variadic pointers; here the \<open>k\<close>-th pointer is the number \<open>k\<close> and
  the writes are collected in order as \<open>sc_store\<close> values. \<open>&\<close> and \<open>|\<close> on truth values
  do not short-circuit in C, so both operands are always read; the bytes read past the
  terminator are those of the list behind it.
\<close>

subsection \<open>Character classes\<close>

definition sc_isws :: "int \<Rightarrow> bool" where
  "sc_isws c \<longleftrightarrow> c = 32 \<or> c = 9 \<or> c = 10 \<or> c = 13"

definition sc_isdigit :: "int \<Rightarrow> bool" where
  "sc_isdigit c \<longleftrightarrow> 48 \<le> c \<and> c \<le> 57"

definition sc_isxdigit :: "int \<Rightarrow> bool" where
  "sc_isxdigit c \<longleftrightarrow> (48 \<le> c \<and> c \<le> 57) \<or> (97 \<le> c \<and> c \<le> 102) \<or> (65 \<le> c \<and> c \<le> 70)"

definition sc_xval :: "int \<Rightarrow> int" where
  "sc_xval c =
     (if 48 \<le> c \<and> c \<le> 57 then c - 48
      else if 97 \<le> c \<and> c \<le> 102 then c - 97 + 10
      else c - 65 + 10)"

lemma sc_class_nonzero: "sc_isws c \<Longrightarrow> c \<noteq> 0" "sc_isdigit c \<Longrightarrow> c \<noteq> 0"
  by (auto simp: sc_isws_def sc_isdigit_def)

function sc_skipws :: "c_str \<Rightarrow> nat \<Rightarrow> nat" where
  "sc_skipws str si = (if sc_isws (rd str si) then sc_skipws str (si + 1) else si)"
  by pat_completeness auto
termination
  by (relation "measure (\<lambda>(str, si). length str - si)")
    (auto intro!: rd_progress dest: sc_class_nonzero)

declare sc_skipws.simps [simp del]

subsection \<open>Integers\<close>

definition LLONG_MAX :: int where "LLONG_MAX = 9223372036854775807"
definition LLONG_MIN :: int where "LLONG_MIN = - 9223372036854775808"

definition sc_sign :: "c_str \<Rightarrow> nat \<Rightarrow> bool \<Rightarrow> bool \<times> nat" where
  "sc_sign str si is_signed =
     (if is_signed
      then (if rd str si = 45 then (True, si + 1)
            else if rd str si = 43 then (False, si + 1)
            else (False, si))
      else (False, si))"

text \<open>The prefix: the base, the index behind the prefix, and whether a digit was consumed.\<close>

definition sc_prefix :: "c_str \<Rightarrow> nat \<Rightarrow> int \<Rightarrow> int \<times> nat \<times> bool" where
  "sc_prefix str si base =
     (if base = 0
      then (if rd str si = 48
            then (if rd str (si + 1) = 120 \<or> rd str (si + 1) = 88 then (16, si + 2, False)
                  else (8, si + 1, True))
            else (10, si, False))
      else if base = 16
      then (if rd str si = 48 \<and> (rd str (si + 1) = 120 \<or> rd str (si + 1) = 88)
            then (base, si + 2, False) else (base, si, False))
      else (base, si, False))"

definition sc_digit :: "int \<Rightarrow> int \<Rightarrow> int option" where
  "sc_digit base c =
     (if base = 10 \<and> sc_isdigit c then Some (c - 48)
      else if base = 16 \<and> sc_isxdigit c then Some (sc_xval c)
      else if base = 8 \<and> 48 \<le> c \<and> c \<le> 55 then Some (c - 48)
      else if base = 2 \<and> (c = 48 \<or> c = 49) then Some (c - 48)
      else None)"

function sc_int_loop ::
    "c_str \<Rightarrow> nat \<Rightarrow> int \<Rightarrow> bool \<Rightarrow> int \<Rightarrow> bool \<Rightarrow> bool \<Rightarrow> nat \<times> int \<times> bool \<times> bool" where
  "sc_int_loop str si base is_signed val any overflow =
     (if rd str si \<noteq> 0
      then (case sc_digit base (rd str si) of
              None \<Rightarrow> (si, val, any, overflow)
            | Some digit \<Rightarrow>
                (let overflow = (if is_signed \<and> base = 10 \<and> \<not> overflow
                                 then (LLONG_MAX - digit) sdiv 10 < val else overflow);
                     val = (if \<not> overflow then s64 (val * base + digit) else val)
                 in sc_int_loop str (si + 1) base is_signed val True overflow))
      else (si, val, any, overflow))"
  by pat_completeness auto
termination
  by (relation "measure (\<lambda>(str, si, _). length str - si)") (auto intro!: rd_progress)

declare sc_int_loop.simps [simp del]

text \<open>Returns the new index, \<open>*out_val\<close> and \<open>*matched\<close>.\<close>

definition sc_scan_int :: "c_str \<Rightarrow> nat \<Rightarrow> int \<Rightarrow> bool \<Rightarrow> nat \<times> int \<times> bool" where
  "sc_scan_int str si base is_signed =
     (let (neg, si) = sc_sign str si is_signed;
          (base, si, any) = sc_prefix str si base;
          (si, val, any, overflow) = sc_int_loop str si base is_signed 0 any False;
          (val, neg) = (if overflow then (if neg then (LLONG_MIN, False) else (LLONG_MAX, False))
                        else (val, neg));
          val = (if neg then s64 (0 - val) else val)
      in (si, val, any))"

subsection \<open>Scansets\<close>

function sc_in_set_loop :: "c_str \<Rightarrow> nat \<Rightarrow> nat \<Rightarrow> int \<Rightarrow> bool" where
  "sc_in_set_loop fmt pix pat_end c =
     (if pix < pat_end
      then (if pix + 2 < pat_end \<and> rd fmt (pix + 1) = 45
            then (if rd fmt pix \<le> c \<and> c \<le> rd fmt (pix + 2) then True
                  else sc_in_set_loop fmt (pix + 3) pat_end c)
            else (if c = rd fmt pix then True else sc_in_set_loop fmt (pix + 1) pat_end c))
      else False)"
  by pat_completeness auto
termination
  by (relation "measure (\<lambda>(fmt, pix, pat_end, c). pat_end - pix)") auto

declare sc_in_set_loop.simps [simp del]

definition sc_in_set :: "c_str \<Rightarrow> nat \<Rightarrow> nat \<Rightarrow> int \<Rightarrow> bool" where
  "sc_in_set fmt pat_start pat_end c =
     (if pat_start < pat_end \<and> rd fmt pat_start = 93
      then (if c = 93 then True else sc_in_set_loop fmt (pat_start + 1) pat_end c)
      else sc_in_set_loop fmt pat_start pat_end c)"

subsection \<open>Floating point\<close>

definition d_zero :: double where "d_zero = 0"
definition d_one :: double where "d_one = 0x3FF0000000000000"
definition d_ten :: double where "d_ten = 0x4024000000000000"

record fl_acc =
  fl_int :: int
  fl_frac :: int
  fl_scale :: int
  fl_digits :: int
  fl_in_frac :: bool
  fl_any :: bool

definition fl_init :: fl_acc where
  "fl_init = \<lparr>fl_int = 0, fl_frac = 0, fl_scale = 1, fl_digits = 0,
              fl_in_frac = False, fl_any = False\<rparr>"

definition fl_digit :: "fl_acc \<Rightarrow> int \<Rightarrow> fl_acc" where
  "fl_digit a c =
     (if fl_in_frac a
      then (if fl_digits a < 18
            then a\<lparr>fl_frac := s64 (fl_frac a * 10 + (c - 48)),
                   fl_scale := s64 (fl_scale a * 10),
                   fl_digits := fl_digits a + 1, fl_any := True\<rparr>
            else a\<lparr>fl_any := True\<rparr>)
      else a\<lparr>fl_int := s64 (fl_int a * 10 + (c - 48)), fl_any := True\<rparr>)"

function fl_loop :: "c_str \<Rightarrow> nat \<Rightarrow> fl_acc \<Rightarrow> nat \<times> fl_acc" where
  "fl_loop str si a =
     (if rd str si \<noteq> 0
      then (if sc_isdigit (rd str si) then fl_loop str (si + 1) (fl_digit a (rd str si))
            else if rd str si = 46 \<and> \<not> fl_in_frac a then fl_loop str (si + 1) (a\<lparr>fl_in_frac := True\<rparr>)
            else (si, a))
      else (si, a))"
  by pat_completeness auto
termination
  by (relation "measure (\<lambda>(str, si, _). length str - si)") (auto intro!: rd_progress)

declare fl_loop.simps [simp del]

function fl_exp_digits :: "c_str \<Rightarrow> nat \<Rightarrow> int \<Rightarrow> nat \<times> int" where
  "fl_exp_digits str si exp_val =
     (if sc_isdigit (rd str si)
      then fl_exp_digits str (si + 1) (s32 (exp_val * 10 + (rd str si - 48)))
      else (si, exp_val))"
  by pat_completeness auto
termination
  by (relation "measure (\<lambda>(str, si, _). length str - si)")
    (auto intro!: rd_progress dest: sc_class_nonzero)

declare fl_exp_digits.simps [simp del]

function fl_scale10 :: "(double \<Rightarrow> double) \<Rightarrow> double \<Rightarrow> int \<Rightarrow> double" where
  "fl_scale10 f val exp_val = (if 0 < exp_val then fl_scale10 f (f val) (exp_val - 1) else val)"
  by pat_completeness auto
termination
  by (relation "measure (\<lambda>(f, val, exp_val). nat exp_val)") auto

declare fl_scale10.simps [simp del]

definition fl_exponent :: "c_str \<Rightarrow> nat \<Rightarrow> double \<Rightarrow> nat \<times> double" where
  "fl_exponent str si val =
     (if rd str si = 101 \<or> rd str si = 69
      then (let si = si + 1;
                (exp_neg, si) = (if rd str si = 45 then (True, si + 1)
                                 else if rd str si = 43 then (False, si + 1) else (False, si));
                (si, exp_val) = fl_exp_digits str si 0
            in (si, if exp_neg then fl_scale10 (\<lambda>v. d_div v d_ten) val exp_val
                    else fl_scale10 (\<lambda>v. d_mul v d_ten) val exp_val))
      else (si, val))"

definition ci_eq :: "int \<Rightarrow> int \<Rightarrow> bool" where
  "ci_eq c l \<longleftrightarrow> c = l \<or> c = l - 32"

text \<open>
  The new index, the double stored in \<open>*out_val\<close> (\<open>None\<close> when nothing is stored) and
  \<open>*matched\<close>. \<open>ci_eq c l\<close> is the test \<open>c == 'l' | c == 'L'\<close>.
\<close>

definition sc_scan_float :: "c_str \<Rightarrow> nat \<Rightarrow> nat \<times> double option \<times> bool" where
  "sc_scan_float str si =
     (let (neg, si) = (if rd str si = 45 then (True, si + 1)
                       else if rd str si = 43 then (False, si + 1) else (False, si));
          c = rd str si
      in if ci_eq c 105 \<and> ci_eq (rd str (si + 1)) 110 \<and> ci_eq (rd str (si + 2)) 102
         then (let val = d_div d_one d_zero; val = (if neg then d_sub d_zero val else val); si = si + 3;
                   si = (if ci_eq (rd str si) 105 \<and> ci_eq (rd str (si + 1)) 110
                            \<and> ci_eq (rd str (si + 2)) 105 \<and> ci_eq (rd str (si + 3)) 116
                            \<and> ci_eq (rd str (si + 4)) 121 then si + 5 else si)
               in (si, Some val, True))
         else if ci_eq c 110 \<and> ci_eq (rd str (si + 1)) 97 \<and> ci_eq (rd str (si + 2)) 110
         then (si + 3, Some (d_div d_zero d_zero), True)
         else (let (si, a) = fl_loop str si fl_init
               in if \<not> fl_any a then (si, None, False)
                  else (let val = d_add (d_of_long (fl_int a))
                                    (d_div (d_of_long (fl_frac a)) (d_of_long (fl_scale a)));
                            (si, val) = fl_exponent str si val;
                            val = (if neg then d_sub d_zero val else val)
                        in (si, Some val, True))))"

subsection \<open>The conversion loop\<close>

datatype sc_store = StLong nat int | StDouble nat double | StStr nat c_str

record sc_state =
  sc_fi :: nat
  sc_si :: nat
  sc_count :: int
  sc_ap :: nat
  sc_outs :: "sc_store list"

datatype sc_next = Cont sc_state | Brk sc_state

function sc_width :: "c_str \<Rightarrow> nat \<Rightarrow> int \<Rightarrow> nat \<times> int" where
  "sc_width fmt fi width =
     (if sc_isdigit (rd fmt fi)
      then sc_width fmt (fi + 1) (s32 (width * 10 + (rd fmt fi - 48)))
      else (fi, width))"
  by pat_completeness auto
termination
  by (relation "measure (\<lambda>(fmt, fi, _). length fmt - fi)")
    (auto intro!: rd_progress dest: sc_class_nonzero)

declare sc_width.simps [simp del]

text \<open>
  The copying loops of \<open>%s\<close> and \<open>%[\<close> (\<open>di\<close> is the length of the text copied so far)
  and their variants under \<open>*\<close>; \<open>ok\<close> is the loop's test on the character.
\<close>

function sc_copy :: "(int \<Rightarrow> bool) \<Rightarrow> c_str \<Rightarrow> nat \<Rightarrow> int \<Rightarrow> c_str \<Rightarrow> nat \<times> c_str" where
  "sc_copy ok str si width sdest =
     (if rd str si \<noteq> 0 \<and> ok (rd str si)
      then sc_copy ok str (si + 1) width
             (if width = 0 \<or> int (length sdest) < width - 1 then sdest @ [rd str si] else sdest)
      else (si, sdest))"
  by pat_completeness auto
termination
  by (relation "measure (\<lambda>(ok, str, si, _). length str - si)") (auto dest!: rd_nonzero_less)

declare sc_copy.simps [simp del]

function sc_pass :: "(int \<Rightarrow> bool) \<Rightarrow> c_str \<Rightarrow> nat \<Rightarrow> nat" where
  "sc_pass ok str si = (if rd str si \<noteq> 0 \<and> ok (rd str si) then sc_pass ok str (si + 1) else si)"
  by pat_completeness auto
termination
  by (relation "measure (\<lambda>(ok, str, si). length str - si)") (auto dest!: rd_nonzero_less)

declare sc_pass.simps [simp del]

function sc_set_end :: "c_str \<Rightarrow> nat \<Rightarrow> nat" where
  "sc_set_end fmt fi = (if rd fmt fi \<noteq> 0 \<and> rd fmt fi \<noteq> 93 then sc_set_end fmt (fi + 1) else fi)"
  by pat_completeness auto
termination
  by (relation "measure (\<lambda>(fmt, fi). length fmt - fi)") (auto dest!: rd_nonzero_less)

declare sc_set_end.simps [simp del]

definition sc_assign :: "sc_state \<Rightarrow> bool \<Rightarrow> (nat \<Rightarrow> sc_store) \<Rightarrow> sc_state" where
  "sc_assign st suppress store =
     (if suppress then st
      else st\<lparr>sc_outs := sc_outs st @ [store (sc_ap st)], sc_ap := sc_ap st + 1, sc_count := sc_count st + 1\<rparr>)"

definition sc_conv_int :: "c_str \<Rightarrow> sc_state \<Rightarrow> bool \<Rightarrow> int \<Rightarrow> bool \<Rightarrow> sc_next" where
  "sc_conv_int str st suppress base is_signed =
     (let (si', ival, matched) = sc_scan_int str (sc_skipws str (sc_si st)) base is_signed;
          st = st\<lparr>sc_si := si'\<rparr>
      in if \<not> matched then Brk st else Cont (sc_assign st suppress (\<lambda>k. StLong k ival)))"

definition sc_conv_float :: "c_str \<Rightarrow> sc_state \<Rightarrow> bool \<Rightarrow> sc_next" where
  "sc_conv_float str st suppress =
     (let (si', dval, matched) = sc_scan_float str (sc_skipws str (sc_si st));
          st = st\<lparr>sc_si := si'\<rparr>
      in if \<not> matched then Brk st else Cont (sc_assign st suppress (\<lambda>k. StDouble k (the dval))))"

definition sc_conv_str :: "c_str \<Rightarrow> sc_state \<Rightarrow> bool \<Rightarrow> int \<Rightarrow> sc_next" where
  "sc_conv_str str st suppress width =
     (let si' = sc_skipws str (sc_si st)
      in if \<not> suppress
         then (let (si', sdest) = sc_copy (\<lambda>c. \<not> sc_isws c) str si' width []
               in Cont (st\<lparr>sc_si := si', sc_outs := sc_outs st @ [StStr (sc_ap st) (sdest @ [0])], sc_ap := sc_ap st + 1,
                          sc_count := (if 0 < length sdest then sc_count st + 1 else sc_count st)\<rparr>))
         else Cont (st\<lparr>sc_si := sc_pass (\<lambda>c. \<not> sc_isws c) str si'\<rparr>))"

definition sc_conv_char :: "c_str \<Rightarrow> sc_state \<Rightarrow> bool \<Rightarrow> sc_next" where
  "sc_conv_char str st suppress =
     (if rd str (sc_si st) = 0 then Brk st
      else (let st' = sc_assign st suppress (\<lambda>k. StLong k (rd str (sc_si st)))
            in Cont (st'\<lparr>sc_si := sc_si st + 1\<rparr>)))"

definition sc_conv_set :: "c_str \<Rightarrow> c_str \<Rightarrow> sc_state \<Rightarrow> bool \<Rightarrow> int \<Rightarrow> sc_next" where
  "sc_conv_set str fmt st suppress width =
     (let (negate, f0) = (if rd fmt (sc_fi st) = 94 then (True, sc_fi st + 1) else (False, sc_fi st));
          pat_start = f0;
          f1 = (if rd fmt f0 = 93 then f0 + 1 else f0);
          f2 = sc_set_end fmt f1
      in if rd fmt f2 = 0 then Brk (st\<lparr>sc_fi := f2\<rparr>)
         else (let pat_end = f2; st = st\<lparr>sc_fi := f2 + 1\<rparr>;
                   ok = (\<lambda>c. sc_in_set fmt pat_start pat_end c \<noteq> negate)
               in if \<not> suppress
                  then (let (si', sdest) = sc_copy ok str (sc_si st) width [];
                            st = st\<lparr>sc_si := si', sc_outs := sc_outs st @ [StStr (sc_ap st) (sdest @ [0])],
                                    sc_ap := sc_ap st + 1\<rparr>
                        in if length sdest = 0 then Brk st else Cont (st\<lparr>sc_count := sc_count st + 1\<rparr>))
                  else Cont (st\<lparr>sc_si := sc_pass ok str (sc_si st)\<rparr>)))"

text \<open>The dispatch on the conversion character, which \<open>fi\<close> is already behind.\<close>

definition sc_conv :: "c_str \<Rightarrow> c_str \<Rightarrow> sc_state \<Rightarrow> int \<Rightarrow> bool \<Rightarrow> int \<Rightarrow> sc_next" where
  "sc_conv str fmt st c suppress width =
     (if c = 100 then sc_conv_int str st suppress 10 True
      else if c = 105 then sc_conv_int str st suppress 0 True
      else if c = 117 then sc_conv_int str st suppress 10 False
      else if c = 120 \<or> c = 88 then sc_conv_int str st suppress 16 False
      else if c = 111 then sc_conv_int str st suppress 8 False
      else if c \<in> {102, 70, 103, 71, 101, 69} then sc_conv_float str st suppress
      else if c = 115 then sc_conv_str str st suppress width
      else if c = 99 then sc_conv_char str st suppress
      else if c = 91 then sc_conv_set str fmt st suppress width
      else if c = 37
      then (if rd str (sc_si st) = 37 then Cont (st\<lparr>sc_si := sc_si st + 1\<rparr>) else Brk st)
      else Cont st)"

definition sc_modifier :: "c_str \<Rightarrow> nat \<Rightarrow> nat" where
  "sc_modifier fmt f =
     (if rd fmt f = 108 \<or> rd fmt f = 104 \<or> rd fmt f = 122 \<or> rd fmt f = 106
      then (let f = f + 1 in if rd fmt f = 108 \<or> rd fmt f = 104 then f + 1 else f)
      else f)"

text \<open>A format specifier: what follows the optional \<open>*\<close>, and the whole.\<close>

definition sc_spec_body :: "c_str \<Rightarrow> c_str \<Rightarrow> sc_state \<Rightarrow> bool \<Rightarrow> nat \<Rightarrow> sc_next" where
  "sc_spec_body str fmt st suppress f =
     (let (f, width) = sc_width fmt f 0
      in if rd fmt f = 0 then Brk (st\<lparr>sc_fi := f\<rparr>)
         else (let f = sc_modifier fmt f
               in if rd fmt f = 0 then Brk (st\<lparr>sc_fi := f\<rparr>)
                  else sc_conv str fmt (st\<lparr>sc_fi := f + 1\<rparr>) (rd fmt f) suppress width))"

definition sc_spec :: "c_str \<Rightarrow> c_str \<Rightarrow> sc_state \<Rightarrow> sc_next" where
  "sc_spec str fmt st =
     (let f = sc_fi st + 1
      in if rd fmt f = 0 then Brk (st\<lparr>sc_fi := f\<rparr>)
         else if rd fmt f = 42
         then (if rd fmt (f + 1) = 0 then Brk (st\<lparr>sc_fi := f + 1\<rparr>)
               else sc_spec_body str fmt st True (f + 1))
         else sc_spec_body str fmt st False f)"

definition sc_step :: "c_str \<Rightarrow> c_str \<Rightarrow> sc_state \<Rightarrow> sc_next" where
  "sc_step str fmt st =
     (if sc_isws (rd fmt (sc_fi st))
      then Cont (st\<lparr>sc_si := sc_skipws str (sc_si st), sc_fi := sc_fi st + 1\<rparr>)
      else if rd fmt (sc_fi st) \<noteq> 37
      then (if rd str (sc_si st) = rd fmt (sc_fi st) then Cont (st\<lparr>sc_si := sc_si st + 1, sc_fi := sc_fi st + 1\<rparr>)
            else Brk st)
      else sc_spec str fmt st)"

text \<open>Every conversion moves forward in the format, so the loop ends.\<close>

fun nxt :: "sc_next \<Rightarrow> sc_state" where
  "nxt (Cont st) = st"
| "nxt (Brk st) = st"

lemma sc_assign_fields [simp]:
  "sc_fi (sc_assign st b v) = sc_fi st" "sc_si (sc_assign st b v) = sc_si st"
  by (simp_all add: sc_assign_def)

lemma sc_width_ge: "f \<le> fst (sc_width fmt f w)"
  by (induction fmt f w rule: sc_width.induct) (subst sc_width.simps, auto)

lemma sc_modifier_ge: "f \<le> sc_modifier fmt f"
  by (simp add: sc_modifier_def Let_def)

lemma sc_set_end_ge: "f \<le> sc_set_end fmt f"
  by (induction fmt f rule: sc_set_end.induct) (subst sc_set_end.simps, auto)

lemma sc_conv_fi_simple:
  "sc_fi (nxt (sc_conv_int str st b base sg)) = sc_fi st"
  "sc_fi (nxt (sc_conv_float str st b)) = sc_fi st"
  "sc_fi (nxt (sc_conv_str str st b w)) = sc_fi st"
  "sc_fi (nxt (sc_conv_char str st b)) = sc_fi st"
  by (simp_all add: sc_conv_int_def sc_conv_float_def sc_conv_str_def sc_conv_char_def Let_def
      split: prod.split)

lemma sc_conv_set_fi: "sc_fi st \<le> sc_fi (nxt (sc_conv_set str fmt st b w))"
proof -
  obtain ng f0 where f0: "(if rd fmt (sc_fi st) = 94 then (True, sc_fi st + 1) else (False, sc_fi st)) = (ng, f0)"
    by fastforce
  define f2 where "f2 = sc_set_end fmt (if rd fmt f0 = 93 then f0 + 1 else f0)"
  have "sc_fi st \<le> f0" using f0 by (auto split: if_splits)
  also have "f0 \<le> f2" unfolding f2_def by (rule order_trans [OF _ sc_set_end_ge]) simp
  finally show ?thesis
    by (simp add: sc_conv_set_def f0 f2_def [symmetric] Let_def split: prod.split)
qed

lemma sc_conv_fi: "sc_fi st \<le> sc_fi (nxt (sc_conv str fmt st c b w))"
  by (simp add: sc_conv_def sc_conv_fi_simple sc_conv_set_fi)

lemma sc_spec_body_fi: "f \<le> sc_fi (nxt (sc_spec_body str fmt st b f))"
proof -
  obtain f2 w where f2: "sc_width fmt f 0 = (f2, w)" by fastforce
  have "f \<le> f2" using sc_width_ge [of f fmt 0] f2 by simp
  moreover have "f2 \<le> sc_modifier fmt f2" by (rule sc_modifier_ge)
  ultimately show ?thesis
    using sc_conv_fi [of "st\<lparr>sc_fi := sc_modifier fmt f2 + 1\<rparr>" str fmt "rd fmt (sc_modifier fmt f2)" b w]
    by (simp add: sc_spec_body_def f2 Let_def)
qed

lemma sc_spec_fi: "sc_fi st < sc_fi (nxt (sc_spec str fmt st))"
  using sc_spec_body_fi [of "sc_fi st + 1" str fmt st False] sc_spec_body_fi [of "sc_fi st + 2" str fmt st True]
  by (simp add: sc_spec_def Let_def)

lemma sc_step_fi: "sc_step str fmt st = Cont st' \<Longrightarrow> sc_fi st < sc_fi st'"
  using sc_spec_fi [of st str fmt] by (auto simp: sc_step_def split: if_splits)

function sc_loop :: "c_str \<Rightarrow> c_str \<Rightarrow> sc_state \<Rightarrow> sc_state" where
  "sc_loop str fmt st =
     (if rd fmt (sc_fi st) \<noteq> 0
      then (case sc_step str fmt st of Cont st' \<Rightarrow> sc_loop str fmt st' | Brk st' \<Rightarrow> st')
      else st)"
  by pat_completeness auto
termination
  by (relation "measure (\<lambda>(str, fmt, st). length fmt - sc_fi st)") (auto dest!: rd_nonzero_less sc_step_fi)

declare sc_loop.simps [simp del]

definition sc_init :: sc_state where
  "sc_init = \<lparr>sc_fi = 0, sc_si = 0, sc_count = 0, sc_ap = 0, sc_outs = []\<rparr>"

definition sscanf :: "c_str \<Rightarrow> c_str \<Rightarrow> int \<times> sc_store list" where
  "sscanf str fmt =
     (let st = sc_loop str fmt sc_init
      in (if sc_count st = 0 \<and> rd str (sc_si st) = 0 then 0 - 1 else sc_count st, sc_outs st))"

end
