(* ===== verification/SscanfProps.thy ===== *)
theory SscanfProps
  imports Sscanf
begin

section \<open>What \<open>libc/sscanf.c\<close> guarantees\<close>

text \<open>
  Facts about the scanner of theory \<open>Sscanf\<close>. The interface \<open>scanner\<close> states the
  contract that every scanning routine keeps: started at or before a terminator it stops
  at or before it, and it does not depend on any byte behind it. It is interpreted on
  every routine of the file and carries the proof that \<open>sscanf\<close> as a whole is
  independent of what lies behind the two strings, although the non-short-circuit tests
  of the code read there.
\<close>

subsection \<open>The contract of the scanning routines\<close>

definition agree :: "nat \<Rightarrow> c_str \<Rightarrow> c_str \<Rightarrow> bool" where
  "agree n s t \<longleftrightarrow> rd s n = 0 \<and> (\<forall>j \<le> n. rd t j = rd s j)"

lemma agree_rd: "agree n s t \<Longrightarrow> j \<le> n \<Longrightarrow> rd t j = rd s j"
  by (simp add: agree_def)

lemma agree_less: "agree n s t \<Longrightarrow> j \<le> n \<Longrightarrow> rd s j \<noteq> 0 \<Longrightarrow> Suc j \<le> n"
  by (metis agree_def le_neq_implies_less Suc_leI)

locale scanner =
  fixes scan :: "c_str \<Rightarrow> nat \<Rightarrow> nat \<times> 'r"
  assumes scan_local: "agree n s t \<Longrightarrow> i \<le> n \<Longrightarrow> scan t i = scan s i"
    and scan_ge: "agree n s t \<Longrightarrow> i \<le> n \<Longrightarrow> i \<le> fst (scan s i)"
    and scan_le: "agree n s t \<Longrightarrow> i \<le> n \<Longrightarrow> fst (scan s i) \<le> n"
begin

lemma run:
  assumes "agree n s t" and "i \<le> n"
  obtains j r where "scan s i = (j, r)" and "scan t i = (j, r)" and "i \<le> j" and "j \<le> n"
  using scan_local [OF assms] scan_ge [OF assms] scan_le [OF assms]
  by (cases "scan s i") auto

lemma andThen:
  assumes "\<And>r. scanner (g r)"
  shows "scanner (\<lambda>s i. case scan s i of (j, r) \<Rightarrow> g r s j)"
proof
  fix n s t and i :: nat
  assume a: "agree n s t" and i: "i \<le> n"
  obtain j r where e: "scan s i = (j, r)" "scan t i = (j, r)" "i \<le> j" "j \<le> n"
    using run [OF a i] .
  show "(case scan t i of (j, r) \<Rightarrow> g r t j) = (case scan s i of (j, r) \<Rightarrow> g r s j)"
    using e scanner.scan_local [OF assms a e(4)] by simp
  show "i \<le> fst (case scan s i of (j, r) \<Rightarrow> g r s j)"
    using e scanner.scan_ge [OF assms a e(4), of r] by simp
  show "fst (case scan s i of (j, r) \<Rightarrow> g r s j) \<le> n"
    using e scanner.scan_le [OF assms a e(4), of r] by simp
qed

end

lemma scanner_loop:
  assumes unf: "\<And>s i a. f a s i = (if rd s i \<noteq> 0 \<and> P a (rd s i) then f (h a (rd s i)) s (i + 1) else (i, k a))"
  shows "scanner (f a)"
proof -
  have main: "f a t i = f a s i \<and> i \<le> fst (f a s i) \<and> fst (f a s i) \<le> n"
    if "agree n s t" and "i \<le> n" for a n s t i
    using that
  proof (induction "n - i" arbitrary: i a rule: less_induct)
    case less
    note r = agree_rd [OF less.prems(1) less.prems(2)]
    show ?case
    proof (cases "rd s i \<noteq> 0 \<and> P a (rd s i)")
      case True
      then have lt: "i + 1 \<le> n" using agree_less [OF less.prems] by simp
      have "n - (i + 1) < n - i" using lt by simp
      from less.hyps [OF this less.prems(1) lt] show ?thesis
        using True by (auto simp: unf [of a _ i] r dest: Suc_leD)
    next
      case False
      then show ?thesis using less.prems(2) by (auto simp: unf [of a _ i] r)
    qed
  qed
  show ?thesis by unfold_locales (use main in blast)+
qed


lemma scanner_return: "scanner (\<lambda>s i. (i, x))"
  by unfold_locales auto

lemma scanner_map:
  assumes "scanner f"
  shows "scanner (\<lambda>s i. case f s i of (j, r) \<Rightarrow> (j, h r))"
  by (rule scanner.andThen [OF assms scanner_return])

interpretation skipws: scanner "\<lambda>s i. (sc_skipws s i, ())"
  by (rule scanner_loop [where f = "\<lambda>_ s i. (sc_skipws s i, ())" and P = "\<lambda>_. sc_isws"
        and h = "\<lambda>a _. a" and k = "\<lambda>_. ()"])
    (subst sc_skipws.simps, auto dest: sc_class_nonzero)

interpretation exp_digits: scanner "\<lambda>s i. fl_exp_digits s i v" for v
  by (rule scanner_loop [where f = "\<lambda>v s i. fl_exp_digits s i v" and P = "\<lambda>_. sc_isdigit"
        and h = "\<lambda>v c. s32 (v * 10 + (c - 48))" and k = "\<lambda>v. v"])
    (subst fl_exp_digits.simps, auto dest: sc_class_nonzero)

interpretation fl_digits: scanner "\<lambda>s i. fl_loop s i a" for a
  by (rule scanner_loop [where f = "\<lambda>a s i. fl_loop s i a"
        and P = "\<lambda>a c. sc_isdigit c \<or> c = 46 \<and> \<not> fl_in_frac a"
        and h = "\<lambda>a c. if sc_isdigit c then fl_digit a c else a\<lparr>fl_in_frac := True\<rparr>" and k = "\<lambda>a. a"])
    (subst fl_loop.simps, auto)

interpretation copy: scanner "\<lambda>s i. sc_copy ok s i w d" for ok w d
  by (rule scanner_loop [where f = "\<lambda>d s i. sc_copy ok s i w d" and P = "\<lambda>_. ok"
        and h = "\<lambda>d c. if w = 0 \<or> int (length d) < w - 1 then d @ [c] else d" and k = "\<lambda>d. d"])
    (subst sc_copy.simps, auto)

interpretation pass: scanner "\<lambda>s i. (sc_pass ok s i, ())" for ok
  by (rule scanner_loop [where f = "\<lambda>_ s i. (sc_pass ok s i, ())" and P = "\<lambda>_. ok"
        and h = "\<lambda>a _. a" and k = "\<lambda>_. ()"])
    (subst sc_pass.simps, auto)

definition sc_acc :: "int \<Rightarrow> bool \<Rightarrow> int \<times> bool \<times> bool \<Rightarrow> int \<Rightarrow> int \<times> bool \<times> bool" where
  "sc_acc base sg a c =
     (let ov = (if sg \<and> base = 10 \<and> \<not> snd (snd a)
                then (LLONG_MAX - the (sc_digit base c)) sdiv 10 < fst a else snd (snd a))
      in (if \<not> ov then s64 (fst a * base + the (sc_digit base c)) else fst a, True, ov))"

interpretation int_digits: scanner "\<lambda>s i. sc_int_loop s i base sg (fst a) (fst (snd a)) (snd (snd a))" for base sg a
  by (rule scanner_loop [where f = "\<lambda>a s i. sc_int_loop s i base sg (fst a) (fst (snd a)) (snd (snd a))"
        and P = "\<lambda>_ c. sc_digit base c \<noteq> None" and h = "sc_acc base sg" and k = "\<lambda>a. a"])
    (subst sc_int_loop.simps, auto simp: sc_acc_def Let_def)

lemma scanner_sign: "scanner (\<lambda>s i. case sc_sign s i sg of (ng, j) \<Rightarrow> (j, ng))"
  by unfold_locales (auto simp: sc_sign_def agree_rd dest: agree_less)

lemma scanner_prefix: "scanner (\<lambda>s i. case sc_prefix s i base of (b, j, x) \<Rightarrow> (j, b, x))"
proof unfold_locales
  fix n s t and i :: nat
  assume a: "agree n s t" and i: "i \<le> n"
  have 1: "rd s i = 48 \<Longrightarrow> Suc i \<le> n" using agree_less [OF a i] by simp
  have 2: "rd s i = 48 \<Longrightarrow> rd s (Suc i) = 120 \<or> rd s (Suc i) = 88 \<Longrightarrow> Suc (Suc i) \<le> n"
    using agree_less [OF a 1] by auto
  show "(case sc_prefix t i base of (b, j, x) \<Rightarrow> (j, b, x)) = (case sc_prefix s i base of (b, j, x) \<Rightarrow> (j, b, x))"
    using a i 1 by (auto simp: sc_prefix_def agree_rd)
  show "i \<le> fst (case sc_prefix s i base of (b, j, x) \<Rightarrow> (j, b, x))"
    by (auto simp: sc_prefix_def)
  show "fst (case sc_prefix s i base of (b, j, x) \<Rightarrow> (j, b, x)) \<le> n"
    using i 1 2 by (auto simp: sc_prefix_def)
qed


interpretation scan_int: scanner "\<lambda>s i. sc_scan_int s i base sg" for base sg
proof
  fix n s t and i :: nat
  assume a: "agree n s t" and i: "i \<le> n"
  obtain j ng where 1: "sc_sign s i sg = (ng, j)" "sc_sign t i sg = (ng, j)" "i \<le> j" "j \<le> n"
    using scanner.run [OF scanner_sign a i, of sg] by (fastforce split: prod.splits)
  obtain k b x where 2: "sc_prefix s j base = (b, k, x)" "sc_prefix t j base = (b, k, x)" "j \<le> k" "k \<le> n"
    using scanner.run [OF scanner_prefix a 1(4), of base] by (fastforce split: prod.splits)
  obtain l v y ov where 3: "sc_int_loop s k b sg 0 x False = (l, v, y, ov)"
      "sc_int_loop t k b sg 0 x False = (l, v, y, ov)" "k \<le> l" "l \<le> n"
    using int_digits.run [OF a 2(4), of b sg "(0, x, False)"] by (metis fst_conv prod.exhaust_sel snd_conv)
  show "sc_scan_int t i base sg = sc_scan_int s i base sg"
    and "i \<le> fst (sc_scan_int s i base sg)" and "fst (sc_scan_int s i base sg) \<le> n"
    using 1 2 3 by (auto simp: sc_scan_int_def)
qed


lemma fl_exponent_sign:
  "fl_exponent str si val =
     (if rd str si = 101 \<or> rd str si = 69
      then (let (exp_neg, si) = sc_sign str (Suc si) True; (si, exp_val) = fl_exp_digits str si 0
            in (si, if exp_neg then fl_scale10 (\<lambda>v. d_div v d_ten) val exp_val
                    else fl_scale10 (\<lambda>v. d_mul v d_ten) val exp_val))
      else (si, val))"
  by (simp add: fl_exponent_def sc_sign_def)

interpretation exponent: scanner "\<lambda>s i. fl_exponent s i v" for v
proof
  fix n s t and i :: nat
  assume a: "agree n s t" and i: "i \<le> n"
  note r = agree_rd [OF a i]
  have "fl_exponent t i v = fl_exponent s i v \<and> i \<le> fst (fl_exponent s i v) \<and> fst (fl_exponent s i v) \<le> n"
  proof (cases "rd s i = 101 \<or> rd s i = 69")
    case True
    then have i1: "Suc i \<le> n" using agree_less [OF a i] by auto
    obtain j ng where 1: "sc_sign s (Suc i) True = (ng, j)" "sc_sign t (Suc i) True = (ng, j)" "Suc i \<le> j" "j \<le> n"
      using scanner.run [OF scanner_sign a i1, of True] by (fastforce split: prod.splits)
    obtain k e where 2: "fl_exp_digits s j 0 = (k, e)" "fl_exp_digits t j 0 = (k, e)" "j \<le> k" "k \<le> n"
      using exp_digits.run [OF a 1(4)] .
    show ?thesis using True 1 2 by (simp add: fl_exponent_sign r)
  next
    case False
    then show ?thesis using i by (simp add: fl_exponent_sign r)
  qed
  then show "fl_exponent t i v = fl_exponent s i v" and "i \<le> fst (fl_exponent s i v)"
    and "fst (fl_exponent s i v) \<le> n" by auto
qed

fun ci_word :: "c_str \<Rightarrow> nat \<Rightarrow> int list \<Rightarrow> bool" where
  "ci_word s i [] \<longleftrightarrow> True"
| "ci_word s i (l # ls) \<longleftrightarrow> ci_eq (rd s i) l \<and> ci_word s (Suc i) ls"

lemma ci_word_agree:
  assumes "agree n s t"
  shows "i \<le> n \<Longrightarrow> \<forall>l \<in> set ls. 32 < l \<Longrightarrow> ci_word t i ls = ci_word s i ls \<and> (ci_word s i ls \<longrightarrow> i + length ls \<le> n)"
proof (induction ls arbitrary: i)
  case (Cons l ls)
  show ?case
  proof (cases "ci_eq (rd s i) l")
    case True
    then have "Suc i \<le> n" using agree_less [OF assms Cons.prems(1)] Cons.prems(2) by (auto simp: ci_eq_def)
    with Cons.IH [of "Suc i"] Cons.prems True show ?thesis by (simp add: agree_rd [OF assms])
  next
    case False
    then show ?thesis using Cons.prems by (simp add: agree_rd [OF assms])
  qed
qed simp

lemma ci_word_unfold:
  "ci_word s i [a, b, c] \<longleftrightarrow> ci_eq (rd s i) a \<and> ci_eq (rd s (i + 1)) b \<and> ci_eq (rd s (i + 2)) c"
  "ci_word s i [a, b, c, d, e] \<longleftrightarrow> ci_eq (rd s i) a \<and> ci_eq (rd s (i + 1)) b \<and> ci_eq (rd s (i + 2)) c
     \<and> ci_eq (rd s (i + 3)) d \<and> ci_eq (rd s (i + 4)) e"
  by (simp_all add: eval_nat_numeral)

lemma sc_sign_True:
  "sc_sign s i True = (if rd s i = 45 then (True, i + 1) else if rd s i = 43 then (False, i + 1) else (False, i))"
  by (simp add: sc_sign_def)

lemma sc_scan_float_words:
  "sc_scan_float str i =
     (let (neg, si) = sc_sign str i True
      in if ci_word str si [105, 110, 102]
         then (let val = d_div d_one d_zero; val = (if neg then d_sub d_zero val else val); si = si + 3;
                   si = (if ci_word str si [105, 110, 105, 116, 121] then si + 5 else si)
               in (si, Some val, True))
         else if ci_word str si [110, 97, 110] then (si + 3, Some (d_div d_zero d_zero), True)
         else (let (si, a) = fl_loop str si fl_init
               in if \<not> fl_any a then (si, None, False)
                  else (let val = d_add (d_of_long (fl_int a))
                                    (d_div (d_of_long (fl_frac a)) (d_of_long (fl_scale a)));
                            (si, val) = fl_exponent str si val;
                            val = (if neg then d_sub d_zero val else val)
                        in (si, Some val, True))))"
  unfolding sc_scan_float_def sc_sign_True ci_word_unfold Let_def ..

interpretation scan_float: scanner sc_scan_float
proof
  fix n s t and i :: nat
  assume a: "agree n s t" and i: "i \<le> n"
  obtain j ng where 1: "sc_sign s i True = (ng, j)" "sc_sign t i True = (ng, j)" "i \<le> j" "j \<le> n"
    using scanner.run [OF scanner_sign a i, of True] by (fastforce split: prod.splits)
  note w = ci_word_agree [OF a 1(4)]
  obtain k ac where 2: "fl_loop s j fl_init = (k, ac)" "fl_loop t j fl_init = (k, ac)" "j \<le> k" "k \<le> n"
    using fl_digits.run [OF a 1(4)] .
  define v where "v = d_add (d_of_long (fl_int ac)) (d_div (d_of_long (fl_frac ac)) (d_of_long (fl_scale ac)))"
  obtain l x where 3: "fl_exponent s k v = (l, x)" "fl_exponent t k v = (l, x)" "k \<le> l" "l \<le> n"
    using exponent.run [OF a 2(4)] .
  have inf: "ci_word t j [105, 110, 102] = ci_word s j [105, 110, 102]"
    and inf3: "ci_word s j [105, 110, 102] \<Longrightarrow> j + 3 \<le> n"
    and nan: "ci_word t j [110, 97, 110] = ci_word s j [110, 97, 110]"
    and nan3: "ci_word s j [110, 97, 110] \<Longrightarrow> j + 3 \<le> n"
    using w [of "[105, 110, 102]"] w [of "[110, 97, 110]"] by simp_all
  have inity: "ci_word t (j + 3) [105, 110, 105, 116, 121] = ci_word s (j + 3) [105, 110, 105, 116, 121]
     \<and> (ci_word s (j + 3) [105, 110, 105, 116, 121] \<longrightarrow> j + 8 \<le> n)" if "j + 3 \<le> n"
    using ci_word_agree [OF a that, of "[105, 110, 105, 116, 121]"] by (simp del: ci_word.simps add: add.commute)
  show "sc_scan_float t i = sc_scan_float s i" and "i \<le> fst (sc_scan_float s i)"
    and "fst (sc_scan_float s i) \<le> n"
    using 1 2 3 inf inf3 nan nan3 inity
    by (auto simp: sc_scan_float_words v_def Let_def simp del: ci_word.simps split del: if_split split: if_splits)
qed

subsection \<open>The format routines and the conversions\<close>

interpretation width: scanner "\<lambda>f i. sc_width f i w" for w
  by (rule scanner_loop [where f = "\<lambda>w f i. sc_width f i w" and P = "\<lambda>_. sc_isdigit"
        and h = "\<lambda>w c. s32 (w * 10 + (c - 48))" and k = "\<lambda>w. w"])
    (subst sc_width.simps, auto dest: sc_class_nonzero)

interpretation set_end: scanner "\<lambda>f i. (sc_set_end f i, ())"
  by (rule scanner_loop [where f = "\<lambda>_ f i. (sc_set_end f i, ())" and P = "\<lambda>_ c. c \<noteq> 93"
        and h = "\<lambda>a _. a" and k = "\<lambda>_. ()"])
    (subst sc_set_end.simps, auto)

interpretation modifier: scanner "\<lambda>f i. (sc_modifier f i, ())"
proof
  fix n s t and i :: nat
  assume a: "agree n s t" and i: "i \<le> n"
  have 1: "rd s i \<noteq> 0 \<Longrightarrow> Suc i \<le> n" using agree_less [OF a i] .
  have 2: "rd s i \<noteq> 0 \<Longrightarrow> rd s (Suc i) \<noteq> 0 \<Longrightarrow> Suc (Suc i) \<le> n" using agree_less [OF a 1] .
  show "(sc_modifier t i, ()) = (sc_modifier s i, ())"
    using 1 by (auto simp: sc_modifier_def agree_rd [OF a] i)
  show "i \<le> fst (sc_modifier s i, ())" by (simp add: sc_modifier_ge)
  show "fst (sc_modifier s i, ()) \<le> n" using 1 2 i by (auto simp: sc_modifier_def Let_def)
qed

lemma sc_in_set_loop_agree:
  "agree m f g \<Longrightarrow> e \<le> m \<Longrightarrow> sc_in_set_loop g p e c = sc_in_set_loop f p e c"
proof (induction f p e c rule: sc_in_set_loop.induct)
  case (1 f p e c)
  have r: "j < e \<Longrightarrow> rd g j = rd f j" for j using 1(3,4) by (simp add: agree_rd)
  show ?case
    using 1(1,2) [OF _ _ _ 1(3,4)] r [of p] r [of "p + 1"] r [of "p + 2"]
    by (subst (1 2) sc_in_set_loop.simps) auto
qed

lemma sc_in_set_agree:
  "agree m f g \<Longrightarrow> e \<le> m \<Longrightarrow> sc_in_set g p e c = sc_in_set f p e c"
  by (auto simp: sc_in_set_def sc_in_set_loop_agree agree_rd)

definition inside :: "nat \<Rightarrow> nat \<Rightarrow> sc_state \<Rightarrow> bool" where
  "inside n m st \<longleftrightarrow> sc_si st \<le> n \<and> sc_fi st \<le> m"

lemma skipws_agree:
  assumes "agree n str str'"
  shows "i \<le> n \<Longrightarrow> sc_skipws str' i = sc_skipws str i" "i \<le> n \<Longrightarrow> sc_skipws str i \<le> n"
  using skipws.scan_local [OF assms] skipws.scan_le [OF assms] by auto

lemma copy_pass_agree:
  assumes a: "agree n str str'" and i: "i \<le> n"
  shows "sc_pass ok str' i = sc_pass ok str i" "sc_pass ok str i \<le> n"
    and "sc_copy ok str' i w d = sc_copy ok str i w d" "fst (sc_copy ok str i w d) \<le> n"
  using pass.scan_local [OF a i] pass.scan_le [OF a i] copy.scan_local [OF a i] copy.scan_le [OF a i]
  by auto

lemma conv_int_agree:
  assumes a: "agree n str str'" and st: "inside n m st"
  shows "sc_conv_int str' st b base sg = sc_conv_int str st b base sg"
    and "inside n m (nxt (sc_conv_int str st b base sg))"
proof -
  have i: "sc_skipws str (sc_si st) \<le> n" using st by (simp add: skipws_agree [OF a] inside_def)
  obtain j v x where "sc_scan_int str (sc_skipws str (sc_si st)) base sg = (j, v, x)"
      "sc_scan_int str' (sc_skipws str (sc_si st)) base sg = (j, v, x)" "j \<le> n"
    using scan_int.run [OF a i] by (metis prod.exhaust_sel)
  then show "sc_conv_int str' st b base sg = sc_conv_int str st b base sg"
    and "inside n m (nxt (sc_conv_int str st b base sg))"
    using st by (simp_all add: sc_conv_int_def skipws_agree [OF a] inside_def Let_def)
qed

lemma conv_float_agree:
  assumes a: "agree n str str'" and st: "inside n m st"
  shows "sc_conv_float str' st b = sc_conv_float str st b" and "inside n m (nxt (sc_conv_float str st b))"
proof -
  have i: "sc_skipws str (sc_si st) \<le> n" using st by (simp add: skipws_agree [OF a] inside_def)
  obtain j v x where "sc_scan_float str (sc_skipws str (sc_si st)) = (j, v, x)"
      "sc_scan_float str' (sc_skipws str (sc_si st)) = (j, v, x)" "j \<le> n"
    using scan_float.run [OF a i] by (metis prod.exhaust_sel)
  then show "sc_conv_float str' st b = sc_conv_float str st b" and "inside n m (nxt (sc_conv_float str st b))"
    using st by (simp_all add: sc_conv_float_def skipws_agree [OF a] inside_def Let_def)
qed

lemma conv_str_agree:
  assumes a: "agree n str str'" and st: "inside n m st"
  shows "sc_conv_str str' st b w = sc_conv_str str st b w" and "inside n m (nxt (sc_conv_str str st b w))"
proof -
  have i: "sc_skipws str (sc_si st) \<le> n" "sc_si st \<le> n" using st by (simp_all add: skipws_agree [OF a] inside_def)
  show "sc_conv_str str' st b w = sc_conv_str str st b w" and "inside n m (nxt (sc_conv_str str st b w))"
    using st copy_pass_agree [OF a i(1)] i
    by (simp_all add: sc_conv_str_def skipws_agree [OF a] inside_def Let_def split: prod.split) (metis fst_conv)
qed

lemma conv_char_agree:
  assumes a: "agree n str str'" and st: "inside n m st"
  shows "sc_conv_char str' st b = sc_conv_char str st b" and "inside n m (nxt (sc_conv_char str st b))"
  using st agree_less [OF a, of "sc_si st"]
  by (simp_all add: sc_conv_char_def inside_def agree_rd [OF a] Let_def)

lemma conv_set_agree:
  assumes a: "agree n str str'" and fmt: "agree m fmt fmt'" and st: "inside n m st"
  shows "sc_conv_set str' fmt' st b w = sc_conv_set str fmt st b w"
    and "inside n m (nxt (sc_conv_set str fmt st b w))"
proof -
  have i: "sc_si st \<le> n" and f: "sc_fi st \<le> m" using st by (simp_all add: inside_def)
  obtain ng f0 where f0: "(if rd fmt (sc_fi st) = 94 then (True, sc_fi st + 1) else (False, sc_fi st)) = (ng, f0)"
    by fastforce
  then have f0m: "f0 \<le> m" using f agree_less [OF fmt f] by (auto split: if_splits)
  define f1 where "f1 = (if rd fmt f0 = 93 then f0 + 1 else f0)"
  have f1m: "f1 \<le> m" using f0m agree_less [OF fmt f0m] by (auto simp: f1_def)
  define f2 where "f2 = sc_set_end fmt f1"
  have f2m: "f2 \<le> m" "sc_set_end fmt' f1 = f2"
    using set_end.scan_le [OF fmt f1m] set_end.scan_local [OF fmt f1m] by (simp_all add: f2_def)
  have f3m: "rd fmt f2 \<noteq> 0 \<Longrightarrow> Suc f2 \<le> m" using agree_less [OF fmt f2m(1)] .
  define ok where "ok = (\<lambda>c. sc_in_set fmt f0 f2 c \<noteq> ng)"
  have ok': "(\<lambda>c. sc_in_set fmt' f0 f2 c \<noteq> ng) = ok"
    by (simp add: ok_def sc_in_set_agree [OF fmt f2m(1)])
  obtain j d where e: "sc_copy ok str (sc_si st) w [] = (j, d)" by fastforce
  have jn: "j \<le> n" using copy_pass_agree(4) [OF a i, of ok w "[]"] e by simp
  have r: "rd fmt' (sc_fi st) = rd fmt (sc_fi st)" "rd fmt' f0 = rd fmt f0" "rd fmt' f2 = rd fmt f2"
    using f f0m f2m by (simp_all add: agree_rd [OF fmt])
  show "sc_conv_set str' fmt' st b w = sc_conv_set str fmt st b w"
    unfolding sc_conv_set_def r(1) f0 Let_def prod.case r(2) f1_def [symmetric] f2m(2) f2_def [symmetric] r(3)
      ok' ok_def [symmetric] sc_state.select_convs sc_state.update_convs
    by (simp add: copy_pass_agree [OF a i])
  show "inside n m (nxt (sc_conv_set str fmt st b w))"
    unfolding sc_conv_set_def f0 Let_def prod.case f1_def [symmetric] f2_def [symmetric] ok_def [symmetric]
    using e jn f3m f2m(1) i by (simp add: inside_def copy_pass_agree(2) [OF a i])
qed

lemma conv_agree:
  assumes a: "agree n str str'" and fmt: "agree m fmt fmt'" and st: "inside n m st"
  shows "sc_conv str' fmt' st c b w = sc_conv str fmt st c b w" and "inside n m (nxt (sc_conv str fmt st c b w))"
proof -
  note all = conv_int_agree [OF a st] conv_float_agree [OF a st] conv_str_agree [OF a st] conv_char_agree [OF a st]
    conv_set_agree [OF a fmt st]
  have "rd str' (sc_si st) = rd str (sc_si st)" and "rd str (sc_si st) = 37 \<Longrightarrow> Suc (sc_si st) \<le> n"
    using st agree_rd [OF a] agree_less [OF a, of "sc_si st"] by (auto simp: inside_def)
  with st all show "sc_conv str' fmt' st c b w = sc_conv str fmt st c b w"
    and "inside n m (nxt (sc_conv str fmt st c b w))"
    by (simp_all add: sc_conv_def inside_def)
qed

lemma spec_body_agree:
  assumes a: "agree n str str'" and fmt: "agree m fmt fmt'" and st: "inside n m st" and f: "f \<le> m"
  shows "sc_spec_body str' fmt' st b f = sc_spec_body str fmt st b f"
    and "inside n m (nxt (sc_spec_body str fmt st b f))"
proof -
  obtain f1 w where 1: "sc_width fmt f 0 = (f1, w)" "sc_width fmt' f 0 = (f1, w)" "f1 \<le> m"
    using width.run [OF fmt f] by metis
  have 2: "sc_modifier fmt' f1 = sc_modifier fmt f1" "sc_modifier fmt f1 \<le> m"
    using modifier.scan_local [OF fmt 1(3)] modifier.scan_le [OF fmt 1(3)] by auto
  show "sc_spec_body str' fmt' st b f = sc_spec_body str fmt st b f"
    and "inside n m (nxt (sc_spec_body str fmt st b f))"
    using 1 2 st conv_agree [OF a fmt, of "st\<lparr>sc_fi := sc_modifier fmt f1 + 1\<rparr>"] agree_less [OF fmt 2(2)]
    by (simp_all add: sc_spec_body_def agree_rd [OF fmt] inside_def Let_def)
qed

lemma step_agree:
  assumes a: "agree n str str'" and fmt: "agree m fmt fmt'" and st: "inside n m st" and nz: "rd fmt (sc_fi st) \<noteq> 0"
  shows "sc_step str' fmt' st = sc_step str fmt st" and "inside n m (nxt (sc_step str fmt st))"
proof -
  have i: "sc_si st \<le> n" and f: "sc_fi st \<le> m" using st by (simp_all add: inside_def)
  have f1: "Suc (sc_fi st) \<le> m" using agree_less [OF fmt f nz] .
  have f2: "rd fmt (Suc (sc_fi st)) \<noteq> 0 \<Longrightarrow> Suc (Suc (sc_fi st)) \<le> m" using agree_less [OF fmt f1] .
  have s1: "rd str (sc_si st) \<noteq> 0 \<Longrightarrow> Suc (sc_si st) \<le> n" using agree_less [OF a i] .
  have r: "rd str' (sc_si st) = rd str (sc_si st)" "rd fmt' (sc_fi st) = rd fmt (sc_fi st)"
    "rd fmt' (Suc (sc_fi st)) = rd fmt (Suc (sc_fi st))"
    using i f f1 by (simp_all add: agree_rd [OF a] agree_rd [OF fmt])
  have r2: "rd fmt (Suc (sc_fi st)) \<noteq> 0 \<Longrightarrow> rd fmt' (Suc (Suc (sc_fi st))) = rd fmt (Suc (Suc (sc_fi st)))"
    using f2 by (simp add: agree_rd [OF fmt])
  have "sc_spec str' fmt' st = sc_spec str fmt st" and "inside n m (nxt (sc_spec str fmt st))"
    using spec_body_agree [OF a fmt st f1] spec_body_agree [OF a fmt st f2] f1 f2 st r r2
    by (simp_all add: sc_spec_def Let_def inside_def)
  then show "sc_step str' fmt' st = sc_step str fmt st" and "inside n m (nxt (sc_step str fmt st))"
    using skipws_agree [OF a i] r f1 s1 st nz by (simp_all add: sc_step_def inside_def)
qed

lemma loop_agree:
  assumes a: "agree n str str'" and fmt: "agree m fmt fmt'"
  shows "inside n m st \<Longrightarrow> sc_loop str' fmt' st = sc_loop str fmt st \<and> inside n m (sc_loop str fmt st)"
proof (induction "length fmt - sc_fi st" arbitrary: st rule: less_induct)
  case less
  show ?case
  proof (cases "rd fmt (sc_fi st) = 0")
    case True
    then show ?thesis
      using less.prems agree_rd [OF fmt, of "sc_fi st"] by (simp add: sc_loop.simps [of _ _ st] inside_def)
  next
    case False
    note s = step_agree [OF a fmt less.prems False]
    have r: "rd fmt' (sc_fi st) = rd fmt (sc_fi st)" using less.prems agree_rd [OF fmt] by (simp add: inside_def)
    show ?thesis
    proof (cases "sc_step str fmt st")
      case (Cont st')
      then have "length fmt - sc_fi st' < length fmt - sc_fi st"
        using sc_step_fi [OF Cont] rd_nonzero_less [OF False] by simp
      from less.hyps [OF this] s Cont False r show ?thesis by (simp add: sc_loop.simps [of _ _ st])
    next
      case (Brk st')
      with s False r show ?thesis by (simp add: sc_loop.simps [of _ _ st])
    qed
  qed
qed

subsection \<open>Argument order\<close>

fun store_arg :: "sc_store \<Rightarrow> nat" where
  "store_arg (StLong k _) = k"
| "store_arg (StDouble k _) = k"
| "store_arg (StStr k _) = k"

definition sc_wf :: "sc_state \<Rightarrow> bool" where
  "sc_wf st \<longleftrightarrow> map store_arg (sc_outs st) = [0..<sc_ap st] \<and> 0 \<le> sc_count st \<and> sc_count st \<le> int (sc_ap st)"

lemma sc_wf_assign: "sc_wf st \<Longrightarrow> (\<And>k. store_arg (v k) = k) \<Longrightarrow> sc_wf (sc_assign st b v)"
  by (simp add: sc_wf_def sc_assign_def)

lemma sc_wf_update [simp]:
  "sc_wf (st\<lparr>sc_si := i\<rparr>) = sc_wf st" "sc_wf (st\<lparr>sc_fi := i\<rparr>) = sc_wf st"
  by (simp_all add: sc_wf_def)

lemma sc_wf_conv: "sc_wf st \<Longrightarrow> sc_wf (nxt (sc_conv str fmt st c b w))"
proof -
  assume wf: "sc_wf st"
  have "sc_wf (nxt (sc_conv_int str st b base sg))" for base sg
    using wf by (simp add: sc_conv_int_def Let_def sc_wf_assign split: prod.split)
  moreover have "sc_wf (nxt (sc_conv_float str st b))"
    using wf by (simp add: sc_conv_float_def Let_def sc_wf_assign split: prod.split)
  moreover have "sc_wf (nxt (sc_conv_str str st b w))"
    using wf by (simp add: sc_conv_str_def Let_def sc_wf_def split: prod.split)
  moreover have "sc_wf (nxt (sc_conv_char str st b))"
    using wf by (simp add: sc_conv_char_def Let_def sc_wf_assign)
  moreover have "sc_wf (nxt (sc_conv_set str fmt st b w))"
    using wf by (simp add: sc_conv_set_def Let_def sc_wf_def split: prod.split)
  ultimately show ?thesis using wf by (simp add: sc_conv_def)
qed

lemma sc_wf_step: "sc_wf st \<Longrightarrow> sc_wf (nxt (sc_step str fmt st))"
  by (simp add: sc_step_def sc_spec_def sc_spec_body_def Let_def sc_wf_conv split: prod.split)

lemma sc_wf_loop: "sc_wf st \<Longrightarrow> sc_wf (sc_loop str fmt st)"
proof (induction str fmt st rule: sc_loop.induct)
  case (1 str fmt st)
  then show ?case
    using sc_wf_step [OF 1(2), of str fmt] by (subst sc_loop.simps) (auto split: sc_next.split)
qed

subsection \<open>Digit strings\<close>

lemma sc_int_loop_fold:
  assumes "\<forall>c \<in> set ds. c \<noteq> 0 \<and> sc_digit base c \<noteq> None" and "c = 0 \<or> sc_digit base c = None"
  shows "sc_int_loop (p @ ds @ c # r) (length p) base sg (fst a) (fst (snd a)) (snd (snd a))
           = (length p + length ds, foldl (sc_acc base sg) a ds)"
  using assms(1)
proof (induction ds arbitrary: p a)
  case Nil
  then show ?case using assms(2) by (subst sc_int_loop.simps) auto
next
  case (Cons d ds)
  have "sc_int_loop (p @ (d # ds) @ c # r) (length p) base sg (fst a) (fst (snd a)) (snd (snd a))
    = (let a' = sc_acc base sg a d
       in sc_int_loop ((p @ [d]) @ ds @ c # r) (length (p @ [d])) base sg (fst a') (fst (snd a')) (snd (snd a')))"
    using Cons.prems by (subst sc_int_loop.simps) (auto simp: sc_acc_def Let_def)
  then show ?case using Cons.IH [of "p @ [d]" "sc_acc base sg a d"] Cons.prems by (simp add: Let_def)
qed



lemma sc_digit_10: "is_dec c \<Longrightarrow> sc_digit 10 c = Some (c - 48)"
  by (simp add: sc_digit_def is_dec_def sc_isdigit_def)

lemma overflow_test:
  assumes "0 \<le> d" and "d \<le> 9"
  shows "(LLONG_MAX - d) sdiv 10 < v \<longleftrightarrow> LLONG_MAX < v * 10 + d"
proof -
  have "(LLONG_MAX - d) sdiv 10 = (LLONG_MAX - d) div 10"
    using assms by (intro sdiv_nonneg) (simp_all add: LLONG_MAX_def)
  moreover have "(M - d) div 10 < v \<longleftrightarrow> M < v * 10 + d" for M by presburger
  ultimately show ?thesis by simp
qed

lemma dec_val_Cons_mono: "\<forall>c \<in> set ds. is_dec c \<Longrightarrow> 0 \<le> v \<Longrightarrow> v \<le> foldl (\<lambda>v c. v * 10 + (c - 48)) v ds"
proof (induction ds arbitrary: v)
  case (Cons d ds)
  then have "v * 10 + (d - 48) \<le> foldl (\<lambda>v c. v * 10 + (c - 48)) (v * 10 + (d - 48)) ds"
    by (auto simp: is_dec_def)
  moreover have "v \<le> v * 10 + (d - 48)" using Cons.prems by (auto simp: is_dec_def)
  ultimately show ?case by simp
qed simp

lemma fold_acc_stuck: "\<forall>c \<in> set ds. is_dec c \<Longrightarrow> ds \<noteq> [] \<or> x \<Longrightarrow> foldl (sc_acc 10 True) (v, x, True) ds = (v, True, True)"
  by (induction ds arbitrary: x) (auto simp: sc_acc_def)

lemma fold_acc_dec:
  assumes "\<forall>c \<in> set ds. is_dec c" and "0 \<le> v" and "v \<le> LLONG_MAX"
  shows "let w = foldl (\<lambda>v c. v * 10 + (c - 48)) v ds; (v', x', ov) = foldl (sc_acc 10 True) (v, x, False) ds
         in (ov \<longleftrightarrow> LLONG_MAX < w) \<and> (\<not> ov \<longrightarrow> v' = w) \<and> x' = (x \<or> ds \<noteq> [])"
  using assms
proof (induction ds arbitrary: v x)
  case (Cons d ds)
  let ?w = "v * 10 + (d - 48)"
  have d: "0 \<le> d - 48" "d - 48 \<le> 9" and dg: "sc_digit 10 d = Some (d - 48)" using Cons.prems(1) by (auto simp: is_dec_def sc_digit_10)
  show ?case
  proof (cases "LLONG_MAX < ?w")
    case True
    then have "sc_acc 10 True (v, x, False) d = (v, True, True)"
      using overflow_test [OF d] by (simp add: sc_acc_def dg)
    moreover have "?w \<le> foldl (\<lambda>v c. v * 10 + (c - 48)) ?w ds"
      using Cons.prems d by (intro dec_val_Cons_mono) auto
    ultimately show ?thesis using True Cons.prems fold_acc_stuck [of ds True v] by (simp add: Let_def)
  next
    case False
    moreover have "s64 ?w = ?w" using False Cons.prems d by (intro s64_id) (auto simp: LLONG_MAX_def)
    ultimately have "sc_acc 10 True (v, x, False) d = (?w, True, False)"
      using overflow_test [OF d] by (simp add: sc_acc_def dg)
    with Cons.IH [of ?w True] False Cons.prems d show ?thesis by (simp add: Let_def)
  qed
qed (auto simp: Let_def)

definition clamp :: "int \<Rightarrow> int" where
  "clamp x = max LLONG_MIN (min LLONG_MAX x)"

fun sgn_bytes :: "bool option \<Rightarrow> c_str" where
  "sgn_bytes None = []"
| "sgn_bytes (Some neg) = [if neg then 45 else 43]"

lemma sc_sign_bytes:
  assumes "ds \<noteq> []" and "\<forall>c \<in> set ds. is_dec c"
  shows "sc_sign (p @ sgn_bytes sg @ ds @ r) (length p) True = (sg = Some True, length p + length (sgn_bytes sg))"
proof -
  obtain d ds' where "ds = d # ds'" using assms(1) by (cases ds) auto
  with assms(2) show ?thesis
    by (cases sg) (auto simp: sc_sign_def is_dec_def)
qed

lemma scan_int_dec:
  assumes "ds \<noteq> []" and "\<forall>c \<in> set ds. is_dec c" and "\<not> is_dec c"
  shows "sc_scan_int (p @ sgn_bytes sg @ ds @ c # r) (length p) 10 True
    = (length p + length (sgn_bytes sg) + length ds, clamp (if sg = Some True then - dec_val ds else dec_val ds), True)"
proof -
  let ?p = "p @ sgn_bytes sg"
  have nz: "\<forall>c \<in> set ds. c \<noteq> 0 \<and> sc_digit 10 c \<noteq> None" using assms(2) by (auto simp: sc_digit_10 is_dec_def)
  have e: "c = 0 \<or> sc_digit 10 c = None" using assms(3) by (simp add: sc_digit_def sc_isdigit_def is_dec_def)
  obtain v x ov where f: "foldl (sc_acc 10 True) (0, False, False) ds = (v, x, ov)" by (metis prod_cases3)
  have lp: "sc_int_loop (?p @ ds @ c # r) (length ?p) 10 True 0 False False = (length ?p + length ds, v, x, ov)"
    using sc_int_loop_fold [OF nz e, of ?p r True "(0, False, False)"] f by simp
  have s: "sc_sign (p @ sgn_bytes sg @ ds @ c # r) (length p) True = (sg = Some True, length p + length (sgn_bytes sg))"
    using sc_sign_bytes [OF assms(1,2)] .
  have "(ov \<longleftrightarrow> LLONG_MAX < dec_val ds) \<and> (\<not> ov \<longrightarrow> v = dec_val ds) \<and> x"
    using fold_acc_dec [OF assms(2), of 0 False] f assms(1) by (simp add: Let_def dec_val_def LLONG_MAX_def)
  moreover have "0 \<le> dec_val ds" using dec_val_Cons_mono [OF assms(2), of 0] by (simp add: dec_val_def)
  ultimately show ?thesis using lp s
    by (auto simp: sc_scan_int_def sc_prefix_def clamp_def LLONG_MAX_def LLONG_MIN_def)
qed


subsection \<open>Scansets\<close>

fun set_items :: "int list \<Rightarrow> (int \<times> int) list" where
  "set_items (a # b # c # r) = (if b = 45 then (a, c) # set_items r else (a, a) # set_items (b # c # r))"
| "set_items [a, b] = [(a, a), (b, b)]"
| "set_items [a] = [(a, a)]"
| "set_items [] = []"

definition in_items :: "(int \<times> int) list \<Rightarrow> int \<Rightarrow> bool" where
  "in_items is c \<longleftrightarrow> (\<exists>(lo, hi) \<in> set is. lo \<le> c \<and> c \<le> hi)"

lemma in_set_loop_items:
  "sc_in_set_loop (p @ pat @ r) (length p) (length p + length pat) c \<longleftrightarrow> in_items (set_items pat) c"
proof (induction pat arbitrary: p rule: set_items.induct)
  case (1 a b d pat)
  have e: "p @ (a # b # d # pat) @ r = (p @ [a]) @ (b # d # pat) @ r"
    "p @ (a # b # d # pat) @ r = (p @ [a, b, d]) @ pat @ r" by simp_all
  show ?case
  proof (cases "b = 45")
    case True
    then show ?thesis using 1(1) [OF True, of "p @ [a, b, d]"]
      by (subst sc_in_set_loop.simps) (auto simp: in_items_def e(2) [symmetric] eval_nat_numeral)
  next
    case False
    then show ?thesis using 1(2) [OF False, of "p @ [a]"]
      by (subst sc_in_set_loop.simps) (auto simp: in_items_def e(1) [symmetric])
  qed
next
  case (2 a b)
  show ?case
    by (subst sc_in_set_loop.simps, simp) (subst sc_in_set_loop.simps, subst sc_in_set_loop.simps, auto simp: in_items_def)
next
  case (3 a)
  show ?case
    by (subst sc_in_set_loop.simps, simp) (subst sc_in_set_loop.simps, auto simp: in_items_def)
next
  case 4
  then show ?case by (subst sc_in_set_loop.simps) (auto simp: in_items_def)
qed

subsection \<open>Words\<close>

lemma sc_copy_word:
  assumes "\<forall>c \<in> set ws. c \<noteq> 0 \<and> ok c" and "c = 0 \<or> \<not> ok c" and "0 \<le> w"
  shows "sc_copy ok (p @ ws @ c # r) (length p) w d
    = (length p + length ws, d @ (if w = 0 then ws else take (nat (w - 1) - length d) ws))"
  using assms(1)
proof (induction ws arbitrary: p d)
  case Nil
  then show ?case using assms(2) by (subst sc_copy.simps) auto
next
  case (Cons x ws)
  have a: "p @ (x # ws) @ c # r = (p @ [x]) @ ws @ c # r" by simp
  let ?d = "if w = 0 \<or> int (length d) < w - 1 then d @ [x] else d"
  have "sc_copy ok (p @ (x # ws) @ c # r) (length p) w d = sc_copy ok ((p @ [x]) @ ws @ c # r) (length (p @ [x])) w ?d"
    using Cons.prems by (subst sc_copy.simps) auto
  also have "\<dots> = (length (p @ [x]) + length ws, ?d @ (if w = 0 then ws else take (nat (w - 1) - length ?d) ws))"
    using Cons.prems by (intro Cons.IH) simp
  also have "?d @ (if w = 0 then ws else take (nat (w - 1) - length ?d) ws)
      = d @ (if w = 0 then x # ws else take (nat (w - 1) - length d) (x # ws))"
    using assms(3) by (auto simp: take_Cons' nat_less_iff diff_Suc split: nat.split) 
  finally show ?case by simp
qed

subsection \<open>Round trip\<close>

lemma int_text_sgn: "int_text x = sgn_bytes (if x < 0 then Some True else None) @ dec_text (nat \<bar>x\<bar>)"
  by (simp add: int_text_def)

lemma scan_int_text:
  assumes "in_s 64 x" and "\<not> is_dec c"
  shows "sc_scan_int (p @ int_text x @ c # r) (length p) 10 True = (length p + length (int_text x), x, True)"
proof -
  let ?sg = "if x < 0 then Some True else None" and ?ds = "dec_text (nat \<bar>x\<bar>)"
  have "clamp (if ?sg = Some True then - dec_val ?ds else dec_val ?ds) = x"
    using assms(1) by (auto simp: dec_val_dec_text clamp_def LLONG_MAX_def LLONG_MIN_def in_s_def)
  then show ?thesis
    using scan_int_dec [of ?ds c p ?sg r] assms(2) by (auto simp: int_text_sgn dec_text_digits)
qed

lemma rd_int_text: "\<not> sc_isws (rd (int_text x @ r) 0)" "rd (int_text x @ r) 0 \<noteq> 0"
proof -
  obtain d ds where e: "dec_text (nat \<bar>x\<bar>) = d # ds" by (metis dec_text_nonempty list.exhaust)
  then have "is_dec d" using dec_text_digits [of d "nat \<bar>x\<bar>"] by simp
  with e show "\<not> sc_isws (rd (int_text x @ r) 0)" "rd (int_text x @ r) 0 \<noteq> 0"
    by (auto simp: int_text_sgn sc_isws_def is_dec_def)
qed

lemma loop_percent_d:
  assumes x: "in_s 64 x" and st: "sc_fi st = length F" "sc_si st = length S"
    and R: "\<not> sc_isws (rd R 0)"
  shows "sc_loop (S @ int_text x @ 32 # R) (F @ 37 # 100 # 32 # G) st
    = sc_loop (S @ int_text x @ 32 # R) (F @ 37 # 100 # 32 # G)
        (st\<lparr>sc_fi := length F + 3, sc_si := length S + length (int_text x) + 1, sc_count := sc_count st + 1,
            sc_ap := sc_ap st + 1, sc_outs := sc_outs st @ [StLong (sc_ap st) x]\<rparr>)"
    (is "sc_loop ?s ?f st = _")
proof -
  have sk: "sc_skipws ?s (length S) = length S"
    using rd_int_text(1) by (subst sc_skipws.simps) simp
  have w: "sc_width ?f (Suc (length F)) 0 = (Suc (length F), 0)"
    by (subst sc_width.simps) (simp add: sc_isdigit_def)
  have md: "sc_modifier ?f (Suc (length F)) = Suc (length F)" by (simp add: sc_modifier_def)
  let ?j = "length S + length (int_text x)"
  let ?st = "st\<lparr>sc_fi := length F + 2, sc_si := ?j, sc_count := sc_count st + 1,
            sc_ap := sc_ap st + 1, sc_outs := sc_outs st @ [StLong (sc_ap st) x]\<rparr>"
  have si: "sc_scan_int ?s (length S) 10 True = (?j, x, True)"
    using scan_int_text [OF x] by (simp add: is_dec_def)
  have 1: "sc_step ?s ?f st = Cont ?st"
    by (simp add: sc_step_def sc_isws_def sc_spec_def st sc_spec_body_def w md sc_conv_def sc_conv_int_def sk si sc_assign_def)
  have "rd ?s ?j = 32" "rd ?s (Suc ?j) = rd R 0"
    using rd_off(2) [of "S @ int_text x" "32 # R"] rd_off(3) [of "S @ int_text x" "32 # R"] by simp_all
  then have sk2: "sc_skipws ?s ?j = Suc ?j"
    using R by (subst sc_skipws.simps, simp add: sc_isws_def) (subst sc_skipws.simps, simp add: sc_isws_def)
  have 2: "sc_step ?s ?f ?st = Cont (?st\<lparr>sc_fi := length F + 3, sc_si := Suc ?j\<rparr>)"
    by (simp add: sc_step_def sc_isws_def sk2)
  have "?st\<lparr>sc_fi := length F + 3, sc_si := Suc ?j\<rparr>
      = st\<lparr>sc_fi := length F + 3, sc_si := Suc ?j, sc_count := sc_count st + 1,
            sc_ap := sc_ap st + 1, sc_outs := sc_outs st @ [StLong (sc_ap st) x]\<rparr>"
    by (rule sc_state.equality) simp_all
  note 2 = 2 [unfolded this]
  show ?thesis
    by (subst sc_loop.simps, simp add: st 1) (subst sc_loop.simps, simp add: 2 [simplified])
qed


definition ints_text :: "int list \<Rightarrow> c_str" where
  "ints_text xs = concat (map (\<lambda>x. int_text x @ [32]) xs)"

definition ints_fmt :: "nat \<Rightarrow> c_str" where
  "ints_fmt n = concat (replicate n [37, 100, 32])"

lemma loop_ints:
  assumes "\<forall>x \<in> set xs. in_s 64 x" and "sc_fi st = length F" "sc_si st = length S"
  shows "sc_loop (S @ ints_text xs @ [0]) (F @ ints_fmt (length xs) @ [0]) st
    = st\<lparr>sc_fi := length F + length (ints_fmt (length xs)), sc_si := length S + length (ints_text xs),
         sc_count := sc_count st + int (length xs), sc_ap := sc_ap st + length xs,
         sc_outs := sc_outs st @ map2 StLong [sc_ap st..<sc_ap st + length xs] xs\<rparr>"
  using assms
proof (induction xs arbitrary: S F st)
  case Nil
  then show ?case by (subst sc_loop.simps) (simp add: ints_text_def ints_fmt_def)
next
  case (Cons x xs)
  let ?R = "ints_text xs @ [0]" and ?G = "ints_fmt (length xs) @ [0]"
  have R: "\<not> sc_isws (rd ?R 0)"
    by (cases xs) (simp_all add: ints_text_def rd_int_text, simp add: sc_isws_def)
  have s: "S @ ints_text (x # xs) @ [0] = S @ int_text x @ 32 # ?R"
    and f: "F @ ints_fmt (length (x # xs)) @ [0] = F @ 37 # 100 # 32 # ?G"
    by (simp_all add: ints_text_def ints_fmt_def)
  let ?st = "st\<lparr>sc_fi := length F + 3, sc_si := length S + length (int_text x) + 1, sc_count := sc_count st + 1,
            sc_ap := sc_ap st + 1, sc_outs := sc_outs st @ [StLong (sc_ap st) x]\<rparr>"
  have "sc_loop (S @ int_text x @ 32 # ?R) (F @ 37 # 100 # 32 # ?G) ?st
      = ?st\<lparr>sc_fi := length F + 3 + length (ints_fmt (length xs)),
         sc_si := length S + length (int_text x) + 1 + length (ints_text xs),
         sc_count := sc_count st + 1 + int (length xs), sc_ap := sc_ap st + 1 + length xs,
         sc_outs := sc_outs ?st @ map2 StLong [sc_ap ?st..<sc_ap ?st + length xs] xs\<rparr>"
    using Cons.IH [of ?st "F @ [37, 100, 32]" "S @ int_text x @ [32]"] Cons.prems by simp
  moreover have "map2 StLong [sc_ap st..<sc_ap st + Suc (length xs)] (x # xs)
      = StLong (sc_ap st) x # map2 StLong [Suc (sc_ap st)..<Suc (sc_ap st) + length xs] xs"
    by (simp add: upt_conv_Cons del: upt_Suc)
  moreover have "length (ints_fmt (Suc (length xs))) = 3 + length (ints_fmt (length xs))"
    "length (ints_text (x # xs)) = length (int_text x) + 1 + length (ints_text xs)"
    by (simp_all add: ints_text_def ints_fmt_def)
  ultimately show ?case
    unfolding s f using loop_percent_d [OF _ Cons.prems(2,3) R] Cons.prems(1)
    by (simp del: upt_Suc add: ac_simps)
qed

subsection \<open>Floats\<close>

lemma fl_loop_int:
  assumes "\<forall>c \<in> set ds. is_dec c" and "c \<noteq> 46" "\<not> is_dec c" and a: "\<not> fl_in_frac a" 
  shows "fl_loop (p @ ds @ c # r) (length p) a
    = (length p + length ds, a\<lparr>fl_int := foldl (\<lambda>v c. s64 (v * 10 + (c - 48))) (fl_int a) ds,
         fl_any := fl_any a \<or> ds \<noteq> []\<rparr>)"
  using assms(1) a
proof (induction ds arbitrary: p a)
  case Nil
  then show ?case using assms(2,3) by (subst fl_loop.simps) (auto simp: sc_isdigit_def is_dec_def)
next
  case (Cons d ds)
  have d: "sc_isdigit d" "d \<noteq> 0" using Cons.prems(1) by (auto simp: sc_isdigit_def is_dec_def)
  have "fl_loop (p @ (d # ds) @ c # r) (length p) a = fl_loop ((p @ [d]) @ ds @ c # r) (length (p @ [d])) (fl_digit a d)"
    using d by (subst fl_loop.simps) simp
  also have "\<dots> = (length (p @ [d]) + length ds, (fl_digit a d)\<lparr>fl_int := foldl (\<lambda>v c. s64 (v * 10 + (c - 48))) (fl_int (fl_digit a d)) ds,
         fl_any := fl_any (fl_digit a d) \<or> ds \<noteq> []\<rparr>)"
    using Cons.prems by (intro Cons.IH) (auto simp: fl_digit_def)
  finally show ?case using Cons.prems(2) by (simp add: fl_digit_def)
qed

lemma fold_s64: "foldl (\<lambda>v c. s64 (v * 10 + (c - 48))) (s64 v) ds = s64 (foldl (\<lambda>v c. v * 10 + (c - 48)) v ds)"
proof (induction ds arbitrary: v)
  case (Cons d ds)
  have "s64 (s64 v * 10 + (d - 48)) = s64 (v * 10 + (d - 48))" by (rule wrap_s_lin)
  with Cons show ?case by simp
qed simp

lemma scan_float_int:
  assumes ds: "ds \<noteq> []" "\<forall>c \<in> set ds. is_dec c" "dec_val ds < 2 ^ 53"
    and c: "\<not> is_dec c" "c \<noteq> 46" "c \<noteq> 101" "c \<noteq> 69"
  shows "\<exists>v. sc_scan_float (p @ sgn_bytes sg @ ds @ c # r) (length p)
      = (length p + length (sgn_bytes sg) + length ds, Some v, True)
    \<and> d_finite v \<and> d_val v = of_int (if sg = Some True then - dec_val ds else dec_val ds)"
proof -
  let ?s = "p @ sgn_bytes sg @ ds @ c # r" and ?p = "p @ sgn_bytes sg" and ?n = "dec_val ds"
  obtain d ds' where e: "ds = d # ds'" using ds(1) by (cases ds) auto
  then have d: "rd ?s (length ?p) = d" "is_dec d" using ds(2) rd_off(2) [of ?p "ds @ c # r"] by simp_all
  have ci: "\<not> ci_word ?s (length ?p) (l # ls)" if "97 \<le> l" for l ls
    using d that by (auto simp: ci_eq_def is_dec_def)
  have n0: "0 \<le> ?n" using dec_val_Cons_mono [OF ds(2), of 0] by (simp add: dec_val_def)
  have "foldl (\<lambda>v c. s64 (v * 10 + (c - 48))) (s64 0) ds = s64 ?n"
    unfolding dec_val_def by (rule fold_s64)
  then have "foldl (\<lambda>v c. s64 (v * 10 + (c - 48))) 0 ds = ?n" using n0 ds(3) by simp
  then have lp: "fl_loop ?s (length ?p) fl_init = (length ?p + length ds, fl_init\<lparr>fl_int := ?n, fl_any := True\<rparr>)"
    using fl_loop_int [OF ds(2) c(2,1), of fl_init ?p r] ds(1) by (simp add: fl_init_def)
  have "rd ?s (length ?p + length ds) = c" using rd_off(2) [of "?p @ ds" "c # r"] by (simp add: add.assoc)
  then have ex: "fl_exponent ?s (length ?p + length ds) v = (length ?p + length ds, v)" for v
    using c by (simp add: fl_exponent_def)
  have z: "d_div (d_of_long 0) (d_of_long 1) = 0" by (simp add: d_eval)
  define v where "v = d_add (d_of_long ?n) 0"
  note ol = d_of_long_exact [of ?n]
  have fv: "d_finite v \<and> d_val v = of_int ?n"
  proof (cases "?n = 0")
    case True
    have "d_add (d_of_long 0) 0 = 0" by (simp add: d_eval)
    then show ?thesis using True by (simp add: v_def d_zero_val)
  next
    case False
    then show ?thesis using d_add_exact [of "d_of_long ?n" 0 ?n 0] ol ds(3) n0 by (simp add: v_def d_zero_val)
  qed
  define u where "u = (if sg = Some True then d_sub 0 v else v)"
  have "d_finite u \<and> d_val u = of_int (if sg = Some True then - ?n else ?n)"
  proof (cases "?n = 0")
    case True
    have "v = 0" "d_sub 0 0 = 0" using True by (simp_all add: v_def d_eval)
    then show ?thesis using True by (simp add: u_def d_zero_val)
  next
    case False
    then show ?thesis
      using d_add_exact [of 0 "d_neg v" "- ?n" 0] fv ds(3) n0 by (simp add: u_def d_sub_def d_neg_val d_zero_val)
  qed
  moreover have "sc_scan_float ?s (length p) = (length ?p + length ds, Some u, True)"
    using sc_sign_bytes [OF ds(1,2), of p sg "c # r"] lp ex ci
    by (simp add: sc_scan_float_words z fl_init_def v_def u_def d_zero_def del: ci_word.simps)
  ultimately show ?thesis by simp
qed

subsection \<open>Properties\<close>

lemma skipws_blanks:
  assumes "\<forall>c \<in> set bs. sc_isws c" and "\<not> sc_isws (rd r 0)"
  shows "sc_skipws (p @ bs @ r) (length p) = length p + length bs"
  using assms(1)
proof (induction bs arbitrary: p)
  case Nil
  then show ?case using assms(2) by (subst sc_skipws.simps) simp
next
  case (Cons b bs)
  then show ?case using Cons.IH [of "p @ [b]"] by (subst sc_skipws.simps) simp
qed

lemma rd_sgn_bytes:
  assumes "ds \<noteq> []" and "\<forall>c \<in> set ds. is_dec c"
  shows "\<not> sc_isws (rd (sgn_bytes sg @ ds @ r) 0)"
  using assms by (cases sg; cases ds) (auto simp: sc_isws_def is_dec_def)

text \<open>A format of one conversion: the loop is that conversion.\<close>

lemma sscanf_one_d:
  assumes "sc_conv_int str (sc_init\<lparr>sc_fi := 2\<rparr>) False 10 True = Cont st" and "sc_fi st = 2" and "sc_count st \<noteq> 0"
  shows "sscanf str (cs ''%d'' @ 0 # g) = (sc_count st, sc_outs st)"
proof -
  let ?f = "cs ''%d'' @ 0 # g"
  have w: "sc_width ?f (Suc 0) 0 = (Suc 0, 0)" by (subst sc_width.simps) (simp add: cs_def sc_isdigit_def)
  have "sc_step str ?f sc_init = Cont st"
    using assms(1) by (simp add: sc_step_def sc_isws_def sc_spec_def sc_init_def sc_spec_body_def cs_def
        w [unfolded cs_def, simplified] sc_modifier_def sc_conv_def numeral_2_eq_2)
  moreover have "sc_loop str ?f st = st" using assms(2) by (subst sc_loop.simps) (simp add: cs_def)
  ultimately have "sc_loop str ?f sc_init = st"
    by (subst sc_loop.simps) (simp add: sc_init_def cs_def)
  then show ?thesis using assms(3) by (simp add: sscanf_def Let_def)
qed

lemma sscanf_one_lf:
  assumes "sc_conv_float str (sc_init\<lparr>sc_fi := 3\<rparr>) False = Cont st" and "sc_fi st = 3" and "sc_count st \<noteq> 0"
  shows "sscanf str (cs ''%lf'' @ 0 # g) = (sc_count st, sc_outs st)"
proof -
  let ?f = "cs ''%lf'' @ 0 # g"
  have w: "sc_width ?f (Suc 0) 0 = (Suc 0, 0)" by (subst sc_width.simps) (simp add: cs_def sc_isdigit_def)
  have "sc_step str ?f sc_init = Cont st"
    using assms(1) by (simp add: sc_step_def sc_isws_def sc_spec_def sc_init_def sc_spec_body_def cs_def
        w [unfolded cs_def, simplified] sc_modifier_def sc_conv_def numeral_2_eq_2 numeral_3_eq_3)
  moreover have "sc_loop str ?f st = st" using assms(2) by (subst sc_loop.simps) (simp add: cs_def)
  ultimately have "sc_loop str ?f sc_init = st"
    by (subst sc_loop.simps) (simp add: sc_init_def cs_def)
  then show ?thesis using assms(3) by (simp add: sscanf_def Let_def)
qed

text \<open>C10: whatever bytes lie behind the terminators of the input and of the format, \<open>sscanf\<close>
  returns the same count and stores the same values, and neither index ever passes its
  terminator; the reads beyond it that the non-short-circuit tests make are harmless.\<close>

theorem sscanf_behind_terminator:
  "sscanf (a @ 0 # x) (f @ 0 # y) = sscanf (a @ [0]) (f @ [0])
   \<and> sc_si (sc_loop (a @ 0 # x) (f @ 0 # y) sc_init) \<le> length a
   \<and> sc_fi (sc_loop (a @ 0 # x) (f @ 0 # y) sc_init) \<le> length f"
proof -
  have ag: "agree (length a) (a @ [0]) (a @ 0 # x)" for a x :: c_str
    by (auto simp: agree_def rd_def nth_append)
  have "inside (length a) (length f) sc_init" by (simp add: inside_def sc_init_def)
  note L = loop_agree [OF ag [of a x] ag [of f y] this]
  then have "rd (a @ 0 # x) (sc_si (sc_loop (a @ [0]) (f @ [0]) sc_init)) = rd (a @ [0]) (sc_si (sc_loop (a @ [0]) (f @ [0]) sc_init))"
    using agree_rd [OF ag [of a x]] by (simp add: inside_def)
  with L show ?thesis by (simp add: sscanf_def Let_def inside_def)
qed

text \<open>C21: \<open>sscanf\<close> consumes its variadic pointers in order, one store per pointer and none
  skipped or written twice, and its result is \<open>EOF\<close> or a count of at most that many stores.\<close>

theorem sscanf_argument_order:
  "map store_arg (snd (sscanf str fmt)) = [0..<length (snd (sscanf str fmt))]
   \<and> - 1 \<le> fst (sscanf str fmt) \<and> fst (sscanf str fmt) \<le> int (length (snd (sscanf str fmt)))"
proof -
  have "sc_wf sc_init" by (simp add: sc_wf_def sc_init_def)
  then have wf: "sc_wf (sc_loop str fmt sc_init)" by (rule sc_wf_loop)
  then have "length (sc_outs (sc_loop str fmt sc_init)) = sc_ap (sc_loop str fmt sc_init)"
    by (metis diff_zero length_map length_upt sc_wf_def)
  with wf show ?thesis by (auto simp: sscanf_def Let_def sc_wf_def)
qed

text \<open>C20: \<open>%d\<close> reads an optionally signed decimal behind any blanks and saturates at the
  limits of \<open>long long\<close>, so an out-of-range number is clamped and never wraps.\<close>

theorem sscanf_d_saturates:
  assumes "\<forall>b \<in> set bs. sc_isws b" and "ds \<noteq> []" and "\<forall>d \<in> set ds. is_dec d" and "\<not> is_dec c"
  shows "sscanf (bs @ sgn_bytes sg @ ds @ c # r) (cs ''%d'' @ 0 # g)
    = (1, [StLong 0 (max (- (2 ^ 63)) (min (2 ^ 63 - 1) (if sg = Some True then - dec_val ds else dec_val ds)))])"
proof -
  let ?s = "bs @ sgn_bytes sg @ ds @ c # r"
  have sk: "sc_skipws ?s 0 = length bs"
    using skipws_blanks [OF assms(1) rd_sgn_bytes [OF assms(2,3)], of "[]"] by simp
  note si = scan_int_dec [OF assms(2,3,4), of bs sg r]
  let ?v = "clamp (if sg = Some True then - dec_val ds else dec_val ds)"
  have "sc_conv_int ?s (sc_init\<lparr>sc_fi := 2\<rparr>) False 10 True
      = Cont \<lparr>sc_fi = 2, sc_si = length bs + length (sgn_bytes sg) + length ds, sc_count = 1, sc_ap = 1,
              sc_outs = [StLong 0 ?v]\<rparr>"
    by (simp add: sc_conv_int_def sc_init_def sk si sc_assign_def)
  from sscanf_one_d [OF this] show ?thesis by (simp add: clamp_def LLONG_MAX_def LLONG_MIN_def)
qed

theorem sscanf_d_saturates_witness:
  "sscanf (cs '' -9223372036854775809,'') (cs ''%d'' @ [0]) = (1, [StLong 0 (- 9223372036854775808)])"
  using sscanf_d_saturates [of "cs '' ''" "cs ''9223372036854775809''" 44 "Some True" "[]" "[]"]
  by (simp add: cs_def sc_isws_def is_dec_def dec_val_def)



text \<open>C11: round trip. Printing any \<open>long\<close> values in decimal, each followed by a blank, and
  scanning the text with as many \<open>%d\<close> conversions gives back exactly those values in order.\<close>

theorem sscanf_ints_roundtrip:
  assumes "\<forall>x \<in> set xs. in_s 64 x" and "xs \<noteq> []"
  shows "sscanf (ints_text xs @ [0]) (ints_fmt (length xs) @ [0])
    = (int (length xs), map2 StLong [0..<length xs] xs)"
  using loop_ints [of xs sc_init "[]" "[]"] assms by (simp add: sscanf_def sc_init_def Let_def)

theorem sscanf_ints_roundtrip_witness:
  "sscanf (cs ''7 -12 '' @ [0]) (cs ''%d %d '' @ [0]) = (2, [StLong 0 7, StLong 1 (- 12)])"
  using sscanf_ints_roundtrip [of "[7, - 12]"]
  by (simp add: in_s_def ints_text_def ints_fmt_def int_text_def dec_text.simps cs_def numeral_2_eq_2)

text \<open>C24: the scanset matcher accepts exactly the characters of the union of the ranges and
  single characters of the pattern; a leading \<open>]\<close> stands for itself.\<close>

theorem sc_in_set_ranges:
  "sc_in_set (p @ pat @ r) (length p) (length p + length pat) c
   \<longleftrightarrow> (case pat of [] \<Rightarrow> False
        | x # rest \<Rightarrow> if x = 93 then c = 93 \<or> in_items (set_items rest) c else in_items (set_items pat) c)"
proof (cases pat)
  case Nil
  then show ?thesis using in_set_loop_items [of p "[]" r c] by (simp add: sc_in_set_def in_items_def)
next
  case (Cons x rest)
  then show ?thesis
    using in_set_loop_items [of p pat r c] in_set_loop_items [of "p @ [x]" rest r c]
    by (auto simp: sc_in_set_def)
qed

text \<open>C25: \<open>%s\<close> with a field width \<open>w\<close> consumes the whole word but stores only its first
  \<open>w - 1\<close> characters and a terminator (all of them without a width), so at most \<open>w\<close> bytes
  are written through the pointer.\<close>

theorem sc_conv_str_word:
  assumes "\<forall>b \<in> set bs. sc_isws b" and "ws \<noteq> []" and "\<forall>x \<in> set ws. x \<noteq> 0 \<and> \<not> sc_isws x"
    and "c = 0 \<or> sc_isws c" and "2 \<le> w" and "sc_si st = length p"
  shows "\<exists>st'. sc_conv_str (p @ bs @ ws @ c # r) st False w = Cont st'
    \<and> sc_si st' = length p + length bs + length ws \<and> sc_count st' = sc_count st + 1
    \<and> sc_outs st' = sc_outs st @ [StStr (sc_ap st) (take (nat (w - 1)) ws @ [0])]
    \<and> length (take (nat (w - 1)) ws @ [0]) \<le> nat w"
proof -
  let ?s = "p @ bs @ ws @ c # r"
  obtain x ws' where ws: "ws = x # ws'" using assms(2) by (cases ws) auto
  have sk: "sc_skipws ?s (length p) = length p + length bs"
    using skipws_blanks [OF assms(1), of "ws @ c # r" p] assms(3) ws by simp
  have cp: "sc_copy (\<lambda>c. \<not> sc_isws c) ?s (length p + length bs) w [] = (length p + length bs + length ws, take (nat (w - 1)) ws)"
    using sc_copy_word [of ws "\<lambda>c. \<not> sc_isws c" c w "p @ bs" r "[]"] assms(3-5) by auto
  have "take (nat (w - 1)) ws \<noteq> []" using assms(5) ws by (simp add: take_Cons')
  then show ?thesis using assms(5,6) by (auto simp: sc_conv_str_def sk cp Let_def)
qed

theorem sc_conv_str_word_witness:
  "\<exists>st'. sc_conv_str (cs '' abcdef'' @ [0]) sc_init False 4 = Cont st'
    \<and> sc_outs st' = [StStr 0 (cs ''abc'' @ [0])] \<and> sc_si st' = 7"
  using sc_conv_str_word [of "[32]" "cs ''abcdef''" 0 4 sc_init "[]" "[]"]
  by (auto simp: sc_isws_def cs_def sc_init_def numeral_eq_Suc)

text \<open>C22: \<open>%lf\<close> reads every decimal integer below \<open>2 ^ 53\<close> in magnitude exactly: the double
  it stores is finite and its value is that integer.\<close>

theorem sscanf_lf_exact:
  assumes "\<forall>b \<in> set bs. sc_isws b" and "ds \<noteq> []" and "\<forall>d \<in> set ds. is_dec d" and "dec_val ds < 2 ^ 53"
    and "\<not> is_dec c" and "c \<noteq> 46" and "c \<noteq> 101" and "c \<noteq> 69"
  shows "\<exists>v. sscanf (bs @ sgn_bytes sg @ ds @ c # r) (cs ''%lf'' @ 0 # g) = (1, [StDouble 0 v])
    \<and> d_finite v \<and> d_val v = of_int (if sg = Some True then - dec_val ds else dec_val ds)"
proof -
  let ?s = "bs @ sgn_bytes sg @ ds @ c # r"
  have sk: "sc_skipws ?s 0 = length bs"
    using skipws_blanks [OF assms(1) rd_sgn_bytes [OF assms(2,3)], of "[]"] by simp
  obtain v where v: "sc_scan_float ?s (length bs) = (length bs + length (sgn_bytes sg) + length ds, Some v, True)"
    and val: "d_finite v" "d_val v = of_int (if sg = Some True then - dec_val ds else dec_val ds)"
    using scan_float_int [OF assms(2-8)] by blast
  have "sc_conv_float ?s (sc_init\<lparr>sc_fi := 3\<rparr>) False
      = Cont \<lparr>sc_fi = 3, sc_si = length bs + length (sgn_bytes sg) + length ds, sc_count = 1, sc_ap = 1,
              sc_outs = [StDouble 0 v]\<rparr>"
    by (simp add: sc_conv_float_def sc_init_def sk v sc_assign_def)
  from sscanf_one_lf [OF this] val show ?thesis by simp
qed

theorem sscanf_lf_exact_witness:
  "\<exists>v. sscanf (cs ''-42'' @ [0]) (cs ''%lf'' @ [0]) = (1, [StDouble 0 v]) \<and> d_finite v \<and> d_val v = - 42"
  using sscanf_lf_exact [of "[]" "cs ''42''" 0 "Some True" "[]" "[]"]
  by (simp add: cs_def is_dec_def dec_val_def)

end
