(* ===== verification/Mpn.thy ===== *)
theory Mpn
  imports CPrelude "HOL-Library.Monad_Syntax"
begin

section \<open>\<open>py/mpz.c\<close>, lower half: arithmetic on digit arrays\<close>

text \<open>
  The static \<open>mpn_\<close> functions of MicroPython's \<open>py/mpz.c\<close> as the gaston target builds it:
  digits of \<open>DIG_SIZE\<close> = 16 bits (\<open>mpz_dig_t\<close> is \<open>uint16_t\<close>), double digits of 32 bits,
  \<open>MICROPY_OPT_MPZ_BITWISE\<close> on. A digit array is the list of its digits, least
  significant first, and a length argument is the length of the list. A function that
  stores into \<open>idig\<close> returns the list of the digits it stores, from \<open>idig[0]\<close> on, and the
  returned length beside it where that differs. 32-bit arithmetic is written out with
  \<open>u32\<close> and \<open>s32\<close>.
\<close>

unbundle bit_operations_syntax

abbreviation (input) DIG_SIZE :: nat where "DIG_SIZE \<equiv> 16"
abbreviation (input) DIG_BASE :: nat where "DIG_BASE \<equiv> 65536"
abbreviation (input) DIG_MASK :: nat where "DIG_MASK \<equiv> 65535"
abbreviation (input) DIG_MSB :: nat where "DIG_MSB \<equiv> 32768"

abbreviation u16 :: "nat \<Rightarrow> nat" where "u16 x \<equiv> x mod 65536"
abbreviation u32 :: "nat \<Rightarrow> nat" where "u32 x \<equiv> x mod 4294967296"
abbreviation u64 :: "nat \<Rightarrow> nat" where "u64 x \<equiv> x mod 18446744073709551616"

type_synonym digs = "nat list"

subsection \<open>Definitions\<close>

text \<open>The loop of \<open>mpn_remove_trailing_zeros\<close>, \<open>n\<close> digits above \<open>oidig\<close>.\<close>

fun mpn_remove_trailing_zeros :: "digs \<Rightarrow> nat \<Rightarrow> nat" where
  "mpn_remove_trailing_zeros oidig 0 = 0"
| "mpn_remove_trailing_zeros oidig (Suc n) =
     (if oidig ! n = 0 then mpn_remove_trailing_zeros oidig n else Suc n)"

fun mpn_cmp_loop :: "digs \<Rightarrow> digs \<Rightarrow> nat \<Rightarrow> int" where
  "mpn_cmp_loop idig jdig 0 = 0"
| "mpn_cmp_loop idig jdig (Suc n) =
     (let cmp = s32 (int (idig ! n) - int (jdig ! n))
      in if cmp < 0 then - 1 else if cmp > 0 then 1 else mpn_cmp_loop idig jdig n)"

definition mpn_cmp :: "digs \<Rightarrow> digs \<Rightarrow> int" where
  "mpn_cmp idig jdig =
     (if length idig < length jdig then - 1
      else if length idig > length jdig then 1
      else mpn_cmp_loop idig jdig (length idig))"

text \<open>The shifting loop runs down from the high end, so it works on the reversed digits.\<close>

fun mpn_shl_loop :: "digs \<Rightarrow> nat \<Rightarrow> nat \<Rightarrow> digs" where
  "mpn_shl_loop [] d n_part = [(d div 2 ^ (DIG_SIZE - n_part)) AND DIG_MASK]"
| "mpn_shl_loop (j # js) d n_part =
     (let d = d OR j
      in ((d div 2 ^ (DIG_SIZE - n_part)) AND DIG_MASK) # mpn_shl_loop js (u32 (d * 2 ^ DIG_SIZE)) n_part)"

definition mpn_shl :: "digs \<Rightarrow> nat \<Rightarrow> digs \<times> nat" where
  "mpn_shl jdig n =
     (let n_whole = u64 (n + DIG_SIZE - 1) div DIG_SIZE;
          n_part = (if n mod DIG_SIZE = 0 then DIG_SIZE else n mod DIG_SIZE);
          idig = replicate (n_whole - 1) 0 @ rev (mpn_shl_loop (rev jdig) 0 n_part)
      in (idig, mpn_remove_trailing_zeros idig (length jdig + n_whole)))"

fun mpn_shr_loop :: "digs \<Rightarrow> nat \<Rightarrow> digs" where
  "mpn_shr_loop [] n_part = []"
| "mpn_shr_loop [j] n_part = [(j div 2 ^ n_part) AND DIG_MASK]"
| "mpn_shr_loop (j # j1 # js) n_part =
     (((j OR u32 (j1 * 2 ^ DIG_SIZE)) div 2 ^ n_part) AND DIG_MASK) # mpn_shr_loop (j1 # js) n_part"

definition mpn_shr :: "digs \<Rightarrow> nat \<Rightarrow> digs \<times> nat" where
  "mpn_shr jdig n =
     (let n_whole = n div DIG_SIZE; n_part = n mod DIG_SIZE
      in if length jdig \<le> n_whole then ([], 0)
         else (let idig = mpn_shr_loop (drop n_whole jdig) n_part; jlen = length jdig - n_whole
               in (idig, if last idig = 0 then jlen - 1 else jlen)))"

text \<open>The carry loops: both arrays, then the rest of the longer one.\<close>

fun mpn_add_loop :: "digs \<Rightarrow> digs \<Rightarrow> nat \<Rightarrow> digs" where
  "mpn_add_loop [] kdig carry = (if carry \<noteq> 0 then [u16 carry] else [])"
| "mpn_add_loop (j # js) [] carry =
     (let carry = u32 (carry + j) in (carry AND DIG_MASK) # mpn_add_loop js [] (carry div 2 ^ DIG_SIZE))"
| "mpn_add_loop (j # js) (k # ks) carry =
     (let carry = u32 (carry + u32 (j + k))
      in (carry AND DIG_MASK) # mpn_add_loop js ks (carry div 2 ^ DIG_SIZE))"

definition mpn_add :: "digs \<Rightarrow> digs \<Rightarrow> digs" where
  "mpn_add jdig kdig = mpn_add_loop jdig kdig 0"

text \<open>The borrow is a signed 32-bit value; \<open>>>\<close> on it is arithmetic, so \<open>div\<close>.\<close>

fun mpn_sub_loop :: "digs \<Rightarrow> digs \<Rightarrow> int \<Rightarrow> digs" where
  "mpn_sub_loop [] kdig borrow = []"
| "mpn_sub_loop (j # js) [] borrow =
     (let borrow = s32 (borrow + int j)
      in nat (borrow mod 2 ^ DIG_SIZE) # mpn_sub_loop js [] (borrow div 2 ^ DIG_SIZE))"
| "mpn_sub_loop (j # js) (k # ks) borrow =
     (let borrow = s32 (borrow + (int j - int k))
      in nat (borrow mod 2 ^ DIG_SIZE) # mpn_sub_loop js ks (borrow div 2 ^ DIG_SIZE))"

definition mpn_sub :: "digs \<Rightarrow> digs \<Rightarrow> digs \<times> nat" where
  "mpn_sub jdig kdig =
     (let idig = mpn_sub_loop jdig kdig 0 in (idig, mpn_remove_trailing_zeros idig (length idig)))"

fun mpn_mul_dig_add_dig_loop :: "digs \<Rightarrow> nat \<Rightarrow> nat \<Rightarrow> digs" where
  "mpn_mul_dig_add_dig_loop [] dmul carry = (if carry \<noteq> 0 then [u16 carry] else [])"
| "mpn_mul_dig_add_dig_loop (i # is) dmul carry =
     (let carry = u32 (carry + u32 (i * dmul))
      in (carry AND DIG_MASK) # mpn_mul_dig_add_dig_loop is dmul (carry div 2 ^ DIG_SIZE))"

definition mpn_mul_dig_add_dig :: "digs \<Rightarrow> nat \<Rightarrow> nat \<Rightarrow> digs" where
  "mpn_mul_dig_add_dig idig dmul dadd = mpn_mul_dig_add_dig_loop idig dmul dadd"

text \<open>
  One row of the multiplication, on the part of \<open>idig\<close> from the current digit on: the new
  digits and the number of digits up to \<open>id\<close>. Storing past the array is \<open>None\<close>.
\<close>

fun mpn_mul_row :: "digs \<Rightarrow> digs \<Rightarrow> nat \<Rightarrow> nat \<Rightarrow> (digs \<times> nat) option" where
  "mpn_mul_row ids [] k carry =
     (if carry \<noteq> 0 then (case ids of [] \<Rightarrow> None | _ # ds \<Rightarrow> Some (u16 carry # ds, 1)) else Some (ids, 0))"
| "mpn_mul_row [] (j # js) k carry = None"
| "mpn_mul_row (i # ds) (j # js) k carry =
     (let carry = u32 (carry + u32 (i + u32 (j * k)))
      in do {
        (ds', n) \<leftarrow> mpn_mul_row ds js k (carry div 2 ^ DIG_SIZE);
        Some ((carry AND DIG_MASK) # ds', Suc n)
      })"

text \<open>The rows, each one digit further; \<open>ilen\<close> counts from the original \<open>idig\<close>.\<close>

fun mpn_mul_loop :: "digs \<Rightarrow> digs \<Rightarrow> digs \<Rightarrow> nat \<Rightarrow> nat \<Rightarrow> (digs \<times> nat) option" where
  "mpn_mul_loop idig jdig [] off ilen = Some (idig, ilen)"
| "mpn_mul_loop idig jdig (k # ks) off ilen =
     do {
       (idig', n) \<leftarrow> mpn_mul_row idig jdig k 0;
       (case idig' of [] \<Rightarrow> None
        | d # ds \<Rightarrow> do { (ds', l) \<leftarrow> mpn_mul_loop ds jdig ks (Suc off) (off + n); Some (d # ds', l) })
     }"

definition mpn_mul :: "digs \<Rightarrow> digs \<Rightarrow> digs \<Rightarrow> (digs \<times> nat) option" where
  "mpn_mul idig jdig kdig = mpn_mul_loop idig jdig kdig 0 0"

subsection \<open>Digit lists\<close>

definition digs_ok :: "digs \<Rightarrow> bool" where
  "digs_ok ds \<longleftrightarrow> (\<forall>d \<in> set ds. d < DIG_BASE)"

definition nrm :: "digs \<Rightarrow> bool" where
  "nrm ds \<longleftrightarrow> digs_ok ds \<and> (ds = [] \<or> last ds \<noteq> 0)"

abbreviation dv :: "digs \<Rightarrow> nat" where "dv \<equiv> dval DIG_BASE"

lemma and_dig [simp]: "(x :: nat) AND DIG_MASK = x mod DIG_BASE"
  using take_bit_eq_mask [of 16 x] by (simp add: take_bit_eq_mod mask_eq_exp_minus_1)

lemma or_add: "y < 2 ^ n \<Longrightarrow> (x :: nat) * 2 ^ n OR y = x * 2 ^ n + y"
proof -
  assume y: "y < 2 ^ n"
  have "\<not> bit (x * 2 ^ n) k \<or> \<not> bit y k" for k
  proof (cases "k < n")
    case True
    then show ?thesis by (simp flip: push_bit_eq_mult add: bit_push_bit_iff_nat)
  next
    case False
    then have "y < 2 ^ k" using y by (meson less_le_trans linorder_not_le one_le_numeral power_increasing)
    then show ?thesis by (simp add: bit_iff_odd)
  qed
  then show ?thesis by (metis disjunctive_add)
qed

lemma digs_ok_simps [simp]:
  "digs_ok []" "digs_ok (d # ds) \<longleftrightarrow> d < DIG_BASE \<and> digs_ok ds" "digs_ok (as @ bs) \<longleftrightarrow> digs_ok as \<and> digs_ok bs"
  "digs_ok (rev ds) = digs_ok ds" "digs_ok (replicate n 0)"
  by (auto simp: digs_ok_def)

lemma digs_ok_sub: "digs_ok ds \<Longrightarrow> digs_ok (take n ds)" "digs_ok ds \<Longrightarrow> digs_ok (drop n ds)" "digs_ok ds \<Longrightarrow> n < length ds \<Longrightarrow> ds ! n < DIG_BASE"
  by (auto simp: digs_ok_def dest: in_set_takeD in_set_dropD)

lemma nrm_ok: "nrm ds \<Longrightarrow> digs_ok ds"
  by (simp add: nrm_def)

lemma nrm_Nil [simp]: "nrm []"
  by (simp add: nrm_def)

lemma dv_less: "digs_ok ds \<Longrightarrow> dv ds < DIG_BASE ^ length ds"
  by (rule dval_less) (simp add: digs_ok_def)

lemma dv_snoc: "dv (ds @ [d]) = dv ds + DIG_BASE ^ length ds * d"
  by (simp add: dval_append)

lemma dv_last: "ds \<noteq> [] \<Longrightarrow> last ds \<noteq> 0 \<Longrightarrow> DIG_BASE ^ (length ds - 1) \<le> dv ds"
  by (cases ds rule: rev_cases) (auto simp: dv_snoc intro: trans_le_add2)

lemma nrm_ge: "nrm ds \<Longrightarrow> ds \<noteq> [] \<Longrightarrow> DIG_BASE ^ (length ds - 1) \<le> dv ds"
  using dv_last [of ds] by (auto simp: nrm_def)

lemma nrm_zero: "nrm ds \<Longrightarrow> dv ds = 0 \<longleftrightarrow> ds = []"
  using nrm_ge [of ds] by fastforce

text \<open>A list whose value needs its length has a top digit.\<close>

lemma last_nonzero:
  assumes "digs_ok ds" and "ds \<noteq> []" and "DIG_BASE ^ (length ds - 1) \<le> dv ds"
  shows "last ds \<noteq> 0"
proof
  assume l: "last ds = 0"
  have ds: "ds = butlast ds @ [last ds]" using assms(2) by simp
  then have "dv ds = dv (butlast ds)" using l by (metis dv_snoc mult_zero_right add_0_right)
  moreover have "digs_ok (butlast ds)" using assms(1) ds by (metis digs_ok_simps(3))
  ultimately show False using dv_less [of "butlast ds"] assms(3) by simp
qed

lemma nrmI: "digs_ok ds \<Longrightarrow> ds \<noteq> [] \<Longrightarrow> DIG_BASE ^ (length ds - 1) \<le> dv ds \<Longrightarrow> nrm ds"
  by (simp add: nrm_def last_nonzero)

lemma rtz_spec:
  assumes "n \<le> length ds"
  shows "mpn_remove_trailing_zeros ds n \<le> n"
    and "dv (take (mpn_remove_trailing_zeros ds n) ds) = dv (take n ds)"
    and "digs_ok ds \<Longrightarrow> nrm (take (mpn_remove_trailing_zeros ds n) ds)"
proof -
  have "mpn_remove_trailing_zeros ds n \<le> n \<and> dv (take (mpn_remove_trailing_zeros ds n) ds) = dv (take n ds)
    \<and> (digs_ok ds \<longrightarrow> nrm (take (mpn_remove_trailing_zeros ds n) ds))"
    using assms
  proof (induction n)
    case (Suc n)
    then have t: "take (Suc n) ds = take n ds @ [ds ! n]" by (simp add: take_Suc_conv_app_nth)
    show ?case
    proof (cases "ds ! n = 0")
      case True
      then show ?thesis using Suc t by (simp add: dv_snoc)
    next
      case False
      then show ?thesis using t Suc.prems by (auto simp: nrm_def digs_ok_sub)
    qed
  qed simp
  then show "mpn_remove_trailing_zeros ds n \<le> n"
    and "dv (take (mpn_remove_trailing_zeros ds n) ds) = dv (take n ds)"
    and "digs_ok ds \<Longrightarrow> nrm (take (mpn_remove_trailing_zeros ds n) ds)" by auto
qed

subsection \<open>Comparison\<close>

lemma mpn_cmp_loop_spec:
  assumes "digs_ok i" "digs_ok j" "n \<le> length i" "n \<le> length j"
  shows "mpn_cmp_loop i j n = sgn (int (dv (take n i)) - int (dv (take n j)))"
  using assms(3-)
proof (induction n)
  case (Suc n)
  then have t: "take (Suc n) i = take n i @ [i ! n]" "take (Suc n) j = take n j @ [j ! n]"
    by (simp_all add: take_Suc_conv_app_nth)
  have b: "i ! n < DIG_BASE" "j ! n < DIG_BASE" using assms(1,2) Suc.prems by (simp_all add: digs_ok_sub)
  have len: "length (take n i) = n" "length (take n j) = n" using Suc.prems by simp_all
  have lt: "dv (take n i) < DIG_BASE ^ n" "dv (take n j) < DIG_BASE ^ n"
    using dv_less [of "take n i"] dv_less [of "take n j"] assms(1,2) Suc.prems by (simp_all add: digs_ok_sub)
  have key: "a + P * x < b' + P * y" if "x < y" "a < P" for a b' P x y :: nat
  proof -
    have "a + P * x < P + P * x" using that by simp
    also have "\<dots> = P * Suc x" by simp
    also have "\<dots> \<le> P * y" using that by (intro mult_le_mono2) simp
    finally show ?thesis by simp
  qed
  have s: "s32 (int (i ! n) - int (j ! n)) = int (i ! n) - int (j ! n)" using b by simp
  consider "i ! n < j ! n" | "i ! n > j ! n" | "i ! n = j ! n" by linarith
  then show ?case
  proof cases
    case 1
    have "dv (take (Suc n) i) < dv (take (Suc n) j)"
      unfolding t dv_snoc len by (rule key [OF 1 lt(1)])
    then show ?thesis using 1 s by (simp add: sgn_if)
  next
    case 2
    have "dv (take (Suc n) j) < dv (take (Suc n) i)"
      unfolding t dv_snoc len by (rule key [OF 2 lt(2)])
    then show ?thesis using 2 s by (simp add: sgn_if)
  next
    case 3
    then show ?thesis using Suc s by (simp add: t dv_snoc len)
  qed
qed simp

lemma nrm_length_mono:
  assumes "nrm i" "nrm j" "length i < length j"
  shows "dv i < dv j"
proof -
  have "dv i < DIG_BASE ^ length i" using assms(1) by (simp add: nrm_ok dv_less)
  also have "\<dots> \<le> DIG_BASE ^ (length j - 1)" using assms(3) by (intro power_increasing) auto
  also have "\<dots> \<le> dv j" using assms by (intro nrm_ge) auto
  finally show ?thesis .
qed

lemma mpn_cmp_spec: "nrm i \<Longrightarrow> nrm j \<Longrightarrow> mpn_cmp i j = sgn (int (dv i) - int (dv j))"
  using nrm_length_mono [of i j] nrm_length_mono [of j i] mpn_cmp_loop_spec [of i j "length i"]
  by (auto simp: mpn_cmp_def nrm_ok sgn_if)

subsection \<open>Addition and subtraction\<close>

definition add_ok :: "digs \<Rightarrow> nat \<Rightarrow> nat \<Rightarrow> bool" where
  "add_ok r v n \<longleftrightarrow> dv r = v \<and> digs_ok r \<and> (length r = n \<or> length r = Suc n \<and> last r \<noteq> 0)"

lemma add_ok_Cons:
  assumes "add_ok r (v + x div DIG_BASE) n"
  shows "add_ok (x mod DIG_BASE # r) (x + DIG_BASE * v) (Suc n)"
proof -
  have "x mod DIG_BASE + DIG_BASE * (v + x div DIG_BASE) = x + DIG_BASE * v"
    by (simp add: algebra_simps)
  then show ?thesis using assms by (auto simp: add_ok_def)
qed

lemma mpn_add_loop_spec:
  assumes "digs_ok j" "digs_ok k" "length k \<le> length j" "c \<le> 1"
  shows "add_ok (mpn_add_loop j k c) (dv j + dv k + c) (length j)"
  using assms
proof (induction j k c rule: mpn_add_loop.induct)
  case (1 k c)
  then show ?case by (auto simp: add_ok_def)
next
  case (2 j js c)
  then have "add_ok (mpn_add_loop js [] ((c + j) div DIG_BASE)) (dv js + (c + j) div DIG_BASE) (length js)"
    by (auto simp: Let_def)
  from add_ok_Cons [OF this] show ?case using 2 by (simp add: Let_def ac_simps)
next
  case (3 j js k ks c)
  then have "add_ok (mpn_add_loop js ks ((c + (j + k)) div DIG_BASE)) (dv js + dv ks + (c + (j + k)) div DIG_BASE) (length js)"
    by (auto simp: Let_def)
  from add_ok_Cons [OF this] show ?case using 3 by (simp add: Let_def algebra_simps)
qed

lemma mpn_add_spec:
  assumes "nrm j" "nrm k" "length k \<le> length j"
  shows "dv (mpn_add j k) = dv j + dv k" and "nrm (mpn_add j k)" and "length (mpn_add j k) \<le> Suc (length j)"
proof -
  have a: "add_ok (mpn_add j k) (dv j + dv k) (length j)"
    using mpn_add_loop_spec [of j k 0] assms by (simp add: mpn_add_def nrm_ok)
  then show "dv (mpn_add j k) = dv j + dv k" "length (mpn_add j k) \<le> Suc (length j)" by (auto simp: add_ok_def)
  show "nrm (mpn_add j k)"
  proof (cases "mpn_add j k = [] \<or> last (mpn_add j k) \<noteq> 0")
    case False
    then have l: "length (mpn_add j k) = length j" using a by (auto simp: add_ok_def)
    then have "j \<noteq> []" using False by auto
    then have "DIG_BASE ^ (length (mpn_add j k) - 1) \<le> dv (mpn_add j k)"
      using nrm_ge [OF assms(1)] l a by (simp add: add_ok_def trans_le_add1)
    then show ?thesis using False a by (intro nrmI) (auto simp: add_ok_def)
  qed (use a in \<open>auto simp: add_ok_def nrm_def\<close>)
qed

lemma mpn_sub_loop_spec:
  assumes "digs_ok j" "digs_ok k" "length k \<le> length j" "b = 0 \<or> b = - 1"
    and "0 \<le> int (dv j) - int (dv k) + b"
  shows "int (dv (mpn_sub_loop j k b)) = int (dv j) - int (dv k) + b
    \<and> digs_ok (mpn_sub_loop j k b) \<and> length (mpn_sub_loop j k b) = length j"
proof -
  have step: "int (nat (x mod 65536)) + 65536 * (v + x div 65536) = x + 65536 * v" for x v :: int
    by (simp add: algebra_simps)
  have nd: "nat (x mod 65536) < DIG_BASE" for x :: int by (simp add: nat_less_iff)
  show ?thesis using assms
  proof (induction j k b rule: mpn_sub_loop.induct)
    case (1 k b)
    then show ?case by auto
  next
    case (2 j js b)
    define x where "x = b + int j"
    have x: "s32 (b + int j) = x" "x div 65536 = 0 \<or> x div 65536 = - 1"
      using 2(2,5) by (auto simp: x_def)
    have nn: "0 \<le> int (dv js) + x div 65536"
      using 2(6) by (simp add: x_def) 
    have "int (dv (mpn_sub_loop js [] (x div 65536))) = int (dv js) + x div 65536
      \<and> digs_ok (mpn_sub_loop js [] (x div 65536)) \<and> length (mpn_sub_loop js [] (x div 65536)) = length js"
      using 2(1) [of x] x nn 2(2) by auto
    then show ?case using step [of x "int (dv js)"] nd x by (simp add: x_def Let_def)
  next
    case (3 j js k ks b)
    define x where "x = b + (int j - int k)"
    have x: "s32 (b + (int j - int k)) = x" "x div 65536 = 0 \<or> x div 65536 = - 1"
      using 3(2,3,5) by (auto simp: x_def)
    have nn: "0 \<le> int (dv js) - int (dv ks) + x div 65536"
      using 3(6) by (simp add: x_def) 
    have "int (dv (mpn_sub_loop js ks (x div 65536))) = int (dv js) - int (dv ks) + x div 65536
      \<and> digs_ok (mpn_sub_loop js ks (x div 65536)) \<and> length (mpn_sub_loop js ks (x div 65536)) = length js"
      using 3(1) [of x] x nn 3(2,3,4) by auto
    then show ?case using step [of x "int (dv js) - int (dv ks)"] nd x by (simp add: x_def Let_def)
  qed
qed

lemma mpn_sub_spec:
  assumes "nrm j" "nrm k" "dv k \<le> dv j" and eq: "mpn_sub j k = (ws, n)"
  shows "dv (take n ws) = dv j - dv k" and "nrm (take n ws)" and "n \<le> length ws" and "length ws = length j"
    and "digs_ok ws"
proof -
  have len: "length k \<le> length j" using nrm_length_mono [of j k] assms(1-3) by (meson not_le)
  have s: "int (dv (mpn_sub_loop j k 0)) = int (dv j) - int (dv k)" "digs_ok (mpn_sub_loop j k 0)"
    "length (mpn_sub_loop j k 0) = length j"
    using mpn_sub_loop_spec [of j k 0] len assms(1-3) by (simp_all add: nrm_ok)
  have w: "ws = mpn_sub_loop j k 0" "n = mpn_remove_trailing_zeros ws (length ws)"
    using eq by (auto simp: mpn_sub_def Let_def)
  note r = rtz_spec [of "length ws" ws]
  show "dv (take n ws) = dv j - dv k" using r s w by simp
  show "nrm (take n ws)" "n \<le> length ws" "length ws = length j" "digs_ok ws" using r s w by auto
qed

subsection \<open>Shifts\<close>

lemma div_shift_split:
  fixes x y :: nat
  assumes "p \<le> 16" and that: "y < 65536"
  shows "((x * 65536 + y) div 2 ^ (16 - p)) mod 65536 = (x mod 2 ^ (16 - p)) * 2 ^ p + y div 2 ^ (16 - p)"
proof -
  have e: "(65536 :: nat) = 2 ^ p * 2 ^ (16 - p)" using assms by (simp flip: power_add)
  have "(x * 65536 + y) div 2 ^ (16 - p) = x * 2 ^ p + y div 2 ^ (16 - p)"
    unfolding e by (simp add: mult.assoc [symmetric] del: mult.assoc)
  moreover have "y div 2 ^ (16 - p) < 2 ^ p"
    using that by (simp add: e less_mult_imp_div_less)
  moreover have "x * 2 ^ p = (x mod 2 ^ (16 - p)) * 2 ^ p + (x div 2 ^ (16 - p)) * 65536"
  proof -
    have "x * 2 ^ p = (x mod 2 ^ (16 - p) + x div 2 ^ (16 - p) * 2 ^ (16 - p)) * 2 ^ p"
      by (simp only: mod_div_mult_eq)
    also have "\<dots> = (x mod 2 ^ (16 - p)) * 2 ^ p + (x div 2 ^ (16 - p)) * (2 ^ (16 - p) * 2 ^ p)"
      by (simp only: add_mult_distrib mult.assoc)
    also have "2 ^ (16 - p) * 2 ^ p = (65536 :: nat)" using e by (simp add: mult.commute)
    finally show ?thesis .
  qed
  moreover have "(x mod 2 ^ (16 - p)) * 2 ^ p + y div 2 ^ (16 - p) < 65536"
  proof -
    have "x mod 2 ^ (16 - p) + 1 \<le> 2 ^ (16 - p)" by (simp add: Suc_leI)
    from mult_le_mono1 [OF this, of "2 ^ p"] have "(x mod 2 ^ (16 - p)) * 2 ^ p + 2 ^ p \<le> 65536"
      by (simp add: e algebra_simps)
    with \<open>y div 2 ^ (16 - p) < 2 ^ p\<close> show ?thesis by linarith
  qed
  ultimately have "(x * 65536 + y) div 2 ^ (16 - p)
      = ((x mod 2 ^ (16 - p)) * 2 ^ p + y div 2 ^ (16 - p)) + (x div 2 ^ (16 - p)) * 65536"
    and "(x mod 2 ^ (16 - p)) * 2 ^ p + y div 2 ^ (16 - p) < 65536" by simp_all
  then show ?thesis by (simp only: mod_mult_self1 mod_less)
qed

lemma mpn_shl_loop_spec:
  assumes "digs_ok xs" and "x < DIG_BASE" and p: "p \<le> 16"
  shows "dv (rev (mpn_shl_loop xs (x * DIG_BASE) p))
      = 2 ^ p * dv (rev xs) + DIG_BASE ^ length xs * ((x mod 2 ^ (16 - p)) * 2 ^ p)
    \<and> digs_ok (mpn_shl_loop xs (x * DIG_BASE) p) \<and> length (mpn_shl_loop xs (x * DIG_BASE) p) = Suc (length xs)"
  using assms(1,2)
proof (induction xs arbitrary: x)
  case Nil
  then show ?case using div_shift_split [OF p, of 0 x] by simp
next
  case (Cons y ys)
  then have y: "y < 65536" by simp
  have o: "x * 65536 OR y = x * 65536 + y" using or_add [of y 16 x] y by simp
  have w: "u32 ((x * 65536 + y) * 65536) = y * 65536"
  proof -
    have "(x * 65536 + y) * 65536 = y * 65536 + x * 4294967296" by simp
    also have "\<dots> mod 4294967296 = y * 65536" using y by simp
    finally show ?thesis .
  qed
  let ?r = "mpn_shl_loop ys (y * DIG_BASE) p"
  have u: "mpn_shl_loop (y # ys) (x * 65536) p = ((x mod 2 ^ (16 - p)) * 2 ^ p + y div 2 ^ (16 - p)) # ?r"
    using div_shift_split [OF p y, of x] w by (simp add: o Let_def)
  have lt: "((x * 65536 + y) div 2 ^ (16 - p)) mod 65536 < 65536" by simp
  have "2 ^ p * y = 2 ^ p * (y mod 2 ^ (16 - p)) + 65536 * (y div 2 ^ (16 - p))"
  proof -
    have "(65536 :: nat) = 2 ^ p * 2 ^ (16 - p)" using p by (simp flip: power_add)
    then show ?thesis by (metis add_mult_distrib2 mod_mult_div_eq mult.assoc)
  qed
  then have "DIG_BASE ^ length ys * (2 ^ p * y) = DIG_BASE ^ length ys * (2 ^ p * (y mod 2 ^ (16 - p)) + 65536 * (y div 2 ^ (16 - p)))"
    by simp
  then show ?case
    using Cons.IH [of y] Cons.prems(1) lt div_shift_split [OF p y, of x] unfolding u
    by (simp add: dv_snoc distrib_left mult.assoc mult.left_commute)
qed

lemma mpn_shl_spec:
  assumes "nrm j" "0 < n" "n < 2 ^ 64 - 16" and eq: "mpn_shl j n = (ws, m)"
  shows "dv (take m ws) = dv j * 2 ^ n" and "nrm (take m ws)" and "m \<le> length ws"
    and "length ws = length j + (n + 15) div 16" and "digs_ok ws"
proof -
  define nw np where "nw = (n + 15) div 16" and "np = (if n mod 16 = 0 then 16 else n mod 16)"
  have u: "u64 (n + 16 - 1) div 16 = nw" using assms(3) by (simp add: nw_def)
  have nn: "n = 16 * (nw - 1) + np" "0 < nw" "np \<le> 16"
  proof -
    have n16: "n = 16 * (n div 16) + n mod 16" by simp
    show "n = 16 * (nw - 1) + np" "0 < nw" "np \<le> 16"
    proof (atomize (full), cases "n mod 16 = 0")
      case True
      then obtain q where "n = 16 * q" by auto
      then show "n = 16 * (nw - 1) + np \<and> 0 < nw \<and> np \<le> 16"
        using assms(2) True by (cases q) (simp_all add: nw_def np_def)
    next
      case False
      define q r where "q = n div 16" and "r = n mod 16"
      have "n = 16 * q + r" "0 < r" "r < 16" using False n16 by (simp_all add: q_def r_def)
      then have "(n + 15) div 16 = ((r - 1) + 16 * (q + 1)) div 16" and "r - 1 < 16" by simp_all
      then have "nw = n div 16 + 1" by (simp add: nw_def q_def)
      then show "n = 16 * (nw - 1) + np \<and> 0 < nw \<and> np \<le> 16"
        using False n16 by (simp add: np_def)
    qed
  qed
  have w: "ws = replicate (nw - 1) 0 @ rev (mpn_shl_loop (rev j) 0 np)"
    and m: "m = mpn_remove_trailing_zeros ws (length j + nw)"
    using eq u by (auto simp: mpn_shl_def Let_def np_def)
  have l: "dv (rev (mpn_shl_loop (rev j) 0 np)) = 2 ^ np * dv j" "digs_ok (mpn_shl_loop (rev j) 0 np)"
    "length (mpn_shl_loop (rev j) 0 np) = Suc (length j)"
    using mpn_shl_loop_spec [of "rev j" 0 np] nn(3) assms(1) by (simp_all add: nrm_ok)
  have len: "length ws = length j + nw" using w l nn(2) by simp
  have "dv ws = 65536 ^ (nw - 1) * (2 ^ np * dv j)" using w l by (simp add: dval_append)
  also have "(65536 :: nat) ^ (nw - 1) = 2 ^ (16 * (nw - 1))" by (simp add: power_mult)
  finally have "dv ws = dv j * 2 ^ n" by (subst nn(1)) (simp add: power_add)
  moreover have "digs_ok ws" using w l by simp
  moreover note rtz_spec [of "length j + nw" ws]
  ultimately show "dv (take m ws) = dv j * 2 ^ n" "nrm (take m ws)" "m \<le> length ws"
    "length ws = length j + (n + 15) div 16" "digs_ok ws"
    using len m by (simp_all add: nw_def)
qed

lemma mpn_shr_loop_spec:
  assumes "digs_ok js" and "p < 16"
  shows "dv (mpn_shr_loop js p) = dv js div 2 ^ p \<and> digs_ok (mpn_shr_loop js p)
    \<and> length (mpn_shr_loop js p) = length js"
  using assms
proof (induction js p rule: mpn_shr_loop.induct)
  case (1 p)
  then show ?case by simp
next
  case (2 j p)
  then have "j div 2 ^ p < 65536" by (simp add: less_le_trans [of _ "Suc j"] div_le_dividend le_imp_less_Suc order_le_less_trans)
  then show ?case by simp
next
  case (3 j j1 js p)
  let ?V = "dv (j1 # js)" and ?X = "dv (j # j1 # js)"
  have b: "j < 65536" "j1 < 65536" using 3 by auto
  have o: "j OR u32 (j1 * 65536) = j + 65536 * j1" using or_add [of j 16 j1] b by (simp add: or.commute)
  have X: "?X = (j + 65536 * j1) + 2 ^ p * (2 ^ (16 - p) * (65536 * dv js))"
  proof -
    have "(2 :: nat) ^ p * (2 ^ (16 - p) * (65536 * dv js)) = 2 ^ (p + (16 - p)) * (65536 * dv js)"
      by (simp only: power_add mult.assoc)
    then show ?thesis using 3 by simp
  qed
  have "?X div 2 ^ p = (j + 65536 * j1) div 2 ^ p + 65536 * (2 ^ (16 - p) * dv js)"
    unfolding X by (subst div_mult_self2) (simp_all add: ac_simps)
  then have lo: "?X div 2 ^ p mod 65536 = ((j + 65536 * j1) div 2 ^ p) mod 65536" by simp
  have "?X div 2 ^ p div 65536 = ?X div 65536 div 2 ^ p" by (simp add: div_mult2_eq [symmetric] mult.commute)
  also have "?X div 65536 = ?V" using b by simp
  finally have "?X div 2 ^ p = ((j + 65536 * j1) div 2 ^ p) mod 65536 + 65536 * (?V div 2 ^ p)"
    using lo by (metis mod_mult_div_eq)
  then show ?case using 3 o by simp
qed


lemma mpn_shr_spec:
  assumes "nrm j" "0 < n" and eq: "mpn_shr j n = (ws, m)"
  shows "dv (take m ws) = dv j div 2 ^ n" and "nrm (take m ws)" and "m \<le> length ws" and "length ws \<le> length j"
    and "digs_ok ws"
proof -
  define nw np where "nw = n div 16" and "np = n mod 16"
  have "n = 16 * nw + np" by (simp add: nw_def np_def)
  then have n2: "(2 :: nat) ^ n = 65536 ^ nw * 2 ^ np" by (simp add: power_add power_mult)
  have split: "dv j = dv (take nw j) + 65536 ^ nw * dv (drop nw j)" "nw \<le> length j \<Longrightarrow> dv (take nw j) < 65536 ^ nw"
    if "nw \<le> length j"
    using dval_append [of DIG_BASE "take nw j" "drop nw j"] dv_less [of "take nw j"] that assms(1)
    by (simp_all add: nrm_ok digs_ok_sub)
  have "dv (take m ws) = dv j div 2 ^ n \<and> nrm (take m ws) \<and> m \<le> length ws \<and> length ws \<le> length j \<and> digs_ok ws"
  proof (cases "length j \<le> nw")
    case True
    then have "(65536 :: nat) ^ length j \<le> 65536 ^ nw" by (intro power_increasing) auto
    moreover have "dv j < DIG_BASE ^ length j" using assms(1) by (simp add: nrm_ok dv_less)
    moreover have "65536 ^ nw \<le> (2 :: nat) ^ n" by (simp add: n2)
    ultimately have "dv j < 2 ^ n" by linarith
    then show ?thesis using True eq by (simp add: mpn_shr_def nw_def)
  next
    case False
    define r where "r = mpn_shr_loop (drop nw j) np"
    have r: "dv r = dv (drop nw j) div 2 ^ np" "digs_ok r" "length r = length j - nw"
      using mpn_shr_loop_spec [of "drop nw j" np] assms(1) by (simp_all add: r_def np_def nrm_ok digs_ok_sub)
    have "dv j div 2 ^ n = dv j div 65536 ^ nw div 2 ^ np" by (simp add: n2 div_mult2_eq)
    also have "dv j div 65536 ^ nw = dv (drop nw j)" using split False by simp
    finally have v: "dv r = dv j div 2 ^ n" using r by simp
    have w: "ws = r" "m = (if last r = 0 then length r - 1 else length r)"
      using eq False r(3) by (auto simp: mpn_shr_def Let_def nw_def np_def r_def)
    have ne: "r \<noteq> []" using r(3) False by auto
    obtain r0 x where rx: "r = r0 @ [x]" using ne by (cases r rule: rev_cases) auto
    have dn: "nrm (drop nw j)" "drop nw j \<noteq> []" using False assms(1) by (auto simp: nrm_def digs_ok_sub)
    have p16: "(2 :: nat) ^ np \<le> 65536" using power_increasing [of np 16 "2::nat"] by (simp add: np_def)
    show ?thesis
    proof (cases "x = 0")
      case True
      then have "dv r0 = dv r" by (simp add: rx dv_snoc)
      moreover have "nrm r0"
      proof (cases "r0 = []")
        case False
        define q where "q = length r0 - 1"
        have "length r0 = Suc q" using False by (simp add: q_def)
        then have q: "length j - nw - 1 = Suc q" "length r0 - 1 = q" using rx r(3) by simp_all
        have "(65536 :: nat) ^ q = 65536 ^ Suc q div 65536" by simp
        also have "\<dots> \<le> 65536 ^ Suc q div 2 ^ np" using p16 by (intro div_le_mono2) auto
        also have "\<dots> \<le> dv (drop nw j) div 2 ^ np" using nrm_ge [OF dn] q(1) by (intro div_le_mono) simp
        finally show ?thesis using False q(2) r \<open>dv r0 = dv r\<close> rx by (intro nrmI) auto
      qed simp
      ultimately show ?thesis using w v rx r True by simp
    next
      case False
      then show ?thesis using w v rx r by (auto simp: nrm_def)
    qed
  qed
  then show "dv (take m ws) = dv j div 2 ^ n" and "nrm (take m ws)" and "m \<le> length ws" and "length ws \<le> length j"
    and "digs_ok ws" by auto
qed

subsection \<open>Multiplication\<close>

lemma mul_dig_loop_spec:
  assumes "digs_ok i" "d < DIG_BASE" "c < DIG_BASE"
  shows "add_ok (mpn_mul_dig_add_dig_loop i d c) (dv i * d + c) (length i)"
  using assms
proof (induction i d c rule: mpn_mul_dig_add_dig_loop.induct)
  case (1 d c)
  then show ?case by (auto simp: add_ok_def)
next
  case (2 i ds d c)
  have "i \<le> 65535" "d \<le> 65535" and c: "c \<le> 65535" using 2(2-4) by simp_all
  then have "i * d \<le> 65535 * 65535" by (intro mult_le_mono)
  then have lt: "c + i * d < 4294967296" "c + i * d < 65536 * 65536" using c by linarith+
  then have "(c + i * d) div 65536 < 65536" by (simp add: less_mult_imp_div_less)
  then have "add_ok (mpn_mul_dig_add_dig_loop ds d ((c + i * d) div DIG_BASE)) (dv ds * d + (c + i * d) div DIG_BASE) (length ds)"
    using 2 lt by (simp add: Let_def)
  from add_ok_Cons [OF this] show ?case using lt by (simp add: Let_def algebra_simps)
qed

lemma dv_zeros: "\<forall>d \<in> set ds. d = 0 \<Longrightarrow> dv ds = 0"
  by (induction ds) auto

lemma mul_row_spec:
  assumes "digs_ok i" "digs_ok j" "k < DIG_BASE" "c < DIG_BASE" "length j < length i" "\<forall>d \<in> set (drop (length j) i). d = 0"
  shows "\<exists>i' n. mpn_mul_row i j k c = Some (i', n) \<and> dv i' = dv i + dv j * k + c \<and> digs_ok i'
    \<and> length i' = length i \<and> (n = length j \<or> n = Suc (length j) \<and> i' ! length j \<noteq> 0) \<and> (\<forall>d \<in> set (drop n i'). d = 0)"
  using assms
proof (induction i j k c rule: mpn_mul_row.induct)
  case (1 i k c)
  then obtain d ds where i: "i = d # ds" by (cases i) auto
  show ?case using 1 i by (auto simp: dv_zeros digs_ok_def)
next
  case (2 j js k c)
  then show ?case by simp
next
  case (3 i ds j js k c)
  let ?x = "c + (i + j * k)"
  have b: "i \<le> 65535" "c \<le> 65535" and "j \<le> 65535" "k \<le> 65535" using 3(2-5) by simp_all
  then have "j * k \<le> 65535 * 65535" by (intro mult_le_mono)
  then have lt: "j * k < 4294967296" "i + j * k < 4294967296" "?x < 4294967296"
    using b by linarith+
  have c: "?x div 2 ^ 16 < 65536" using lt(3) by (simp add: less_mult_imp_div_less)
  have u: "u32 (c + u32 (i + u32 (j * k))) = ?x" by (simp only: mod_less lt)
  obtain i' n where r: "mpn_mul_row ds js k (?x div DIG_BASE) = Some (i', n)"
    and p: "dv i' = dv ds + dv js * k + ?x div DIG_BASE" "digs_ok i'" "length i' = length ds"
      "n = length js \<or> n = Suc (length js) \<and> i' ! length js \<noteq> 0" "\<forall>d \<in> set (drop n i'). d = 0"
    using 3(1) [OF u [symmetric] _ _ _ c] 3(2-) by (auto simp del: mod_less)
  have "?x mod DIG_BASE + DIG_BASE * (dv ds + dv js * k + ?x div DIG_BASE) = dv (i # ds) + dv (j # js) * k + c"
    by (simp add: algebra_simps)
  moreover have "mpn_mul_row (i # ds) (j # js) k c = Some (?x mod DIG_BASE # i', Suc n)"
    using r by (simp only: mpn_mul_row.simps u Let_def bind.simps prod.case and_dig power_numeral) simp
  ultimately show ?case using p by (intro exI [of _ "?x mod DIG_BASE # i'"] exI [of _ "Suc n"]) auto
qed

lemma mul_loop_spec:
  assumes "digs_ok i" "digs_ok j" "digs_ok k" "length j + length k \<le> length i" "\<forall>d \<in> set (drop (length j) i). d = 0"
    "j \<noteq> []" "k \<noteq> []"
  shows "\<exists>i' n. mpn_mul_loop i j k off l = Some (i', off + n) \<and> dv i' = dv i + dv j * dv k \<and> digs_ok i'
    \<and> length i' = length i \<and> (n = length j + length k - 1 \<or> n = length j + length k \<and> i' ! (n - 1) \<noteq> 0)
    \<and> (\<forall>d \<in> set (drop n i'). d = 0)"
  using assms
proof (induction k arbitrary: i off l)
  case Nil
  then show ?case by simp
next
  case (Cons k ks)
  obtain i' n where r: "mpn_mul_row i j k 0 = Some (i', n)"
    and p: "dv i' = dv i + dv j * k" "digs_ok i'" "length i' = length i" "n = length j \<or> n = Suc (length j) \<and> i' ! length j \<noteq> 0"
      "\<forall>d \<in> set (drop n i'). d = 0"
    using mul_row_spec [of i j k 0] Cons.prems by auto
  obtain d ds where i': "i' = d # ds" using p(3) Cons.prems by (cases i') auto
  show ?case
  proof (cases "ks = []")
    case True
    then show ?thesis using r p i' by auto
  next
    case False
    have "drop (length j) ds = drop (Suc (length j)) i'" by (simp add: i')
    moreover have "set (drop (Suc (length j)) i') \<subseteq> set (drop n i')"
      using p(4) by (intro set_drop_subset_set_drop) auto
    ultimately have "\<forall>d \<in> set (drop (length j) ds). d = 0" using p(5) by (metis subsetD)
    then obtain ds' m where r2: "mpn_mul_loop ds j ks (Suc off) (off + n) = Some (ds', Suc off + m)"
      and q: "dv ds' = dv ds + dv j * dv ks" "digs_ok ds'" "length ds' = length ds"
        "m = length j + length ks - 1 \<or> m = length j + length ks \<and> ds' ! (m - 1) \<noteq> 0" "\<forall>d \<in> set (drop m ds'). d = 0"
      using Cons.IH [of ds "Suc off" "off + n"] Cons.prems False p i' by auto
    have "d + DIG_BASE * (dv ds + dv j * dv ks) = dv i' + DIG_BASE * (dv j * dv ks)" by (simp add: i' algebra_simps)
    then show ?thesis using r r2 p q i' Cons.prems(6)
      by (intro exI [of _ "d # ds'"] exI [of _ "Suc m"]) (auto simp: algebra_simps)
  qed
qed

lemma mpn_mul_spec:
  assumes "nrm j" "nrm k" "j \<noteq> []" "k \<noteq> []" "length j + length k \<le> n"
  obtains ws m where "mpn_mul (replicate n 0) j k = Some (ws, m)" and "dv (take m ws) = dv j * dv k"
    and "nrm (take m ws)" and "m \<le> length ws" and "length ws = n" and "digs_ok ws"
proof -
  obtain ws m where r: "mpn_mul (replicate n 0) j k = Some (ws, m)" and v: "dv ws = dv j * dv k"
    and p: "digs_ok ws" "length ws = n" "m = length j + length k - 1 \<or> m = length j + length k \<and> ws ! (m - 1) \<noteq> 0"
    "\<forall>d \<in> set (drop m ws). d = 0"
    using mul_loop_spec [of "replicate n 0" j k 0 0] assms by (auto simp: mpn_mul_def nrm_ok)
  have m: "m \<le> length ws" using p assms by auto
  have t: "dv (take m ws) = dv j * dv k"
    using dval_append [of DIG_BASE "take m ws" "drop m ws"] v p(4) by (simp add: dv_zeros)
  have m0: "0 < m" using p(3) assms(3,4) by (cases j; cases k) auto
  then have ne: "take m ws \<noteq> []" using m by auto
  then have l: "last (take m ws) = ws ! (m - 1)" using m by (simp add: last_conv_nth min_absorb2)
  have "nrm (take m ws)"
  proof (cases "m = length j + length k - 1")
    case True
    then have "m - 1 = (length j - 1) + (length k - 1)" using assms(3,4) by (cases j; cases k) auto
    then have "DIG_BASE ^ (m - 1) \<le> dv j * dv k"
      using mult_le_mono [OF nrm_ge [OF assms(1,3)] nrm_ge [OF assms(2,4)]] by (simp add: power_add)
    then show ?thesis using ne t m p(1) by (intro nrmI) (simp_all add: digs_ok_sub min_absorb2)
  next
    case False
    then have "ws ! (m - 1) \<noteq> 0" using p(3) by blast
    then show ?thesis using p(1) l by (simp add: nrm_def digs_ok_sub)
  qed
  with r t m p show ?thesis using that by blast
qed

end
