(* ===== verification/MpnDiv.thy ===== *)
theory MpnDiv
  imports Mpn
begin

section \<open>\<open>py/mpz.c\<close>: long division of digit arrays\<close>

text \<open>
  \<open>mpn_div\<close>, which replaces the numerator by the remainder and fills the quotient. The
  denominator is normalised on the fly, digit by digit (\<open>d_norm\<close>), and a quotient digit
  that was guessed too large is corrected by adding the denominator back until the borrow
  is cancelled. The two loops whose end depends on the data are partial functions.
\<close>

unbundle bit_operations_syntax

subsection \<open>Definitions\<close>

partial_function (option) mpn_norm_shift :: "nat \<Rightarrow> nat \<Rightarrow> nat option" where
  "mpn_norm_shift d norm_shift =
     (if d AND DIG_MSB = 0 then mpn_norm_shift (u16 (d * 2)) (u16 (norm_shift + 1)) else Some norm_shift)"

fun mpn_num_shl :: "digs \<Rightarrow> nat \<Rightarrow> nat \<Rightarrow> digs" where
  "mpn_num_shl [] norm_shift carry = []"
| "mpn_num_shl (n # ns) norm_shift carry =
     (((n * 2 ^ norm_shift) OR carry) AND DIG_MASK)
       # mpn_num_shl ns norm_shift (u16 (n div 2 ^ (DIG_SIZE - norm_shift)))"

definition mpn_lead_den :: "digs \<Rightarrow> nat \<Rightarrow> nat" where
  "mpn_lead_den den norm_shift =
     (let lead = u32 (den ! (length den - 1) * 2 ^ norm_shift)
      in if 2 \<le> length den then lead OR (den ! (length den - 2) div 2 ^ (DIG_SIZE - norm_shift)) else lead)"

text \<open>One step of \<open>num - quo * den\<close>: the digit stored, \<open>d_norm\<close> and \<open>borrow\<close>.\<close>

definition mpn_div_submul_step :: "nat \<Rightarrow> nat \<Rightarrow> nat \<Rightarrow> nat \<Rightarrow> nat \<Rightarrow> int \<Rightarrow> nat \<times> nat \<times> int" where
  "mpn_div_submul_step n d norm_shift quo d_norm borrow =
     (let d_norm = u32 (d * 2 ^ norm_shift) OR (d_norm div 2 ^ DIG_SIZE);
          x = u32 (quo * (d_norm AND DIG_MASK));
          low_digs = s32 (borrow mod 2 ^ DIG_SIZE + int n - int (x AND DIG_MASK))
      in (nat (low_digs mod 2 ^ DIG_SIZE), d_norm,
          s32 (borrow div 2 ^ DIG_SIZE - int (x div 2 ^ DIG_SIZE) + low_digs div 2 ^ DIG_SIZE)))"

fun mpn_div_submul :: "digs \<Rightarrow> digs \<Rightarrow> nat \<Rightarrow> nat \<Rightarrow> nat \<Rightarrow> int \<Rightarrow> digs \<times> int" where
  "mpn_div_submul [] ds norm_shift quo d_norm borrow = ([], borrow)"
| "mpn_div_submul (n # ns) ds norm_shift quo d_norm borrow =
     (case mpn_div_submul_step n (hd ds) norm_shift quo d_norm borrow of (n', d_norm', borrow') \<Rightarrow>
        (case mpn_div_submul ns (tl ds) norm_shift quo d_norm' borrow' of (ns', b) \<Rightarrow> (n' # ns', b)))"

definition mpn_div_addback_step :: "nat \<Rightarrow> nat \<Rightarrow> nat \<Rightarrow> nat \<Rightarrow> nat \<Rightarrow> nat \<times> nat \<times> nat" where
  "mpn_div_addback_step n d norm_shift d_norm carry =
     (let d_norm = u32 (d * 2 ^ norm_shift) OR (d_norm div 2 ^ DIG_SIZE);
          carry = u32 (carry + (n + (d_norm AND DIG_MASK)))
      in (carry AND DIG_MASK, d_norm, carry div 2 ^ DIG_SIZE))"

fun mpn_div_addback :: "digs \<Rightarrow> digs \<Rightarrow> nat \<Rightarrow> nat \<Rightarrow> nat \<Rightarrow> digs \<times> nat" where
  "mpn_div_addback [] ds norm_shift d_norm carry = ([], carry)"
| "mpn_div_addback (n # ns) ds norm_shift d_norm carry =
     (case mpn_div_addback_step n (hd ds) norm_shift d_norm carry of (n', d_norm', carry') \<Rightarrow>
        (case mpn_div_addback ns (tl ds) norm_shift d_norm' carry' of (ns', c) \<Rightarrow> (n' # ns', c)))"

text \<open>The correction loop; \<open>--quo\<close> wraps at 32 bits.\<close>

partial_function (option) mpn_div_fix :: "digs \<Rightarrow> digs \<Rightarrow> nat \<Rightarrow> int \<Rightarrow> nat \<Rightarrow> (digs \<times> nat) option" where
  "mpn_div_fix ns den norm_shift borrow quo =
     (if borrow \<noteq> 0
      then (let (ns', carry) = mpn_div_addback ns den norm_shift 0 0
            in mpn_div_fix ns' den norm_shift (s32 (borrow + int carry)) (u32 (quo + 4294967295)))
      else Some (ns, quo))"

text \<open>One quotient digit: \<open>win\<close> are the \<open>den_len\<close> digits below \<open>*num_dig\<close>, which is \<open>hi\<close>.\<close>

definition mpn_div_digit :: "digs \<Rightarrow> nat \<Rightarrow> digs \<Rightarrow> nat \<Rightarrow> nat \<Rightarrow> (digs \<times> nat) option" where
  "mpn_div_digit win hi den norm_shift lead_den_digit =
     (let quo = (u32 (hi * 2 ^ DIG_SIZE) OR last win) div lead_den_digit;
          (ns, borrow) = mpn_div_submul win den norm_shift quo 0 0;
          borrow = s32 (borrow + int hi)
      in do { (ns, quo) \<leftarrow> mpn_div_fix ns den norm_shift borrow quo; Some (ns, quo AND DIG_MASK) })"

text \<open>
  The main loop, with \<open>k = *num_len - den_len\<close> digits of the quotient to go; a store
  outside the quotient array is \<open>None\<close>.
\<close>

fun mpn_div_loop :: "nat \<Rightarrow> digs \<Rightarrow> digs \<Rightarrow> nat \<Rightarrow> nat \<Rightarrow> digs \<Rightarrow> (digs \<times> digs) option" where
  "mpn_div_loop 0 num den norm_shift lead quo_dig = Some (num, quo_dig)"
| "mpn_div_loop (Suc k) num den norm_shift lead quo_dig =
     (let m = length den
      in do {
        (win, quo) \<leftarrow> mpn_div_digit (take m (drop k num)) (num ! (k + m)) den norm_shift lead;
        if k < length quo_dig
        then mpn_div_loop k (take k num @ win @ drop (k + m) num) den norm_shift lead (quo_dig[k := quo])
        else None
      })"

text \<open>The remainder is shifted back from the high end, so on reversed digits.\<close>

fun mpn_num_shr :: "digs \<Rightarrow> nat \<Rightarrow> nat \<Rightarrow> digs" where
  "mpn_num_shr [] norm_shift carry = []"
| "mpn_num_shr (n # ns) norm_shift carry =
     (((n div 2 ^ norm_shift) OR carry) AND DIG_MASK)
       # mpn_num_shr ns norm_shift (u16 (u32 (n * 2 ^ (DIG_SIZE - norm_shift))))"

text \<open>
  \<open>num_dig\<close> and \<open>quo_dig\<close> are whole arrays; the result is the numerator array with
  \<open>*num_len\<close> and the quotient array with \<open>*quo_len\<close>.
\<close>

definition mpn_div :: "digs \<Rightarrow> nat \<Rightarrow> digs \<Rightarrow> digs \<Rightarrow> ((digs \<times> nat) \<times> digs \<times> nat) option" where
  "mpn_div num_dig num_len den_dig quo_dig =
     (let cmp = mpn_cmp (take num_len num_dig) den_dig
      in if cmp = 0
         then (if quo_dig = [] then None else Some ((num_dig, 0), quo_dig[0 := 1], 1))
         else if cmp < 0 then Some ((num_dig, num_len), quo_dig, 0)
         else do {
           norm_shift \<leftarrow> mpn_norm_shift (last den_dig) 0;
           num \<leftarrow> (if num_len < length num_dig then Some (num_dig[num_len := 0]) else None);
           let num = mpn_num_shl (take (num_len + 1) num) norm_shift 0 @ drop (num_len + 1) num;
           let lead_den_digit = mpn_lead_den den_dig norm_shift;
           let quo_len = num_len + 1 - length den_dig;
           (num, quo) \<leftarrow> mpn_div_loop quo_len num den_dig norm_shift lead_den_digit quo_dig;
           let m = length den_dig;
           let num = rev (mpn_num_shr (rev (take m num)) norm_shift 0) @ drop m num;
           Some ((num, mpn_remove_trailing_zeros num m), quo, mpn_remove_trailing_zeros quo quo_len)
         })"

declare mpn_norm_shift.simps [code] mpn_div_fix.simps [code]

subsection \<open>Normalising shifts\<close>

lemma norm_shift_aux:
  "2 ^ s \<le> d \<Longrightarrow> d < 65536 \<Longrightarrow> \<exists>t. mpn_norm_shift d s = Some (s + t) \<and> 32768 \<le> d * 2 ^ t \<and> d * 2 ^ t < 65536"
proof (induction "65536 - d" arbitrary: d s rule: less_induct)
  case less
  have bit15: "d AND 32768 = 0 \<longleftrightarrow> d < 32768"
  proof -
    have "d AND 32768 = 0 \<longleftrightarrow> \<not> bit d 15" using and_exp_eq_0_iff_not_bit [of d 15] by simp
    moreover have "d div 32768 = (if d < 32768 then 0 else 1)"
      using less.prems(2) by (auto simp: div_if)
    ultimately show ?thesis by (simp add: bit_iff_odd)
  qed
  show ?case
  proof (cases "d < 32768")
    case True
    have "(2::nat) ^ s < 2 ^ 15" using less.prems(1) True by simp
    then have s: "s < 15" by (simp only: power_strict_increasing_iff)
    have d0: "0 < d" using less.prems(1) by (metis gr0I le_zero_eq power_not_zero zero_neq_numeral)
    have "\<exists>t. mpn_norm_shift (d * 2) (s + 1) = Some (s + 1 + t) \<and> 32768 \<le> d * 2 * 2 ^ t \<and> d * 2 * 2 ^ t < 65536"
      using less.hyps [of "d * 2" "s + 1"] True d0 less.prems(1) by simp
    then obtain t where t: "mpn_norm_shift (d * 2) (s + 1) = Some (s + 1 + t)" "32768 \<le> d * 2 * 2 ^ t" "d * 2 * 2 ^ t < 65536"
      by blast
    have "mpn_norm_shift d s = mpn_norm_shift (d * 2) (s + 1)"
      using True s by (subst mpn_norm_shift.simps) (simp add: bit15)
    then show ?thesis using t by (intro exI [of _ "t + 1"]) (simp add: ac_simps)
  next
    case False
    then show ?thesis using less.prems(2) by (subst mpn_norm_shift.simps) (simp add: bit15)
  qed
qed

lemma norm_shift:
  assumes "0 < d" "d < 65536"
  obtains s where "mpn_norm_shift d 0 = Some s" and "s < 16" and "32768 \<le> d * 2 ^ s" and "d * 2 ^ s < 65536"
proof -
  obtain t where t: "mpn_norm_shift d 0 = Some t" "32768 \<le> d * 2 ^ t" "d * 2 ^ t < 65536"
    using norm_shift_aux [of 0 d] assms by auto
  have "1 * (2::nat) ^ t \<le> d * 2 ^ t" using assms(1) by (intro mult_le_mono1) simp
  then have "(2::nat) ^ t < 65536" using t(3) by linarith
  then have "(2::nat) ^ t < 2 ^ 16" by simp
  then have "t < 16" by (simp only: power_strict_increasing_iff)
  then show ?thesis using t that by blast
qed

text \<open>One digit of a left shift by \<open>s\<close>: what is stored and what is carried.\<close>

lemma shift_digit:
  fixes n c s :: nat
  assumes "n < 65536" "c < 2 ^ s" "s < 16"
  shows "n * 2 ^ s OR c = n * 2 ^ s + c" and "(n * 2 ^ s + c) div 65536 = n div 2 ^ (16 - s)"
    and "n div 2 ^ (16 - s) < 2 ^ s" and "n * 2 ^ s + c < 65536 * 2 ^ s" and "n * 2 ^ s + c < 4294967296"
proof -
  show "n * 2 ^ s OR c = n * 2 ^ s + c" using assms(2) by (rule or_add)
  have e: "(65536 :: nat) = 2 ^ s * 2 ^ (16 - s)" using assms(3) by (simp flip: power_add)
  have "(n * 2 ^ s + c) div 65536 = (n * 2 ^ s + c) div 2 ^ s div 2 ^ (16 - s)"
    by (simp only: e div_mult2_eq)
  also have "(n * 2 ^ s + c) div 2 ^ s = n" using assms(2) by simp
  finally show "(n * 2 ^ s + c) div 65536 = n div 2 ^ (16 - s)" .
  show "n div 2 ^ (16 - s) < 2 ^ s" using assms(1) by (simp add: e less_mult_imp_div_less)
  have "n + 1 \<le> 65536" using assms(1) by simp
  from mult_le_mono1 [OF this, of "2 ^ s"] have "n * 2 ^ s + 2 ^ s \<le> 65536 * 2 ^ s"
    by (simp add: algebra_simps)
  then show lt: "n * 2 ^ s + c < 65536 * 2 ^ s" using assms(2) by linarith
  have "65536 * (2 :: nat) ^ s \<le> 65536 * 2 ^ 15" using assms(3) by (intro mult_le_mono2 power_increasing) auto
  then show "n * 2 ^ s + c < 4294967296" using lt by simp
qed

lemma num_shl_spec:
  assumes "digs_ok ns" "s < 16" "c < 2 ^ s"
  shows "dv (mpn_num_shl ns s c) = (dv ns * 2 ^ s + c) mod DIG_BASE ^ length ns
    \<and> digs_ok (mpn_num_shl ns s c) \<and> length (mpn_num_shl ns s c) = length ns"
  using assms(1,3)
proof (induction ns arbitrary: c)
  case (Cons n ns)
  then have n: "n < 65536" by simp
  note sd = shift_digit [OF n Cons.prems(2) assms(2)]
  have c16: "u16 (n div 2 ^ (16 - s)) = n div 2 ^ (16 - s)"
    using n by (intro mod_less) (meson div_le_dividend le_less_trans)
  let ?y = "n * 2 ^ s + c" and ?M = "DIG_BASE ^ length ns"
  have IH: "dv (mpn_num_shl ns s (?y div 65536)) = (dv ns * 2 ^ s + ?y div 65536) mod ?M
      \<and> digs_ok (mpn_num_shl ns s (?y div 65536)) \<and> length (mpn_num_shl ns s (?y div 65536)) = length ns"
    unfolding sd(2) using Cons sd(3) by simp
  have "(?y + 65536 * (dv ns * 2 ^ s)) mod (65536 * ?M)
      = 65536 * ((?y + 65536 * (dv ns * 2 ^ s)) div 65536 mod ?M) + (?y + 65536 * (dv ns * 2 ^ s)) mod 65536"
    by (rule mod_mult2_eq)
  also have "(?y + 65536 * (dv ns * 2 ^ s)) div 65536 = dv ns * 2 ^ s + ?y div 65536" by simp
  also have "(?y + 65536 * (dv ns * 2 ^ s)) mod 65536 = ?y mod 65536" by simp
  finally have "(dv (n # ns) * 2 ^ s + c) mod (65536 * ?M) = ?y mod 65536 + 65536 * ((dv ns * 2 ^ s + ?y div 65536) mod ?M)"
    by (simp add: algebra_simps)
  moreover have "mpn_num_shl (n # ns) s c = ?y mod 65536 # mpn_num_shl ns s (?y div 65536)"
    using sd(1,2) c16 by simp
  ultimately show ?case using IH by simp
qed simp

lemma num_shr_spec:
  assumes "digs_ok xs" "s < 16" "h < 2 ^ s"
  shows "dv (rev (mpn_num_shr xs s (h * 2 ^ (16 - s)))) = (dv (rev xs) + h * DIG_BASE ^ length xs) div 2 ^ s
    \<and> digs_ok (mpn_num_shr xs s (h * 2 ^ (16 - s))) \<and> length (mpn_num_shr xs s (h * 2 ^ (16 - s))) = length xs"
  using assms(1,3)
proof (induction xs arbitrary: h)
  case (Cons y ys)
  have y: "y < 65536" using Cons.prems by simp
  have e: "(65536 :: nat) = 2 ^ (16 - s) * 2 ^ s" "(65536 :: nat) = 2 ^ s * 2 ^ (16 - s)"
    using assms(2) by (simp_all flip: power_add)
  have q: "y div 2 ^ s < 2 ^ (16 - s)" using y by (simp add: e(1) less_mult_imp_div_less)
  have "h * 2 ^ (16 - s) OR y div 2 ^ s = h * 2 ^ (16 - s) + y div 2 ^ s" by (rule or_add [OF q])
  then have o: "y div 2 ^ s OR h * 2 ^ (16 - s) = h * 2 ^ (16 - s) + y div 2 ^ s" by (simp add: or.commute)
  have "h + 1 \<le> 2 ^ s" using Cons.prems by simp
  from mult_le_mono1 [OF this, of "2 ^ (16 - s)"] have "h * 2 ^ (16 - s) + 2 ^ (16 - s) \<le> 65536"
    by (simp add: e(2) algebra_simps)
  then have lt: "h * 2 ^ (16 - s) + y div 2 ^ s < 65536" using q by linarith
  have "y * 2 ^ (16 - s) mod 65536 = (y mod 2 ^ s) * 2 ^ (16 - s)" unfolding e(2) by (simp add: mult_mod_left)
  moreover have "u16 (u32 (y * 2 ^ (16 - s))) = y * 2 ^ (16 - s) mod 65536" by (simp add: mod_mod_cancel)
  ultimately have c: "u16 (u32 (y * 2 ^ (16 - s))) = (y mod 2 ^ s) * 2 ^ (16 - s)" by simp
  let ?r = "mpn_num_shr ys s ((y mod 2 ^ s) * 2 ^ (16 - s))" and ?L = "65536 ^ length ys"
  have IH: "dv (rev ?r) = (dv (rev ys) + (y mod 2 ^ s) * ?L) div 2 ^ s \<and> digs_ok ?r \<and> length ?r = length ys"
    using Cons by simp
  have u: "mpn_num_shr (y # ys) s (h * 2 ^ (16 - s)) = (h * 2 ^ (16 - s) + y div 2 ^ s) # ?r"
    using o lt c by simp
  have "?L * y + h * (65536 * ?L) = (y mod 2 ^ s) * ?L + 2 ^ s * (?L * (h * 2 ^ (16 - s) + y div 2 ^ s))"
  proof -
    have "?L * y = ?L * (y mod 2 ^ s + 2 ^ s * (y div 2 ^ s))" by simp
    moreover have "h * (65536 * ?L) = 2 ^ s * (?L * (h * 2 ^ (16 - s)))" by (subst e(2)) (simp only: ac_simps)
    ultimately show ?thesis by (simp only: distrib_left distrib_right ac_simps)
  qed
  then have "(dv (rev ys) + (?L * y + h * (65536 * ?L))) div 2 ^ s
      = (dv (rev ys) + (y mod 2 ^ s) * ?L) div 2 ^ s + ?L * (h * 2 ^ (16 - s) + y div 2 ^ s)"
    by (simp only: add.assoc [symmetric] div_mult_self2 power_not_zero zero_neq_numeral) simp
  then show ?case using IH lt unfolding u by (simp add: dv_snoc add.assoc)
qed simp

subsection \<open>Subtracting a multiple, adding back\<close>

lemma norm_digit:
  assumes "d < 65536" "dn div 65536 < 2 ^ s" "s < 16"
  shows "u32 (d * 2 ^ s) OR (dn div 65536) = d * 2 ^ s + dn div 65536"
    and "mpn_num_shl (d # ds) s (dn div 65536) = (d * 2 ^ s + dn div 65536) mod 65536 # mpn_num_shl ds s ((d * 2 ^ s + dn div 65536) div 65536)"
    and "(d * 2 ^ s + dn div 65536) div 65536 < 2 ^ s"
proof -
  note sd = shift_digit [OF assms]
  have "u32 (d * 2 ^ s) = d * 2 ^ s" using sd(5) by (intro mod_less) linarith
  then show "u32 (d * 2 ^ s) OR (dn div 65536) = d * 2 ^ s + dn div 65536" using sd(1) by simp
  have "u16 (d div 2 ^ (16 - s)) = d div 2 ^ (16 - s)"
    using assms(1) by (intro mod_less) (meson div_le_dividend le_less_trans)
  then show "mpn_num_shl (d # ds) s (dn div 65536) = (d * 2 ^ s + dn div 65536) mod 65536 # mpn_num_shl ds s ((d * 2 ^ s + dn div 65536) div 65536)"
    using sd(1,2) by simp
  show "(d * 2 ^ s + dn div 65536) div 65536 < 2 ^ s" using sd(2,3) by simp
qed

lemma pow16: "(2 :: nat) ^ 16 = 65536" "(2 :: int) ^ 16 = 65536"
  by simp_all

lemma submul_step:
  assumes n: "n < 65536" and d: "d < 65536" "dn div 65536 < 2 ^ s" "s < 16" and q: "q \<le> 65537"
    and b: "- 65540 \<le> b" "b \<le> 1"
  obtains n' b' where "mpn_div_submul_step n d s q dn b = (n', d * 2 ^ s + dn div 65536, b')"
    and "int n' + 65536 * b' = int n + b - int q * int ((d * 2 ^ s + dn div 65536) mod 65536)"
    and "n' < 65536" and "- 65540 \<le> b'" and "b' \<le> 1"
proof -
  let ?e = "(d * 2 ^ s + dn div 65536) mod 65536"
  have "q * ?e \<le> 65537 * 65535" using q by (intro mult_le_mono) simp_all
  then have xl: "q * ?e < 4294967296" by simp
  define x where "x = q * ?e"
  have ux: "u32 x = x" using xl by (simp only: x_def mod_less)
  define low where "low = b mod 65536 + int n - int (x mod 65536)"
  have xm: "0 \<le> int (x mod 65536)" "int (x mod 65536) < 65536" by simp_all
  have bm: "0 \<le> b mod 65536" "b mod 65536 < 65536" by simp_all
  have lr: "- 65536 < low" "low < 131072" using xm bm n unfolding low_def by linarith+
  have ls: "s32 low = low" using lr by simp
  have xd: "x div 65536 \<le> 65535" using xl by (simp add: x_def less_mult_imp_div_less Suc_leI flip: less_Suc_eq_le)
  have bd: "- 2 \<le> b div 65536" "b div 65536 \<le> 0" using b by linarith+
  have ld: "- 1 \<le> low div 65536" "low div 65536 \<le> 1" using lr by linarith+
  define b' where "b' = b div 65536 - int (x div 65536) + low div 65536"
  have br: "- 65540 \<le> b'" "b' \<le> 1" using bd ld xd unfolding b'_def by linarith+
  have bs: "s32 b' = b'" using br by simp
  have eq: "int (nat (low mod 65536)) + 65536 * b' = int n + b - int x"
  proof -
    have "65536 * (b div 65536) = b - b mod 65536" "65536 * int (x div 65536) = int x - int (x mod 65536)"
      "65536 * (low div 65536) = low - low mod 65536"
      by (simp_all add: minus_mod_eq_mult_div zmod_int zdiv_int)
    then show ?thesis by (simp add: b'_def low_def algebra_simps)
  qed
  have "mpn_div_submul_step n d s q dn b = (nat (low mod 65536), d * 2 ^ s + dn div 65536, b')"
    unfolding mpn_div_submul_step_def pow16 norm_digit(1) [OF d] Let_def and_dig
      x_def [symmetric] ux low_def [symmetric] ls b'_def [symmetric] bs ..
  moreover have "nat (low mod 65536) < 65536" by (simp add: nat_less_iff)
  ultimately show ?thesis using that [OF _ _ _ br] eq by (simp only: x_def of_nat_mult)
qed

lemma submul_spec:
  assumes "digs_ok ns" "digs_ok ds" "length ns = length ds" "s < 16" "q \<le> 65537"
    and "dn div 65536 < 2 ^ s" "- 65540 \<le> b" "b \<le> 1"
  shows "\<exists>r b'. mpn_div_submul ns ds s q dn b = (r, b')
    \<and> int (dv r) + b' * 65536 ^ length ns = int (dv ns) + b - int q * int (dv (mpn_num_shl ds s (dn div 65536)))
    \<and> digs_ok r \<and> length r = length ns \<and> - 65540 \<le> b' \<and> b' \<le> 1"
  using assms(1-3,6-)
proof (induction ns arbitrary: ds dn b)
  case (Cons n ns)
  then obtain d ds' where ds: "ds = d # ds'" "length ns = length ds'" by (cases ds) auto
  have nd: "n < 65536" "d < 65536" "digs_ok ns" "digs_ok ds'" using Cons.prems ds by auto
  let ?dn = "d * 2 ^ s + dn div 65536"
  obtain n' b1 where st: "mpn_div_submul_step n d s q dn b = (n', ?dn, b1)"
    and eq: "int n' + 65536 * b1 = int n + b - int q * int (?dn mod 65536)"
    and r1: "n' < 65536" "- 65540 \<le> b1" "b1 \<le> 1"
    using submul_step [OF nd(1,2) Cons.prems(4) assms(4,5) Cons.prems(5,6)] .
  obtain r b' where IH: "mpn_div_submul ns ds' s q ?dn b1 = (r, b')"
    "int (dv r) + b' * 65536 ^ length ns = int (dv ns) + b1 - int q * int (dv (mpn_num_shl ds' s (?dn div 65536)))"
    "digs_ok r" "length r = length ns" "- 65540 \<le> b'" "b' \<le> 1"
    using Cons.IH [OF nd(3,4) ds(2) norm_digit(3) [OF nd(2) Cons.prems(4) assms(4)] r1(2,3)] by blast
  let ?W = "int (dv (mpn_num_shl ds' s (?dn div 65536)))"
  have "int n' + 65536 * int (dv r) + b' * (65536 * 65536 ^ length ns)
      = int n' + 65536 * (int (dv r) + b' * 65536 ^ length ns)" by (simp only: distrib_left ac_simps)
  also have "\<dots> = (int n' + 65536 * b1) + 65536 * int (dv ns) - int q * (65536 * ?W)"
    unfolding IH(2) by (simp add: algebra_simps)
  also have "\<dots> = int n + b + 65536 * int (dv ns) - int q * (int (?dn mod 65536) + 65536 * ?W)"
    unfolding eq by (simp add: algebra_simps)
  finally have "int (dv (n' # r)) + b' * 65536 ^ length (n # ns)
      = int (dv (n # ns)) + b - int q * int (dv (mpn_num_shl ds s (dn div 65536)))"
    unfolding ds(1) norm_digit(2) [OF nd(2) Cons.prems(4) assms(4)] by simp
  moreover have "mpn_div_submul (n # ns) ds s q dn b = (n' # r, b')" using st IH(1) ds by simp
  ultimately show ?case using IH r1 by auto
qed simp

lemma addback_spec:
  assumes "digs_ok ns" "digs_ok ds" "length ns = length ds" "s < 16" and "dn div 65536 < 2 ^ s" "c \<le> 1"
  shows "\<exists>r c'. mpn_div_addback ns ds s dn c = (r, c')
    \<and> dv r + c' * 65536 ^ length ns = dv ns + c + dv (mpn_num_shl ds s (dn div 65536))
    \<and> digs_ok r \<and> length r = length ns \<and> c' \<le> 1"
  using assms(1-3,5-)
proof (induction ns arbitrary: ds dn c)
  case (Cons n ns)
  then obtain d ds' where ds: "ds = d # ds'" "length ns = length ds'" by (cases ds) auto
  have nd: "n < 65536" "d < 65536" "digs_ok ns" "digs_ok ds'" using Cons.prems ds by auto
  let ?dn = "d * 2 ^ s + dn div 65536"
  let ?x = "c + (n + ?dn mod 65536)"
  have xr: "?x \<le> 131071" using nd(1) Cons.prems(5) by (simp add: Suc_leI add_le_mono less_Suc_eq_le)
  have st: "mpn_div_addback_step n d s dn c = (?x mod 65536, ?dn, ?x div 65536)"
    unfolding mpn_div_addback_step_def pow16 norm_digit(1) [OF nd(2) Cons.prems(4) assms(4)] Let_def and_dig
    using xr by simp
  have x1: "?x div 65536 \<le> 1" using xr by linarith
  obtain r c' where IH: "mpn_div_addback ns ds' s ?dn (?x div 65536) = (r, c')"
    "dv r + c' * 65536 ^ length ns = dv ns + ?x div 65536 + dv (mpn_num_shl ds' s (?dn div 65536))"
    "digs_ok r" "length r = length ns" "c' \<le> 1"
    using Cons.IH [OF nd(3,4) ds(2) norm_digit(3) [OF nd(2) Cons.prems(4) assms(4)] x1] by blast
  let ?W = "dv (mpn_num_shl ds' s (?dn div 65536))"
  have "?x mod 65536 + 65536 * dv r + c' * (65536 * 65536 ^ length ns)
      = ?x mod 65536 + 65536 * (dv r + c' * 65536 ^ length ns)" by (simp only: distrib_left ac_simps)
  also have "\<dots> = (?x mod 65536 + 65536 * (?x div 65536)) + 65536 * dv ns + 65536 * ?W"
    unfolding IH(2) by (simp only: distrib_left ac_simps)
  also have "?x mod 65536 + 65536 * (?x div 65536) = ?x" by simp
  finally have "dv (?x mod 65536 # r) + c' * 65536 ^ length (n # ns)
      = dv (n # ns) + c + dv (mpn_num_shl ds s (dn div 65536))"
    unfolding ds(1) norm_digit(2) [OF nd(2) Cons.prems(4) assms(4)] by simp
  moreover have "mpn_div_addback (n # ns) ds s dn c = (?x mod 65536 # r, c')" using st IH(1) ds by simp
  ultimately show ?case using IH by auto
qed simp

subsection \<open>One quotient digit\<close>

lemma div_fix_spec:
  assumes "digs_ok den" "s < 16" and V: "V = dv (mpn_num_shl den s 0)" and "0 < V"
    and "digs_ok ns" "length ns = length den" "b \<le> 0" "- 100000 \<le> b" "q < 4294967296"
    and "int (dv ns) + b * 65536 ^ length den < int V"
    and "int U = int (dv ns) + b * 65536 ^ length den + int q * int V"
  shows "\<exists>ns' q'. mpn_div_fix ns den s b q = Some (ns', q') \<and> dv ns' + q' * V = U \<and> dv ns' < V
    \<and> digs_ok ns' \<and> length ns' = length den"
  using assms(5-)
proof (induction q arbitrary: ns b)
  case 0
  have "b = 0"
  proof (rule ccontr)
    assume "b \<noteq> 0"
    then have "b * 65536 ^ length den \<le> (- 1) * 65536 ^ length den" using 0 by (intro mult_right_mono) auto
    moreover have "int (dv ns) < 65536 ^ length den" using dv_less [OF 0(1)] 0(2) by (metis of_nat_less_iff of_nat_numeral of_nat_power)
    ultimately show False using 0(7) by simp
  qed
  then show ?case using 0 by (subst mpn_div_fix.simps) simp
next
  case (Suc q)
  show ?case
  proof (cases "b = 0")
    case True
    then have "int U = int (dv ns + Suc q * V)" using Suc.prems(7) by (simp add: algebra_simps)
    then have "dv ns + Suc q * V = U" by (simp only: of_nat_eq_iff)
    then show ?thesis using Suc.prems True by (subst mpn_div_fix.simps) simp
  next
    case False
    obtain r c where ab: "mpn_div_addback ns den s 0 0 = (r, c)" "dv r + c * 65536 ^ length den = dv ns + V"
      "digs_ok r" "length r = length den" "c \<le> 1"
      using addback_spec [of ns den s 0 0] Suc.prems(1,2) assms(1,2) V by auto
    have eq: "int (dv r) + (b + int c) * 65536 ^ length den = int (dv ns) + b * 65536 ^ length den + int V"
      using arg_cong [OF ab(2), of int] by (simp add: algebra_simps)
    have neg: "int (dv ns) + b * 65536 ^ length den < 0"
    proof -
      have "b * 65536 ^ length den \<le> (- 1) * 65536 ^ length den" using Suc.prems(3) False by (intro mult_right_mono) auto
      moreover have "int (dv ns) < 65536 ^ length den"
        using dv_less [OF Suc.prems(1)] Suc.prems(2) by (metis of_nat_less_iff of_nat_numeral of_nat_power)
      ultimately show ?thesis by linarith
    qed
    have bc: "b + int c \<le> 0" "- 100000 \<le> b + int c" using False Suc.prems(3,4) ab(5) by linarith+
    have q: "u32 (Suc q + 4294967295) = q" using Suc.prems(5) by simp
    have "\<exists>ns' q'. mpn_div_fix r den s (b + int c) q = Some (ns', q') \<and> dv ns' + q' * V = U \<and> dv ns' < V
        \<and> digs_ok ns' \<and> length ns' = length den"
    proof (rule Suc.IH [OF ab(3,4) bc])
      show "q < 4294967296" using Suc.prems(5) by simp
      show "int (dv r) + (b + int c) * 65536 ^ length den < int V" unfolding eq using neg by linarith
      show "int U = int (dv r) + (b + int c) * 65536 ^ length den + int q * int V"
        unfolding eq Suc.prems(7) by (simp add: algebra_simps)
    qed
    moreover have "s32 (b + int c) = b + int c" using bc by simp
    ultimately show ?thesis using False ab(1) q by (subst mpn_div_fix.simps) simp
  qed
qed

lemma quotient_guess:
  fixes U V P T lead :: nat
  assumes "lead = V div P" "32768 \<le> lead" "T = U div P" "U < V * 65536" "0 < P"
  shows "U < (T div lead + 1) * V" and "T div lead \<le> 65537"
proof -
  have "U < (T + 1) * P" using assms(3,5) by (simp add: dividend_less_div_times add.commute [of _ P])
  also have "T + 1 \<le> (T div lead + 1) * lead"
    using assms(2) dividend_less_div_times [of lead T] by (simp add: Suc_le_eq)
  then have "(T + 1) * P \<le> (T div lead + 1) * (lead * P)" by (metis mult.assoc mult_le_mono1)
  also have "\<dots> \<le> (T div lead + 1) * V" using assms(1) by (intro mult_le_mono2) simp
  finally show "U < (T div lead + 1) * V" .
  have "V < (lead + 1) * P" using assms(1,5) by (simp add: dividend_less_div_times add.commute [of _ P])
  then have "V * 65536 < (lead + 1) * P * 65536" by simp
  then have "U < (lead + 1) * P * 65536" using assms(4) by linarith
  then have "U < (lead + 1) * 65536 * P" by (simp only: ac_simps)
  then have "T < (lead + 1) * 65536" using assms(3) by (simp add: less_mult_imp_div_less)
  also have "\<dots> \<le> 65538 * lead" using assms(2) by simp
  finally have "T div lead < 65538" by (simp add: less_mult_imp_div_less)
  then show "T div lead \<le> 65537" by simp
qed

lemma div_digit_spec:
  assumes den: "digs_ok den" "den \<noteq> []" and s: "s < 16" and V: "V = dv (mpn_num_shl den s 0)"
    and lead: "lead = V div 65536 ^ (length den - 1)" "32768 \<le> lead"
    and win: "digs_ok win" "length win = length den" "hi < 65536"
    and U: "U = dv win + hi * 65536 ^ length den" "U < V * 65536"
  shows "\<exists>win' q. mpn_div_digit win hi den s lead = Some (win', q) \<and> dv win' + q * V = U \<and> dv win' < V
    \<and> q < 65536 \<and> digs_ok win' \<and> length win' = length den"
proof -
  define m where "m = length den - 1"
  have m: "length den = Suc m" using den(2) by (simp add: m_def)
  obtain w0 x where w: "win = w0 @ [x]" "length w0 = m" using win(2) m by (cases win rule: rev_cases) auto
  have x: "x < 65536" "digs_ok w0" using win(1) w by auto
  have T: "U div 65536 ^ m = hi * 65536 + x"
  proof -
    have "U = dv w0 + 65536 ^ m * (hi * 65536 + x)" using U(1) w m by (simp add: dv_snoc algebra_simps)
    then show ?thesis using dv_less [OF x(2)] w(2) by simp
  qed
  define Q where "Q = (hi * 65536 + x) div lead"
  note g = quotient_guess [OF lead(1) [folded m_def] lead(2) T [symmetric] U(2), folded Q_def]
  have V0: "0 < V" using U(2) by (cases V) auto
  have VB: "V < 65536 ^ length den" using dv_less [of "mpn_num_shl den s 0"] num_shl_spec [OF den(1) s, of 0] V by simp
  have hx: "hi * 65536 + x < 4294967296" using win(3) x(1) by simp
  have "u32 (hi * 65536) = hi * 65536" using win(3) by simp
  moreover have "hi * 65536 OR x = hi * 65536 + x" using or_add [of x 16 hi] x(1) by simp
  ultimately have quo: "(u32 (hi * 2 ^ 16) OR last win) div lead = Q" using w by (simp add: Q_def)
  obtain r b where sm: "mpn_div_submul win den s Q 0 0 = (r, b)"
    "int (dv r) + b * 65536 ^ length den = int (dv win) - int Q * int V"
    "digs_ok r" "length r = length den" "- 65540 \<le> b" "b \<le> 1"
    using submul_spec [OF win(1) den(1) win(2) s g(2), of 0 0] V win(2) by auto
  have s32b: "s32 (b + int hi) = b + int hi" using sm(5,6) win(3) by simp
  have R: "int U = int (dv r) + (b + int hi) * 65536 ^ length den + int Q * int V"
    using sm(2) U(1) by (simp add: algebra_simps)
  have "int U < (int Q + 1) * int V" using g(1) by (metis of_nat_1 of_nat_add of_nat_less_iff of_nat_mult zero_less_numeral zero_less_power)
  then have lt: "int (dv r) + (b + int hi) * 65536 ^ length den < int V" using R by (simp add: algebra_simps)
  have b0: "b + int hi \<le> 0"
  proof (rule ccontr)
    assume "\<not> b + int hi \<le> 0"
    then have "65536 ^ length den \<le> (b + int hi) * 65536 ^ length den"
      using mult_right_mono [of 1 "b + int hi" "65536 ^ length den"] by simp
    moreover have "int V < 65536 ^ length den" using VB by (metis of_nat_less_iff of_nat_numeral of_nat_power)
    ultimately show False using lt by linarith
  qed
  obtain ns' q' where fx: "mpn_div_fix r den s (b + int hi) Q = Some (ns', q')" "dv ns' + q' * V = U" "dv ns' < V"
    "digs_ok ns'" "length ns' = length den"
    using div_fix_spec [OF den(1) s V V0 sm(3,4) b0 _ _ lt R] sm(5) g(2) by auto
  have "q' * V < V * 65536" using fx(2) U(2) by linarith
  then have "q' < 65536" by (simp add: mult.commute)
  then show ?thesis using fx sm(1) s32b quo
    by (simp add: mpn_div_digit_def Let_def)
qed


subsection \<open>The whole division\<close>

lemma div_loop_spec:
  assumes den: "digs_ok den" "den \<noteq> []" and s: "s < 16" and V: "V = dv (mpn_num_shl den s 0)"
    and lead: "lead = V div 65536 ^ (length den - 1)" "32768 \<le> lead"
    and "digs_ok num" "k + length den \<le> length num" "dv (take (length den) (drop k num)) < V" "k \<le> length quo" "digs_ok quo"
  shows "\<exists>num' quo'. mpn_div_loop k num den s lead quo = Some (num', quo')
    \<and> dv (take (k + length den) num) = dv (take k quo') * V + dv (take (length den) num')
    \<and> dv (take (length den) num') < V \<and> digs_ok num' \<and> length num' = length num
    \<and> drop k quo' = drop k quo \<and> length quo' = length quo \<and> digs_ok quo'"
  using assms(7-)
proof (induction k arbitrary: num quo)
  case 0
  then show ?case by simp
next
  case (Suc k)
  let ?m = "length den" and ?win = "take (length den) (drop k num)" and ?hi = "num ! (k + length den)"
  define U where "U = dv ?win + ?hi * 65536 ^ ?m"
  have len: "length ?win = ?m" and lt: "k + ?m < length num" "k < length quo" using Suc.prems by auto
  have ok: "digs_ok ?win" "?hi < 65536" using Suc.prems(1) lt by (simp_all add: digs_ok_sub)
  have snoc: "take (Suc ?m) (drop k num) = ?win @ [?hi]" using lt by (simp add: take_Suc_conv_app_nth add.commute)
  have cons: "take (Suc ?m) (drop k num) = num ! k # take ?m (drop (Suc k) num)"
    using lt by (simp add: Cons_nth_drop_Suc [symmetric])
  have Ud: "U = dv (take (Suc ?m) (drop k num))" unfolding snoc dv_snoc len by (simp add: U_def)
  have "U < V * 65536"
  proof -
    have "num ! k < 65536" using Suc.prems(1) lt by (simp add: digs_ok_sub)
    then show ?thesis unfolding Ud cons using Suc.prems(3) by simp
  qed
  then obtain win' q where dg: "mpn_div_digit ?win ?hi den s lead = Some (win', q)" "dv win' + q * V = U" "dv win' < V"
    "q < 65536" "digs_ok win'" "length win' = ?m"
    using div_digit_spec [OF den s V lead ok(1) len ok(2) U_def] by blast
  define num1 where "num1 = take k num @ win' @ drop (k + ?m) num"
  have n1: "digs_ok num1" "length num1 = length num" "take ?m (drop k num1) = win'" "take (k + ?m) num1 = take k num @ win'"
    using Suc.prems(1) dg(5,6) lt by (simp_all add: num1_def digs_ok_sub)
  obtain num' quo' where lp: "mpn_div_loop k num1 den s lead (quo[k := q]) = Some (num', quo')"
    "dv (take (k + ?m) num1) = dv (take k quo') * V + dv (take ?m num')" "dv (take ?m num') < V" "digs_ok num'"
    "length num' = length num1" "drop k quo' = drop k (quo[k := q])" "length quo' = length quo" "digs_ok quo'"
  proof -
    have "digs_ok (quo[k := q])" using Suc.prems(5) dg(4) by (auto simp: digs_ok_def dest: set_update_subset_insert [THEN subsetD])
    then show ?thesis using Suc.IH [OF n1(1), of "quo[k := q]"] n1 lt dg(3) that by auto
  qed
  have dq: "drop k (quo[k := q]) = q # drop (Suc k) quo" using lt(2) by (simp add: drop_update_swap Cons_nth_drop_Suc [symmetric])
  then have q': "quo' ! k = q" "drop (Suc k) quo' = drop (Suc k) quo"
    using lp(6,7) lt(2) by (metis hd_drop_conv_nth list.sel(1), metis drop_Suc list.sel(3) tl_drop)
  have tq: "dv (take (Suc k) quo') = dv (take k quo') + 65536 ^ k * q"
    using lp(7) lt(2) q'(1) by (simp add: take_Suc_conv_app_nth dv_snoc)
  have "take (Suc k + ?m) num = take k num @ take (Suc ?m) (drop k num)" by (simp flip: take_add)
  then have "dv (take (Suc k + ?m) num) = dv (take k num) + 65536 ^ k * U" using lt by (simp add: dval_append Ud)
  also have "\<dots> = dv (take (k + ?m) num1) + 65536 ^ k * q * V"
    using lt dg(2) n1(4) by (simp add: dval_append algebra_simps flip: dg(2))
  also have "\<dots> = dv (take (Suc k) quo') * V + dv (take ?m num')" unfolding lp(2) tq by (simp add: algebra_simps)
  finally show ?case using dg(1) lt(2) lp q'(2) n1(2) by (simp add: num1_def)
qed


text \<open>The leading digit of the shifted denominator, as the code caches it.\<close>

lemma num_shl_no_overflow:
  assumes "digs_ok den" "den \<noteq> []" "s < 16" "last den * 2 ^ s < 65536"
  shows "dv (mpn_num_shl den s 0) = dv den * 2 ^ s" and "mpn_lead_den den s = dv den * 2 ^ s div 65536 ^ (length den - 1)"
    and "32768 \<le> last den * 2 ^ s \<Longrightarrow> 32768 \<le> dv den * 2 ^ s div 65536 ^ (length den - 1)"
proof -
  obtain d0 x where d: "den = d0 @ [x]" using assms(2) by (cases den rule: rev_cases) auto
  have ok: "digs_ok d0" "x < 65536" using assms(1) d by auto
  let ?m = "length d0"
  have val: "dv den * 2 ^ s = dv d0 * 2 ^ s + 65536 ^ ?m * (x * 2 ^ s)" by (simp add: d dv_snoc algebra_simps)
  have lt0: "dv d0 < 65536 ^ ?m" using dv_less [OF ok(1)] .
  have h: "dv d0 * 2 ^ s div 65536 ^ ?m < 2 ^ s" using lt0 by (simp add: less_mult_imp_div_less mult.commute)
  have q: "dv den * 2 ^ s div 65536 ^ ?m = x * 2 ^ s + dv d0 * 2 ^ s div 65536 ^ ?m"
    unfolding val by simp
  have fit: "x * 2 ^ s + 2 ^ s \<le> 65536"
  proof -
    have "x * 2 ^ s < 2 ^ (16 - s) * 2 ^ s" using assms(3,4) d by (simp flip: power_add)
    then have "x + 1 \<le> 2 ^ (16 - s)" by simp
    from mult_le_mono1 [OF this, of "2 ^ s"] have "x * 2 ^ s + 2 ^ s \<le> 2 ^ (16 - s) * 2 ^ s" by (simp add: algebra_simps)
    also have "\<dots> = 65536" using assms(3) by (simp flip: power_add)
    finally show ?thesis .
  qed
  have "dv den * 2 ^ s div 65536 ^ ?m < 65536" unfolding q using h fit by linarith
  then have "dv den * 2 ^ s < 65536 ^ length den" by (simp add: d div_less_iff_less_mult mult.commute)
  then show "dv (mpn_num_shl den s 0) = dv den * 2 ^ s" using num_shl_spec [OF assms(1,3), of 0] by simp
  show "32768 \<le> last den * 2 ^ s \<Longrightarrow> 32768 \<le> dv den * 2 ^ s div 65536 ^ (length den - 1)"
    using q d by simp
  show "mpn_lead_den den s = dv den * 2 ^ s div 65536 ^ (length den - 1)"
  proof (cases d0 rule: rev_cases)
    case Nil
    then show ?thesis using q d assms(4) by (simp add: mpn_lead_den_def)
  next
    case (snoc e y)
    have y: "y < 65536" "digs_ok e" using ok snoc by auto
    have "dv d0 * 2 ^ s div 65536 ^ ?m = y div 2 ^ (16 - s)"
    proof -
      have "dv d0 * 2 ^ s div 65536 ^ ?m = dv d0 * 2 ^ s div 65536 ^ length e div 65536"
      proof -
        have "(65536 :: nat) ^ ?m = 65536 ^ length e * 65536" by (simp add: snoc)
        then show ?thesis by (simp only: div_mult2_eq)
      qed
      also have "dv d0 * 2 ^ s div 65536 ^ length e = y * 2 ^ s + dv e * 2 ^ s div 65536 ^ length e"
      proof -
        have "dv d0 * 2 ^ s = dv e * 2 ^ s + 65536 ^ length e * (y * 2 ^ s)" by (simp add: snoc dv_snoc algebra_simps)
        then show ?thesis by simp
      qed
      also have "(y * 2 ^ s + dv e * 2 ^ s div 65536 ^ length e) div 65536 = y div 2 ^ (16 - s)"
        using dv_less [OF y(2)] by (intro shift_digit(2) [OF y(1) _ assms(3)]) (simp add: less_mult_imp_div_less mult.commute)
      finally show ?thesis .
    qed
    moreover have "x * 2 ^ s OR y div 2 ^ (16 - s) = x * 2 ^ s + y div 2 ^ (16 - s)"
      using shift_digit(3) [OF y(1) _ assms(3), of 0] by (intro or_add) simp
    ultimately show ?thesis using q d snoc assms(4) by (simp add: mpn_lead_den_def nth_append Let_def)
  qed
qed


lemma mpn_div_spec:
  assumes num: "digs_ok num" "nrm (take n num)" "n < length num" and den: "nrm den" "den \<noteq> []" and z: "n < z"
  shows "\<exists>num' n' quo' l. mpn_div num n den (replicate z 0) = Some ((num', n'), quo', l)
    \<and> dv (take n' num') = dv (take n num) mod dv den \<and> dv (take l quo') = dv (take n num) div dv den
    \<and> nrm (take n' num') \<and> nrm (take l quo') \<and> n' \<le> length num' \<and> l \<le> length quo'
    \<and> length num' = length num \<and> length quo' = z \<and> digs_ok num' \<and> digs_ok quo'"
proof -
  let ?N = "dv (take n num)" and ?D = "dv den" and ?m = "length den"
  have cmp: "mpn_cmp (take n num) den = sgn (int ?N - int ?D)" using mpn_cmp_spec [OF num(2) den(1)] .
  have okd: "digs_ok den" "last den < 65536" "0 < last den" using den by (auto simp: nrm_def digs_ok_def)
  consider "?N = ?D" | "?N < ?D" | "?D < ?N" by linarith
  then show ?thesis
  proof cases
    case 1
    obtain z' where z': "z = Suc z'" using z by (cases z) auto
    have "0 < ?D" using den nrm_zero [OF den(1)] by simp
    then have "?N div ?D = 1" "?N mod ?D = 0" using 1 by simp_all
    then show ?thesis using 1 cmp num(1) z' by (simp add: mpn_div_def nrm_def)
  next
    case 2
    then show ?thesis using cmp num by (simp add: mpn_div_def)
  next
    case 3
    then have ml: "?m \<le> n" using nrm_length_mono [of "take n num" den] num den(1) by (metis length_take less_imp_le_nat min.absorb2 min.absorb4 not_le not_less_iff_gr_or_eq)
    obtain s where ns: "mpn_norm_shift (last den) 0 = Some s" and s: "s < 16" "32768 \<le> last den * 2 ^ s" "last den * 2 ^ s < 65536"
      using norm_shift [OF okd(3,2)] .
    note no = num_shl_no_overflow [OF okd(1) den(2) s(1,3)]
    define V where "V = ?D * 2 ^ s"
    define lead where "lead = mpn_lead_den den s"
    have lead: "lead = V div 65536 ^ (?m - 1)" "32768 \<le> lead" using no s(2) by (simp_all add: lead_def V_def)
    define t where "t = take (n + 1) (num[n := 0])"
    have t: "t = take n num @ [0]" using num(3) by (simp add: t_def take_Suc_conv_app_nth)
    have tl: "length t = n + 1" "digs_ok t" "dv t = ?N" using num t by (simp_all add: digs_ok_sub dv_snoc)
    define num1 where "num1 = mpn_num_shl t s 0 @ drop (n + 1) (num[n := 0])"
    have N1: "?N < 65536 ^ n" using dv_less [of "take n num"] num by (simp add: nrm_ok)
    have p2: "(2 :: nat) ^ s \<le> 65536" using s(1) power_increasing [of s 16 "2 :: nat"] by simp
    have "?N * 2 ^ s < 65536 ^ n * 65536" using N1 p2 by (intro mult_less_le_imp_less) auto
    then have shl: "dv (mpn_num_shl t s 0) = ?N * 2 ^ s" "digs_ok (mpn_num_shl t s 0)" "length (mpn_num_shl t s 0) = n + 1"
      using num_shl_spec [OF tl(2) s(1), of 0] tl by (simp_all add: mult.commute)
    define k where "k = n + 1 - ?m"
    have km: "k + ?m = n + 1" using ml by (simp add: k_def)
    have n1: "digs_ok num1" "length num1 = length num" "take (k + ?m) num1 = mpn_num_shl t s 0"
      using shl num by (simp_all add: num1_def km digs_ok_sub)
    have hi: "dv (take ?m (drop k num1)) < V"
    proof -
      have "take ?m (drop k num1) = drop k (mpn_num_shl t s 0)" using n1(3) by (metis drop_take add_diff_cancel_left')
      then have "65536 ^ k * dv (take ?m (drop k num1)) \<le> ?N * 2 ^ s"
        using dval_append [of DIG_BASE "take k (mpn_num_shl t s 0)" "drop k (mpn_num_shl t s 0)"] shl km by simp
      also have "\<dots> < 65536 ^ n * 2 ^ s" using N1 by simp
      also have "65536 ^ n = (65536 :: nat) ^ k * 65536 ^ (?m - 1)"
      proof -
        have "n = k + (?m - 1)" using km den(2) by (cases den) auto
        then show ?thesis by (metis power_add)
      qed
      finally have "dv (take ?m (drop k num1)) < 65536 ^ (?m - 1) * 2 ^ s" by (simp add: mult.assoc)
      also have "\<dots> \<le> V" using nrm_ge [OF den] by (simp add: V_def)
      finally show ?thesis .
    qed
    obtain num2 quo where lp: "mpn_div_loop k num1 den s lead (replicate z 0) = Some (num2, quo)"
      "dv (take (k + ?m) num1) = dv (take k quo) * V + dv (take ?m num2)" "dv (take ?m num2) < V"
      "digs_ok num2" "length num2 = length num1" "length quo = z" "digs_ok quo"
      using div_loop_spec [OF okd(1) den(2) s(1) _ lead n1(1) _ hi, of "replicate z 0"] no(1) km num(3) z n1(2) V_def
      by (auto simp: k_def)
    let ?Q = "dv (take k quo)" and ?R = "dv (take ?m num2)"
    have e: "?N * 2 ^ s = ?Q * ?D * 2 ^ s + ?R" using lp(2) n1(3) shl(1) by (simp add: V_def mult.assoc)
    define r where "r = rev (mpn_num_shr (rev (take ?m num2)) s 0)"
    have r: "dv r = ?R div 2 ^ s" "digs_ok r" "length r = ?m"
      using num_shr_spec [of "rev (take ?m num2)" s 0] lp(4,5) s(1) n1(2) num(3) ml by (simp_all add: r_def digs_ok_sub)
    have "?R = (?N - ?Q * ?D) * 2 ^ s" using e by (simp add: diff_mult_distrib)
    then have rv: "dv r = ?N - ?Q * ?D" using r(1) by simp
    have "?Q * ?D * 2 ^ s \<le> ?N * 2 ^ s" using e by simp
    then have le: "?Q * ?D \<le> ?N" by simp
    have "dv r * 2 ^ s < ?D * 2 ^ s" using lp(3) \<open>?R = (?N - ?Q * ?D) * 2 ^ s\<close> rv by (simp add: V_def)
    then have rlt: "dv r < ?D" by simp
    have qr: "?N = dv r + ?Q * ?D" using rv le by simp
    have "?N mod ?D = dv r" "?N div ?D = ?Q" unfolding qr using rlt by simp_all
    then have res: "dv r = ?N mod ?D" "?Q = ?N div ?D" by simp_all
    define num3 where "num3 = r @ drop ?m num2"
    have n3: "digs_ok num3" "length num3 = length num" "take ?m num3 = r"
      using r lp(4,5) n1(2) num(3) ml by (simp_all add: num3_def digs_ok_sub)
    have run: "mpn_div num n den (replicate z 0) = Some ((num3, mpn_remove_trailing_zeros num3 ?m), quo, mpn_remove_trailing_zeros quo k)"
      using cmp 3 ns num(3) lp(1)
      by (simp add: mpn_div_def t_def [symmetric, simplified] num1_def [symmetric, simplified] lead_def [symmetric] k_def [symmetric, simplified] r_def [symmetric] num3_def [symmetric])
    have mn: "?m \<le> length num3" "k \<le> length quo" using n3(2) ml num(3) lp(6) z by (simp_all add: k_def)
    show ?thesis
      using run res rtz_spec [OF mn(1)] rtz_spec [OF mn(2)] n3 lp(6,7) mn
      by (intro exI [of _ num3] exI [of _ "mpn_remove_trailing_zeros num3 ?m"] exI [of _ quo]
          exI [of _ "mpn_remove_trailing_zeros quo k"]) simp
  qed
qed

end
