(* ===== verification/Mpz.thy ===== *)
theory Mpz
  imports MpnDiv
begin

section \<open>\<open>py/mpz.c\<close>, upper half: signed integers on the heap\<close>

text \<open>
  The \<open>mpz_\<close> functions work on objects \<open>mpz_t\<close> that may be the same object
  (\<open>dest == lhs\<close>), so they are functions on a heap of such objects. A pointer is a number,
  \<open>h_objs\<close> holds the objects and \<open>h_next\<close> is the first unused pointer, which
  \<open>m_new_obj\<close> and the local variables of type \<open>mpz_t\<close> take. \<open>mz_dig\<close> is the whole
  allocated array, of which \<open>mz_len\<close> digits are in use; \<open>NULL\<close> is the empty array, and
  the digits of newly allocated memory have the arbitrary value \<open>h_junk\<close>. A failed
  \<open>assert\<close> and a store outside an array are \<open>None\<close>.
\<close>

unbundle bit_operations_syntax

subsection \<open>Objects and memory\<close>

record mpz =
  mz_neg :: bool
  mz_fixed :: bool
  mz_alloc :: nat
  mz_len :: nat
  mz_dig :: digs

record heap =
  h_objs :: "nat \<Rightarrow> mpz"
  h_next :: nat
  h_junk :: nat

type_synonym ptr = nat

definition h_upd :: "heap \<Rightarrow> ptr \<Rightarrow> (mpz \<Rightarrow> mpz) \<Rightarrow> heap" where
  "h_upd h p f = h\<lparr>h_objs := (h_objs h)(p := f (h_objs h p))\<rparr>"

definition h_new :: "heap \<Rightarrow> mpz \<Rightarrow> ptr \<times> heap" where
  "h_new h z = (h_next h, h\<lparr>h_objs := (h_objs h)(h_next h := z), h_next := Suc (h_next h)\<rparr>)"

abbreviation h_digs :: "heap \<Rightarrow> ptr \<Rightarrow> digs" where
  "h_digs h p \<equiv> take (mz_len (h_objs h p)) (mz_dig (h_objs h p))"

abbreviation h_neg :: "heap \<Rightarrow> ptr \<Rightarrow> bool" where
  "h_neg h p \<equiv> mz_neg (h_objs h p)"

text \<open>Storing digits from the start of an object's array.\<close>

definition h_store :: "heap \<Rightarrow> ptr \<Rightarrow> digs \<Rightarrow> heap option" where
  "h_store h p ws =
     (if length ws \<le> length (mz_dig (h_objs h p))
      then Some (h_upd h p (\<lambda>z. z\<lparr>mz_dig := ws @ drop (length ws) (mz_dig z)\<rparr>)) else None)"

definition h_set_len :: "heap \<Rightarrow> ptr \<Rightarrow> nat \<Rightarrow> heap" where
  "h_set_len h p n = h_upd h p (\<lambda>z. z\<lparr>mz_len := n\<rparr>)"

definition h_set_neg :: "heap \<Rightarrow> ptr \<Rightarrow> bool \<Rightarrow> heap" where
  "h_set_neg h p b = h_upd h p (\<lambda>z. z\<lparr>mz_neg := b\<rparr>)"

subsection \<open>Initialisation and assignment\<close>

abbreviation (input) MIN_ALLOC :: nat where "MIN_ALLOC \<equiv> 2"
abbreviation (input) MPZ_NUM_DIG_FOR_INT :: nat where "MPZ_NUM_DIG_FOR_INT \<equiv> 4"
abbreviation (input) MPZ_NUM_DIG_FOR_LL :: nat where "MPZ_NUM_DIG_FOR_LL \<equiv> 4"

definition mpz_zero_obj :: mpz where
  "mpz_zero_obj = \<lparr>mz_neg = False, mz_fixed = False, mz_alloc = 0, mz_len = 0, mz_dig = []\<rparr>"

definition mpz_init_zero :: "heap \<Rightarrow> ptr \<Rightarrow> heap" where
  "mpz_init_zero h p = h_upd h p (\<lambda>_. mpz_zero_obj)"

definition mpz_need_dig :: "heap \<Rightarrow> ptr \<Rightarrow> nat \<Rightarrow> heap option" where
  "mpz_need_dig h p need =
     (let need = (if need < MIN_ALLOC then MIN_ALLOC else need); z = h_objs h p
      in if mz_dig z = [] \<or> mz_alloc z < need
         then (if mz_fixed z then None
               else Some (h_upd h p (\<lambda>z. z\<lparr>mz_dig := mz_dig z @ replicate (need - mz_alloc z) (h_junk h),
                                           mz_alloc := need\<rparr>)))
         else Some h)"

fun mpz_uint_digs :: "nat \<Rightarrow> digs" where
  "mpz_uint_digs uval =
     (if 0 < uval then (uval AND DIG_MASK) # mpz_uint_digs (uval div 2 ^ DIG_SIZE) else [])"

declare mpz_uint_digs.simps [simp del]

text \<open>\<open>uval = -val\<close> wraps at the 64 bits of \<open>mp_uint_t\<close>.\<close>

definition mpz_set_from_int :: "heap \<Rightarrow> ptr \<Rightarrow> int \<Rightarrow> heap option" where
  "mpz_set_from_int h z val =
     (if val = 0 then Some (h_set_len (h_set_neg h z False) z 0)
      else do {
        h \<leftarrow> mpz_need_dig h z MPZ_NUM_DIG_FOR_INT;
        let (neg, uval) = (if val < 0 then (True, nat (- val mod 2 ^ 64)) else (False, nat (val mod 2 ^ 64)));
        h \<leftarrow> h_store (h_set_neg h z neg) z (mpz_uint_digs uval);
        Some (h_set_len h z (length (mpz_uint_digs uval)))
      })"

definition mpz_init_from_int :: "heap \<Rightarrow> ptr \<Rightarrow> int \<Rightarrow> heap option" where
  "mpz_init_from_int h z val = mpz_set_from_int (mpz_init_zero h z) z val"

definition mpz_init_fixed_from_int :: "heap \<Rightarrow> ptr \<Rightarrow> digs \<Rightarrow> nat \<Rightarrow> int \<Rightarrow> heap option" where
  "mpz_init_fixed_from_int h z dig alloc val =
     mpz_set_from_int
       (h_upd h z (\<lambda>_. \<lparr>mz_neg = False, mz_fixed = True, mz_alloc = alloc, mz_len = 0, mz_dig = dig\<rparr>)) z val"

definition mpz_set_from_ll :: "heap \<Rightarrow> ptr \<Rightarrow> int \<Rightarrow> bool \<Rightarrow> heap option" where
  "mpz_set_from_ll h z val is_signed =
     do {
       h \<leftarrow> mpz_need_dig h z MPZ_NUM_DIG_FOR_LL;
       let (neg, uval) = (if is_signed \<and> val < 0 then (True, nat (- val mod 2 ^ 64)) else (False, nat (val mod 2 ^ 64)));
       h \<leftarrow> h_store (h_set_neg h z neg) z (mpz_uint_digs uval);
       Some (h_set_len h z (length (mpz_uint_digs uval)))
     }"

definition mpz_set :: "heap \<Rightarrow> ptr \<Rightarrow> ptr \<Rightarrow> heap option" where
  "mpz_set h dest src =
     do {
       h \<leftarrow> mpz_need_dig h dest (mz_len (h_objs h src));
       let h = h_set_neg h dest (h_neg h src);
       let h = h_set_len h dest (mz_len (h_objs h src));
       h_store h dest (h_digs h src)
     }"

text \<open>A cloned object is new; freeing one leaves an object nobody may use.\<close>

definition mpz_clone :: "heap \<Rightarrow> ptr \<Rightarrow> (ptr \<times> heap) option" where
  "mpz_clone h src =
     (if mz_alloc (h_objs h src) \<noteq> 0
      then Some (h_new h ((h_objs h src)\<lparr>mz_fixed := False\<rparr>)) else None)"

definition mpz_free :: "heap \<Rightarrow> ptr \<Rightarrow> heap" where
  "mpz_free h z = h_upd h z (\<lambda>_. mpz_zero_obj\<lparr>mz_fixed := True\<rparr>)"

definition mpz_deinit :: "heap \<Rightarrow> ptr \<Rightarrow> heap" where
  "mpz_deinit h z = (if \<not> mz_fixed (h_objs h z) then h_upd h z (\<lambda>_. mpz_zero_obj\<lparr>mz_fixed := True\<rparr>) else h)"

subsection \<open>Comparison, sign, shifts\<close>

definition mpz_is_zero :: "heap \<Rightarrow> ptr \<Rightarrow> bool" where
  "mpz_is_zero h z \<longleftrightarrow> mz_len (h_objs h z) = 0"

definition mpz_cmp :: "heap \<Rightarrow> ptr \<Rightarrow> ptr \<Rightarrow> int" where
  "mpz_cmp h z1 z2 =
     (let cmp = of_bool (h_neg h z2) - of_bool (h_neg h z1)
      in if cmp \<noteq> 0 then cmp
         else (let cmp = mpn_cmp (h_digs h z1) (h_digs h z2) in if h_neg h z1 then - cmp else cmp))"

definition mpz_abs_inpl :: "heap \<Rightarrow> ptr \<Rightarrow> ptr \<Rightarrow> heap option" where
  "mpz_abs_inpl h dest z =
     do { h \<leftarrow> (if dest \<noteq> z then mpz_set h dest z else Some h); Some (h_set_neg h dest False) }"

definition mpz_neg_inpl :: "heap \<Rightarrow> ptr \<Rightarrow> ptr \<Rightarrow> heap option" where
  "mpz_neg_inpl h dest z =
     do {
       h \<leftarrow> (if dest \<noteq> z then mpz_set h dest z else Some h);
       Some (if mz_len (h_objs h dest) \<noteq> 0 then h_set_neg h dest (\<not> h_neg h dest) else h)
     }"

text \<open>Storing a result of \<open>mpn_sub\<close>, \<open>mpn_shl\<close> or \<open>mpn_shr\<close> and its length.\<close>

definition h_put :: "heap \<Rightarrow> ptr \<Rightarrow> digs \<times> nat \<Rightarrow> heap option" where
  "h_put h p r = do { h \<leftarrow> h_store h p (fst r); Some (h_set_len h p (snd r)) }"

definition mpz_not_inpl :: "heap \<Rightarrow> ptr \<Rightarrow> ptr \<Rightarrow> heap option" where
  "mpz_not_inpl h dest z =
     do {
       h \<leftarrow> (if dest \<noteq> z then mpz_set h dest z else Some h);
       if mz_len (h_objs h dest) = 0
       then do {
         h \<leftarrow> mpz_need_dig h dest 1;
         h \<leftarrow> h_put h dest ([1], 1);
         Some (h_set_neg h dest True)
       }
       else if h_neg h dest
       then (let h = h_set_neg h dest False in h_put h dest (mpn_sub (h_digs h dest) [1]))
       else do {
         h \<leftarrow> mpz_need_dig h dest (mz_len (h_objs h dest) + 1);
         let r = mpn_add (h_digs h dest) [1];
         h \<leftarrow> h_put h dest (r, length r);
         Some (h_set_neg h dest True)
       }
     }"

definition mpz_shl_inpl :: "heap \<Rightarrow> ptr \<Rightarrow> ptr \<Rightarrow> nat \<Rightarrow> heap option" where
  "mpz_shl_inpl h dest lhs rhs =
     (if mz_len (h_objs h lhs) = 0 \<or> rhs = 0 then mpz_set h dest lhs
      else do {
        h \<leftarrow> mpz_need_dig h dest (mz_len (h_objs h lhs) + u64 (rhs + DIG_SIZE - 1) div DIG_SIZE);
        h \<leftarrow> h_put h dest (mpn_shl (h_digs h lhs) rhs);
        Some (h_set_neg h dest (h_neg h lhs))
      })"

text \<open>
  The rounding test of the arithmetic shift reads \<open>lhs\<close> after \<open>dest\<close> was written, as the
  code does: \<open>old\<close> is the array of \<open>lhs\<close> at that moment and \<open>len\<close> its length.
\<close>

definition mpz_shr_round_up :: "digs \<Rightarrow> nat \<Rightarrow> nat \<Rightarrow> bool" where
  "mpz_shr_round_up old len rhs =
     (let n_whole = rhs div DIG_SIZE; n_part = rhs mod DIG_SIZE
      in (\<exists>i < min len n_whole. old ! i \<noteq> 0)
         \<or> (n_whole < len \<and> old ! n_whole AND (2 ^ n_part - 1) \<noteq> 0))"

definition mpz_shr_inpl :: "heap \<Rightarrow> ptr \<Rightarrow> ptr \<Rightarrow> nat \<Rightarrow> heap option" where
  "mpz_shr_inpl h dest lhs rhs =
     (if mz_len (h_objs h lhs) = 0 \<or> rhs = 0 then mpz_set h dest lhs
      else do {
        h \<leftarrow> mpz_need_dig h dest (mz_len (h_objs h lhs));
        h \<leftarrow> h_put h dest (mpn_shr (h_digs h lhs) rhs);
        let h = h_set_neg h dest (h_neg h lhs);
        if h_neg h dest \<and> mpz_shr_round_up (mz_dig (h_objs h lhs)) (mz_len (h_objs h lhs)) rhs
        then (if mz_len (h_objs h dest) = 0 then h_put h dest ([1], 1)
              else (let r = mpn_add (h_digs h dest) [1] in h_put h dest (r, length r)))
        else Some h
      })"

subsection \<open>Arithmetic\<close>

definition mpz_add_inpl :: "heap \<Rightarrow> ptr \<Rightarrow> ptr \<Rightarrow> ptr \<Rightarrow> heap option" where
  "mpz_add_inpl h dest lhs rhs =
     (let (lhs, rhs) = (if mpn_cmp (h_digs h lhs) (h_digs h rhs) < 0 then (rhs, lhs) else (lhs, rhs))
      in do {
        h \<leftarrow> (if h_neg h lhs = h_neg h rhs
              then do {
                h \<leftarrow> mpz_need_dig h dest (mz_len (h_objs h lhs) + 1);
                let r = mpn_add (h_digs h lhs) (h_digs h rhs);
                h_put h dest (r, length r)
              }
              else do {
                h \<leftarrow> mpz_need_dig h dest (mz_len (h_objs h lhs));
                h_put h dest (mpn_sub (h_digs h lhs) (h_digs h rhs))
              });
        Some (h_set_neg h dest (h_neg h lhs \<and> mz_len (h_objs h dest) \<noteq> 0))
      })"

definition mpz_sub_inpl :: "heap \<Rightarrow> ptr \<Rightarrow> ptr \<Rightarrow> ptr \<Rightarrow> heap option" where
  "mpz_sub_inpl h dest lhs rhs =
     (let (lhs, rhs, neg) =
            (if mpn_cmp (h_digs h lhs) (h_digs h rhs) < 0 then (rhs, lhs, True) else (lhs, rhs, False))
      in do {
        h \<leftarrow> (if h_neg h lhs \<noteq> h_neg h rhs
              then do {
                h \<leftarrow> mpz_need_dig h dest (mz_len (h_objs h lhs) + 1);
                let r = mpn_add (h_digs h lhs) (h_digs h rhs);
                h_put h dest (r, length r)
              }
              else do {
                h \<leftarrow> mpz_need_dig h dest (mz_len (h_objs h lhs));
                h_put h dest (mpn_sub (h_digs h lhs) (h_digs h rhs))
              });
        Some (if mz_len (h_objs h dest) = 0 then h_set_neg h dest False
              else if neg then h_set_neg h dest (\<not> h_neg h lhs)
              else h_set_neg h dest (h_neg h lhs))
      })"

text \<open>The product is built in \<open>dest\<close>, so an operand that is \<open>dest\<close> is cloned first.\<close>

definition mpz_mul_clone :: "heap \<Rightarrow> ptr \<Rightarrow> ptr \<Rightarrow> ptr \<Rightarrow> (ptr \<times> ptr \<times> ptr option \<times> heap) option" where
  "mpz_mul_clone h dest lhs rhs =
     (if lhs = dest
      then do { (temp, h) \<leftarrow> mpz_clone h lhs; Some (temp, if rhs = dest then temp else rhs, Some temp, h) }
      else if rhs = dest
      then do { (temp, h) \<leftarrow> mpz_clone h rhs; Some (lhs, temp, Some temp, h) }
      else Some (lhs, rhs, None, h))"

definition mpz_mul_inpl :: "heap \<Rightarrow> ptr \<Rightarrow> ptr \<Rightarrow> ptr \<Rightarrow> heap option" where
  "mpz_mul_inpl h dest lhs rhs =
     (if mz_len (h_objs h lhs) = 0 \<or> mz_len (h_objs h rhs) = 0 then mpz_set_from_int h dest 0
      else do {
        (lhs, rhs, temp, h) \<leftarrow> mpz_mul_clone h dest lhs rhs;
        h \<leftarrow> mpz_need_dig h dest (mz_len (h_objs h lhs) + mz_len (h_objs h rhs));
        let h = h_upd h dest (\<lambda>z. z\<lparr>mz_dig := replicate (mz_alloc z) 0\<rparr>);
        r \<leftarrow> mpn_mul (mz_dig (h_objs h dest)) (h_digs h lhs) (h_digs h rhs);
        h \<leftarrow> h_put h dest r;
        let h = h_set_neg h dest (h_neg h lhs \<noteq> h_neg h rhs);
        Some (case temp of None \<Rightarrow> h | Some t \<Rightarrow> mpz_free h t)
      })"

text \<open>
  Division rounds towards minus infinity. The local \<open>mpzone\<close> is a new object. \<open>mpn_div\<close>
  gets the part of \<open>dest_quo->dig\<close> that was cleared: a store behind it would be \<open>None\<close>.
\<close>

definition mpz_divmod_inpl :: "heap \<Rightarrow> ptr \<Rightarrow> ptr \<Rightarrow> ptr \<Rightarrow> ptr \<Rightarrow> heap option" where
  "mpz_divmod_inpl h dest_quo dest_rem lhs rhs =
     (if mpz_is_zero h rhs then None
      else do {
        h \<leftarrow> mpz_need_dig h dest_quo (mz_len (h_objs h lhs) + 1);
        h \<leftarrow> h_store h dest_quo (replicate (mz_len (h_objs h lhs) + 1) 0);
        let h = h_set_len (h_set_neg h dest_quo False) dest_quo 0;
        h \<leftarrow> mpz_need_dig h dest_rem (mz_len (h_objs h lhs) + 1);
        h \<leftarrow> mpz_set h dest_rem lhs;
        ((num, n), quo, l) \<leftarrow>
          mpn_div (mz_dig (h_objs h dest_rem)) (mz_len (h_objs h dest_rem)) (h_digs h rhs)
            (take (mz_len (h_objs h lhs) + 1) (mz_dig (h_objs h dest_quo)));
        h \<leftarrow> h_put h dest_rem (num, n);
        h \<leftarrow> h_put h dest_quo (quo, l);
        let h = h_set_neg h dest_rem (h_neg h dest_rem \<and> mz_len (h_objs h dest_rem) \<noteq> 0);
        if h_neg h lhs \<noteq> h_neg h rhs
        then (let h = h_set_neg h dest_quo (mz_len (h_objs h dest_quo) \<noteq> 0)
              in if mpz_is_zero h dest_rem then Some h
                 else (let (mpzone, h) = h_new h mpz_zero_obj
                       in do {
                         h \<leftarrow> mpz_init_from_int h mpzone (- 1);
                         h \<leftarrow> mpz_add_inpl h dest_quo dest_quo mpzone;
                         mpz_add_inpl h dest_rem dest_rem rhs
                       }))
        else Some h
      })"

text \<open>The squaring loop: \<open>n\<close> loses its low bit every time, so it ends with \<open>n = 0\<close>.\<close>

partial_function (option) mpz_pow_loop :: "heap \<Rightarrow> ptr \<Rightarrow> ptr \<Rightarrow> ptr \<Rightarrow> heap option" where
  "mpz_pow_loop h dest x n =
     (if 0 < mz_len (h_objs h n)
      then do {
        h \<leftarrow> (if odd (mz_dig (h_objs h n) ! 0) then mpz_mul_inpl h dest dest x else Some h);
        h \<leftarrow> h_put h n (mpn_shr (h_digs h n) 1);
        if mz_len (h_objs h n) = 0 then Some h
        else do { h \<leftarrow> mpz_mul_inpl h x x x; mpz_pow_loop h dest x n }
      }
      else Some h)"

definition mpz_pow_inpl :: "heap \<Rightarrow> ptr \<Rightarrow> ptr \<Rightarrow> ptr \<Rightarrow> heap option" where
  "mpz_pow_inpl h dest lhs rhs =
     (if mz_len (h_objs h lhs) = 0 \<or> h_neg h rhs then mpz_set_from_int h dest 0
      else if mz_len (h_objs h rhs) = 0 then mpz_set_from_int h dest 1
      else do {
        (x, h) \<leftarrow> mpz_clone h lhs;
        (n, h) \<leftarrow> mpz_clone h rhs;
        h \<leftarrow> mpz_set_from_int h dest 1;
        h \<leftarrow> mpz_pow_loop h dest x n;
        Some (mpz_free (mpz_free h x) n)
      })"

partial_function (option) mpz_pow3_loop :: "heap \<Rightarrow> ptr \<Rightarrow> ptr \<Rightarrow> ptr \<Rightarrow> ptr \<Rightarrow> ptr \<Rightarrow> heap option" where
  "mpz_pow3_loop h dest x n quo md =
     (if 0 < mz_len (h_objs h n)
      then do {
        h \<leftarrow> (if odd (mz_dig (h_objs h n) ! 0)
              then do { h \<leftarrow> mpz_mul_inpl h dest dest x; mpz_divmod_inpl h quo dest dest md } else Some h);
        h \<leftarrow> h_put h n (mpn_shr (h_digs h n) 1);
        if mz_len (h_objs h n) = 0 then Some h
        else do {
          h \<leftarrow> mpz_mul_inpl h x x x;
          h \<leftarrow> mpz_divmod_inpl h quo x x md;
          mpz_pow3_loop h dest x n quo md
        }
      }
      else Some h)"

definition mpz_pow3_inpl :: "heap \<Rightarrow> ptr \<Rightarrow> ptr \<Rightarrow> ptr \<Rightarrow> ptr \<Rightarrow> heap option" where
  "mpz_pow3_inpl h dest lhs rhs md =
     (if mz_len (h_objs h lhs) = 0 \<or> h_neg h rhs
         \<or> (mz_len (h_objs h md) = 1 \<and> mz_dig (h_objs h md) ! 0 = 1) then mpz_set_from_int h dest 0
      else do {
        h \<leftarrow> mpz_set_from_int h dest 1;
        if mz_len (h_objs h rhs) = 0 then Some h
        else do {
          (x, h) \<leftarrow> mpz_clone h lhs;
          (n, h) \<leftarrow> mpz_clone h rhs;
          let (quo, h) = h_new h mpz_zero_obj;
          h \<leftarrow> mpz_pow3_loop h dest x n quo md;
          Some (mpz_free (mpz_free (mpz_deinit h quo) x) n)
        }
      })"

declare mpz_pow_loop.simps [code] mpz_pow3_loop.simps [code]

end
