(* ===== verification/MpzBasic.thy ===== *)
theory MpzBasic
  imports Mpz
begin

section \<open>\<open>py/mpz.c\<close>: contracts, assignment, addition, comparison\<close>

text \<open>
  The invariant of the objects (normalised digits, no negative zero), the value of an object,
  what growing and storing keep, and the contract of a binary operation as the locale
  \<open>mpz_binop\<close> with its interpretations on \<open>mpz_add_inpl\<close> and \<open>mpz_sub_inpl\<close>.
\<close>

subsection \<open>Well-formed heaps\<close>

definition wf_obj :: "mpz \<Rightarrow> bool" where
  "wf_obj z \<longleftrightarrow> length (mz_dig z) = mz_alloc z \<and> mz_len z \<le> mz_alloc z \<and> digs_ok (mz_dig z)
     \<and> nrm (take (mz_len z) (mz_dig z)) \<and> (mz_len z = 0 \<longrightarrow> \<not> mz_neg z)"

definition wf_heap :: "heap \<Rightarrow> bool" where
  "wf_heap h \<longleftrightarrow> h_junk h < DIG_BASE \<and> (\<forall>p < h_next h. wf_obj (h_objs h p))"

definition live :: "heap \<Rightarrow> ptr \<Rightarrow> bool" where
  "live h p \<longleftrightarrow> p < h_next h"

definition writable :: "heap \<Rightarrow> ptr \<Rightarrow> bool" where
  "writable h p \<longleftrightarrow> p < h_next h \<and> \<not> mz_fixed (h_objs h p)"

definition obj_val :: "mpz \<Rightarrow> int" where
  "obj_val z = (if mz_neg z then - 1 else 1) * int (dv (take (mz_len z) (mz_dig z)))"

definition hval :: "heap \<Rightarrow> ptr \<Rightarrow> int" where
  "hval h p = obj_val (h_objs h p)"

text \<open>
  What an operation with destination \<open>d\<close> promises: it computes \<open>v\<close> there, keeps the heap
  well formed and changes no other object.
\<close>

definition result :: "heap \<Rightarrow> ptr \<Rightarrow> int \<Rightarrow> heap \<Rightarrow> bool" where
  "result h d v h' \<longleftrightarrow> wf_heap h' \<and> h_next h \<le> h_next h' \<and> writable h' d \<and> hval h' d = v
     \<and> (\<forall>p < h_next h. p \<noteq> d \<longrightarrow> h_objs h' p = h_objs h p)"

lemma wf_heapD: "wf_heap h \<Longrightarrow> p < h_next h \<Longrightarrow> wf_obj (h_objs h p)"
  by (simp add: wf_heap_def)

lemma wf_obj_digs:
  assumes "wf_obj z"
  shows "nrm (take (mz_len z) (mz_dig z))" and "length (take (mz_len z) (mz_dig z)) = mz_len z"
    and "dv (take (mz_len z) (mz_dig z)) = 0 \<longleftrightarrow> mz_len z = 0"
  using assms nrm_zero [of "take (mz_len z) (mz_dig z)"] by (auto simp: wf_obj_def)

lemma live_digs:
  assumes "wf_heap h" "p < h_next h"
  shows "nrm (h_digs h p)" and "length (h_digs h p) = mz_len (h_objs h p)" and "dv (h_digs h p) = 0 \<longleftrightarrow> mz_len (h_objs h p) = 0"
    and "mz_len (h_objs h p) \<le> length (mz_dig (h_objs h p))"
  using wf_obj_digs [OF wf_heapD [OF assms]] wf_heapD [OF assms] by (auto simp: wf_obj_def)

lemma hval_sign:
  assumes "wf_heap h" "p < h_next h"
  shows "hval h p < 0 \<longleftrightarrow> h_neg h p" and "\<bar>hval h p\<bar> = int (dv (h_digs h p))"
    and "hval h p = 0 \<longleftrightarrow> mz_len (h_objs h p) = 0" and "mz_len (h_objs h p) = 0 \<Longrightarrow> \<not> h_neg h p"
  using live_digs [OF assms] wf_heapD [OF assms] by (auto simp: hval_def obj_val_def wf_obj_def)

subsection \<open>Memory operations\<close>

text \<open>Growing an array keeps every value; the new array is long enough.\<close>

definition grown :: "heap \<Rightarrow> ptr \<Rightarrow> nat \<Rightarrow> heap \<Rightarrow> bool" where
  "grown h p need h' \<longleftrightarrow> wf_heap h' \<and> h_next h' = h_next h \<and> writable h' p
     \<and> need \<le> length (mz_dig (h_objs h' p)) \<and> 2 \<le> length (mz_dig (h_objs h' p))
     \<and> length (mz_dig (h_objs h p)) \<le> length (mz_dig (h_objs h' p))
     \<and> (\<forall>q. h_digs h' q = h_digs h q \<and> h_neg h' q = h_neg h q \<and> mz_len (h_objs h' q) = mz_len (h_objs h q))
     \<and> (\<forall>q. q \<noteq> p \<longrightarrow> h_objs h' q = h_objs h q)"

lemma need_dig_grown:
  assumes "wf_heap h" "writable h p"
  obtains h' where "mpz_need_dig h p need = Some h'" and "grown h p need h'"
proof -
  define m where "m = (if need < 2 then 2 else need)"
  let ?z = "h_objs h p"
  have z: "wf_obj ?z" "\<not> mz_fixed ?z" "p < h_next h" using assms by (auto simp: writable_def wf_heap_def)
  show ?thesis
  proof (cases "mz_alloc ?z < m")
    case True
    let ?z' = "?z\<lparr>mz_dig := mz_dig ?z @ replicate (m - mz_alloc ?z) (h_junk h), mz_alloc := m\<rparr>"
    have nd: "mpz_need_dig h p need = Some (h_upd h p (\<lambda>_. ?z'))"
      using True z by (simp add: mpz_need_dig_def m_def h_upd_def Let_def)
    have "wf_obj ?z'" using z(1) True assms(1) by (auto simp: wf_obj_def wf_heap_def digs_ok_def)
    moreover have "take (mz_len ?z) (mz_dig ?z') = take (mz_len ?z) (mz_dig ?z)" using z(1) by (simp add: wf_obj_def)
    moreover have "length (mz_dig ?z') = m" using z(1) True by (simp add: wf_obj_def)
    moreover have "need \<le> m" "2 \<le> m" by (auto simp: m_def)
    ultimately have "grown h p need (h_upd h p (\<lambda>_. ?z'))"
      using assms z by (simp add: grown_def h_upd_def wf_heap_def writable_def)
    with nd show ?thesis using that by blast
  next
    case False
    then have "mz_dig ?z \<noteq> []" using z(1) by (auto simp: wf_obj_def m_def split: if_splits)
    then have "mpz_need_dig h p need = Some h" using False by (simp add: mpz_need_dig_def m_def Let_def)
    moreover have "need \<le> m" "2 \<le> m" by (auto simp: m_def)
    ultimately show ?thesis using that assms z False by (auto simp: grown_def writable_def wf_obj_def)
  qed
qed

lemma grown_same:
  assumes "grown h p need h'"
  shows "h_digs h' q = h_digs h q" and "h_neg h' q = h_neg h q" and "mz_len (h_objs h' q) = mz_len (h_objs h q)"
  using assms unfolding grown_def by blast+

lemma put_result:
  assumes g: "grown h d need h1" and w: "digs_ok ws" "length ws \<le> length (mz_dig (h_objs h1 d))" "n \<le> length ws"
    "nrm (take n ws)" and s: "n = 0 \<longrightarrow> \<not> b" and v: "v = (if b then - 1 else 1) * int (dv (take n ws))"
  shows "\<exists>h2. h_put h1 d (ws, n) = Some h2 \<and> result h d v (h_set_neg h2 d b)
    \<and> mz_len (h_objs h2 d) = n \<and> (\<forall>q. h_neg h2 q = h_neg h1 q) \<and> (\<forall>q. q \<noteq> d \<longrightarrow> h_objs h2 q = h_objs h1 q)
    \<and> h_next h2 = h_next h1 \<and> h_junk h2 = h_junk h1"
proof -
  let ?z = "h_objs h1 d"
  let ?z' = "?z\<lparr>mz_dig := ws @ drop (length ws) (mz_dig ?z), mz_len := n, mz_neg := b\<rparr>"
  have d: "d < h_next h1" "\<not> mz_fixed ?z" "wf_obj ?z" using g by (auto simp: grown_def writable_def wf_heap_def)
  have "wf_obj ?z'" using d(3) w s by (simp add: wf_obj_def digs_ok_sub)
  moreover have "obj_val ?z' = v" using w v by (simp add: obj_val_def)
  ultimately have "result h d v (h1\<lparr>h_objs := (h_objs h1)(d := ?z')\<rparr>)"
    using g d by (auto simp: result_def grown_def wf_heap_def writable_def hval_def)
  then show ?thesis using w(2) by (simp add: h_put_def h_store_def h_upd_def h_set_len_def h_set_neg_def)
qed

lemma mpz_upd_order: "z\<lparr>mz_neg := b, mz_len := n, mz_dig := D\<rparr> = z\<lparr>mz_dig := D, mz_len := n, mz_neg := b\<rparr>"
  for z :: mpz
  by (rule mpz.equality) simp_all

lemma mpz_upd_order2: "z\<lparr>mz_neg := b, mz_dig := D, mz_len := n\<rparr> = z\<lparr>mz_dig := D, mz_len := n, mz_neg := b\<rparr>"
  for z :: mpz
  by (rule mpz.equality) simp_all

lemma mpz_set_full:
  assumes "wf_heap h" "writable h d" "live h s"
  obtains h' where "mpz_set h d s = Some h'" and "result h d (hval h s) h'" and "h_next h' = h_next h"
    and "h_digs h' d = h_digs h s" and "mz_len (h_objs h' d) = mz_len (h_objs h s)" and "h_neg h' d = h_neg h s"
    and "length (mz_dig (h_objs h d)) \<le> length (mz_dig (h_objs h' d))"
proof -
  obtain h1 where h1: "mpz_need_dig h d (mz_len (h_objs h s)) = Some h1" and g: "grown h d (mz_len (h_objs h s)) h1"
    using need_dig_grown [OF assms(1,2)] .
  have s: "s < h_next h" using assms(3) by (simp add: live_def)
  note ld = live_digs [OF assms(1) s]
  have eq: "h_digs h1 s = h_digs h s" "h_neg h1 s = h_neg h s" "mz_len (h_objs h1 s) = mz_len (h_objs h s)"
    using grown_same [OF g] by auto
  obtain h2 where h2: "h_put h1 d (h_digs h s, mz_len (h_objs h s)) = Some h2" "result h d (hval h s) (h_set_neg h2 d (h_neg h s))"
    using put_result [OF g, of "h_digs h s" "mz_len (h_objs h s)" "h_neg h s" "hval h s"] ld hval_sign(4) [OF assms(1) s] g
    by (auto simp: grown_def hval_def obj_val_def nrm_ok)
  let ?h3 = "h_set_len (h_set_neg h1 d (h_neg h s)) d (mz_len (h_objs h s))"
  have o3: "h_digs ?h3 s = h_digs h s" "mz_len (h_objs (h_set_neg h1 d (h_neg h s)) s) = mz_len (h_objs h s)"
    using eq by (auto simp: h_set_len_def h_set_neg_def h_upd_def)
  have gs: "s \<noteq> d \<longrightarrow> h_objs h1 s = h_objs h s" using g by (simp add: grown_def)
  have fit: "length (h_digs h s) \<le> length (mz_dig (h_objs h1 d))" using g ld(2) by (auto simp: grown_def)
  have "mpz_set h d s = Some (h_upd ?h3 d (\<lambda>z. z\<lparr>mz_dig := h_digs h s @ drop (length (h_digs h s)) (mz_dig z)\<rparr>))"
    using h1 eq o3 fit gs by (simp add: mpz_set_def h_store_def Let_def) (auto simp: h_set_len_def h_set_neg_def h_upd_def)
  moreover have h2e: "h2 = h_upd h1 d (\<lambda>z. z\<lparr>mz_dig := h_digs h s @ drop (length (h_digs h s)) (mz_dig z), mz_len := mz_len (h_objs h s)\<rparr>)"
    using h2(1) fit by (simp add: h_put_def h_store_def h_set_len_def h_upd_def)
  ultimately have "mpz_set h d s = Some (h_set_neg h2 d (h_neg h s))"
    by (simp add: h_set_len_def h_set_neg_def h_upd_def mpz_upd_order)
  moreover have "h_digs (h_set_neg h2 d (h_neg h s)) d = h_digs h s" "mz_len (h_objs (h_set_neg h2 d (h_neg h s)) d) = mz_len (h_objs h s)"
    "h_neg (h_set_neg h2 d (h_neg h s)) d = h_neg h s" "h_next (h_set_neg h2 d (h_neg h s)) = h_next h"
    "length (mz_dig (h_objs h d)) \<le> length (mz_dig (h_objs (h_set_neg h2 d (h_neg h s)) d))"
    using h2e fit g ld(2) by (auto simp: h_set_neg_def h_upd_def grown_def)
  ultimately show ?thesis using that h2(2) by blast
qed

lemma mpz_set_spec:
  assumes "wf_heap h" "writable h d" "live h s"
  obtains h' where "mpz_set h d s = Some h'" and "result h d (hval h s) h'"
  using mpz_set_full [OF assms] by blast


subsection \<open>Contracts of the operations\<close>

text \<open>
  The interface of the binary operations: on a well-formed heap, with a destination whose
  digits may be reallocated, the operation returns and its result is the function \<open>f\<close> of
  the two operands, which may be each other and the destination.
\<close>

locale mpz_binop =
  fixes opr :: "heap \<Rightarrow> ptr \<Rightarrow> ptr \<Rightarrow> ptr \<Rightarrow> heap option" and f :: "int \<Rightarrow> int \<Rightarrow> int"
  assumes opr_result:
    "wf_heap h \<Longrightarrow> writable h d \<Longrightarrow> live h l \<Longrightarrow> live h r \<Longrightarrow>
     \<exists>h'. opr h d l r = Some h' \<and> result h d (f (hval h l) (hval h r)) h'"
begin

lemma run:
  assumes "wf_heap h" "writable h d" "live h l" "live h r"
  obtains h' where "opr h d l r = Some h'" and "result h d (f (hval h l) (hval h r)) h'"
  using opr_result [OF assms] by blast

text \<open>Accumulating in place and squaring in place.\<close>

lemma run_acc:
  assumes "wf_heap h" "writable h d" "live h r"
  obtains h' where "opr h d d r = Some h'" and "result h d (f (hval h d) (hval h r)) h'"
  using run [OF assms(1,2) _ assms(3), of d] assms(2) by (auto simp: live_def writable_def)

lemma run_self:
  assumes "wf_heap h" "writable h d"
  obtains h' where "opr h d d d = Some h'" and "result h d (f (hval h d) (hval h d)) h'"
  using run_acc [OF assms, of d] assms(2) by (auto simp: live_def writable_def)

end

lemma add_core:
  assumes wf: "wf_heap h" and d: "writable h d" and l: "live h l" and r: "live h r"
    and ge: "dv (h_digs h r) \<le> dv (h_digs h l)"
  shows "\<exists>h1 h2. mpz_need_dig h d (mz_len (h_objs h l) + 1) = Some h1
    \<and> h_put h1 d (mpn_add (h_digs h1 l) (h_digs h1 r), length (mpn_add (h_digs h1 l) (h_digs h1 r))) = Some h2
    \<and> h_neg h2 l = h_neg h l
    \<and> (\<forall>b. result h d ((if b then - 1 else 1) * int (dv (h_digs h l) + dv (h_digs h r)))
          (h_set_neg h2 d (b \<and> mz_len (h_objs h2 d) \<noteq> 0)))
    \<and> (mz_len (h_objs h2 d) = 0 \<longleftrightarrow> dv (h_digs h l) + dv (h_digs h r) = 0)"
proof -
  have lr: "l < h_next h" "r < h_next h" using l r by (auto simp: live_def)
  note L = live_digs [OF wf lr(1)] and R = live_digs [OF wf lr(2)]
  have len: "length (h_digs h r) \<le> length (h_digs h l)"
    using nrm_length_mono [OF L(1) R(1)] ge by (meson not_le)
  note A = mpn_add_spec [OF L(1) R(1) len]
  let ?w = "mpn_add (h_digs h l) (h_digs h r)"
  obtain h1 where h1: "mpz_need_dig h d (mz_len (h_objs h l) + 1) = Some h1" and g: "grown h d (mz_len (h_objs h l) + 1) h1"
    using need_dig_grown [OF wf d] .
  have fit: "length ?w \<le> length (mz_dig (h_objs h1 d))" using A(3) g L(2) by (auto simp: grown_def)
  have zero: "length ?w = 0 \<longleftrightarrow> dv (h_digs h l) + dv (h_digs h r) = 0" using nrm_zero [OF A(2)] A(1) by simp
  have put: "\<exists>h2. h_put h1 d (?w, length ?w) = Some h2
      \<and> result h d ((if b then - 1 else 1) * int (dv (h_digs h l) + dv (h_digs h r))) (h_set_neg h2 d (b \<and> length ?w \<noteq> 0))
      \<and> mz_len (h_objs h2 d) = length ?w \<and> (\<forall>q. h_neg h2 q = h_neg h1 q)" for b
    using put_result [OF g nrm_ok [OF A(2)] fit, of "length ?w" "b \<and> length ?w \<noteq> 0"] A(1,2) zero by auto
  then obtain h2 where h2: "h_put h1 d (?w, length ?w) = Some h2" by blast
  then have "result h d ((if b then - 1 else 1) * int (dv (h_digs h l) + dv (h_digs h r))) (h_set_neg h2 d (b \<and> length ?w \<noteq> 0))
    \<and> mz_len (h_objs h2 d) = length ?w \<and> (\<forall>q. h_neg h2 q = h_neg h1 q)" for b
    using put [of b] by auto
  then show ?thesis using h1 h2 zero grown_same [OF g] by auto
qed


lemma sub_core:
  assumes wf: "wf_heap h" and d: "writable h d" and l: "live h l" and r: "live h r"
    and ge: "dv (h_digs h r) \<le> dv (h_digs h l)"
  shows "\<exists>h1 h2. mpz_need_dig h d (mz_len (h_objs h l)) = Some h1
    \<and> h_put h1 d (mpn_sub (h_digs h1 l) (h_digs h1 r)) = Some h2
    \<and> h_neg h2 l = h_neg h l
    \<and> (\<forall>b. result h d ((if b then - 1 else 1) * int (dv (h_digs h l) - dv (h_digs h r)))
          (h_set_neg h2 d (b \<and> mz_len (h_objs h2 d) \<noteq> 0)))
    \<and> (mz_len (h_objs h2 d) = 0 \<longleftrightarrow> dv (h_digs h l) = dv (h_digs h r))"
proof -
  have lr: "l < h_next h" "r < h_next h" using l r by (auto simp: live_def)
  note L = live_digs [OF wf lr(1)] and R = live_digs [OF wf lr(2)]
  obtain ws n where ms: "mpn_sub (h_digs h l) (h_digs h r) = (ws, n)" by fastforce
  note A = mpn_sub_spec [OF L(1) R(1) ge ms]
  obtain h1 where h1: "mpz_need_dig h d (mz_len (h_objs h l)) = Some h1" and g: "grown h d (mz_len (h_objs h l)) h1"
    using need_dig_grown [OF wf d] .
  have fit: "length ws \<le> length (mz_dig (h_objs h1 d))" using A(4) g L(2) by (auto simp: grown_def)
  have zero: "n = 0 \<longleftrightarrow> dv (h_digs h l) = dv (h_digs h r)" using nrm_zero [OF A(2)] A(1,3) ge by auto
  have put: "\<exists>h2. h_put h1 d (ws, n) = Some h2
      \<and> result h d ((if b then - 1 else 1) * int (dv (h_digs h l) - dv (h_digs h r))) (h_set_neg h2 d (b \<and> n \<noteq> 0))
      \<and> mz_len (h_objs h2 d) = n \<and> (\<forall>q. h_neg h2 q = h_neg h1 q)" for b
    using put_result [OF g A(5) fit A(3,2), of "b \<and> n \<noteq> 0"] A(1) zero by auto
  then obtain h2 where h2: "h_put h1 d (ws, n) = Some h2" by blast
  then have res: "result h d ((if b then - 1 else 1) * int (dv (h_digs h l) - dv (h_digs h r))) (h_set_neg h2 d (b \<and> n \<noteq> 0))"
    and len: "mz_len (h_objs h2 d) = n" and neg: "h_neg h2 q = h_neg h1 q" for b q
    using put [of b] by auto
  have e: "mpn_sub (h_digs h1 l) (h_digs h1 r) = (ws, n)" "h_neg h1 l = h_neg h l"
    using ms by (simp_all only: grown_same(1,2) [OF g])
  show ?thesis
    using h1 h2 res zero by (intro exI [of _ h1] exI [of _ h2]) (simp only: e len neg simp_thms)
qed

interpretation mpz_add: mpz_binop mpz_add_inpl "(+)"
proof
  fix h d l r
  assume wf: "wf_heap h" and d: "writable h d" and lr: "live h l" "live h r"
  define a b where "a = (if mpn_cmp (h_digs h l) (h_digs h r) < 0 then r else l)"
    and "b = (if mpn_cmp (h_digs h l) (h_digs h r) < 0 then l else r)"
  have pq: "l < h_next h" "r < h_next h" using lr by (auto simp: live_def)
  have cmp: "mpn_cmp (h_digs h l) (h_digs h r) < 0 \<longleftrightarrow> dv (h_digs h l) < dv (h_digs h r)"
    using mpn_cmp_spec [OF live_digs(1) [OF wf pq(1)] live_digs(1) [OF wf pq(2)]] by (simp add: sgn_if)
  have ab: "live h a" "live h b" "dv (h_digs h b) \<le> dv (h_digs h a)" "hval h a + hval h b = hval h l + hval h r"
    using lr cmp by (auto simp: a_def b_def)
  have un: "mpz_add_inpl h d l r = do {
        h \<leftarrow> (if h_neg h a = h_neg h b
              then do {
                h \<leftarrow> mpz_need_dig h d (mz_len (h_objs h a) + 1);
                let w = mpn_add (h_digs h a) (h_digs h b);
                h_put h d (w, length w)
              }
              else do {
                h \<leftarrow> mpz_need_dig h d (mz_len (h_objs h a));
                h_put h d (mpn_sub (h_digs h a) (h_digs h b))
              });
        Some (h_set_neg h d (h_neg h a \<and> mz_len (h_objs h d) \<noteq> 0))
      }"
    by (simp add: mpz_add_inpl_def a_def b_def)
  have v: "hval h p = (if h_neg h p then - 1 else 1) * int (dv (h_digs h p))" for p
    by (simp add: hval_def obj_val_def)
  show "\<exists>h'. mpz_add_inpl h d l r = Some h' \<and> result h d (hval h l + hval h r) h'"
  proof (cases "h_neg h a = h_neg h b")
    case True
    then have "hval h l + hval h r = (if h_neg h a then - 1 else 1) * int (dv (h_digs h a) + dv (h_digs h b))"
      unfolding ab(4) [symmetric] unfolding v using True by simp
    with add_core [OF wf d ab(1-3)] obtain h1 h2 where c: "mpz_need_dig h d (mz_len (h_objs h a) + 1) = Some h1"
      "h_put h1 d (mpn_add (h_digs h1 a) (h_digs h1 b), length (mpn_add (h_digs h1 a) (h_digs h1 b))) = Some h2"
      "h_neg h2 a = h_neg h a"
      "result h d (hval h l + hval h r) (h_set_neg h2 d (h_neg h a \<and> mz_len (h_objs h2 d) \<noteq> 0))"
      by metis
    then show ?thesis using True by (simp add: un Let_def)
  next
    case False
    then have "hval h l + hval h r = (if h_neg h a then - 1 else 1) * int (dv (h_digs h a) - dv (h_digs h b))"
      unfolding ab(4) [symmetric] unfolding v using False ab(3) by (auto simp: of_nat_diff)
    with sub_core [OF wf d ab(1-3)] obtain h1 h2 where c: "mpz_need_dig h d (mz_len (h_objs h a)) = Some h1"
      "h_put h1 d (mpn_sub (h_digs h1 a) (h_digs h1 b)) = Some h2" "h_neg h2 a = h_neg h a"
      "result h d (hval h l + hval h r) (h_set_neg h2 d (h_neg h a \<and> mz_len (h_objs h2 d) \<noteq> 0))"
      by metis
    then show ?thesis using False by (simp add: un Let_def)
  qed
qed


interpretation mpz_sub: mpz_binop mpz_sub_inpl "(-)"
proof
  fix h d l r
  assume wf: "wf_heap h" and d: "writable h d" and lr: "live h l" "live h r"
  define sw where "sw \<longleftrightarrow> mpn_cmp (h_digs h l) (h_digs h r) < 0"
  define a b where "a = (if sw then r else l)" and "b = (if sw then l else r)"
  have pq: "l < h_next h" "r < h_next h" using lr by (auto simp: live_def)
  have cmp: "sw \<longleftrightarrow> dv (h_digs h l) < dv (h_digs h r)"
    using mpn_cmp_spec [OF live_digs(1) [OF wf pq(1)] live_digs(1) [OF wf pq(2)]] by (simp add: sw_def sgn_if)
  have ab: "live h a" "live h b" "dv (h_digs h b) \<le> dv (h_digs h a)"
    "hval h l - hval h r = (if sw then - 1 else 1) * (hval h a - hval h b)"
    using lr cmp by (auto simp: a_def b_def)
  have un: "mpz_sub_inpl h d l r = do {
        h \<leftarrow> (if h_neg h a \<noteq> h_neg h b
              then do {
                h \<leftarrow> mpz_need_dig h d (mz_len (h_objs h a) + 1);
                let w = mpn_add (h_digs h a) (h_digs h b);
                h_put h d (w, length w)
              }
              else do {
                h \<leftarrow> mpz_need_dig h d (mz_len (h_objs h a));
                h_put h d (mpn_sub (h_digs h a) (h_digs h b))
              });
        Some (if mz_len (h_objs h d) = 0 then h_set_neg h d False
              else if sw then h_set_neg h d (\<not> h_neg h a) else h_set_neg h d (h_neg h a))
      }"
    by (cases sw) (simp_all add: mpz_sub_inpl_def a_def b_def flip: sw_def cong: if_cong)
  have sgn: "(if mz_len (h_objs h2 d) = 0 then h_set_neg h2 d False
              else if sw then h_set_neg h2 d (\<not> h_neg h2 a) else h_set_neg h2 d (h_neg h2 a))
      = h_set_neg h2 d ((h_neg h2 a \<noteq> sw) \<and> mz_len (h_objs h2 d) \<noteq> 0)" for h2
    by auto
  have v: "hval h p = (if h_neg h p then - 1 else 1) * int (dv (h_digs h p))" for p
    by (simp add: hval_def obj_val_def)
  show "\<exists>h'. mpz_sub_inpl h d l r = Some h' \<and> result h d (hval h l - hval h r) h'"
  proof (cases "h_neg h a = h_neg h b")
    case True
    then have "hval h l - hval h r = (if h_neg h a \<noteq> sw then - 1 else 1) * int (dv (h_digs h a) - dv (h_digs h b))"
      unfolding ab(4) unfolding v using ab(3) by (simp add: of_nat_diff)
    with sub_core [OF wf d ab(1-3)] obtain h1 h2 where c: "mpz_need_dig h d (mz_len (h_objs h a)) = Some h1"
      "h_put h1 d (mpn_sub (h_digs h1 a) (h_digs h1 b)) = Some h2" "h_neg h2 a = h_neg h a"
      "result h d (hval h l - hval h r) (h_set_neg h2 d ((h_neg h a \<noteq> sw) \<and> mz_len (h_objs h2 d) \<noteq> 0))"
      by metis
    then show ?thesis using True by (simp add: un Let_def sgn)
  next
    case False
    then have "hval h l - hval h r = (if h_neg h a \<noteq> sw then - 1 else 1) * int (dv (h_digs h a) + dv (h_digs h b))"
      unfolding ab(4) unfolding v by simp
    with add_core [OF wf d ab(1-3)] obtain h1 h2 where c: "mpz_need_dig h d (mz_len (h_objs h a) + 1) = Some h1"
      "h_put h1 d (mpn_add (h_digs h1 a) (h_digs h1 b), length (mpn_add (h_digs h1 a) (h_digs h1 b))) = Some h2"
      "h_neg h2 a = h_neg h a"
      "result h d (hval h l - hval h r) (h_set_neg h2 d ((h_neg h a \<noteq> sw) \<and> mz_len (h_objs h2 d) \<noteq> 0))"
      by metis
    then show ?thesis using False by (simp add: un Let_def sgn)
  qed
qed

lemma mpz_cmp_value:
  assumes "wf_heap h" "live h p" "live h q"
  shows "mpz_cmp h p q = sgn (hval h p - hval h q)"
proof -
  have pq: "p < h_next h" "q < h_next h" using assms by (auto simp: live_def)
  note c = mpn_cmp_spec [OF live_digs(1) [OF assms(1) pq(1)] live_digs(1) [OF assms(1) pq(2)]]
  note s = hval_sign [OF assms(1) pq(1)] hval_sign [OF assms(1) pq(2)]
  have v: "hval h p = (if h_neg h p then - 1 else 1) * int (dv (h_digs h p))" for p
    by (simp add: hval_def obj_val_def)
  show ?thesis
  proof (cases "h_neg h p = h_neg h q")
    case True
    then show ?thesis unfolding v by (simp add: mpz_cmp_def c sgn_if)
  next
    case False
    then have "hval h p < 0 \<longleftrightarrow> \<not> hval h q < 0" using s(1,5) by simp
    then show ?thesis using False s(1,5) by (auto simp: mpz_cmp_def sgn_if)
  qed
qed

end
