(* ===== verification/MpzArith.thy ===== *)
theory MpzArith
  imports MpzBasic
begin

section \<open>\<open>py/mpz.c\<close>: conversion from integers, product, division, powers\<close>

text \<open>
  The integers of the machine as digits, cloned objects, and the functional behaviour of
  \<open>mpz_mul_inpl\<close>, \<open>mpz_divmod_inpl\<close>, \<open>mpz_pow_inpl\<close> and \<open>mpz_pow3_inpl\<close> for every
  aliasing of the operands that the callers use.
\<close>

lemma uint_digs_spec: "dv (mpz_uint_digs u) = u \<and> nrm (mpz_uint_digs u) \<and> (\<forall>k. u < DIG_BASE ^ k \<longrightarrow> length (mpz_uint_digs u) \<le> k)"
proof (induction u rule: less_induct)
  case (less u)
  show ?case
  proof (cases "u = 0")
    case True
    then show ?thesis by (simp add: mpz_uint_digs.simps)
  next
    case False
    then have IH: "dv (mpz_uint_digs (u div 65536)) = u div 65536" "nrm (mpz_uint_digs (u div 65536))"
      "\<And>k. u div 65536 < 65536 ^ k \<Longrightarrow> length (mpz_uint_digs (u div 65536)) \<le> k"
      using less.IH [of "u div 65536"] by auto
    have un: "mpz_uint_digs u = u mod 65536 # mpz_uint_digs (u div 65536)"
      using False by (subst mpz_uint_digs.simps) simp
    have "length (mpz_uint_digs u) \<le> k" if lt: "u < 65536 ^ k" for k
    proof -
      obtain j where k: "k = Suc j" using lt False by (cases k) auto
      then have "u div 65536 < 65536 ^ j" using lt by (simp add: less_mult_imp_div_less mult.commute)
      then show ?thesis using IH(3) un k by simp
    qed
    moreover have "nrm (u mod 65536 # mpz_uint_digs (u div 65536))"
    proof (cases "mpz_uint_digs (u div 65536) = []")
      case True
      then have "u div 65536 = 0" using IH(1) by simp
      then show ?thesis using True False by (auto simp: nrm_def div_eq_0_iff)
    next
      case False
      then show ?thesis using IH(2) by (auto simp: nrm_def)
    qed
    ultimately show ?thesis using IH(1) un by simp
  qed
qed

definition extends :: "heap \<Rightarrow> heap \<Rightarrow> bool" where
  "extends h h' \<longleftrightarrow> wf_heap h' \<and> h_next h \<le> h_next h' \<and> (\<forall>p < h_next h. h_objs h' p = h_objs h p)"

lemma extends_refl [simp]: "wf_heap h \<Longrightarrow> extends h h"
  by (simp add: extends_def)

lemma extends_trans: "extends h h1 \<Longrightarrow> extends h1 h2 \<Longrightarrow> extends h h2"
  by (auto simp: extends_def)

lemma extends_live: "extends h h' \<Longrightarrow> live h p \<Longrightarrow> live h' p" "extends h h' \<Longrightarrow> writable h p \<Longrightarrow> writable h' p"
  "extends h h' \<Longrightarrow> live h p \<Longrightarrow> h_objs h' p = h_objs h p" "extends h h' \<Longrightarrow> live h p \<Longrightarrow> hval h' p = hval h p"
  by (auto simp: extends_def live_def writable_def hval_def)

lemma result_ext: "extends h h1 \<Longrightarrow> result h1 d v h2 \<Longrightarrow> result h d v h2"
  by (auto simp: extends_def result_def)

lemma result_free: "result h d v h' \<Longrightarrow> h_next h \<le> t \<Longrightarrow> t \<noteq> d \<Longrightarrow> result h d v (mpz_free h' t)"
  by (auto simp: result_def mpz_free_def h_upd_def wf_heap_def writable_def hval_def mpz_zero_obj_def wf_obj_def)

lemma result_live: "result h d v h' \<Longrightarrow> live h p \<Longrightarrow> live h' p" "result h d v h' \<Longrightarrow> wf_heap h'"
  "result h d v h' \<Longrightarrow> writable h' d" "result h d v h' \<Longrightarrow> hval h' d = v"
  "result h d v h' \<Longrightarrow> live h p \<Longrightarrow> p \<noteq> d \<Longrightarrow> h_objs h' p = h_objs h p"
  "result h d v h' \<Longrightarrow> live h p \<Longrightarrow> p \<noteq> d \<Longrightarrow> hval h' p = hval h p"
  "result h d v h' \<Longrightarrow> writable h p \<Longrightarrow> writable h' p"
  by (auto simp: result_def live_def hval_def writable_def)

lemma result_trans: "result h d v h1 \<Longrightarrow> result h1 d w h2 \<Longrightarrow> result h d w h2"
  by (auto simp: result_def)

lemma mpz_set_from_int_spec:
  assumes "wf_heap h" "writable h d" "in_s 64 val"
  obtains h' where "mpz_set_from_int h d val = Some h'" and "result h d val h'"
proof (cases "val = 0")
  case True
  let ?h = "h_set_len (h_set_neg h d False) d 0"
  have "result h d 0 ?h"
    using assms by (auto simp: result_def h_set_len_def h_set_neg_def h_upd_def wf_heap_def writable_def wf_obj_def hval_def obj_val_def)
  then show ?thesis using that True by (simp add: mpz_set_from_int_def)
next
  case False
  define u where "u = nat \<bar>val\<bar>"
  have u: "(if val < 0 then (True, nat (- val mod 2 ^ 64)) else (False, nat (val mod 2 ^ 64))) = (val < 0, u)"
    using assms(3) by (auto simp: u_def in_s_def)
  have ul: "u < 65536 ^ 4" using assms(3) by (auto simp: u_def in_s_def nat_less_iff)
  note U = uint_digs_spec [of u]
  let ?ws = "mpz_uint_digs u"
  obtain h1 where h1: "mpz_need_dig h d 4 = Some h1" and g: "grown h d 4 h1" using need_dig_grown [OF assms(1,2)] .
  have "length ?ws \<le> 4" using U ul by blast
  then have fit: "length ?ws \<le> length (mz_dig (h_objs h1 d))" using g by (simp add: grown_def)
  have W: "nrm ?ws" "dv ?ws = u" "?ws \<noteq> []" using U False by (auto simp: u_def)
  have v: "val = (if val < 0 then - 1 else 1) * int (dv (take (length ?ws) ?ws))" using W(2) by (simp add: u_def)
  obtain h2 where h2: "h_put h1 d (?ws, length ?ws) = Some h2" "result h d val (h_set_neg h2 d (val < 0))"
    using put_result [OF g nrm_ok [OF W(1)] fit _ _ _ v] W by auto
  have "mpz_set_from_int h d val = Some (h_set_neg h2 d (val < 0))"
    using h1 h2(1) False fit unfolding mpz_set_from_int_def u
    by (auto simp: h_put_def h_store_def h_upd_def h_set_len_def h_set_neg_def mpz_upd_order2)
  with h2(2) show ?thesis using that by blast
qed

lemma mpz_clone_spec:
  assumes "wf_heap h" "live h p" "mz_len (h_objs h p) \<noteq> 0"
  obtains h' where "mpz_clone h p = Some (h_next h, h')" and "extends h h'" and "writable h' (h_next h)"
    and "hval h' (h_next h) = hval h p" and "h_digs h' (h_next h) = h_digs h p" and "h_neg h' (h_next h) = h_neg h p"
    and "mz_len (h_objs h' (h_next h)) = mz_len (h_objs h p)" and "h_next h' = Suc (h_next h)"
proof -
  let ?h = "snd (h_new h ((h_objs h p)\<lparr>mz_fixed := False\<rparr>))"
  have w: "wf_obj (h_objs h p)" using assms by (simp add: live_def wf_heap_def)
  then have "mz_alloc (h_objs h p) \<noteq> 0" using assms(3) by (auto simp: wf_obj_def)
  then have "mpz_clone h p = Some (h_next h, ?h)" by (simp add: mpz_clone_def h_new_def)
  moreover have "extends h ?h" using assms(1) w by (auto simp: extends_def h_new_def wf_heap_def wf_obj_def less_Suc_eq)
  ultimately show ?thesis using that by (simp add: h_new_def writable_def hval_def obj_val_def)
qed


lemma mul_core:
  assumes wf: "wf_heap h" and d: "writable h d" and lr: "live h l" "live h r" "l \<noteq> d" "r \<noteq> d"
    and nz: "mz_len (h_objs h l) \<noteq> 0" "mz_len (h_objs h r) \<noteq> 0"
  obtains h' where "do {
        h \<leftarrow> mpz_need_dig h d (mz_len (h_objs h l) + mz_len (h_objs h r));
        let h = h_upd h d (\<lambda>z. z\<lparr>mz_dig := replicate (mz_alloc z) 0\<rparr>);
        w \<leftarrow> mpn_mul (mz_dig (h_objs h d)) (h_digs h l) (h_digs h r);
        h \<leftarrow> h_put h d w;
        Some (h_set_neg h d (h_neg h l \<noteq> h_neg h r))
      } = Some h'" and "result h d (hval h l * hval h r) h'"
proof -
  have pq: "l < h_next h" "r < h_next h" using lr by (auto simp: live_def)
  note L = live_digs [OF wf pq(1)] and R = live_digs [OF wf pq(2)]
  let ?n = "mz_len (h_objs h l) + mz_len (h_objs h r)"
  obtain h1 where h1: "mpz_need_dig h d ?n = Some h1" and g: "grown h d ?n h1" using need_dig_grown [OF wf d] .
  define h2 where "h2 = h_upd h1 d (\<lambda>z. z\<lparr>mz_dig := replicate (mz_alloc z) 0\<rparr>)"
  have o: "h_objs h1 l = h_objs h l" "h_objs h1 r = h_objs h r" using g lr by (auto simp: grown_def)
  have dd: "mz_alloc (h_objs h1 d) = length (mz_dig (h_objs h1 d))" "?n \<le> length (mz_dig (h_objs h1 d))" "d < h_next h1"
    using g by (auto simp: grown_def writable_def wf_heap_def wf_obj_def)
  have ne: "h_digs h l \<noteq> []" "h_digs h r \<noteq> []" using L(2) R(2) nz by auto
  obtain ws m where mm: "mpn_mul (replicate (mz_alloc (h_objs h1 d)) 0) (h_digs h l) (h_digs h r) = Some (ws, m)"
    and W: "dv (take m ws) = dv (h_digs h l) * dv (h_digs h r)" "nrm (take m ws)" "m \<le> length ws"
      "length ws = mz_alloc (h_objs h1 d)" "digs_ok ws"
    using mpn_mul_spec [OF L(1) R(1) ne, of "mz_alloc (h_objs h1 d)"] L(2) R(2) dd by auto
  let ?b = "h_neg h l \<noteq> h_neg h r"
  have m0: "m \<noteq> 0" using W(1,2) L(3) R(3) nz by (cases m) auto
  have v: "hval h l * hval h r = (if ?b then - 1 else 1) * int (dv (take m ws))"
    unfolding W(1) by (simp add: hval_def obj_val_def)
  obtain h3 where h3: "h_put h1 d (ws, m) = Some h3" "result h d (hval h l * hval h r) (h_set_neg h3 d ?b)"
    using put_result [OF g W(5) _ W(3,2) _ v] W(4) dd m0 by auto
  have "h_put h2 d (ws, m) = Some h3"
    using h3(1) W(4) dd(1) by (simp add: h_put_def h_store_def h2_def h_upd_def h_set_len_def)
  moreover have "h_objs h2 l = h_objs h l" "h_objs h2 r = h_objs h r" "mz_dig (h_objs h2 d) = replicate (mz_alloc (h_objs h1 d)) 0"
    using o lr by (simp_all add: h2_def h_upd_def)
  moreover have "h_neg h3 l = h_neg h l" "h_neg h3 r = h_neg h r"
    using h3(1) o lr W(4) dd(1) by (auto simp: h_put_def h_store_def h_upd_def h_set_len_def)
  ultimately show ?thesis using that [OF _ h3(2)] h1 mm by (simp add: h2_def [symmetric])
qed

lemma mul_tail:
  assumes "do {
        h \<leftarrow> mpz_need_dig h1 d n;
        let h = h_upd h d (\<lambda>z. z\<lparr>mz_dig := replicate (mz_alloc z) 0\<rparr>);
        w \<leftarrow> mpn_mul (mz_dig (h_objs h d)) (h_digs h a) (h_digs h b);
        h \<leftarrow> h_put h d w;
        Some (h_set_neg h d (h_neg h a \<noteq> h_neg h b))
      } = Some h'"
  shows "do {
        h \<leftarrow> mpz_need_dig h1 d n;
        let h = h_upd h d (\<lambda>z. z\<lparr>mz_dig := replicate (mz_alloc z) 0\<rparr>);
        w \<leftarrow> mpn_mul (mz_dig (h_objs h d)) (h_digs h a) (h_digs h b);
        h \<leftarrow> h_put h d w;
        let h = h_set_neg h d (h_neg h a \<noteq> h_neg h b);
        Some (g h)
      } = Some (g h')"
  using assms by (auto simp: Let_def bind_eq_Some_conv)

lemma mul_clone_spec:
  assumes wf: "wf_heap h" and d: "writable h d" and lr: "live h l" "live h r"
    and nz: "mz_len (h_objs h l) \<noteq> 0" "mz_len (h_objs h r) \<noteq> 0"
  obtains a b t h1 where "mpz_mul_clone h d l r = Some (a, b, t, h1)" "extends h h1" "live h1 a" "live h1 b" "a \<noteq> d" "b \<noteq> d"
      "mz_len (h_objs h1 a) \<noteq> 0" "mz_len (h_objs h1 b) \<noteq> 0" "hval h1 a * hval h1 b = hval h l * hval h r"
      "\<forall>x. t = Some x \<longrightarrow> h_next h \<le> x \<and> x \<noteq> d"
proof -
  have pq: "l < h_next h" "r < h_next h" "d < h_next h" using lr d by (auto simp: live_def writable_def)
  consider (l) "l = d" | (r) "l \<noteq> d" "r = d" | (n) "l \<noteq> d" "r \<noteq> d" by blast
  then show ?thesis
  proof cases
    case l
    obtain h1 where c: "mpz_clone h l = Some (h_next h, h1)" "extends h h1" "writable h1 (h_next h)" "hval h1 (h_next h) = hval h l"
      "mz_len (h_objs h1 (h_next h)) = mz_len (h_objs h l)"
      using mpz_clone_spec [OF wf lr(1) nz(1)] .
    let ?b = "if r = d then h_next h else r"
    have k: "h_objs h1 r = h_objs h r" using extends_live(3) [OF c(2) lr(2)] .
    show ?thesis
    proof (rule that [of "h_next h" ?b "Some (h_next h)" h1])
      show "mpz_mul_clone h d l r = Some (h_next h, ?b, Some (h_next h), h1)" using c(1) l by (simp add: mpz_mul_clone_def)
      show "live h1 (h_next h)" "live h1 ?b" using c(2,3) lr extends_live(1) by (auto simp: writable_def live_def)
    qed (use c nz pq l k in \<open>auto simp: hval_def\<close>)
  next
    case r
    obtain h1 where c: "mpz_clone h r = Some (h_next h, h1)" "extends h h1" "writable h1 (h_next h)" "hval h1 (h_next h) = hval h r"
      "mz_len (h_objs h1 (h_next h)) = mz_len (h_objs h r)"
      using mpz_clone_spec [OF wf lr(2) nz(2)] .
    have k: "h_objs h1 l = h_objs h l" using extends_live(3) [OF c(2) lr(1)] .
    show ?thesis
    proof (rule that [of l "h_next h" "Some (h_next h)" h1])
      show "mpz_mul_clone h d l r = Some (l, h_next h, Some (h_next h), h1)" using c(1) r by (simp add: mpz_mul_clone_def)
      show "live h1 l" "live h1 (h_next h)" using c(2,3) lr extends_live(1) by (auto simp: writable_def live_def)
    qed (use c nz pq r k in \<open>auto simp: hval_def\<close>)
  next
    case n
    then have "mpz_mul_clone h d l r = Some (l, r, None, h)" by (simp add: mpz_mul_clone_def)
    then show ?thesis using that n lr nz extends_refl [OF wf] by blast
  qed
qed

interpretation mpz_mul: mpz_binop mpz_mul_inpl "(*)"
proof
  fix h d l r
  assume wf: "wf_heap h" and d: "writable h d" and lr: "live h l" "live h r"
  have pq: "l < h_next h" "r < h_next h" "d < h_next h" using lr d by (auto simp: live_def writable_def)
  show "\<exists>h'. mpz_mul_inpl h d l r = Some h' \<and> result h d (hval h l * hval h r) h'"
  proof (cases "mz_len (h_objs h l) = 0 \<or> mz_len (h_objs h r) = 0")
    case True
    then have "hval h l * hval h r = 0" using hval_sign(3) [OF wf pq(1)] hval_sign(3) [OF wf pq(2)] by auto
    moreover obtain h' where "mpz_set_from_int h d 0 = Some h'" "result h d 0 h'"
      using mpz_set_from_int_spec [OF wf d, of 0] by (auto simp: in_s_def)
    ultimately show ?thesis using True by (auto simp: mpz_mul_inpl_def)
  next
    case False
    then have nz: "mz_len (h_objs h l) \<noteq> 0" "mz_len (h_objs h r) \<noteq> 0" by auto
    obtain a b t h1 where c: "mpz_mul_clone h d l r = Some (a, b, t, h1)" "extends h h1" "live h1 a" "live h1 b" "a \<noteq> d" "b \<noteq> d"
      "mz_len (h_objs h1 a) \<noteq> 0" "mz_len (h_objs h1 b) \<noteq> 0" "hval h1 a * hval h1 b = hval h l * hval h r"
      "\<forall>x. t = Some x \<longrightarrow> h_next h \<le> x \<and> x \<noteq> d" using mul_clone_spec [OF wf d lr nz] .
    have wf1: "wf_heap h1" and d1: "writable h1 d" using c(2) extends_live(2) [OF c(2) d] by (auto simp: extends_def)
    obtain h' where m: "do {
        h \<leftarrow> mpz_need_dig h1 d (mz_len (h_objs h1 a) + mz_len (h_objs h1 b));
        let h = h_upd h d (\<lambda>z. z\<lparr>mz_dig := replicate (mz_alloc z) 0\<rparr>);
        w \<leftarrow> mpn_mul (mz_dig (h_objs h d)) (h_digs h a) (h_digs h b);
        h \<leftarrow> h_put h d w;
        Some (h_set_neg h d (h_neg h a \<noteq> h_neg h b))
      } = Some h'" and res: "result h1 d (hval h l * hval h r) h'"
      using mul_core [OF wf1 d1 c(3-8), unfolded c(9)] .
    have "mpz_mul_inpl h d l r = Some (case t of None \<Rightarrow> h' | Some t \<Rightarrow> mpz_free h' t)"
      using nz mul_tail [OF m, of "\<lambda>h'. case t of None \<Rightarrow> h' | Some t \<Rightarrow> mpz_free h' t"]
      by (simp only: mpz_mul_inpl_def c(1) bind.bind_lunit prod.case simp_thms if_False)
    moreover have "result h d (hval h l * hval h r) (case t of None \<Rightarrow> h' | Some t \<Rightarrow> mpz_free h' t)"
      using result_ext [OF c(2) res] c(10) by (auto split: option.split intro: result_free)
    ultimately show ?thesis by blast
  qed
qed

subsection \<open>Division\<close>

definition results :: "heap \<Rightarrow> ptr \<Rightarrow> int \<Rightarrow> ptr \<Rightarrow> int \<Rightarrow> heap \<Rightarrow> bool" where
  "results h q u m v h' \<longleftrightarrow> wf_heap h' \<and> h_next h \<le> h_next h' \<and> writable h' q \<and> writable h' m
     \<and> hval h' q = u \<and> hval h' m = v \<and> (\<forall>p < h_next h. p \<noteq> q \<longrightarrow> p \<noteq> m \<longrightarrow> h_objs h' p = h_objs h p)"

lemma mpz_upd_order3: "z\<lparr>mz_neg := b, mz_len := n\<rparr> = z\<lparr>mz_len := n, mz_neg := b\<rparr>" for z :: mpz
  by (rule mpz.equality) simp_all

lemma set_len_neg: "h_set_len (h_set_neg h p b) p n = h_set_neg (h_set_len h p n) p b"
  by (simp add: h_set_len_def h_set_neg_def h_upd_def mpz_upd_order3)

lemma floor_signs:
  fixes N D :: int
  assumes "0 \<le> N" "0 < D"
  shows "(- N) div (- D) = N div D" and "(- N) mod (- D) = - (N mod D)"
    and "N mod D = 0 \<Longrightarrow> (- N) div D = - (N div D)" and "N mod D = 0 \<Longrightarrow> N div (- D) = - (N div D)"
    and "N mod D \<noteq> 0 \<Longrightarrow> (- N) div D = - (N div D) - 1" and "N mod D \<noteq> 0 \<Longrightarrow> N div (- D) = - (N div D) - 1"
    and "N mod D \<noteq> 0 \<Longrightarrow> (- N) mod D = D - N mod D" and "N mod D \<noteq> 0 \<Longrightarrow> N mod (- D) = N mod D - D"
    and "N mod D = 0 \<Longrightarrow> (- N) mod D = 0" and "N mod D = 0 \<Longrightarrow> N mod (- D) = 0"
  using assms by (simp_all add: zdiv_zminus1_eq_if zdiv_zminus2_eq_if zmod_zminus1_eq_if zmod_zminus2_eq_if)
    (metis less_irrefl pos_mod_bound)?

lemma signs_cases:
  fixes L R :: int
  assumes "R \<noteq> 0"
  obtains N D where "0 \<le> N" "0 < D" "L = N" "R = D" | N D where "0 \<le> N" "0 < D" "L = N" "R = - D"
    | N D where "0 < N" "0 < D" "L = - N" "R = D" | N D where "0 < N" "0 < D" "L = - N" "R = - D"
proof -
  have "0 < - L" if "L < 0" using that by simp
  moreover have "0 < - R" if "R < 0" using that by simp
  ultimately show ?thesis using that assms by (metis linorder_neqE_linordered_idom minus_minus not_le)
qed

text \<open>
  The sign handling on integers: with \<open>N\<close> and \<open>D\<close> the magnitudes, \<open>s\<close> the sign of the dividend
  at the test, which is lost when the remainder overwrites the dividend and is zero.
\<close>

lemma floor_same:
  fixes L R :: int
  assumes "R \<noteq> 0" "(L < 0 \<and> (b \<longrightarrow> \<bar>L\<bar> mod \<bar>R\<bar> \<noteq> 0)) = (R < 0)"
  shows "(if L < 0 then - 1 else 1) * (\<bar>L\<bar> mod \<bar>R\<bar>) = L mod R"
    and "\<not> b \<or> L mod R \<noteq> 0 \<Longrightarrow> \<bar>L\<bar> div \<bar>R\<bar> = L div R"
  using assms by (cases rule: signs_cases [OF assms(1), of L]; simp add: floor_signs)+

lemma floor_exact:
  fixes L R :: int
  assumes "R \<noteq> 0" "\<bar>L\<bar> mod \<bar>R\<bar> = 0"
  shows "L mod R = 0" and "(L < 0) \<noteq> (R < 0) \<Longrightarrow> - (\<bar>L\<bar> div \<bar>R\<bar>) = L div R"
  using assms by (cases rule: signs_cases [OF assms(1), of L]; simp add: floor_signs)+

lemma floor_diff:
  fixes L R :: int
  assumes "R \<noteq> 0" "\<bar>L\<bar> mod \<bar>R\<bar> \<noteq> 0" "(L < 0) \<noteq> (R < 0)"
  shows "(if L < 0 then - 1 else 1) * (\<bar>L\<bar> mod \<bar>R\<bar>) + R = L mod R" and "- (\<bar>L\<bar> div \<bar>R\<bar>) + - 1 = L div R"
  using assms by (cases rule: signs_cases [OF assms(1), of L]; simp add: floor_signs)+

text \<open>The unsigned division of the two arrays: the state before the signs are settled.\<close>

definition divided :: "heap \<Rightarrow> ptr \<Rightarrow> ptr \<Rightarrow> ptr \<Rightarrow> ptr \<Rightarrow> heap \<Rightarrow> bool" where
  "divided h q m l r h' \<longleftrightarrow>
     results h q (\<bar>hval h l\<bar> div \<bar>hval h r\<bar>) m ((if hval h l < 0 then - 1 else 1) * (\<bar>hval h l\<bar> mod \<bar>hval h r\<bar>)) h'
     \<and> h_next h' = h_next h"

lemma div_core:
  assumes wf: "wf_heap h" and d: "writable h q" "writable h m" "q \<noteq> m" and lr: "live h l" "live h r"
    and al: "q \<noteq> l" "q \<noteq> r" "m \<noteq> r" and nz: "mz_len (h_objs h r) \<noteq> 0"
  obtains h' where "do {
        h \<leftarrow> mpz_need_dig h q (mz_len (h_objs h l) + 1);
        h \<leftarrow> h_store h q (replicate (mz_len (h_objs h l) + 1) 0);
        let h = h_set_len (h_set_neg h q False) q 0;
        h \<leftarrow> mpz_need_dig h m (mz_len (h_objs h l) + 1);
        h \<leftarrow> mpz_set h m l;
        ((num, n), quo, k) \<leftarrow>
          mpn_div (mz_dig (h_objs h m)) (mz_len (h_objs h m)) (h_digs h r)
            (take (mz_len (h_objs h l) + 1) (mz_dig (h_objs h q)));
        h \<leftarrow> h_put h m (num, n);
        h \<leftarrow> h_put h q (quo, k);
        Some (h_set_neg h m (h_neg h m \<and> mz_len (h_objs h m) \<noteq> 0))
      } = Some h'" and "divided h q m l r h'"
proof -
  let ?n = "mz_len (h_objs h l)"
  let ?z = "replicate (?n + 1) (0::nat)"
  have pq: "l < h_next h" "r < h_next h" "q < h_next h" "m < h_next h" using lr d by (auto simp: live_def writable_def)
  obtain h1 where h1: "mpz_need_dig h q (?n + 1) = Some h1" and g1: "grown h q (?n + 1) h1" using need_dig_grown [OF wf d(1)] .
  have o1: "h_objs h1 p = h_objs h p" if "p \<noteq> q" for p using g1 that by (simp add: grown_def)
  have fit1: "length ?z \<le> length (mz_dig (h_objs h1 q))" using g1 by (simp add: grown_def)
  obtain h2' where h2': "h_put h1 q (?z, 0) = Some h2'" "result h q 0 (h_set_neg h2' q False)"
      "\<And>p. p \<noteq> q \<Longrightarrow> h_objs h2' p = h_objs h1 p" "h_next h2' = h_next h1"
    using put_result [OF g1 _ fit1, of 0 False 0] by (auto simp: digs_ok_def nrm_def)
  define h2 where "h2 = h_set_neg h2' q False"
  have st: "do { h \<leftarrow> h_store h1 q ?z; Some (h_set_len (h_set_neg h q False) q 0) } = Some h2"
    using h2'(1) by (auto simp: h2_def h_put_def set_len_neg bind_eq_Some_conv)
  then obtain hs where hs: "h_store h1 q ?z = Some hs" "h_set_len (h_set_neg hs q False) q 0 = h2" by (auto simp: bind_eq_Some_conv)
  have q2: "take (?n + 1) (mz_dig (h_objs h2 q)) = ?z" "mz_dig (h_objs h2 q) = ?z @ drop (?n + 1) (mz_dig (h_objs h1 q))"
    using h2'(1) fit1 by (auto simp: h2_def h_put_def h_store_def h_set_len_def h_set_neg_def h_upd_def)
  have o2: "h_objs h2 p = h_objs h p" if "p \<noteq> q" for p using h2'(3) that o1 by (simp add: h2_def h_set_neg_def h_upd_def)
  have n2: "h_next h2 = h_next h" using h2'(4) g1 by (simp add: h2_def h_set_neg_def h_upd_def grown_def)
  have wf2: "wf_heap h2" using h2'(2) by (simp add: h2_def result_def)
  have m2: "writable h2 m" using d(2,3) o2 n2 by (simp add: writable_def)
  obtain h3 where h3: "mpz_need_dig h2 m (?n + 1) = Some h3" and g3: "grown h2 m (?n + 1) h3" using need_dig_grown [OF wf2 m2] .
  have e3: "h_next h3 = h_next h" "wf_heap h3" "writable h3 m" using g3 n2 by (auto simp: grown_def)
  obtain h4 where h4: "mpz_set h3 m l = Some h4" "result h3 m (hval h3 l) h4" "h_next h4 = h_next h3" "h_digs h4 m = h_digs h3 l"
      "mz_len (h_objs h4 m) = mz_len (h_objs h3 l)" "h_neg h4 m = h_neg h3 l"
      "length (mz_dig (h_objs h3 m)) \<le> length (mz_dig (h_objs h4 m))"
    using mpz_set_full [OF e3(2,3), of l] pq e3 by (auto simp: live_def)
  have l3: "h_digs h3 l = h_digs h l" "mz_len (h_objs h3 l) = ?n" "h_neg h3 l = h_neg h l"
    using grown_same [OF g3, of l] o2 [of l] al by auto
  have o4: "h_objs h4 p = h_objs h2 p" if "p \<noteq> m" "p < h_next h" for p
    using h4(2) g3 that e3 by (simp add: result_def grown_def)
  have wf4: "wf_heap h4" "wf_obj (h_objs h4 m)" "wf_obj (h_objs h4 q)" using h4(2) pq h4(3) e3 by (auto simp: result_def wf_heap_def)
  have len4: "?n < length (mz_dig (h_objs h4 m))" using h4(7) g3 by (auto simp: grown_def)
  have m4: "mz_len (h_objs h4 m) = ?n" "take ?n (mz_dig (h_objs h4 m)) = h_digs h l" "h_neg h4 m = h_neg h l"
    using h4(4,5,6) l3 by auto
  have l4: "mz_len (h_objs h4 l) = ?n" using m4 o4 [of l] o2 [of l] al pq by (cases "l = m") auto
  have r4: "h_digs h4 r = h_digs h r" using o4 [of r] o2 [of r] al pq by auto
  have q4: "h_objs h4 q = h_objs h2 q" using o4 [of q] d(3) pq by auto
  have den: "nrm (h_digs h r)" "h_digs h r \<noteq> []" using live_digs [OF wf pq(2)] nz by auto
  obtain num n quo k where dv: "mpn_div (mz_dig (h_objs h4 m)) ?n (h_digs h r) ?z = Some ((num, n), quo, k)"
    and R: "dv (take n num) = dv (h_digs h l) mod dv (h_digs h r)" "dv (take k quo) = dv (h_digs h l) div dv (h_digs h r)"
      "nrm (take n num)" "nrm (take k quo)" "n \<le> length num" "k \<le> length quo"
      "length num = length (mz_dig (h_objs h4 m))" "length quo = ?n + 1" "digs_ok num" "digs_ok quo"
    using mpn_div_spec [of "mz_dig (h_objs h4 m)" ?n "h_digs h r" "?n + 1"] len4 m4 den wf4 live_digs(1) [OF wf pq(1)]
    by (auto simp: wf_obj_def)
  let ?s = "h_neg h l \<and> n \<noteq> 0"
  let ?zm = "(h_objs h4 m)\<lparr>mz_dig := num, mz_len := n, mz_neg := ?s\<rparr>"
  let ?zq = "(h_objs h4 q)\<lparr>mz_dig := quo @ drop (length quo) (mz_dig (h_objs h4 q)), mz_len := k\<rparr>"
  let ?h = "h4\<lparr>h_objs := (h_objs h4)(m := ?zm, q := ?zq)\<rparr>"
  have fitq: "length quo \<le> length (mz_dig (h_objs h4 q))" using R(8) q4 fit1 q2 by simp
  have q4n: "\<not> h_neg h4 q" "\<not> mz_fixed (h_objs h4 q)" using q4 h2'(2) by (auto simp: h2_def h_set_neg_def h_upd_def result_def writable_def)
  have run: "h_put h4 m (num, n) = Some (h_upd h4 m (\<lambda>z. z\<lparr>mz_dig := num, mz_len := n\<rparr>))"
    using R(7) by (simp add: h_put_def h_store_def h_upd_def h_set_len_def)
  have run2: "h_put (h_upd h4 m (\<lambda>z. z\<lparr>mz_dig := num, mz_len := n\<rparr>)) q (quo, k)
      = Some (h_upd (h_upd h4 m (\<lambda>z. z\<lparr>mz_dig := num, mz_len := n\<rparr>)) q (\<lambda>_. ?zq))"
    using fitq d(3) by (simp add: h_put_def h_store_def h_upd_def h_set_len_def)
  have run3: "h_set_neg (h_upd (h_upd h4 m (\<lambda>z. z\<lparr>mz_dig := num, mz_len := n\<rparr>)) q (\<lambda>_. ?zq)) m ?s = ?h"
    using d(3) by (simp add: h_set_neg_def h_upd_def fun_upd_twist)
  show ?thesis
  proof (rule that [of ?h])
    have "wf_obj ?zm" using wf4(2) R by (simp add: wf_obj_def)
    moreover have "wf_obj ?zq" using wf4(3) R fitq q4n by (simp add: wf_obj_def digs_ok_sub)
    moreover have "hval ?h m = (if hval h l < 0 then - 1 else 1) * (\<bar>hval h l\<bar> mod \<bar>hval h r\<bar>)"
      using d(3) R(1,5) hval_sign(1,2) [OF wf pq(1)] hval_sign(1,2) [OF wf pq(2)] by (auto simp: hval_def obj_val_def of_nat_mod)
    moreover have "hval ?h q = \<bar>hval h l\<bar> div \<bar>hval h r\<bar>"
      using R(2,6) q4n hval_sign(2) [OF wf pq(1)] hval_sign(2) [OF wf pq(2)] by (simp add: hval_def obj_val_def of_nat_div)
    ultimately show "divided h q m l r ?h"
      using wf4(1) h4(2,3) e3 q4n pq o4 o2 unfolding divided_def results_def
      by (auto simp: wf_heap_def writable_def result_def)
    show "do {
        h \<leftarrow> mpz_need_dig h q (mz_len (h_objs h l) + 1);
        h \<leftarrow> h_store h q (replicate (mz_len (h_objs h l) + 1) 0);
        let h = h_set_len (h_set_neg h q False) q 0;
        h \<leftarrow> mpz_need_dig h m (mz_len (h_objs h l) + 1);
        h \<leftarrow> mpz_set h m l;
        ((num, n), quo, k) \<leftarrow>
          mpn_div (mz_dig (h_objs h m)) (mz_len (h_objs h m)) (h_digs h r)
            (take (mz_len (h_objs h l) + 1) (mz_dig (h_objs h q)));
        h \<leftarrow> h_put h m (num, n);
        h \<leftarrow> h_put h q (quo, k);
        Some (h_set_neg h m (h_neg h m \<and> mz_len (h_objs h m) \<noteq> 0))
      } = Some ?h"
      using h1 hs h3 h4(1) dv run run2 run3 m4 l4 r4 q4 q2 d(3)
      by (simp add: o1 o2 al not_sym [OF al(1)] Let_def h_upd_def)
  qed
qed

text \<open>
  \<open>mpz_divmod_inpl\<close> computes the floor division of Python. The remainder may be the
  dividend; then a remainder of zero loses the sign of the dividend before it is tested, and
  only the remainder is right.
\<close>

lemma div_tail:
  assumes "do {
        h \<leftarrow> mpz_need_dig h0 q n0;
        h \<leftarrow> h_store h q (replicate (mz_len (h_objs h l) + 1) 0);
        let h = h_set_len (h_set_neg h q False) q 0;
        h \<leftarrow> mpz_need_dig h m (mz_len (h_objs h l) + 1);
        h \<leftarrow> mpz_set h m l;
        ((num, n), quo, k) \<leftarrow>
          mpn_div (mz_dig (h_objs h m)) (mz_len (h_objs h m)) (h_digs h r)
            (take (mz_len (h_objs h l) + 1) (mz_dig (h_objs h q)));
        h \<leftarrow> h_put h m (num, n);
        h \<leftarrow> h_put h q (quo, k);
        Some (h_set_neg h m (h_neg h m \<and> mz_len (h_objs h m) \<noteq> 0))
      } = Some h1"
  shows "do {
        h \<leftarrow> mpz_need_dig h0 q n0;
        h \<leftarrow> h_store h q (replicate (mz_len (h_objs h l) + 1) 0);
        let h = h_set_len (h_set_neg h q False) q 0;
        h \<leftarrow> mpz_need_dig h m (mz_len (h_objs h l) + 1);
        h \<leftarrow> mpz_set h m l;
        ((num, n), quo, k) \<leftarrow>
          mpn_div (mz_dig (h_objs h m)) (mz_len (h_objs h m)) (h_digs h r)
            (take (mz_len (h_objs h l) + 1) (mz_dig (h_objs h q)));
        h \<leftarrow> h_put h m (num, n);
        h \<leftarrow> h_put h q (quo, k);
        let h = h_set_neg h m (h_neg h m \<and> mz_len (h_objs h m) \<noteq> 0);
        g h
      } = g h1"
  using assms by (auto simp: Let_def bind_eq_Some_conv)

lemma mpz_divmod_spec:
  assumes wf: "wf_heap h" and d: "writable h q" "writable h m" "q \<noteq> m" and lr: "live h l" "live h r"
    and al: "q \<noteq> l" "q \<noteq> r" "m \<noteq> r" and nz: "hval h r \<noteq> 0"
  obtains h' u where "mpz_divmod_inpl h q m l r = Some h'" and "results h q u m (hval h l mod hval h r) h'"
    and "m \<noteq> l \<or> hval h l mod hval h r \<noteq> 0 \<Longrightarrow> u = hval h l div hval h r"
proof -
  have pq: "l < h_next h" "r < h_next h" "q < h_next h" "m < h_next h" using lr d by (auto simp: live_def writable_def)
  have nz': "mz_len (h_objs h r) \<noteq> 0" using nz hval_sign(3) [OF wf pq(2)] by simp
  let ?N = "\<bar>hval h l\<bar>" and ?D = "\<bar>hval h r\<bar>"
  obtain h1 where c: "do {
        h \<leftarrow> mpz_need_dig h q (mz_len (h_objs h l) + 1);
        h \<leftarrow> h_store h q (replicate (mz_len (h_objs h l) + 1) 0);
        let h = h_set_len (h_set_neg h q False) q 0;
        h \<leftarrow> mpz_need_dig h m (mz_len (h_objs h l) + 1);
        h \<leftarrow> mpz_set h m l;
        ((num, n), quo, k) \<leftarrow>
          mpn_div (mz_dig (h_objs h m)) (mz_len (h_objs h m)) (h_digs h r)
            (take (mz_len (h_objs h l) + 1) (mz_dig (h_objs h q)));
        h \<leftarrow> h_put h m (num, n);
        h \<leftarrow> h_put h q (quo, k);
        Some (h_set_neg h m (h_neg h m \<and> mz_len (h_objs h m) \<noteq> 0))
      } = Some h1" and dd: "divided h q m l r h1" using div_core [OF wf d lr al nz'] .
  have un: "mpz_divmod_inpl h q m l r =
     (if h_neg h1 l \<noteq> h_neg h1 r
        then (let h = h_set_neg h1 q (mz_len (h_objs h1 q) \<noteq> 0)
              in if mpz_is_zero h m then Some h
                 else (let (mpzone, h) = h_new h mpz_zero_obj
                       in do {
                         h \<leftarrow> mpz_init_from_int h mpzone (- 1);
                         h \<leftarrow> mpz_add_inpl h q q mpzone;
                         mpz_add_inpl h m m r
                       }))
        else Some h1)"
    using nz' by (simp only: mpz_divmod_inpl_def mpz_is_zero_def div_tail [OF c] if_False)
  have R: "results h q (?N div ?D) m ((if hval h l < 0 then - 1 else 1) * (?N mod ?D)) h1" and n1: "h_next h1 = h_next h"
    using dd by (auto simp: divided_def)
  have w1: "wf_heap h1" "writable h1 q" "writable h1 m" "hval h1 q = ?N div ?D"
      "hval h1 m = (if hval h l < 0 then - 1 else 1) * (?N mod ?D)" "h_objs h1 r = h_objs h r"
    using R d al pq by (auto simp: results_def)
  have z1: "mz_len (h_objs h1 m) = 0 \<longleftrightarrow> ?N mod ?D = 0" "h_neg h1 m \<longleftrightarrow> hval h l < 0 \<and> ?N mod ?D \<noteq> 0"
    using hval_sign [OF w1(1), of m] w1(5) pq n1 nz by (auto split: if_splits)
  have lneg: "h_neg h1 l \<longleftrightarrow> hval h l < 0 \<and> (l = m \<longrightarrow> ?N mod ?D \<noteq> 0)"
  proof (cases "l = m")
    case False
    then have "h_objs h1 l = h_objs h l" using R al pq by (auto simp: results_def)
    then show ?thesis using False hval_sign(1) [OF wf pq(1)] by simp
  qed (use z1 in simp)
  have rneg: "h_neg h1 r \<longleftrightarrow> hval h r < 0" using w1(6) hval_sign(1) [OF wf pq(2)] by simp
  have D: "0 < ?D" "0 \<le> ?N" using nz by auto
  show ?thesis
  proof (cases "h_neg h1 l = h_neg h1 r")
    case True
    then have sg: "(hval h l < 0 \<and> (l = m \<longrightarrow> ?N mod ?D \<noteq> 0)) = (hval h r < 0)" using lneg rneg by simp
    have "results h q (?N div ?D) m (hval h l mod hval h r) h1" using R floor_same(1) [OF nz sg] by simp
    moreover have "?N div ?D = hval h l div hval h r" if "m \<noteq> l \<or> hval h l mod hval h r \<noteq> 0"
      using that floor_same(2) [OF nz sg] by blast
    ultimately show ?thesis using that un True by simp
  next
    case False
    define h2 where "h2 = h_set_neg h1 q (mz_len (h_objs h1 q) \<noteq> 0)"
    have un2: "mpz_divmod_inpl h q m l r = (if mpz_is_zero h2 m then Some h2
         else (case h_new h2 mpz_zero_obj of (mpzone, h) \<Rightarrow> do {
                 h \<leftarrow> mpz_init_from_int h mpzone (- 1);
                 h \<leftarrow> mpz_add_inpl h q q mpzone;
                 mpz_add_inpl h m m r }))"
      using False unfolding un Let_def h2_def by (simp only: if_True simp_thms)
    have qz: "mz_len (h_objs h1 q) = 0 \<longleftrightarrow> ?N div ?D = 0" "\<not> h_neg h1 q"
      using hval_sign [OF w1(1), of q] w1(4) pq n1 D by (auto simp: pos_imp_zdiv_nonneg_iff)
    have w2: "wf_heap h2" "writable h2 q" "writable h2 m" "h_next h2 = h_next h" "hval h2 q = - (?N div ?D)" "hval h2 m = hval h1 m"
        "\<And>p. p \<noteq> q \<Longrightarrow> h_objs h2 p = h_objs h1 p"
      using w1 qz n1 d(3) unfolding h2_def h_set_neg_def h_upd_def
      by (auto simp: wf_heap_def writable_def wf_obj_def hval_def obj_val_def)
    have zero: "mpz_is_zero h2 m \<longleftrightarrow> ?N mod ?D = 0" using w2(7) [of m] d(3) z1 by (simp add: mpz_is_zero_def)
    have fr: "\<forall>p < h_next h. p \<noteq> q \<longrightarrow> p \<noteq> m \<longrightarrow> h_objs h2 p = h_objs h p" using R w2(7) by (simp add: results_def)
    show ?thesis
    proof (cases "?N mod ?D = 0")
      case True
      have "hval h l mod hval h r = 0" using floor_exact(1) [OF nz True] .
      moreover have "- (?N div ?D) = hval h l div hval h r" if "m \<noteq> l"
        using that floor_exact(2) [OF nz True] False lneg rneg by auto
      moreover have "mpz_divmod_inpl h q m l r = Some h2" using un2 zero True by simp
      moreover have "results h q (- (?N div ?D)) m 0 h2" using w2 fr w1(5) True by (simp add: results_def)
      ultimately show ?thesis using that by auto
    next
      case nzr: False
      let ?o = "h_next h2"
      define h3 where "h3 = snd (h_new h2 mpz_zero_obj)"
      have wz: "wf_obj mpz_zero_obj" by (simp add: wf_obj_def mpz_zero_obj_def nrm_def digs_ok_def)
      have w3: "wf_heap h3" "writable h3 ?o" "h_next h3 = Suc ?o" "extends h2 h3"
        using w2(1) wz by (auto simp: h3_def h_new_def wf_heap_def writable_def extends_def less_Suc_eq) (simp add: mpz_zero_obj_def)
      have new3: "h_new h2 mpz_zero_obj = (?o, h3)" by (simp add: h3_def h_new_def)
      have i3: "mpz_init_zero h3 ?o = h3" by (simp add: h3_def h_new_def mpz_init_zero_def h_upd_def)
      obtain h4 where h4: "mpz_set_from_int h3 ?o (- 1) = Some h4" "result h3 ?o (- 1) h4"
        using mpz_set_from_int_spec [OF w3(1,2), of "- 1"] by (auto simp: in_s_def)
      have lt: "q < ?o" "m < ?o" "r < ?o" using pq w2(4) by auto
      have o4: "h_objs h4 p = h_objs h2 p" if "p < ?o" for p
        using that h4(2) w3(3,4) by (auto simp: result_def extends_def)
      have w4: "wf_heap h4" "live h4 ?o" "writable h4 q" "writable h4 m" "hval h4 ?o = - 1" "hval h4 q = hval h2 q" "?o < h_next h4"
        using h4(2) w3(3) o4 lt w2(2,3) by (auto simp: result_def writable_def live_def hval_def)
      obtain h5 where h5: "mpz_add_inpl h4 q q ?o = Some h5" "result h4 q (hval h2 q + - 1) h5"
        using mpz_add.run_acc [OF w4(1,3,2)] w4(5,6) by auto
      have o5: "h_objs h5 p = h_objs h2 p" if "p < ?o" "p \<noteq> q" for p
        using that h5(2) w4(7) o4 by (auto simp: result_def)
      have w5: "wf_heap h5" "writable h5 m" "live h5 r" "hval h5 m = hval h1 m" "hval h5 r = hval h r" "h_next h4 \<le> h_next h5"
        using h5(2) o5 lt w2 w4 al d(3) w1(6) by (auto simp: result_def writable_def live_def hval_def)
      obtain h6 where h6: "mpz_add_inpl h5 m m r = Some h6" "result h5 m (hval h1 m + hval h r) h6"
        using mpz_add.run_acc [OF w5(1-3)] w5(4,5) by auto
      have run: "mpz_divmod_inpl h q m l r = Some h6"
        using un2 zero nzr h4(1) h5(1) h6(1) new3 i3 by (simp add: mpz_init_from_int_def)
      have vm: "hval h1 m + hval h r = hval h l mod hval h r" and vq: "hval h2 q + - 1 = hval h l div hval h r"
        using floor_diff [OF nz nzr] nzr False lneg rneg w1(5) w2(5) by auto
      have "results h q (hval h l div hval h r) m (hval h l mod hval h r) h6"
        using h6(2) h5(2) w5(6) w4(7) w2(4) fr o5 d(3) lt vm vq by (auto simp: results_def result_def writable_def hval_def)
      then show ?thesis using that run by blast
    qed
  qed
qed

end
