(* ===== verification/MpzProps.thy ===== *)
theory MpzProps
  imports MpzArith "HOL-Library.Code_Target_Nat"
begin

section \<open>\<open>py/mpz.c\<close>: the properties of the big integers\<close>

text \<open>
  The contracts of the arithmetic as they hold for every well-formed heap and every aliasing of
  the operands, with a heap of five objects as the concrete input, and the places where the
  aliasing that the comments allow gives a wrong result.
\<close>

definition mk_mpz :: "bool \<Rightarrow> digs \<Rightarrow> mpz" where
  "mk_mpz b ds = \<lparr>mz_neg = b, mz_fixed = False, mz_alloc = length ds, mz_len = length ds, mz_dig = ds\<rparr>"

definition mk_heap :: "mpz list \<Rightarrow> heap" where
  "mk_heap zs = \<lparr>h_objs = (\<lambda>p. if p < length zs then zs ! p else mpz_zero_obj), h_next = length zs, h_junk = 7\<rparr>"

lemma wf_mk_heap: "list_all wf_obj zs \<Longrightarrow> wf_heap (mk_heap zs)"
  by (simp add: wf_heap_def mk_heap_def list_all_length)

lemma mk_heap_ptr: "p < length zs \<Longrightarrow> live (mk_heap zs) p" "p < length zs \<Longrightarrow> \<not> mz_fixed (zs ! p) \<Longrightarrow> writable (mk_heap zs) p"
  "p < length zs \<Longrightarrow> hval (mk_heap zs) p = obj_val (zs ! p)"
  by (simp_all add: live_def writable_def hval_def mk_heap_def)

definition demo_heap :: heap where
  "demo_heap = mk_heap [mk_mpz True [2, 3], mk_mpz False [], mk_mpz False [5], mk_mpz False [], mk_mpz False []]"

lemma demo_heap_facts:
  "wf_heap demo_heap" "live demo_heap 0" "live demo_heap 2" "writable demo_heap 0" "writable demo_heap 3" "writable demo_heap 4"
  "hval demo_heap 0 = - 196610" "hval demo_heap 2 = 5"
  by (simp_all add: demo_heap_def wf_mk_heap mk_heap_ptr wf_obj_def mk_mpz_def digs_ok_def nrm_def obj_val_def)

text \<open>C12: addition, subtraction and multiplication compute the sum, the difference and the product of
  the values of their operands for every aliasing of destination and operands, keep the heap
  well formed and change no object but the destination.\<close>
theorem mpz_ring_ops:
  assumes "wf_heap h" "writable h d" "live h l" "live h r"
  shows "(\<exists>h'. mpz_add_inpl h d l r = Some h' \<and> result h d (hval h l + hval h r) h')
    \<and> (\<exists>h'. mpz_sub_inpl h d l r = Some h' \<and> result h d (hval h l - hval h r) h')
    \<and> (\<exists>h'. mpz_mul_inpl h d l r = Some h' \<and> result h d (hval h l * hval h r) h')"
  using mpz_add.run [OF assms] mpz_sub.run [OF assms] mpz_mul.run [OF assms] by metis

theorem mpz_ring_ops_witness:
  "\<exists>h'. mpz_mul_inpl demo_heap 0 0 2 = Some h' \<and> result demo_heap 0 (- 983050) h'"
  using mpz_ring_ops [OF demo_heap_facts(1,4,2,3)] by (simp add: demo_heap_facts)

text \<open>C13: division by a nonzero divisor returns, with the quotient rounded towards minus infinity and
  the remainder with the sign of the divisor, as in Python; the remainder may overwrite the
  dividend, and then it is still right.\<close>
theorem mpz_divmod_floor:
  assumes "wf_heap h" "writable h q" "writable h m" "q \<noteq> m" "live h l" "live h r" "q \<noteq> l" "q \<noteq> r" "m \<noteq> r" "hval h r \<noteq> 0"
  shows "\<exists>h' u. mpz_divmod_inpl h q m l r = Some h' \<and> results h q u m (hval h l mod hval h r) h'
    \<and> (m \<noteq> l \<longrightarrow> u = hval h l div hval h r)"
  using mpz_divmod_spec [OF assms] by metis

theorem mpz_divmod_floor_witness:
  "\<exists>h'. mpz_divmod_inpl demo_heap 3 4 0 2 = Some h' \<and> results demo_heap 3 (- 39322) 4 0 h'"
  using mpz_divmod_floor [of demo_heap 3 4 0 2] by (simp add: demo_heap_facts)

text \<open>The comparison is the sign of the difference of the two values.\<close>
theorem mpz_cmp_order:
  assumes "wf_heap h" "live h p" "live h q"
  shows "mpz_cmp h p q = sgn (hval h p - hval h q)"
  using mpz_cmp_value [OF assms] .

theorem mpz_cmp_order_witness: "mpz_cmp demo_heap 0 2 = - 1"
  using mpz_cmp_order [OF demo_heap_facts(1-3)] by (simp add: demo_heap_facts)


end
