(* ===== verification/Arm64Enc.thy ===== *)
theory Arm64Enc
  imports Main "HOL-Library.Word" "HOL-Library.Signed_Division"
begin

section \<open>\<open>arm64enc.go\<close>: the instruction encoder\<close>

text \<open>
  Each function of \<open>arm64enc.go\<close> encodes one instruction form as a 32-bit word. Go's \<open>int\<close> is
  \<open>int\<close> here, \<open>uint32(x)\<close> is \<open>u32 x\<close>, which reduces modulo \<open>2^32\<close>, and \<open>/\<close> truncates
  (\<open>sdiv\<close>). No function checks its arguments: a register or an immediate out of range spills
  into the neighbouring fields, as it does in the code.
\<close>

unbundle bit_operations_syntax

abbreviation u32 :: "int \<Rightarrow> 32 word" where "u32 \<equiv> word_of_int"

subsection \<open>Register numbers and condition codes\<close>

abbreviation (input) regX0 :: int where "regX0 \<equiv> 0"
abbreviation (input) regX1 :: int where "regX1 \<equiv> 1"
abbreviation (input) regX2 :: int where "regX2 \<equiv> 2"
abbreviation (input) regX3 :: int where "regX3 \<equiv> 3"
abbreviation (input) regX4 :: int where "regX4 \<equiv> 4"
abbreviation (input) regX5 :: int where "regX5 \<equiv> 5"
abbreviation (input) regX8 :: int where "regX8 \<equiv> 8"
abbreviation (input) regX9 :: int where "regX9 \<equiv> 9"
abbreviation (input) regX16 :: int where "regX16 \<equiv> 16"
abbreviation (input) regX19 :: int where "regX19 \<equiv> 19"
abbreviation (input) regX20 :: int where "regX20 \<equiv> 20"
abbreviation (input) regX21 :: int where "regX21 \<equiv> 21"
abbreviation (input) regFP :: int where "regFP \<equiv> 29"
abbreviation (input) regLR :: int where "regLR \<equiv> 30"
abbreviation (input) regXZR :: int where "regXZR \<equiv> 31"
abbreviation (input) regSP :: int where "regSP \<equiv> 31"

abbreviation (input) condEQ :: int where "condEQ \<equiv> 0"
abbreviation (input) condNE :: int where "condNE \<equiv> 1"
abbreviation (input) condHS :: int where "condHS \<equiv> 2"
abbreviation (input) condLO :: int where "condLO \<equiv> 3"
abbreviation (input) condVS :: int where "condVS \<equiv> 6"
abbreviation (input) condVC :: int where "condVC \<equiv> 7"
abbreviation (input) condHI :: int where "condHI \<equiv> 8"
abbreviation (input) condLS :: int where "condLS \<equiv> 9"
abbreviation (input) condGE :: int where "condGE \<equiv> 10"
abbreviation (input) condLT :: int where "condLT \<equiv> 11"
abbreviation (input) condGT :: int where "condGT \<equiv> 12"
abbreviation (input) condLE :: int where "condLE \<equiv> 13"

subsection \<open>The encoders\<close>

definition encMOVZ :: "int \<Rightarrow> int \<Rightarrow> int \<Rightarrow> 32 word" where
  "encMOVZ rd imm16 shift = (let hw = shift sdiv 16
      in 0xD2800000 OR push_bit 21 (u32 hw) OR push_bit 5 (u32 (imm16 AND 0xFFFF)) OR u32 rd)"

definition encMOVK :: "int \<Rightarrow> int \<Rightarrow> int \<Rightarrow> 32 word" where
  "encMOVK rd imm16 shift = (let hw = shift sdiv 16
      in 0xF2800000 OR push_bit 21 (u32 hw) OR push_bit 5 (u32 (imm16 AND 0xFFFF)) OR u32 rd)"

definition encLDRuoff :: "int \<Rightarrow> int \<Rightarrow> int \<Rightarrow> 32 word" where
  "encLDRuoff rt rn byteOff = 0xF9400000 OR push_bit 10 (u32 (byteOff sdiv 8)) OR push_bit 5 (u32 rn) OR u32 rt"

definition encSTRuoff :: "int \<Rightarrow> int \<Rightarrow> int \<Rightarrow> 32 word" where
  "encSTRuoff rt rn byteOff = 0xF9000000 OR push_bit 10 (u32 (byteOff sdiv 8)) OR push_bit 5 (u32 rn) OR u32 rt"

definition encLDRQuoff :: "int \<Rightarrow> int \<Rightarrow> int \<Rightarrow> 32 word" where
  "encLDRQuoff rt rn byteOff = 0x3DC00000 OR push_bit 10 (u32 (byteOff sdiv 16)) OR push_bit 5 (u32 rn) OR u32 rt"

definition encSTRQuoff :: "int \<Rightarrow> int \<Rightarrow> int \<Rightarrow> 32 word" where
  "encSTRQuoff rt rn byteOff = 0x3D800000 OR push_bit 10 (u32 (byteOff sdiv 16)) OR push_bit 5 (u32 rn) OR u32 rt"

definition encLDRlit :: "int \<Rightarrow> int \<Rightarrow> 32 word" where
  "encLDRlit rt imm19 = 0x58000000 OR push_bit 5 (u32 (imm19 AND 0x7FFFF)) OR u32 rt"

definition encADDreg :: "int \<Rightarrow> int \<Rightarrow> int \<Rightarrow> 32 word" where
  "encADDreg rd rn rm = 0x8B000000 OR push_bit 16 (u32 rm) OR push_bit 5 (u32 rn) OR u32 rd"

definition encSUBreg :: "int \<Rightarrow> int \<Rightarrow> int \<Rightarrow> 32 word" where
  "encSUBreg rd rn rm = 0xCB000000 OR push_bit 16 (u32 rm) OR push_bit 5 (u32 rn) OR u32 rd"

definition encSUBext :: "int \<Rightarrow> int \<Rightarrow> int \<Rightarrow> 32 word" where
  "encSUBext rd rn rm = 0xCB200000 OR push_bit 16 (u32 rm) OR push_bit 13 3 OR push_bit 5 (u32 rn) OR u32 rd"

definition encMUL :: "int \<Rightarrow> int \<Rightarrow> int \<Rightarrow> 32 word" where
  "encMUL rd rn rm = 0x9B000000 OR push_bit 16 (u32 rm) OR push_bit 10 (u32 regXZR) OR push_bit 5 (u32 rn) OR u32 rd"

definition encMSUB :: "int \<Rightarrow> int \<Rightarrow> int \<Rightarrow> int \<Rightarrow> 32 word" where
  "encMSUB rd rn rm ra = 0x9B008000 OR push_bit 16 (u32 rm) OR push_bit 10 (u32 ra) OR push_bit 5 (u32 rn) OR u32 rd"

definition encSDIV :: "int \<Rightarrow> int \<Rightarrow> int \<Rightarrow> 32 word" where
  "encSDIV rd rn rm = 0x9AC00C00 OR push_bit 16 (u32 rm) OR push_bit 5 (u32 rn) OR u32 rd"

definition encUDIV :: "int \<Rightarrow> int \<Rightarrow> int \<Rightarrow> 32 word" where
  "encUDIV rd rn rm = 0x9AC00800 OR push_bit 16 (u32 rm) OR push_bit 5 (u32 rn) OR u32 rd"

definition encCMPreg :: "int \<Rightarrow> int \<Rightarrow> 32 word" where
  "encCMPreg rn rm = 0xEB00001F OR push_bit 16 (u32 rm) OR push_bit 5 (u32 rn)"

definition encCMPimm0 :: "int \<Rightarrow> 32 word" where
  "encCMPimm0 rn = 0xF100001F OR push_bit 5 (u32 rn)"

definition encLSLimm :: "int \<Rightarrow> int \<Rightarrow> int \<Rightarrow> 32 word" where
  "encLSLimm rd rn shift = (let immr = (64 - shift) AND 63; imms = 63 - shift
      in 0xD3400000 OR push_bit 16 (u32 immr) OR push_bit 10 (u32 imms) OR push_bit 5 (u32 rn) OR u32 rd)"

definition encB :: "int \<Rightarrow> 32 word" where
  "encB imm26 = 0x14000000 OR (u32 imm26 AND 0x3FFFFFF)"

definition encBL :: "int \<Rightarrow> 32 word" where
  "encBL imm26 = 0x94000000 OR (u32 imm26 AND 0x3FFFFFF)"

definition encBR :: "int \<Rightarrow> 32 word" where
  "encBR rn = 0xD61F0000 OR push_bit 5 (u32 rn)"

definition encBLR :: "int \<Rightarrow> 32 word" where
  "encBLR rn = 0xD63F0000 OR push_bit 5 (u32 rn)"

definition encBcond :: "int \<Rightarrow> int \<Rightarrow> 32 word" where
  "encBcond cond imm19 = 0x54000000 OR push_bit 5 (u32 (imm19 AND 0x7FFFF)) OR u32 cond"

definition encRET :: "32 word" where
  "encRET = 0xD65F03C0"

definition encCSET :: "int \<Rightarrow> int \<Rightarrow> 32 word" where
  "encCSET rd cond = (let invCond = cond XOR 1
      in 0x9A9F07E0 OR push_bit 12 (u32 invCond) OR u32 rd)"

definition encSTP :: "int \<Rightarrow> int \<Rightarrow> int \<Rightarrow> int \<Rightarrow> 32 word" where
  "encSTP rt1 rt2 rn byteOff = (let imm7 = (byteOff sdiv 8) AND 0x7F
      in 0xA9000000 OR push_bit 15 (u32 imm7) OR push_bit 10 (u32 rt2) OR push_bit 5 (u32 rn) OR u32 rt1)"

definition encLDP :: "int \<Rightarrow> int \<Rightarrow> int \<Rightarrow> int \<Rightarrow> 32 word" where
  "encLDP rt1 rt2 rn byteOff = (let imm7 = (byteOff sdiv 8) AND 0x7F
      in 0xA9400000 OR push_bit 15 (u32 imm7) OR push_bit 10 (u32 rt2) OR push_bit 5 (u32 rn) OR u32 rt1)"

definition encSVC :: "int \<Rightarrow> 32 word" where
  "encSVC imm16 = 0xD4000001 OR push_bit 5 (u32 imm16)"

definition encSTRBuoff :: "int \<Rightarrow> int \<Rightarrow> int \<Rightarrow> 32 word" where
  "encSTRBuoff rt rn byteOff = 0x39000000 OR push_bit 10 (u32 byteOff) OR push_bit 5 (u32 rn) OR u32 rt"

definition encLDRBuoff :: "int \<Rightarrow> int \<Rightarrow> int \<Rightarrow> 32 word" where
  "encLDRBuoff rt rn byteOff = 0x39400000 OR push_bit 10 (u32 byteOff) OR push_bit 5 (u32 rn) OR u32 rt"

definition encLDRSBuoff :: "int \<Rightarrow> int \<Rightarrow> int \<Rightarrow> 32 word" where
  "encLDRSBuoff rt rn byteOff = 0x39800000 OR push_bit 10 (u32 byteOff) OR push_bit 5 (u32 rn) OR u32 rt"

definition encCBZ :: "int \<Rightarrow> int \<Rightarrow> 32 word" where
  "encCBZ rt imm19 = 0xB4000000 OR push_bit 5 (u32 (imm19 AND 0x7FFFF)) OR u32 rt"

definition encCBNZ :: "int \<Rightarrow> int \<Rightarrow> 32 word" where
  "encCBNZ rt imm19 = 0xB5000000 OR push_bit 5 (u32 (imm19 AND 0x7FFFF)) OR u32 rt"

definition encNEG :: "int \<Rightarrow> int \<Rightarrow> 32 word" where
  "encNEG rd rn = 0xCB0003E0 OR push_bit 16 (u32 rn) OR u32 rd"

definition encMOVreg :: "int \<Rightarrow> int \<Rightarrow> 32 word" where
  "encMOVreg rd rn = 0xAA0003E0 OR push_bit 16 (u32 rn) OR u32 rd"

definition encADDimm :: "int \<Rightarrow> int \<Rightarrow> int \<Rightarrow> 32 word" where
  "encADDimm rd rn imm12 = 0x91000000 OR push_bit 10 (u32 imm12) OR push_bit 5 (u32 rn) OR u32 rd"

definition encSUBimm :: "int \<Rightarrow> int \<Rightarrow> int \<Rightarrow> 32 word" where
  "encSUBimm rd rn imm12 = 0xD1000000 OR push_bit 10 (u32 imm12) OR push_bit 5 (u32 rn) OR u32 rd"

definition encAND :: "int \<Rightarrow> int \<Rightarrow> int \<Rightarrow> 32 word" where
  "encAND rd rn rm = 0x8A000000 OR push_bit 16 (u32 rm) OR push_bit 5 (u32 rn) OR u32 rd"

definition encORR :: "int \<Rightarrow> int \<Rightarrow> int \<Rightarrow> 32 word" where
  "encORR rd rn rm = 0xAA000000 OR push_bit 16 (u32 rm) OR push_bit 5 (u32 rn) OR u32 rd"

definition encEOR :: "int \<Rightarrow> int \<Rightarrow> int \<Rightarrow> 32 word" where
  "encEOR rd rn rm = 0xCA000000 OR push_bit 16 (u32 rm) OR push_bit 5 (u32 rn) OR u32 rd"

definition encMVN :: "int \<Rightarrow> int \<Rightarrow> 32 word" where
  "encMVN rd rm = 0xAA2003E0 OR push_bit 16 (u32 rm) OR u32 rd"

definition encLSLV :: "int \<Rightarrow> int \<Rightarrow> int \<Rightarrow> 32 word" where
  "encLSLV rd rn rm = 0x9AC02000 OR push_bit 16 (u32 rm) OR push_bit 5 (u32 rn) OR u32 rd"

definition encASRV :: "int \<Rightarrow> int \<Rightarrow> int \<Rightarrow> 32 word" where
  "encASRV rd rn rm = 0x9AC02800 OR push_bit 16 (u32 rm) OR push_bit 5 (u32 rn) OR u32 rd"

definition encMOVN :: "int \<Rightarrow> int \<Rightarrow> int \<Rightarrow> 32 word" where
  "encMOVN rd imm16 shift = (let hw = shift sdiv 16
      in 0x92800000 OR push_bit 21 (u32 hw) OR push_bit 5 (u32 (imm16 AND 0xFFFF)) OR u32 rd)"

definition encADR :: "int \<Rightarrow> int \<Rightarrow> 32 word" where
  "encADR rd byteOff = (let immlo = byteOff AND 3; immhi = (drop_bit 2 byteOff) AND 0x7FFFF
      in 0x10000000 OR push_bit 29 (u32 immlo) OR push_bit 5 (u32 immhi) OR u32 rd)"

definition encLSRimm :: "int \<Rightarrow> int \<Rightarrow> int \<Rightarrow> 32 word" where
  "encLSRimm rd rn shift = 0xD3400000 OR push_bit 16 (u32 shift) OR push_bit 10 (u32 63) OR push_bit 5 (u32 rn) OR u32 rd"

definition encLSRV :: "int \<Rightarrow> int \<Rightarrow> int \<Rightarrow> 32 word" where
  "encLSRV rd rn rm = 0x9AC02400 OR push_bit 16 (u32 rm) OR push_bit 5 (u32 rn) OR u32 rd"

definition encSTRWuoff :: "int \<Rightarrow> int \<Rightarrow> int \<Rightarrow> 32 word" where
  "encSTRWuoff rt rn byteOff = 0xB9000000 OR push_bit 10 (u32 (byteOff sdiv 4)) OR push_bit 5 (u32 rn) OR u32 rt"

definition encLDRWuoff :: "int \<Rightarrow> int \<Rightarrow> int \<Rightarrow> 32 word" where
  "encLDRWuoff rt rn byteOff = 0xB9400000 OR push_bit 10 (u32 (byteOff sdiv 4)) OR push_bit 5 (u32 rn) OR u32 rt"

definition encLDRSWuoff :: "int \<Rightarrow> int \<Rightarrow> int \<Rightarrow> 32 word" where
  "encLDRSWuoff rt rn byteOff = 0xB9800000 OR push_bit 10 (u32 (byteOff sdiv 4)) OR push_bit 5 (u32 rn) OR u32 rt"

definition encSTRH :: "int \<Rightarrow> int \<Rightarrow> int \<Rightarrow> 32 word" where
  "encSTRH rt rn byteOff = 0x79000000 OR push_bit 10 (u32 (byteOff sdiv 2)) OR push_bit 5 (u32 rn) OR u32 rt"

definition encLDRH :: "int \<Rightarrow> int \<Rightarrow> int \<Rightarrow> 32 word" where
  "encLDRH rt rn byteOff = 0x79400000 OR push_bit 10 (u32 (byteOff sdiv 2)) OR push_bit 5 (u32 rn) OR u32 rt"

definition encLDRSH :: "int \<Rightarrow> int \<Rightarrow> int \<Rightarrow> 32 word" where
  "encLDRSH rt rn byteOff = 0x79800000 OR push_bit 10 (u32 (byteOff sdiv 2)) OR push_bit 5 (u32 rn) OR u32 rt"

definition encFADDD :: "int \<Rightarrow> int \<Rightarrow> int \<Rightarrow> 32 word" where
  "encFADDD rd rn rm = 0x1E602800 OR push_bit 16 (u32 rm) OR push_bit 5 (u32 rn) OR u32 rd"

definition encFSUBD :: "int \<Rightarrow> int \<Rightarrow> int \<Rightarrow> 32 word" where
  "encFSUBD rd rn rm = 0x1E603800 OR push_bit 16 (u32 rm) OR push_bit 5 (u32 rn) OR u32 rd"

definition encFMULD :: "int \<Rightarrow> int \<Rightarrow> int \<Rightarrow> 32 word" where
  "encFMULD rd rn rm = 0x1E600800 OR push_bit 16 (u32 rm) OR push_bit 5 (u32 rn) OR u32 rd"

definition encFDIVD :: "int \<Rightarrow> int \<Rightarrow> int \<Rightarrow> 32 word" where
  "encFDIVD rd rn rm = 0x1E601800 OR push_bit 16 (u32 rm) OR push_bit 5 (u32 rn) OR u32 rd"

definition encFNEGD :: "int \<Rightarrow> int \<Rightarrow> 32 word" where
  "encFNEGD rd rn = 0x1E614000 OR push_bit 5 (u32 rn) OR u32 rd"

definition encFABSD :: "int \<Rightarrow> int \<Rightarrow> 32 word" where
  "encFABSD rd rn = 0x1E60C000 OR push_bit 5 (u32 rn) OR u32 rd"

definition encFMOVDD :: "int \<Rightarrow> int \<Rightarrow> 32 word" where
  "encFMOVDD rd rn = 0x1E604000 OR push_bit 5 (u32 rn) OR u32 rd"

definition encFCMPD :: "int \<Rightarrow> int \<Rightarrow> 32 word" where
  "encFCMPD rn rm = 0x1E602000 OR push_bit 16 (u32 rm) OR push_bit 5 (u32 rn)"

definition encFCMPDzero :: "int \<Rightarrow> 32 word" where
  "encFCMPDzero rn = 0x1E602008 OR push_bit 5 (u32 rn)"

definition encSCVTFD :: "int \<Rightarrow> int \<Rightarrow> 32 word" where
  "encSCVTFD rd rn = 0x9E620000 OR push_bit 5 (u32 rn) OR u32 rd"

definition encFCVTZSD :: "int \<Rightarrow> int \<Rightarrow> 32 word" where
  "encFCVTZSD rd rn = 0x9E780000 OR push_bit 5 (u32 rn) OR u32 rd"

definition encFMOVtoGP :: "int \<Rightarrow> int \<Rightarrow> 32 word" where
  "encFMOVtoGP rd rn = 0x9E660000 OR push_bit 5 (u32 rn) OR u32 rd"

definition encFMOVfromGP :: "int \<Rightarrow> int \<Rightarrow> 32 word" where
  "encFMOVfromGP rd rn = 0x9E670000 OR push_bit 5 (u32 rn) OR u32 rd"

definition encLDRDuoff :: "int \<Rightarrow> int \<Rightarrow> int \<Rightarrow> 32 word" where
  "encLDRDuoff rt rn byteOff = 0xFD400000 OR push_bit 10 (u32 (byteOff sdiv 8)) OR push_bit 5 (u32 rn) OR u32 rt"

definition encSTRDuoff :: "int \<Rightarrow> int \<Rightarrow> int \<Rightarrow> 32 word" where
  "encSTRDuoff rt rn byteOff = 0xFD000000 OR push_bit 10 (u32 (byteOff sdiv 8)) OR push_bit 5 (u32 rn) OR u32 rt"

definition encLDRSuoff :: "int \<Rightarrow> int \<Rightarrow> int \<Rightarrow> 32 word" where
  "encLDRSuoff rt rn byteOff = 0xBD400000 OR push_bit 10 (u32 (byteOff sdiv 4)) OR push_bit 5 (u32 rn) OR u32 rt"

definition encSTRSuoff :: "int \<Rightarrow> int \<Rightarrow> int \<Rightarrow> 32 word" where
  "encSTRSuoff rt rn byteOff = 0xBD000000 OR push_bit 10 (u32 (byteOff sdiv 4)) OR push_bit 5 (u32 rn) OR u32 rt"

definition encFCVTDS :: "int \<Rightarrow> int \<Rightarrow> 32 word" where
  "encFCVTDS rd rn = 0x1E624000 OR push_bit 5 (u32 rn) OR u32 rd"

definition encFCVTSD :: "int \<Rightarrow> int \<Rightarrow> 32 word" where
  "encFCVTSD rd rn = 0x1E22C000 OR push_bit 5 (u32 rn) OR u32 rd"

definition encLDRDlit :: "int \<Rightarrow> int \<Rightarrow> 32 word" where
  "encLDRDlit rt imm19 = 0x5C000000 OR push_bit 5 (u32 (imm19 AND 0x7FFFF)) OR u32 rt"

definition encSXTB :: "int \<Rightarrow> int \<Rightarrow> 32 word" where
  "encSXTB rd rn = 0x93401C00 OR push_bit 5 (u32 rn) OR u32 rd"

definition encSXTH :: "int \<Rightarrow> int \<Rightarrow> 32 word" where
  "encSXTH rd rn = 0x93403C00 OR push_bit 5 (u32 rn) OR u32 rd"

definition encUXTB :: "int \<Rightarrow> int \<Rightarrow> 32 word" where
  "encUXTB rd rn = 0xD3401C00 OR push_bit 5 (u32 rn) OR u32 rd"

definition encUXTH :: "int \<Rightarrow> int \<Rightarrow> 32 word" where
  "encUXTH rd rn = 0xD3403C00 OR push_bit 5 (u32 rn) OR u32 rd"

definition encREV16 :: "int \<Rightarrow> int \<Rightarrow> 32 word" where
  "encREV16 rd rn = 0x5AC00400 OR push_bit 5 (u32 rn) OR u32 rd"

definition encREV32 :: "int \<Rightarrow> int \<Rightarrow> 32 word" where
  "encREV32 rd rn = 0x5AC00800 OR push_bit 5 (u32 rn) OR u32 rd"

definition encREV64 :: "int \<Rightarrow> int \<Rightarrow> 32 word" where
  "encREV64 rd rn = 0xDAC00C00 OR push_bit 5 (u32 rn) OR u32 rd"

definition encCLZ :: "int \<Rightarrow> int \<Rightarrow> 32 word" where
  "encCLZ rd rn = 0xDAC01000 OR push_bit 5 (u32 rn) OR u32 rd"

definition encCLZ32 :: "int \<Rightarrow> int \<Rightarrow> 32 word" where
  "encCLZ32 rd rn = 0x5AC01000 OR push_bit 5 (u32 rn) OR u32 rd"

definition encRBIT :: "int \<Rightarrow> int \<Rightarrow> 32 word" where
  "encRBIT rd rn = 0xDAC00000 OR push_bit 5 (u32 rn) OR u32 rd"

definition encRBIT32 :: "int \<Rightarrow> int \<Rightarrow> 32 word" where
  "encRBIT32 rd rn = 0x5AC00000 OR push_bit 5 (u32 rn) OR u32 rd"

definition encCNT8B :: "int \<Rightarrow> int \<Rightarrow> 32 word" where
  "encCNT8B vd vn = 0x0E205800 OR push_bit 5 (u32 vn) OR u32 vd"

definition encADDVb :: "int \<Rightarrow> int \<Rightarrow> 32 word" where
  "encADDVb vd vn = 0x0E31B800 OR push_bit 5 (u32 vn) OR u32 vd"

definition encUMOVb0 :: "int \<Rightarrow> int \<Rightarrow> 32 word" where
  "encUMOVb0 rd vn = 0x0E013C00 OR push_bit 5 (u32 vn) OR u32 rd"

definition encADDS :: "int \<Rightarrow> int \<Rightarrow> int \<Rightarrow> 32 word" where
  "encADDS rd rn rm = 0xAB000000 OR push_bit 16 (u32 rm) OR push_bit 5 (u32 rn) OR u32 rd"

definition encADC :: "int \<Rightarrow> int \<Rightarrow> int \<Rightarrow> 32 word" where
  "encADC rd rn rm = 0x9A000000 OR push_bit 16 (u32 rm) OR push_bit 5 (u32 rn) OR u32 rd"

definition encSUBS :: "int \<Rightarrow> int \<Rightarrow> int \<Rightarrow> 32 word" where
  "encSUBS rd rn rm = 0xEB000000 OR push_bit 16 (u32 rm) OR push_bit 5 (u32 rn) OR u32 rd"

definition encSBC :: "int \<Rightarrow> int \<Rightarrow> int \<Rightarrow> 32 word" where
  "encSBC rd rn rm = 0xDA000000 OR push_bit 16 (u32 rm) OR push_bit 5 (u32 rn) OR u32 rd"

definition encUMULH :: "int \<Rightarrow> int \<Rightarrow> int \<Rightarrow> 32 word" where
  "encUMULH rd rn rm = 0x9BC07C00 OR push_bit 16 (u32 rm) OR push_bit 5 (u32 rn) OR u32 rd"

definition encSMULH :: "int \<Rightarrow> int \<Rightarrow> int \<Rightarrow> 32 word" where
  "encSMULH rd rn rm = 0x9B407C00 OR push_bit 16 (u32 rm) OR push_bit 5 (u32 rn) OR u32 rd"

definition encNEGS :: "int \<Rightarrow> int \<Rightarrow> 32 word" where
  "encNEGS rd rm = 0xEB0003E0 OR push_bit 16 (u32 rm) OR u32 rd"

definition encNGC :: "int \<Rightarrow> int \<Rightarrow> 32 word" where
  "encNGC rd rm = 0xDA0003E0 OR push_bit 16 (u32 rm) OR u32 rd"

definition encUBFM :: "int \<Rightarrow> int \<Rightarrow> int \<Rightarrow> int \<Rightarrow> 32 word" where
  "encUBFM rd rn immr imms = 0xD3400000 OR push_bit 16 (u32 immr) OR push_bit 10 (u32 imms) OR push_bit 5 (u32 rn) OR u32 rd"

definition encASR :: "int \<Rightarrow> int \<Rightarrow> int \<Rightarrow> 32 word" where
  "encASR rd rn n = 0x9340FC00 OR push_bit 16 (u32 n) OR push_bit 5 (u32 rn) OR u32 rd"

definition encCCMP :: "int \<Rightarrow> int \<Rightarrow> int \<Rightarrow> int \<Rightarrow> 32 word" where
  "encCCMP rn rm nzcv cond = 0xFA400000 OR push_bit 16 (u32 rm) OR push_bit 12 (u32 cond) OR push_bit 5 (u32 rn) OR u32 nzcv"

definition encSBCS :: "int \<Rightarrow> int \<Rightarrow> int \<Rightarrow> 32 word" where
  "encSBCS rd rn rm = 0xFA000000 OR push_bit 16 (u32 rm) OR push_bit 5 (u32 rn) OR u32 rd"

definition encCSEL :: "int \<Rightarrow> int \<Rightarrow> int \<Rightarrow> int \<Rightarrow> 32 word" where
  "encCSEL rd rn rm cond = 0x9A800000 OR push_bit 16 (u32 rm) OR push_bit 12 (u32 cond) OR push_bit 5 (u32 rn) OR u32 rd"

end
