(* ===== verification/Arm64Dec.thy ===== *)
theory Arm64Dec
  imports Arm64Enc
begin

section \<open>The A64 instructions the encoder produces\<close>

text \<open>
  A decoder of the A64 instruction set (Arm ARM, C4.1) for the instruction forms that
  \<open>arm64enc.go\<close> encodes; a word outside these forms is \<open>None\<close>. It is the reference the encoders
  are proved against: \<open>decode\<close> of an encoded word is the instruction the comment of the encoder
  names, for every register and immediate in the range of its field. Registers are numbers;
  31 is \<open>SP\<close> or the zero register, as the instruction says.
\<close>

named_theorems dec \<open>the instructions that the encoders encode\<close>

datatype (plugins only: code) op3 = ADD | SUB | ADDS | SUBS | SUBX | ADC | SBC | SBCS | AND_r | ORR | EOR | ORN
  | UMULH | SMULH | UDIV | SDIV | LSLV | LSRV | ASRV

datatype op2 = RBIT | RBIT_w | CLZ | CLZ_w | REV_x | REV_w | REV16_w

datatype (plugins only: code) lsop = LDR_X | STR_X | LDR_W | STR_W | LDRSW | LDR_H | STR_H | LDRSH | LDR_B | STR_B | LDRSB
  | LDR_D | STR_D | LDR_S | STR_S | LDR_Q | STR_Q

datatype fop3 = FADD | FSUB | FMUL | FDIV

datatype (plugins only: code) fop2 = FNEG | FABS | FMOV | SCVTF | FCVTZS | FMOV_to_gp | FMOV_from_gp | FCVT_to_S | FCVT_to_D
  | CNT_8B | ADDV_B | UMOV_B0

datatype (plugins only: code) instr =
    MOVZ nat nat nat | MOVK nat nat nat | MOVN nat nat nat
  | ADD_i nat nat nat | SUB_i nat nat nat | SUBS_i nat nat nat
  | UBFM nat nat nat nat | SBFM nat nat nat nat | ADR nat int
  | R3 op3 nat nat nat | R2 op2 nat nat | MADD nat nat nat nat | MSUB nat nat nat nat
  | CSEL nat nat nat nat | CSINC nat nat nat nat | CCMP nat nat nat nat
  | LS lsop nat nat nat | LDR_lit nat int | LDR_D_lit nat int | LDP nat nat nat int | STP nat nat nat int
  | B int | BL int | B_cond nat int | CBZ nat int | CBNZ nat int | BR nat | BLR nat | RET nat | SVC nat
  | F3 fop3 nat nat nat | F2 fop2 nat nat | FCMP nat nat | FCMP_0 nat

subsection \<open>Fields\<close>

definition bits :: "32 word \<Rightarrow> nat \<Rightarrow> nat \<Rightarrow> nat" where
  "bits w lo n = unat (take_bit n (drop_bit lo w))"

definition sx :: "nat \<Rightarrow> nat \<Rightarrow> int" where
  "sx n v = (if v < 2 ^ (n - 1) then int v else int v - 2 ^ n)"

subsection \<open>Decoding\<close>

definition decode_branch :: "32 word \<Rightarrow> instr option" where
  "decode_branch w =
     (let op6 = bits w 26 6; op8 = bits w 24 8; t = bits w 0 5; imm19 = sx 19 (bits w 5 19)
      in if op6 = 0x05 then Some (B (sx 26 (bits w 0 26)))
         else if op6 = 0x25 then Some (BL (sx 26 (bits w 0 26)))
         else if op8 = 0x54 then (if bits w 4 1 = 0 then Some (B_cond (bits w 0 4) imm19) else None)
         else if op8 = 0xB4 then Some (CBZ t imm19)
         else if op8 = 0xB5 then Some (CBNZ t imm19)
         else if op8 = 0xD4 then (if bits w 21 3 = 0 \<and> t = 1 then Some (SVC (bits w 5 16)) else None)
         else if bits w 10 22 = 0x3587C0 \<and> t = 0 then Some (BR (bits w 5 5))
         else if bits w 10 22 = 0x358FC0 \<and> t = 0 then Some (BLR (bits w 5 5))
         else if bits w 10 22 = 0x3597C0 \<and> t = 0 then Some (RET (bits w 5 5))
         else None)"

definition decode_dp_imm :: "32 word \<Rightarrow> instr option" where
  "decode_dp_imm w =
     (let op8 = bits w 24 8; op9 = bits w 23 9; d = bits w 0 5; n = bits w 5 5;
          imm16 = bits w 5 16; hw = bits w 21 2; imm12 = bits w 10 12; sh = bits w 22 2;
          imm = (if sh = 1 then imm12 * 4096 else imm12)
      in if bits w 24 5 = 0x10 then (if bits w 31 1 = 0 then Some (ADR d (sx 21 (4 * bits w 5 19 + bits w 29 2))) else None)
         else if op9 = 0x1A5 then Some (MOVZ d imm16 hw)
         else if op9 = 0x1E5 then Some (MOVK d imm16 hw)
         else if op9 = 0x125 then Some (MOVN d imm16 hw)
         else if op8 = 0x91 then (if sh < 2 then Some (ADD_i d n imm) else None)
         else if op8 = 0xD1 then (if sh < 2 then Some (SUB_i d n imm) else None)
         else if op8 = 0xF1 then (if sh < 2 then Some (SUBS_i d n imm) else None)
         else if bits w 22 10 = 0x34D then Some (UBFM d n (bits w 16 6) (bits w 10 6))
         else if bits w 22 10 = 0x24D then Some (SBFM d n (bits w 16 6) (bits w 10 6))
         else None)"

definition decode_dp_reg :: "32 word \<Rightarrow> instr option" where
  "decode_dp_reg w =
     (let op11 = bits w 21 11; d = bits w 0 5; n = bits w 5 5; m = bits w 16 5; op6 = bits w 10 6; a = bits w 10 5;
          o0 = bits w 15 1; c = bits w 12 4; op2 = bits w 10 2
      in if op11 = 0x458 then (if op6 = 0 then Some (R3 ADD d n m) else None)
         else if op11 = 0x658 then (if op6 = 0 then Some (R3 SUB d n m) else None)
         else if op11 = 0x558 then (if op6 = 0 then Some (R3 ADDS d n m) else None)
         else if op11 = 0x758 then (if op6 = 0 then Some (R3 SUBS d n m) else None)
         else if op11 = 0x659 then (if op6 = 0x18 then Some (R3 SUBX d n m) else None)
         else if op11 = 0x450 then (if op6 = 0 then Some (R3 AND_r d n m) else None)
         else if op11 = 0x550 then (if op6 = 0 then Some (R3 ORR d n m) else None)
         else if op11 = 0x551 then (if op6 = 0 then Some (R3 ORN d n m) else None)
         else if op11 = 0x650 then (if op6 = 0 then Some (R3 EOR d n m) else None)
         else if op11 = 0x4D0 then (if op6 = 0 then Some (R3 ADC d n m) else None)
         else if op11 = 0x6D0 then (if op6 = 0 then Some (R3 SBC d n m) else None)
         else if op11 = 0x7D0 then (if op6 = 0 then Some (R3 SBCS d n m) else None)
         else if op11 = 0x4D4 then (if op2 = 0 then Some (CSEL d n m c) else if op2 = 1 then Some (CSINC d n m c) else None)
         else if op11 = 0x7D2 then (if op2 = 0 \<and> bits w 4 1 = 0 then Some (CCMP n m (bits w 0 4) c) else None)
         else if op11 = 0x4D8 then (if o0 = 0 then Some (MADD d n m a) else Some (MSUB d n m a))
         else if op11 = 0x4DE then (if op6 = 0x1F then Some (R3 UMULH d n m) else None)
         else if op11 = 0x4DA then (if op6 = 0x1F then Some (R3 SMULH d n m) else None)
         else if op11 = 0x4D6 then
           (if op6 = 2 then Some (R3 UDIV d n m) else if op6 = 3 then Some (R3 SDIV d n m)
            else if op6 = 8 then Some (R3 LSLV d n m) else if op6 = 9 then Some (R3 LSRV d n m)
            else if op6 = 10 then Some (R3 ASRV d n m) else None)
         else if op11 = 0x6D6 \<and> m = 0 then
           (if op6 = 0 then Some (R2 RBIT d n) else if op6 = 3 then Some (R2 REV_x d n)
            else if op6 = 4 then Some (R2 CLZ d n) else None)
         else if op11 = 0x2D6 \<and> m = 0 then
           (if op6 = 0 then Some (R2 RBIT_w d n) else if op6 = 1 then Some (R2 REV16_w d n)
            else if op6 = 2 then Some (R2 REV_w d n) else if op6 = 4 then Some (R2 CLZ_w d n) else None)
         else None)"

definition decode_mem :: "32 word \<Rightarrow> instr option" where
  "decode_mem w =
     (let op10 = bits w 22 10; t = bits w 0 5; n = bits w 5 5; imm = bits w 10 12; imm19 = sx 19 (bits w 5 19);
          t2 = bits w 10 5; imm7 = 8 * sx 7 (bits w 15 7)
      in if bits w 24 8 = 0x58 then Some (LDR_lit t imm19)
         else if bits w 24 8 = 0x5C then Some (LDR_D_lit t imm19)
         else if op10 = 0x3E5 then Some (LS LDR_X t n (8 * imm))
         else if op10 = 0x3E4 then Some (LS STR_X t n (8 * imm))
         else if op10 = 0x2E5 then Some (LS LDR_W t n (4 * imm))
         else if op10 = 0x2E4 then Some (LS STR_W t n (4 * imm))
         else if op10 = 0x2E6 then Some (LS LDRSW t n (4 * imm))
         else if op10 = 0x1E5 then Some (LS LDR_H t n (2 * imm))
         else if op10 = 0x1E4 then Some (LS STR_H t n (2 * imm))
         else if op10 = 0x1E6 then Some (LS LDRSH t n (2 * imm))
         else if op10 = 0x0E5 then Some (LS LDR_B t n imm)
         else if op10 = 0x0E4 then Some (LS STR_B t n imm)
         else if op10 = 0x0E6 then Some (LS LDRSB t n imm)
         else if op10 = 0x3F5 then Some (LS LDR_D t n (8 * imm))
         else if op10 = 0x3F4 then Some (LS STR_D t n (8 * imm))
         else if op10 = 0x2F5 then Some (LS LDR_S t n (4 * imm))
         else if op10 = 0x2F4 then Some (LS STR_S t n (4 * imm))
         else if op10 = 0x0F7 then Some (LS LDR_Q t n (16 * imm))
         else if op10 = 0x0F6 then Some (LS STR_Q t n (16 * imm))
         else if op10 = 0x2A4 then Some (STP t t2 n imm7)
         else if op10 = 0x2A5 then Some (LDP t t2 n imm7)
         else None)"

definition decode_fp :: "32 word \<Rightarrow> instr option" where
  "decode_fp w =
     (let op11 = bits w 21 11; d = bits w 0 5; n = bits w 5 5; m = bits w 16 5; op6 = bits w 10 6; op22 = bits w 10 22
      in if op11 = 0x0F3 \<and> op6 = 0x0A then Some (F3 FADD d n m)
         else if op11 = 0x0F3 \<and> op6 = 0x0E then Some (F3 FSUB d n m)
         else if op11 = 0x0F3 \<and> op6 = 0x02 then Some (F3 FMUL d n m)
         else if op11 = 0x0F3 \<and> op6 = 0x06 then Some (F3 FDIV d n m)
         else if op11 = 0x0F3 \<and> op6 = 0x08 then
           (if d = 0 then Some (FCMP n m) else if d = 8 \<and> m = 0 then Some (FCMP_0 n) else None)
         else if op22 = 0x079850 then Some (F2 FNEG d n)
         else if op22 = 0x079830 then Some (F2 FABS d n)
         else if op22 = 0x079810 then Some (F2 FMOV d n)
         else if op22 = 0x279880 then Some (F2 SCVTF d n)
         else if op22 = 0x279E00 then Some (F2 FCVTZS d n)
         else if op22 = 0x279980 then Some (F2 FMOV_to_gp d n)
         else if op22 = 0x2799C0 then Some (F2 FMOV_from_gp d n)
         else if op22 = 0x079890 then Some (F2 FCVT_to_S d n)
         else if op22 = 0x0788B0 then Some (F2 FCVT_to_D d n)
         else if op22 = 0x038816 then Some (F2 CNT_8B d n)
         else if op22 = 0x038C6E then Some (F2 ADDV_B d n)
         else if op22 = 0x03804F then Some (F2 UMOV_B0 d n)
         else None)"

definition decode :: "32 word \<Rightarrow> instr option" where
  "decode w =
     (let g = bits w 26 3; op0 = bits w 25 4
      in if g = 5 then decode_branch w
         else if g = 4 then decode_dp_imm w
         else if op0 = 5 \<or> op0 = 13 then decode_dp_reg w
         else if op0 = 7 \<or> op0 = 15 then decode_fp w
         else if bits w 27 1 = 1 \<and> bits w 25 1 = 0 then decode_mem w
         else None)"

subsection \<open>Fields of an encoded word\<close>

definition fits :: "nat \<Rightarrow> int \<Rightarrow> bool" where
  "fits m x \<longleftrightarrow> 0 \<le> x \<and> x < 2 ^ m"

abbreviation reg :: "int \<Rightarrow> bool" where "reg \<equiv> fits 5"

lemma bits_or: "bits (a OR b) lo n = bits a lo n OR bits b lo n"
  by (simp add: bits_def drop_bit_or take_bit_or unsigned_or_eq)

lemma bits_unat: "bits w lo n = unat w div 2 ^ lo mod 2 ^ n"
proof -
  have "unat (drop_bit lo w) = drop_bit lo (take_bit 32 (unat w))" by (simp add: unsigned_drop_bit_eq)
  also have "\<dots> = unat w div 2 ^ lo" using unsigned_less [of w, where 'a = nat] by (simp add: drop_bit_eq_div take_bit_eq_mod)
  finally show ?thesis unfolding bits_def unsigned_take_bit_eq by (simp only: take_bit_eq_mod)
qed

lemma bits_num: "bits (numeral c) lo n = (numeral c :: nat) mod 2 ^ 32 div 2 ^ lo mod 2 ^ n"
proof -
  have "unat (numeral c :: 32 word) = take_bit 32 (numeral c)" by (simp only: unsigned_numeral) simp
  then show ?thesis by (simp only: bits_unat take_bit_eq_mod)
qed

lemma unat_field:
  assumes "fits m x" "k + m \<le> 32"
  shows "unat (push_bit k (u32 x)) = nat x * 2 ^ k"
proof -
  have "x * 2 ^ k < 2 ^ m * 2 ^ k" using assms(1) by (simp add: fits_def)
  also have "\<dots> \<le> (2::int) ^ 32" using power_increasing [OF assms(2), of "2::int"] by (simp add: add.commute flip: power_add)
  finally have lt: "x * 2 ^ k < 2 ^ 32" .
  have "x * 1 \<le> x * 2 ^ k" using assms(1) by (intro mult_left_mono) (auto simp: fits_def)
  then have u: "uint (u32 x) = x" using assms(1) lt by (simp add: uint_word_of_int_eq take_bit_eq_mod fits_def)
  have "uint (push_bit k (u32 x)) = take_bit 32 (push_bit k (uint (u32 x)))" by (simp add: unsigned_push_bit_eq)
  also have "\<dots> = x * 2 ^ k" using lt assms(1) unfolding u by (simp add: push_bit_eq_mult take_bit_eq_mod fits_def)
  finally show ?thesis using assms(1) unfolding unat_eq_nat_uint by (simp add: fits_def nat_mult_distrib nat_power_eq)
qed

lemma bits_field:
  assumes f: "fits m x" and k: "k + m \<le> 32"
  shows "k + m \<le> lo \<Longrightarrow> bits (push_bit k (u32 x)) lo n = 0"
    and "lo + n \<le> k \<Longrightarrow> bits (push_bit k (u32 x)) lo n = 0"
    and "lo = k \<Longrightarrow> m \<le> n \<Longrightarrow> bits (push_bit k (u32 x)) lo n = nat x"
    and "lo \<le> k \<Longrightarrow> k + m \<le> lo + n \<Longrightarrow> bits (push_bit k (u32 x)) lo n = nat x * 2 ^ (k - lo)"
proof -
  have lt: "nat x < 2 ^ m" using f by (simp add: fits_def nat_less_iff)
  have b: "bits (push_bit k (u32 x)) lo n = nat x * 2 ^ k div 2 ^ lo mod 2 ^ n" using unat_field [OF f k] by (simp add: bits_unat)
  show "bits (push_bit k (u32 x)) lo n = 0" if "k + m \<le> lo"
  proof -
    have "nat x * 2 ^ k < 2 ^ m * 2 ^ k" using lt by simp
    also have "\<dots> \<le> (2::nat) ^ lo" using power_increasing [OF that, of "2::nat"] by (simp add: add.commute flip: power_add)
    finally show ?thesis using b by simp
  qed
  have down: "nat x * 2 ^ k div 2 ^ lo = nat x * 2 ^ (k - lo)" if "lo \<le> k"
  proof -
    have "nat x * 2 ^ k = nat x * 2 ^ (k - lo) * 2 ^ lo" using that by (simp flip: power_add)
    then show ?thesis by (metis nonzero_mult_div_cancel_right power_not_zero zero_neq_numeral)
  qed
  show "bits (push_bit k (u32 x)) lo n = 0" if "lo + n \<le> k"
  proof -
    have "(2::nat) ^ (k - lo) = 2 ^ (k - lo - n) * 2 ^ n" using that by (simp flip: power_add)
    then show ?thesis using b down that by simp
  qed
  show *: "bits (push_bit k (u32 x)) lo n = nat x * 2 ^ (k - lo)" if "lo \<le> k" "k + m \<le> lo + n"
  proof -
    have "nat x * 2 ^ (k - lo) < 2 ^ m * 2 ^ (k - lo)" using lt by simp
    also have "\<dots> \<le> (2::nat) ^ n" using that power_increasing [of "m + (k - lo)" n "2::nat"] by (simp flip: power_add)
    finally show ?thesis using b down that by simp
  qed
  show "bits (push_bit k (u32 x)) lo n = nat x" if "lo = k" "m \<le> n" using * that by simp
qed

lemmas bits_field0 = bits_field [where k = 0, simplified]

lemma fits_mask: "fits 16 (i AND 0xFFFF)" "fits 19 (i AND 0x7FFFF)" "fits 7 (i AND 0x7F)" "fits 6 (i AND 63)" "fits 2 (i AND 3)"
proof -
  have m: "i AND 0xFFFF = take_bit 16 i" "i AND 0x7FFFF = take_bit 19 i" "i AND 0x7F = take_bit 7 i" "i AND 63 = take_bit 6 i" "i AND 3 = take_bit 2 i"
    by (simp_all add: take_bit_eq_mask mask_eq_exp_minus_1)
  show "fits 16 (i AND 0xFFFF)" "fits 19 (i AND 0x7FFFF)" "fits 7 (i AND 0x7F)" "fits 6 (i AND 63)" "fits 2 (i AND 3)"
    unfolding m fits_def by (intro conjI take_bit_nonnegative take_bit_int_less_exp)+
qed

lemmas bits_simps = bits_or bits_num bits_field bits_field0

text \<open>Immediates that are scaled by the size of the access.\<close>

definition off_ok :: "int \<Rightarrow> int \<Rightarrow> bool" where
  "off_ok c i \<longleftrightarrow> 0 \<le> i \<and> i < c * 4096 \<and> i mod c = 0"

lemma off_ok_field:
  assumes "off_ok c i" "0 < c"
  shows "fits 12 (i sdiv c)" and "nat c * nat (i sdiv c) = nat i"
proof -
  have s: "i sdiv c = i div c" using assms by (simp add: off_ok_def signed_divide_int_def sgn_if)
  have e: "c * (i div c) = i" using assms by (auto simp: off_ok_def)
  have "c * (i div c) < c * 4096" unfolding e using assms(1) by (simp add: off_ok_def)
  then have "i div c < 4096" using assms(2) by (simp only: mult_less_cancel_left_pos)
  with e show "fits 12 (i sdiv c)" "nat c * nat (i sdiv c) = nat i"
    using assms by (auto simp: s fits_def off_ok_def pos_imp_zdiv_nonneg_iff simp flip: nat_mult_distrib)
qed

lemma sdiv_hw: "fits 2 h \<Longrightarrow> (16 * h) sdiv 16 = h"
  by (auto simp: fits_def signed_divide_int_def sgn_if)

lemma sdiv_8: "(8 * i) sdiv 8 = (i::int)"
  by (cases "0 \<le> i") (auto simp: signed_divide_int_def sgn_if abs_if)

lemma sx_mod:
  assumes "0 < n" "- (2 ^ (n - 1)) \<le> i" "i < 2 ^ (n - 1)"
  shows "sx n (nat (i mod 2 ^ n)) = i"
proof (cases "0 \<le> i")
  case True
  have "(2::int) ^ (n - 1) \<le> 2 ^ n" by (rule power_increasing) auto
  then have "i mod 2 ^ n = i" using True less_le_trans [OF assms(3)] by (intro mod_pos_pos_trivial) auto
  then show ?thesis using True assms(3) by (simp add: sx_def nat_less_iff)
next
  case False
  have p: "(2::int) ^ n = 2 * 2 ^ (n - 1)" using assms(1) by (cases n) auto
  have "i mod 2 ^ n = (i + 2 ^ n) mod 2 ^ n" by simp
  also have "\<dots> = i + 2 ^ n" using False assms(2) p by (intro mod_pos_pos_trivial) auto
  finally show ?thesis using False assms(2) p by (simp add: sx_def nat_less_iff)
qed

lemma mask_mod: "(i::int) AND 0x7FFFF = i mod 2 ^ 19" "i AND 0x7F = i mod 2 ^ 7" "i AND 3 = i mod 4" "i AND 0xFFFF = i mod 2 ^ 16" "i AND 63 = i mod 64"
proof -
  have "i AND 0x7FFFF = take_bit 19 i" "i AND 0x7F = take_bit 7 i" "i AND 3 = take_bit 2 i" "i AND 0xFFFF = take_bit 16 i" "i AND 63 = take_bit 6 i"
    by (simp_all add: take_bit_eq_mask mask_eq_exp_minus_1)
  then show "i AND 0x7FFFF = i mod 2 ^ 19" "i AND 0x7F = i mod 2 ^ 7" "i AND 3 = i mod 4" "i AND 0xFFFF = i mod 2 ^ 16" "i AND 63 = i mod 64"
    by (simp_all add: take_bit_eq_mod)
qed

lemma sx_mask: "- (2 ^ 18) \<le> i \<Longrightarrow> i < 2 ^ 18 \<Longrightarrow> sx 19 (nat (i AND 0x7FFFF)) = i"
  "- (2 ^ 6) \<le> i \<Longrightarrow> i < 2 ^ 6 \<Longrightarrow> sx 7 (nat (i AND 0x7F)) = i"
  using sx_mod [of 19 i] sx_mod [of 7 i] by (simp_all only: mask_mod) simp_all

lemma and_26: "u32 i AND 0x3FFFFFF = u32 (take_bit 26 i)"
proof -
  have "u32 i AND 0x3FFFFFF = take_bit 26 (u32 i)" by (simp add: take_bit_eq_mask mask_eq_exp_minus_1)
  also have "\<dots> = u32 (take_bit 26 i)" by transfer simp
  finally show ?thesis .
qed

lemma fits_take26: "fits 26 (take_bit 26 i)"
  by (simp only: fits_def take_bit_nonnegative take_bit_int_less_exp simp_thms)

lemma sx_26: "- (2 ^ 25) \<le> i \<Longrightarrow> i < 2 ^ 25 \<Longrightarrow> sx 26 (nat (take_bit 26 i)) = i"
  using sx_mod [of 26 i] by (simp add: take_bit_eq_mod)

lemma fits_63: "fits 6 s \<Longrightarrow> fits 6 (63 - s)"
  by (auto simp: fits_def)

lemma fits_xor: "fits 4 c \<Longrightarrow> fits 4 (c XOR 1)"
proof -
  assume "fits 4 c"
  then have "c \<in> set [0..15]" by (auto simp: fits_def)
  moreover have "\<forall>c \<in> set [0..15]. fits 4 (c XOR (1::int))" by (simp add: upto.simps fits_def)
  ultimately show ?thesis by blast
qed

lemma adr_imm:
  assumes "- (2 ^ 20) \<le> i" "i < 2 ^ 20"
  shows "sx 21 (4 * nat (drop_bit 2 i AND 0x7FFFF) + nat (i AND 3)) = i"
proof -
  have e: "4 * (i div 4 mod 2 ^ 19) + i mod 4 = i mod 2 ^ 21" using zmod_zmult2_eq [of "2 ^ 19" i 4] by simp
  have "4 * nat (i div 4 mod 2 ^ 19) + nat (i mod 4) = nat (i mod 2 ^ 21)"
    unfolding e [symmetric] by (simp add: nat_mult_distrib nat_add_distrib)
  then have "4 * nat (drop_bit 2 i AND 0x7FFFF) + nat (i AND 3) = nat (i mod 2 ^ 21)" by (simp add: mask_mod drop_bit_eq_div)
  then show ?thesis using sx_mod [of 21 i] assms by simp
qed

subsection \<open>What each encoder encodes\<close>

lemma dec_ADDreg [dec]: "reg d \<Longrightarrow> reg n \<Longrightarrow> reg m \<Longrightarrow> decode (encADDreg d n m) = Some (R3 ADD (nat d) (nat n) (nat m))"
  by (simp add: encADDreg_def decode_def decode_dp_reg_def bits_simps)

lemma dec_SUBreg [dec]: "reg d \<Longrightarrow> reg n \<Longrightarrow> reg m \<Longrightarrow> decode (encSUBreg d n m) = Some (R3 SUB (nat d) (nat n) (nat m))"
  by (simp add: encSUBreg_def decode_def decode_dp_reg_def bits_simps)

lemma dec_SUBext [dec]: "reg d \<Longrightarrow> reg n \<Longrightarrow> reg m \<Longrightarrow> decode (encSUBext d n m) = Some (R3 SUBX (nat d) (nat n) (nat m))"
  by (simp add: encSUBext_def decode_def decode_dp_reg_def bits_simps)

lemma dec_SDIV [dec]: "reg d \<Longrightarrow> reg n \<Longrightarrow> reg m \<Longrightarrow> decode (encSDIV d n m) = Some (R3 SDIV (nat d) (nat n) (nat m))"
  by (simp add: encSDIV_def decode_def decode_dp_reg_def bits_simps)

lemma dec_UDIV [dec]: "reg d \<Longrightarrow> reg n \<Longrightarrow> reg m \<Longrightarrow> decode (encUDIV d n m) = Some (R3 UDIV (nat d) (nat n) (nat m))"
  by (simp add: encUDIV_def decode_def decode_dp_reg_def bits_simps)

lemma dec_AND [dec]: "reg d \<Longrightarrow> reg n \<Longrightarrow> reg m \<Longrightarrow> decode (encAND d n m) = Some (R3 AND_r (nat d) (nat n) (nat m))"
  by (simp add: encAND_def decode_def decode_dp_reg_def bits_simps)

lemma dec_ORR [dec]: "reg d \<Longrightarrow> reg n \<Longrightarrow> reg m \<Longrightarrow> decode (encORR d n m) = Some (R3 ORR (nat d) (nat n) (nat m))"
  by (simp add: encORR_def decode_def decode_dp_reg_def bits_simps)

lemma dec_EOR [dec]: "reg d \<Longrightarrow> reg n \<Longrightarrow> reg m \<Longrightarrow> decode (encEOR d n m) = Some (R3 EOR (nat d) (nat n) (nat m))"
  by (simp add: encEOR_def decode_def decode_dp_reg_def bits_simps)

lemma dec_LSLV [dec]: "reg d \<Longrightarrow> reg n \<Longrightarrow> reg m \<Longrightarrow> decode (encLSLV d n m) = Some (R3 LSLV (nat d) (nat n) (nat m))"
  by (simp add: encLSLV_def decode_def decode_dp_reg_def bits_simps)

lemma dec_ASRV [dec]: "reg d \<Longrightarrow> reg n \<Longrightarrow> reg m \<Longrightarrow> decode (encASRV d n m) = Some (R3 ASRV (nat d) (nat n) (nat m))"
  by (simp add: encASRV_def decode_def decode_dp_reg_def bits_simps)

lemma dec_LSRV [dec]: "reg d \<Longrightarrow> reg n \<Longrightarrow> reg m \<Longrightarrow> decode (encLSRV d n m) = Some (R3 LSRV (nat d) (nat n) (nat m))"
  by (simp add: encLSRV_def decode_def decode_dp_reg_def bits_simps)

lemma dec_ADDS [dec]: "reg d \<Longrightarrow> reg n \<Longrightarrow> reg m \<Longrightarrow> decode (encADDS d n m) = Some (R3 ADDS (nat d) (nat n) (nat m))"
  by (simp add: encADDS_def decode_def decode_dp_reg_def bits_simps)

lemma dec_ADC [dec]: "reg d \<Longrightarrow> reg n \<Longrightarrow> reg m \<Longrightarrow> decode (encADC d n m) = Some (R3 ADC (nat d) (nat n) (nat m))"
  by (simp add: encADC_def decode_def decode_dp_reg_def bits_simps)

lemma dec_SUBS [dec]: "reg d \<Longrightarrow> reg n \<Longrightarrow> reg m \<Longrightarrow> decode (encSUBS d n m) = Some (R3 SUBS (nat d) (nat n) (nat m))"
  by (simp add: encSUBS_def decode_def decode_dp_reg_def bits_simps)

lemma dec_SBC [dec]: "reg d \<Longrightarrow> reg n \<Longrightarrow> reg m \<Longrightarrow> decode (encSBC d n m) = Some (R3 SBC (nat d) (nat n) (nat m))"
  by (simp add: encSBC_def decode_def decode_dp_reg_def bits_simps)

lemma dec_SBCS [dec]: "reg d \<Longrightarrow> reg n \<Longrightarrow> reg m \<Longrightarrow> decode (encSBCS d n m) = Some (R3 SBCS (nat d) (nat n) (nat m))"
  by (simp add: encSBCS_def decode_def decode_dp_reg_def bits_simps)

lemma dec_UMULH [dec]: "reg d \<Longrightarrow> reg n \<Longrightarrow> reg m \<Longrightarrow> decode (encUMULH d n m) = Some (R3 UMULH (nat d) (nat n) (nat m))"
  by (simp add: encUMULH_def decode_def decode_dp_reg_def bits_simps)

lemma dec_SMULH [dec]: "reg d \<Longrightarrow> reg n \<Longrightarrow> reg m \<Longrightarrow> decode (encSMULH d n m) = Some (R3 SMULH (nat d) (nat n) (nat m))"
  by (simp add: encSMULH_def decode_def decode_dp_reg_def bits_simps)

lemma dec_MUL [dec]: "reg d \<Longrightarrow> reg n \<Longrightarrow> reg m \<Longrightarrow> decode (encMUL d n m) = Some (MADD (nat d) (nat n) (nat m) 31)"
  by (simp add: encMUL_def decode_def decode_dp_reg_def bits_simps)

lemma dec_MSUB [dec]: "reg d \<Longrightarrow> reg n \<Longrightarrow> reg m \<Longrightarrow> reg a \<Longrightarrow> decode (encMSUB d n m a) = Some (MSUB (nat d) (nat n) (nat m) (nat a))"
  by (simp add: encMSUB_def decode_def decode_dp_reg_def bits_simps)

lemma dec_CMPreg [dec]: "reg n \<Longrightarrow> reg m \<Longrightarrow> decode (encCMPreg n m) = Some (R3 SUBS 31 (nat n) (nat m))"
  by (simp add: encCMPreg_def decode_def decode_dp_reg_def bits_simps)

lemma dec_CMPimm0 [dec]: "reg n \<Longrightarrow> decode (encCMPimm0 n) = Some (SUBS_i 31 (nat n) 0)"
  by (simp add: encCMPimm0_def decode_def decode_dp_imm_def bits_simps)

lemma dec_NEG [dec]: "reg d \<Longrightarrow> reg m \<Longrightarrow> decode (encNEG d m) = Some (R3 SUB (nat d) 31 (nat m))"
  by (simp add: encNEG_def decode_def decode_dp_reg_def bits_simps)

lemma dec_MOVreg [dec]: "reg d \<Longrightarrow> reg m \<Longrightarrow> decode (encMOVreg d m) = Some (R3 ORR (nat d) 31 (nat m))"
  by (simp add: encMOVreg_def decode_def decode_dp_reg_def bits_simps)

lemma dec_MVN [dec]: "reg d \<Longrightarrow> reg m \<Longrightarrow> decode (encMVN d m) = Some (R3 ORN (nat d) 31 (nat m))"
  by (simp add: encMVN_def decode_def decode_dp_reg_def bits_simps)

lemma dec_NEGS [dec]: "reg d \<Longrightarrow> reg m \<Longrightarrow> decode (encNEGS d m) = Some (R3 SUBS (nat d) 31 (nat m))"
  by (simp add: encNEGS_def decode_def decode_dp_reg_def bits_simps)

lemma dec_NGC [dec]: "reg d \<Longrightarrow> reg m \<Longrightarrow> decode (encNGC d m) = Some (R3 SBC (nat d) 31 (nat m))"
  by (simp add: encNGC_def decode_def decode_dp_reg_def bits_simps)

lemma dec_MOVZ [dec]: "reg d \<Longrightarrow> fits 2 h \<Longrightarrow> decode (encMOVZ d i (16 * h)) = Some (MOVZ (nat d) (nat (i AND 0xFFFF)) (nat h))"
  using fits_mask(1) [of i]
  by (simp add: encMOVZ_def decode_def decode_dp_imm_def bits_simps sdiv_hw)

lemma dec_MOVK [dec]: "reg d \<Longrightarrow> fits 2 h \<Longrightarrow> decode (encMOVK d i (16 * h)) = Some (MOVK (nat d) (nat (i AND 0xFFFF)) (nat h))"
  using fits_mask(1) [of i]
  by (simp add: encMOVK_def decode_def decode_dp_imm_def bits_simps sdiv_hw)

lemma dec_MOVN [dec]: "reg d \<Longrightarrow> fits 2 h \<Longrightarrow> decode (encMOVN d i (16 * h)) = Some (MOVN (nat d) (nat (i AND 0xFFFF)) (nat h))"
  using fits_mask(1) [of i]
  by (simp add: encMOVN_def decode_def decode_dp_imm_def bits_simps sdiv_hw)

lemma dec_ADDimm [dec]: "reg d \<Longrightarrow> reg n \<Longrightarrow> fits 12 i \<Longrightarrow> decode (encADDimm d n i) = Some (ADD_i (nat d) (nat n) (nat i))"
  by (simp add: encADDimm_def decode_def decode_dp_imm_def bits_simps)

lemma dec_SUBimm [dec]: "reg d \<Longrightarrow> reg n \<Longrightarrow> fits 12 i \<Longrightarrow> decode (encSUBimm d n i) = Some (SUB_i (nat d) (nat n) (nat i))"
  by (simp add: encSUBimm_def decode_def decode_dp_imm_def bits_simps)

lemma dec_LDRuoff [dec]: "reg t \<Longrightarrow> reg n \<Longrightarrow> off_ok 8 i \<Longrightarrow> decode (encLDRuoff t n i) = Some (LS LDR_X (nat t) (nat n) (nat i))"
  using off_ok_field [of 8 i]
  by (simp add: encLDRuoff_def decode_def decode_mem_def bits_simps)

lemma dec_STRuoff [dec]: "reg t \<Longrightarrow> reg n \<Longrightarrow> off_ok 8 i \<Longrightarrow> decode (encSTRuoff t n i) = Some (LS STR_X (nat t) (nat n) (nat i))"
  using off_ok_field [of 8 i]
  by (simp add: encSTRuoff_def decode_def decode_mem_def bits_simps)

lemma dec_LDRQuoff [dec]: "reg t \<Longrightarrow> reg n \<Longrightarrow> off_ok 16 i \<Longrightarrow> decode (encLDRQuoff t n i) = Some (LS LDR_Q (nat t) (nat n) (nat i))"
  using off_ok_field [of 16 i]
  by (simp add: encLDRQuoff_def decode_def decode_mem_def bits_simps)

lemma dec_STRQuoff [dec]: "reg t \<Longrightarrow> reg n \<Longrightarrow> off_ok 16 i \<Longrightarrow> decode (encSTRQuoff t n i) = Some (LS STR_Q (nat t) (nat n) (nat i))"
  using off_ok_field [of 16 i]
  by (simp add: encSTRQuoff_def decode_def decode_mem_def bits_simps)

lemma dec_STRWuoff [dec]: "reg t \<Longrightarrow> reg n \<Longrightarrow> off_ok 4 i \<Longrightarrow> decode (encSTRWuoff t n i) = Some (LS STR_W (nat t) (nat n) (nat i))"
  using off_ok_field [of 4 i]
  by (simp add: encSTRWuoff_def decode_def decode_mem_def bits_simps)

lemma dec_LDRWuoff [dec]: "reg t \<Longrightarrow> reg n \<Longrightarrow> off_ok 4 i \<Longrightarrow> decode (encLDRWuoff t n i) = Some (LS LDR_W (nat t) (nat n) (nat i))"
  using off_ok_field [of 4 i]
  by (simp add: encLDRWuoff_def decode_def decode_mem_def bits_simps)

lemma dec_LDRSWuoff [dec]: "reg t \<Longrightarrow> reg n \<Longrightarrow> off_ok 4 i \<Longrightarrow> decode (encLDRSWuoff t n i) = Some (LS LDRSW (nat t) (nat n) (nat i))"
  using off_ok_field [of 4 i]
  by (simp add: encLDRSWuoff_def decode_def decode_mem_def bits_simps)

lemma dec_STRH [dec]: "reg t \<Longrightarrow> reg n \<Longrightarrow> off_ok 2 i \<Longrightarrow> decode (encSTRH t n i) = Some (LS STR_H (nat t) (nat n) (nat i))"
  using off_ok_field [of 2 i]
  by (simp add: encSTRH_def decode_def decode_mem_def bits_simps)

lemma dec_LDRH [dec]: "reg t \<Longrightarrow> reg n \<Longrightarrow> off_ok 2 i \<Longrightarrow> decode (encLDRH t n i) = Some (LS LDR_H (nat t) (nat n) (nat i))"
  using off_ok_field [of 2 i]
  by (simp add: encLDRH_def decode_def decode_mem_def bits_simps)

lemma dec_LDRSH [dec]: "reg t \<Longrightarrow> reg n \<Longrightarrow> off_ok 2 i \<Longrightarrow> decode (encLDRSH t n i) = Some (LS LDRSH (nat t) (nat n) (nat i))"
  using off_ok_field [of 2 i]
  by (simp add: encLDRSH_def decode_def decode_mem_def bits_simps)

lemma dec_LDRDuoff [dec]: "reg t \<Longrightarrow> reg n \<Longrightarrow> off_ok 8 i \<Longrightarrow> decode (encLDRDuoff t n i) = Some (LS LDR_D (nat t) (nat n) (nat i))"
  using off_ok_field [of 8 i]
  by (simp add: encLDRDuoff_def decode_def decode_mem_def bits_simps)

lemma dec_STRDuoff [dec]: "reg t \<Longrightarrow> reg n \<Longrightarrow> off_ok 8 i \<Longrightarrow> decode (encSTRDuoff t n i) = Some (LS STR_D (nat t) (nat n) (nat i))"
  using off_ok_field [of 8 i]
  by (simp add: encSTRDuoff_def decode_def decode_mem_def bits_simps)

lemma dec_LDRSuoff [dec]: "reg t \<Longrightarrow> reg n \<Longrightarrow> off_ok 4 i \<Longrightarrow> decode (encLDRSuoff t n i) = Some (LS LDR_S (nat t) (nat n) (nat i))"
  using off_ok_field [of 4 i]
  by (simp add: encLDRSuoff_def decode_def decode_mem_def bits_simps)

lemma dec_STRSuoff [dec]: "reg t \<Longrightarrow> reg n \<Longrightarrow> off_ok 4 i \<Longrightarrow> decode (encSTRSuoff t n i) = Some (LS STR_S (nat t) (nat n) (nat i))"
  using off_ok_field [of 4 i]
  by (simp add: encSTRSuoff_def decode_def decode_mem_def bits_simps)

lemma dec_STRBuoff [dec]: "reg t \<Longrightarrow> reg n \<Longrightarrow> fits 12 i \<Longrightarrow> decode (encSTRBuoff t n i) = Some (LS STR_B (nat t) (nat n) (nat i))"
  by (simp add: encSTRBuoff_def decode_def decode_mem_def bits_simps)

lemma dec_LDRBuoff [dec]: "reg t \<Longrightarrow> reg n \<Longrightarrow> fits 12 i \<Longrightarrow> decode (encLDRBuoff t n i) = Some (LS LDR_B (nat t) (nat n) (nat i))"
  by (simp add: encLDRBuoff_def decode_def decode_mem_def bits_simps)

lemma dec_LDRSBuoff [dec]: "reg t \<Longrightarrow> reg n \<Longrightarrow> fits 12 i \<Longrightarrow> decode (encLDRSBuoff t n i) = Some (LS LDRSB (nat t) (nat n) (nat i))"
  by (simp add: encLDRSBuoff_def decode_def decode_mem_def bits_simps)

lemma dec_LDRlit [dec]: "reg t \<Longrightarrow> - (2 ^ 18) \<le> i \<Longrightarrow> i < 2 ^ 18 \<Longrightarrow> decode (encLDRlit t i) = Some (LDR_lit (nat t) i)"
  using fits_mask(2) [of i]
  by (simp add: encLDRlit_def decode_def decode_mem_def bits_simps sx_mask)

lemma dec_LDRDlit [dec]: "reg t \<Longrightarrow> - (2 ^ 18) \<le> i \<Longrightarrow> i < 2 ^ 18 \<Longrightarrow> decode (encLDRDlit t i) = Some (LDR_D_lit (nat t) i)"
  using fits_mask(2) [of i]
  by (simp add: encLDRDlit_def decode_def decode_mem_def bits_simps sx_mask)

lemma dec_CBZ [dec]: "reg t \<Longrightarrow> - (2 ^ 18) \<le> i \<Longrightarrow> i < 2 ^ 18 \<Longrightarrow> decode (encCBZ t i) = Some (CBZ (nat t) i)"
  using fits_mask(2) [of i]
  by (simp add: encCBZ_def decode_def decode_branch_def bits_simps sx_mask)

lemma dec_CBNZ [dec]: "reg t \<Longrightarrow> - (2 ^ 18) \<le> i \<Longrightarrow> i < 2 ^ 18 \<Longrightarrow> decode (encCBNZ t i) = Some (CBNZ (nat t) i)"
  using fits_mask(2) [of i]
  by (simp add: encCBNZ_def decode_def decode_branch_def bits_simps sx_mask)

lemma dec_Bcond [dec]: "fits 4 c \<Longrightarrow> - (2 ^ 18) \<le> i \<Longrightarrow> i < 2 ^ 18 \<Longrightarrow> decode (encBcond c i) = Some (B_cond (nat c) i)"
  using fits_mask(2) [of i]
  by (simp add: encBcond_def decode_def decode_branch_def bits_simps sx_mask)

lemma dec_B [dec]: "- (2 ^ 25) \<le> i \<Longrightarrow> i < 2 ^ 25 \<Longrightarrow> decode (encB i) = Some (B i)"
  using fits_take26 [of i]
  by (simp add: encB_def decode_def decode_branch_def bits_simps and_26 sx_26)

lemma dec_BL [dec]: "- (2 ^ 25) \<le> i \<Longrightarrow> i < 2 ^ 25 \<Longrightarrow> decode (encBL i) = Some (BL i)"
  using fits_take26 [of i]
  by (simp add: encBL_def decode_def decode_branch_def bits_simps and_26 sx_26)

lemma dec_BR [dec]: "reg n \<Longrightarrow> decode (encBR n) = Some (BR (nat n))"
  by (simp add: encBR_def decode_def decode_branch_def bits_simps)

lemma dec_BLR [dec]: "reg n \<Longrightarrow> decode (encBLR n) = Some (BLR (nat n))"
  by (simp add: encBLR_def decode_def decode_branch_def bits_simps)

lemma dec_RET [dec]: "decode (encRET) = Some (RET 30)"
  by (simp add: encRET_def decode_def decode_branch_def bits_simps)

lemma dec_SVC [dec]: "fits 16 i \<Longrightarrow> decode (encSVC i) = Some (SVC (nat i))"
  by (simp add: encSVC_def decode_def decode_branch_def bits_simps)

lemma dec_STP [dec]: "reg t \<Longrightarrow> reg u \<Longrightarrow> reg n \<Longrightarrow> - (2 ^ 6) \<le> i \<Longrightarrow> i < 2 ^ 6 \<Longrightarrow> decode (encSTP t u n (8 * i)) = Some (STP (nat t) (nat u) (nat n) (8 * i))"
  using fits_mask(3) [of i]
  by (simp add: encSTP_def decode_def decode_mem_def bits_simps sx_mask sdiv_8)

lemma dec_LDP [dec]: "reg t \<Longrightarrow> reg u \<Longrightarrow> reg n \<Longrightarrow> - (2 ^ 6) \<le> i \<Longrightarrow> i < 2 ^ 6 \<Longrightarrow> decode (encLDP t u n (8 * i)) = Some (LDP (nat t) (nat u) (nat n) (8 * i))"
  using fits_mask(3) [of i]
  by (simp add: encLDP_def decode_def decode_mem_def bits_simps sx_mask sdiv_8)

lemma dec_UBFM [dec]: "reg d \<Longrightarrow> reg n \<Longrightarrow> fits 6 r \<Longrightarrow> fits 6 s \<Longrightarrow> decode (encUBFM d n r s) = Some (UBFM (nat d) (nat n) (nat r) (nat s))"
  by (simp add: encUBFM_def decode_def decode_dp_imm_def bits_simps)

lemma dec_ASR [dec]: "reg d \<Longrightarrow> reg n \<Longrightarrow> fits 6 r \<Longrightarrow> decode (encASR d n r) = Some (SBFM (nat d) (nat n) (nat r) 63)"
  by (simp add: encASR_def decode_def decode_dp_imm_def bits_simps)

lemma dec_LSRimm [dec]: "reg d \<Longrightarrow> reg n \<Longrightarrow> fits 6 r \<Longrightarrow> decode (encLSRimm d n r) = Some (UBFM (nat d) (nat n) (nat r) 63)"
  by (simp add: encLSRimm_def decode_def decode_dp_imm_def bits_simps)

lemma dec_LSLimm [dec]: "reg d \<Longrightarrow> reg n \<Longrightarrow> fits 6 s \<Longrightarrow> decode (encLSLimm d n s) = Some (UBFM (nat d) (nat n) (nat ((64 - s) AND 63)) (nat (63 - s)))"
  using fits_mask(4) [of "64 - s"] fits_63 [of s]
  by (simp add: encLSLimm_def decode_def decode_dp_imm_def bits_simps del: of_int_diff)

lemma dec_SXTB [dec]: "reg d \<Longrightarrow> reg n \<Longrightarrow> decode (encSXTB d n) = Some (SBFM (nat d) (nat n) 0 7)"
  by (simp add: encSXTB_def decode_def decode_dp_imm_def bits_simps)

lemma dec_SXTH [dec]: "reg d \<Longrightarrow> reg n \<Longrightarrow> decode (encSXTH d n) = Some (SBFM (nat d) (nat n) 0 15)"
  by (simp add: encSXTH_def decode_def decode_dp_imm_def bits_simps)

lemma dec_UXTB [dec]: "reg d \<Longrightarrow> reg n \<Longrightarrow> decode (encUXTB d n) = Some (UBFM (nat d) (nat n) 0 7)"
  by (simp add: encUXTB_def decode_def decode_dp_imm_def bits_simps)

lemma dec_UXTH [dec]: "reg d \<Longrightarrow> reg n \<Longrightarrow> decode (encUXTH d n) = Some (UBFM (nat d) (nat n) 0 15)"
  by (simp add: encUXTH_def decode_def decode_dp_imm_def bits_simps)

lemma dec_REV16 [dec]: "reg d \<Longrightarrow> reg n \<Longrightarrow> decode (encREV16 d n) = Some (R2 REV16_w (nat d) (nat n))"
  by (simp add: encREV16_def decode_def decode_dp_reg_def bits_simps)

lemma dec_REV32 [dec]: "reg d \<Longrightarrow> reg n \<Longrightarrow> decode (encREV32 d n) = Some (R2 REV_w (nat d) (nat n))"
  by (simp add: encREV32_def decode_def decode_dp_reg_def bits_simps)

lemma dec_REV64 [dec]: "reg d \<Longrightarrow> reg n \<Longrightarrow> decode (encREV64 d n) = Some (R2 REV_x (nat d) (nat n))"
  by (simp add: encREV64_def decode_def decode_dp_reg_def bits_simps)

lemma dec_CLZ [dec]: "reg d \<Longrightarrow> reg n \<Longrightarrow> decode (encCLZ d n) = Some (R2 CLZ (nat d) (nat n))"
  by (simp add: encCLZ_def decode_def decode_dp_reg_def bits_simps)

lemma dec_CLZ32 [dec]: "reg d \<Longrightarrow> reg n \<Longrightarrow> decode (encCLZ32 d n) = Some (R2 CLZ_w (nat d) (nat n))"
  by (simp add: encCLZ32_def decode_def decode_dp_reg_def bits_simps)

lemma dec_RBIT [dec]: "reg d \<Longrightarrow> reg n \<Longrightarrow> decode (encRBIT d n) = Some (R2 RBIT (nat d) (nat n))"
  by (simp add: encRBIT_def decode_def decode_dp_reg_def bits_simps)

lemma dec_RBIT32 [dec]: "reg d \<Longrightarrow> reg n \<Longrightarrow> decode (encRBIT32 d n) = Some (R2 RBIT_w (nat d) (nat n))"
  by (simp add: encRBIT32_def decode_def decode_dp_reg_def bits_simps)

lemma dec_FADDD [dec]: "reg d \<Longrightarrow> reg n \<Longrightarrow> reg m \<Longrightarrow> decode (encFADDD d n m) = Some (F3 FADD (nat d) (nat n) (nat m))"
  by (simp add: encFADDD_def decode_def decode_fp_def bits_simps)

lemma dec_FSUBD [dec]: "reg d \<Longrightarrow> reg n \<Longrightarrow> reg m \<Longrightarrow> decode (encFSUBD d n m) = Some (F3 FSUB (nat d) (nat n) (nat m))"
  by (simp add: encFSUBD_def decode_def decode_fp_def bits_simps)

lemma dec_FMULD [dec]: "reg d \<Longrightarrow> reg n \<Longrightarrow> reg m \<Longrightarrow> decode (encFMULD d n m) = Some (F3 FMUL (nat d) (nat n) (nat m))"
  by (simp add: encFMULD_def decode_def decode_fp_def bits_simps)

lemma dec_FDIVD [dec]: "reg d \<Longrightarrow> reg n \<Longrightarrow> reg m \<Longrightarrow> decode (encFDIVD d n m) = Some (F3 FDIV (nat d) (nat n) (nat m))"
  by (simp add: encFDIVD_def decode_def decode_fp_def bits_simps)

lemma dec_FNEGD [dec]: "reg d \<Longrightarrow> reg n \<Longrightarrow> decode (encFNEGD d n) = Some (F2 FNEG (nat d) (nat n))"
  by (simp add: encFNEGD_def decode_def decode_fp_def bits_simps)

lemma dec_FABSD [dec]: "reg d \<Longrightarrow> reg n \<Longrightarrow> decode (encFABSD d n) = Some (F2 FABS (nat d) (nat n))"
  by (simp add: encFABSD_def decode_def decode_fp_def bits_simps)

lemma dec_FMOVDD [dec]: "reg d \<Longrightarrow> reg n \<Longrightarrow> decode (encFMOVDD d n) = Some (F2 FMOV (nat d) (nat n))"
  by (simp add: encFMOVDD_def decode_def decode_fp_def bits_simps)

lemma dec_SCVTFD [dec]: "reg d \<Longrightarrow> reg n \<Longrightarrow> decode (encSCVTFD d n) = Some (F2 SCVTF (nat d) (nat n))"
  by (simp add: encSCVTFD_def decode_def decode_fp_def bits_simps)

lemma dec_FCVTZSD [dec]: "reg d \<Longrightarrow> reg n \<Longrightarrow> decode (encFCVTZSD d n) = Some (F2 FCVTZS (nat d) (nat n))"
  by (simp add: encFCVTZSD_def decode_def decode_fp_def bits_simps)

lemma dec_FMOVtoGP [dec]: "reg d \<Longrightarrow> reg n \<Longrightarrow> decode (encFMOVtoGP d n) = Some (F2 FMOV_to_gp (nat d) (nat n))"
  by (simp add: encFMOVtoGP_def decode_def decode_fp_def bits_simps)

lemma dec_FMOVfromGP [dec]: "reg d \<Longrightarrow> reg n \<Longrightarrow> decode (encFMOVfromGP d n) = Some (F2 FMOV_from_gp (nat d) (nat n))"
  by (simp add: encFMOVfromGP_def decode_def decode_fp_def bits_simps)

lemma dec_FCVTDS [dec]: "reg d \<Longrightarrow> reg n \<Longrightarrow> decode (encFCVTDS d n) = Some (F2 FCVT_to_S (nat d) (nat n))"
  by (simp add: encFCVTDS_def decode_def decode_fp_def bits_simps)

lemma dec_FCVTSD [dec]: "reg d \<Longrightarrow> reg n \<Longrightarrow> decode (encFCVTSD d n) = Some (F2 FCVT_to_D (nat d) (nat n))"
  by (simp add: encFCVTSD_def decode_def decode_fp_def bits_simps)

lemma dec_CNT8B [dec]: "reg d \<Longrightarrow> reg n \<Longrightarrow> decode (encCNT8B d n) = Some (F2 CNT_8B (nat d) (nat n))"
  by (simp add: encCNT8B_def decode_def decode_fp_def bits_simps)

lemma dec_ADDVb [dec]: "reg d \<Longrightarrow> reg n \<Longrightarrow> decode (encADDVb d n) = Some (F2 ADDV_B (nat d) (nat n))"
  by (simp add: encADDVb_def decode_def decode_fp_def bits_simps)

lemma dec_UMOVb0 [dec]: "reg d \<Longrightarrow> reg n \<Longrightarrow> decode (encUMOVb0 d n) = Some (F2 UMOV_B0 (nat d) (nat n))"
  by (simp add: encUMOVb0_def decode_def decode_fp_def bits_simps)

lemma dec_FCMPD [dec]: "reg n \<Longrightarrow> reg m \<Longrightarrow> decode (encFCMPD n m) = Some (FCMP (nat n) (nat m))"
  by (simp add: encFCMPD_def decode_def decode_fp_def bits_simps)

lemma dec_FCMPDzero [dec]: "reg n \<Longrightarrow> decode (encFCMPDzero n) = Some (FCMP_0 (nat n))"
  by (simp add: encFCMPDzero_def decode_def decode_fp_def bits_simps)

lemma dec_CSEL [dec]: "reg d \<Longrightarrow> reg n \<Longrightarrow> reg m \<Longrightarrow> fits 4 c \<Longrightarrow> decode (encCSEL d n m c) = Some (CSEL (nat d) (nat n) (nat m) (nat c))"
  by (simp add: encCSEL_def decode_def decode_dp_reg_def bits_simps)

lemma dec_CSET [dec]: "reg d \<Longrightarrow> fits 4 c \<Longrightarrow> decode (encCSET d c) = Some (CSINC (nat d) 31 31 (nat (c XOR 1)))"
  using fits_xor [of c]
  by (simp add: encCSET_def decode_def decode_dp_reg_def bits_simps)

lemma dec_CCMP [dec]: "reg n \<Longrightarrow> reg m \<Longrightarrow> fits 4 f \<Longrightarrow> fits 4 c \<Longrightarrow> decode (encCCMP n m f c) = Some (CCMP (nat n) (nat m) (nat f) (nat c))"
  by (simp add: encCCMP_def decode_def decode_dp_reg_def bits_simps)

lemma dec_ADR [dec]: "reg d \<Longrightarrow> - (2 ^ 20) \<le> i \<Longrightarrow> i < 2 ^ 20 \<Longrightarrow> decode (encADR d i) = Some (ADR (nat d) i)"
  using fits_mask(5) [of i] fits_mask(2) [of "drop_bit 2 i"]
  by (simp add: encADR_def decode_def decode_dp_imm_def bits_simps adr_imm)

end
