(* ===== verification/Asm.thy ===== *)
theory Asm
  imports Arm64Dec
begin

section \<open>The encoders as an assembler\<close>

text \<open>
  \<open>assemble\<close> chooses the encoder of \<open>arm64enc.go\<close> for an instruction and checks that every operand
  fits its field, which the Go code leaves to its callers. Decoding gives the instruction back, so
  no two instructions share a word.
\<close>

definition regs :: "nat list \<Rightarrow> bool" where
  "regs ns \<longleftrightarrow> list_all (\<lambda>n. n < 32) ns"

fun enc3 :: "op3 \<Rightarrow> int \<Rightarrow> int \<Rightarrow> int \<Rightarrow> 32 word option" where
  "enc3 ADD d n m = Some (encADDreg d n m)"
| "enc3 SUB d n m = Some (encSUBreg d n m)"
| "enc3 ADDS d n m = Some (encADDS d n m)"
| "enc3 SUBS d n m = Some (encSUBS d n m)"
| "enc3 SUBX d n m = Some (encSUBext d n m)"
| "enc3 ADC d n m = Some (encADC d n m)"
| "enc3 SBC d n m = Some (encSBC d n m)"
| "enc3 SBCS d n m = Some (encSBCS d n m)"
| "enc3 AND_r d n m = Some (encAND d n m)"
| "enc3 ORR d n m = Some (encORR d n m)"
| "enc3 EOR d n m = Some (encEOR d n m)"
| "enc3 ORN d n m = (if n = 31 then Some (encMVN d m) else None)"
| "enc3 UMULH d n m = Some (encUMULH d n m)"
| "enc3 SMULH d n m = Some (encSMULH d n m)"
| "enc3 UDIV d n m = Some (encUDIV d n m)"
| "enc3 SDIV d n m = Some (encSDIV d n m)"
| "enc3 LSLV d n m = Some (encLSLV d n m)"
| "enc3 LSRV d n m = Some (encLSRV d n m)"
| "enc3 ASRV d n m = Some (encASRV d n m)"

fun enc2 :: "op2 \<Rightarrow> int \<Rightarrow> int \<Rightarrow> 32 word" where
  "enc2 RBIT = encRBIT" | "enc2 RBIT_w = encRBIT32" | "enc2 CLZ = encCLZ" | "enc2 CLZ_w = encCLZ32"
| "enc2 REV_x = encREV64" | "enc2 REV_w = encREV32" | "enc2 REV16_w = encREV16"

fun ls_scale :: "lsop \<Rightarrow> int" where
  "ls_scale LDR_X = 8" | "ls_scale STR_X = 8" | "ls_scale LDR_D = 8" | "ls_scale STR_D = 8"
| "ls_scale LDR_W = 4" | "ls_scale STR_W = 4" | "ls_scale LDRSW = 4" | "ls_scale LDR_S = 4" | "ls_scale STR_S = 4"
| "ls_scale LDR_H = 2" | "ls_scale STR_H = 2" | "ls_scale LDRSH = 2"
| "ls_scale LDR_B = 1" | "ls_scale STR_B = 1" | "ls_scale LDRSB = 1" | "ls_scale LDR_Q = 16" | "ls_scale STR_Q = 16"

fun encLS :: "lsop \<Rightarrow> int \<Rightarrow> int \<Rightarrow> int \<Rightarrow> 32 word" where
  "encLS LDR_X = encLDRuoff" | "encLS STR_X = encSTRuoff" | "encLS LDR_D = encLDRDuoff" | "encLS STR_D = encSTRDuoff"
| "encLS LDR_W = encLDRWuoff" | "encLS STR_W = encSTRWuoff" | "encLS LDRSW = encLDRSWuoff" | "encLS LDR_S = encLDRSuoff"
| "encLS STR_S = encSTRSuoff" | "encLS LDR_H = encLDRH" | "encLS STR_H = encSTRH" | "encLS LDRSH = encLDRSH"
| "encLS LDR_B = encLDRBuoff" | "encLS STR_B = encSTRBuoff" | "encLS LDRSB = encLDRSBuoff"
| "encLS LDR_Q = encLDRQuoff" | "encLS STR_Q = encSTRQuoff"

fun encF3 :: "fop3 \<Rightarrow> int \<Rightarrow> int \<Rightarrow> int \<Rightarrow> 32 word" where
  "encF3 FADD = encFADDD" | "encF3 FSUB = encFSUBD" | "encF3 FMUL = encFMULD" | "encF3 FDIV = encFDIVD"

fun encF2 :: "fop2 \<Rightarrow> int \<Rightarrow> int \<Rightarrow> 32 word" where
  "encF2 FNEG = encFNEGD" | "encF2 FABS = encFABSD" | "encF2 FMOV = encFMOVDD" | "encF2 SCVTF = encSCVTFD"
| "encF2 FCVTZS = encFCVTZSD" | "encF2 FMOV_to_gp = encFMOVtoGP" | "encF2 FMOV_from_gp = encFMOVfromGP"
| "encF2 FCVT_to_S = encFCVTDS" | "encF2 FCVT_to_D = encFCVTSD" | "encF2 CNT_8B = encCNT8B" | "encF2 ADDV_B = encADDVb"
| "encF2 UMOV_B0 = encUMOVb0"

definition srange :: "nat \<Rightarrow> int \<Rightarrow> bool" where
  "srange k i \<longleftrightarrow> - (2 ^ k) \<le> i \<and> i < 2 ^ k"

fun assemble :: "instr \<Rightarrow> 32 word option" where
  "assemble (MOVZ d i h) = (if regs [d] \<and> i < 2 ^ 16 \<and> h < 4 then Some (encMOVZ (int d) (int i) (16 * int h)) else None)"
| "assemble (MOVK d i h) = (if regs [d] \<and> i < 2 ^ 16 \<and> h < 4 then Some (encMOVK (int d) (int i) (16 * int h)) else None)"
| "assemble (MOVN d i h) = (if regs [d] \<and> i < 2 ^ 16 \<and> h < 4 then Some (encMOVN (int d) (int i) (16 * int h)) else None)"
| "assemble (ADD_i d n i) = (if regs [d, n] \<and> i < 2 ^ 12 then Some (encADDimm (int d) (int n) (int i)) else None)"
| "assemble (SUB_i d n i) = (if regs [d, n] \<and> i < 2 ^ 12 then Some (encSUBimm (int d) (int n) (int i)) else None)"
| "assemble (SUBS_i d n i) = (if regs [n] \<and> d = 31 \<and> i = 0 then Some (encCMPimm0 (int n)) else None)"
| "assemble (UBFM d n r l) = (if regs [d, n] \<and> r < 64 \<and> l < 64 then Some (encUBFM (int d) (int n) (int r) (int l)) else None)"
| "assemble (SBFM d n r l) =
     (if \<not> regs [d, n] then None
      else if r < 64 \<and> l = 63 then Some (encASR (int d) (int n) (int r))
      else if r = 0 \<and> l = 7 then Some (encSXTB (int d) (int n))
      else if r = 0 \<and> l = 15 then Some (encSXTH (int d) (int n)) else None)"
| "assemble (ADR d i) = (if regs [d] \<and> srange 20 i then Some (encADR (int d) i) else None)"
| "assemble (R3 op d n m) = (if regs [d, n, m] then enc3 op (int d) (int n) (int m) else None)"
| "assemble (R2 op d n) = (if regs [d, n] then Some (enc2 op (int d) (int n)) else None)"
| "assemble (MADD d n m a) = (if regs [d, n, m] \<and> a = 31 then Some (encMUL (int d) (int n) (int m)) else None)"
| "assemble (MSUB d n m a) = (if regs [d, n, m, a] then Some (encMSUB (int d) (int n) (int m) (int a)) else None)"
| "assemble (CSEL d n m c) = (if regs [d, n, m] \<and> c < 16 then Some (encCSEL (int d) (int n) (int m) (int c)) else None)"
| "assemble (CSINC d n m c) = (if regs [d] \<and> n = 31 \<and> m = 31 \<and> c < 16 then Some (encCSET (int d) (int c XOR 1)) else None)"
| "assemble (CCMP n m f c) = (if regs [n, m] \<and> f < 16 \<and> c < 16 then Some (encCCMP (int n) (int m) (int f) (int c)) else None)"
| "assemble (LS op t n i) =
     (if regs [t, n] \<and> off_ok (ls_scale op) (int i) then Some (encLS op (int t) (int n) (int i)) else None)"
| "assemble (LDR_lit t i) = (if regs [t] \<and> srange 18 i then Some (encLDRlit (int t) i) else None)"
| "assemble (LDR_D_lit t i) = (if regs [t] \<and> srange 18 i then Some (encLDRDlit (int t) i) else None)"
| "assemble (LDP t u n i) = (if regs [t, u, n] \<and> 8 dvd i \<and> srange 6 (i div 8) then Some (encLDP (int t) (int u) (int n) i) else None)"
| "assemble (STP t u n i) = (if regs [t, u, n] \<and> 8 dvd i \<and> srange 6 (i div 8) then Some (encSTP (int t) (int u) (int n) i) else None)"
| "assemble (B i) = (if srange 25 i then Some (encB i) else None)"
| "assemble (BL i) = (if srange 25 i then Some (encBL i) else None)"
| "assemble (B_cond c i) = (if c < 16 \<and> srange 18 i then Some (encBcond (int c) i) else None)"
| "assemble (CBZ t i) = (if regs [t] \<and> srange 18 i then Some (encCBZ (int t) i) else None)"
| "assemble (CBNZ t i) = (if regs [t] \<and> srange 18 i then Some (encCBNZ (int t) i) else None)"
| "assemble (BR n) = (if regs [n] then Some (encBR (int n)) else None)"
| "assemble (BLR n) = (if regs [n] then Some (encBLR (int n)) else None)"
| "assemble (RET n) = (if n = 30 then Some encRET else None)"
| "assemble (SVC i) = (if i < 2 ^ 16 then Some (encSVC (int i)) else None)"
| "assemble (F3 op d n m) = (if regs [d, n, m] then Some (encF3 op (int d) (int n) (int m)) else None)"
| "assemble (F2 op d n) = (if regs [d, n] then Some (encF2 op (int d) (int n)) else None)"
| "assemble (FCMP n m) = (if regs [n, m] then Some (encFCMPD (int n) (int m)) else None)"
| "assemble (FCMP_0 n) = (if regs [n] then Some (encFCMPDzero (int n)) else None)"

lemma regs_fits: "regs ns \<Longrightarrow> n \<in> set ns \<Longrightarrow> reg (int n)"
  by (auto simp: regs_def list_all_iff fits_def)

lemma dec_enc3: "enc3 op (int d) (int n) (int m) = Some w \<Longrightarrow> reg (int d) \<Longrightarrow> reg (int n) \<Longrightarrow> reg (int m) \<Longrightarrow> decode w = Some (R3 op d n m)"
  by (cases op) (auto simp: dec split: if_splits)

lemma dec_enc2: "reg (int d) \<Longrightarrow> reg (int n) \<Longrightarrow> decode (enc2 op (int d) (int n)) = Some (R2 op d n)"
  by (cases op) (simp_all add: dec)

lemma dec_encLS:
  assumes "reg (int t)" "reg (int n)" "off_ok (ls_scale op) (int i)"
  shows "decode (encLS op (int t) (int n) (int i)) = Some (LS op t n i)"
proof -
  have "off_ok 1 (int i) \<Longrightarrow> fits 12 (int i)" by (simp add: off_ok_def fits_def)
  then show ?thesis using assms by (cases op) (simp_all add: dec)
qed

lemma dec_encF: "reg (int d) \<Longrightarrow> reg (int n) \<Longrightarrow> reg (int m) \<Longrightarrow> decode (encF3 op (int d) (int n) (int m)) = Some (F3 op d n m)"
  "reg (int d) \<Longrightarrow> reg (int n) \<Longrightarrow> decode (encF2 op' (int d) (int n)) = Some (F2 op' d n)"
  by (cases op; simp add: dec) (cases op'; simp add: dec)

lemma imm16_nat: "i < 2 ^ 16 \<Longrightarrow> nat (int i AND 0xFFFF) = i"
  using take_bit_int_eq_self [of "int i" 16] by (simp add: take_bit_eq_mask mask_eq_exp_minus_1)

text \<open>C16: the encoders have the instruction set as their inverse: the word of every instruction whose
  operands fit their fields decodes to that instruction.\<close>
theorem assemble_decode:
  assumes "assemble i = Some w"
  shows "decode w = Some i"
proof (cases i)
  case (CSINC d n m c)
  then have c: "reg (int d)" "n = 31" "m = 31" "c < 16" "w = encCSET (int d) (int c XOR 1)"
    using assms by (auto simp: regs_def fits_def split: if_splits)
  have "(int c XOR 1) XOR 1 = int c" by (simp add: xor.assoc)
  then show ?thesis using dec_CSET [OF c(1) fits_xor, of "int c"] c by (simp add: CSINC fits_def)
next
  case (LDP t u n i')
  then have "reg (int t)" "reg (int u)" "reg (int n)" "8 * (i' div 8) = i'" "srange 6 (i' div 8)" "w = encLDP (int t) (int u) (int n) i'"
    using assms by (auto simp: regs_def fits_def split: if_splits)
  then show ?thesis using dec_LDP [of "int t" "int u" "int n" "i' div 8"] by (simp add: LDP srange_def)
next
  case (STP t u n i')
  then have "reg (int t)" "reg (int u)" "reg (int n)" "8 * (i' div 8) = i'" "srange 6 (i' div 8)" "w = encSTP (int t) (int u) (int n) i'"
    using assms by (auto simp: regs_def fits_def split: if_splits)
  then show ?thesis using dec_STP [of "int t" "int u" "int n" "i' div 8"] by (simp add: STP srange_def)
qed (use assms in \<open>auto simp: dec dec_enc2 dec_encLS dec_encF imm16_nat regs_def fits_def srange_def split: if_splits intro: dec_enc3\<close>)

theorem assemble_decode_witness: "decode (encADDimm 29 31 16) = Some (ADD_i 29 31 16) \<and> decode (encMOVZ 0 42 16) = Some (MOVZ 0 42 1)"
  using assemble_decode [of "ADD_i 29 31 16"] assemble_decode [of "MOVZ 0 42 1"] by (simp add: regs_def)

end
