(* ===== verification/Ast.thy ===== *)
theory Ast
  imports Main "HOL-Library.Monad_Syntax"
begin

section \<open>\<open>ast.go\<close>: types and struct sizes\<close>

text \<open>
  The type kinds of the compiler and the byte size of a struct, as the back end uses them.
  Go's \<open>int\<close> is \<open>int\<close>; \<open>a &^ b\<close> is \<open>a AND NOT b\<close>. A struct definition may name other ones:
  \<open>SizeBytes\<close> and \<open>fieldSizeAlign\<close> call each other through the map of definitions, so the
  model counts the nesting depth down and is \<open>None\<close> when it runs out, which is where the code
  recurses without end; the panic on \<open>TypeTypeof\<close> is \<open>None\<close> too.
\<close>

unbundle bit_operations_syntax

datatype (plugins only: code) TypeKind =
    TypeVoid | TypeInt | TypeIntArray | TypeChar | TypeCharPtr | TypeUnsignedInt | TypeUnsignedChar
  | TypeShort | TypeUnsignedShort | TypeFloat | TypeDouble | TypeStruct | TypeFuncPtr | TypePtr
  | TypeLong | TypeUnsignedLong | TypeTypeof | TypeInt128 | TypeUint128 | TypeLongDouble

definition isFPType :: "TypeKind \<Rightarrow> bool" where
  "isFPType t \<longleftrightarrow> t = TypeFloat \<or> t = TypeDouble \<or> t = TypeLongDouble"

record StructField =
  sfName :: string
  sfType :: TypeKind
  sfStructTag :: string
  sfByteOffset :: int
  sfByteSize :: int
  sfIsBitField :: bool
  sfIsFlexArray :: bool
  sfAlign :: int

record StructDef =
  sdName :: string
  sdFields :: "StructField list"
  sdIsUnion :: bool
  sdIsPacked :: bool

type_synonym structDefs = "string \<Rightarrow> StructDef option"

definition fieldSizeAlign :: "(StructDef \<Rightarrow> int option) \<Rightarrow> structDefs \<Rightarrow> TypeKind \<Rightarrow> string \<Rightarrow> (int \<times> int) option" where
  "fieldSizeAlign size_bytes defs t structTag =
     (if t = TypeChar \<or> t = TypeUnsignedChar then Some (1, 1)
      else if t = TypeShort \<or> t = TypeUnsignedShort then Some (2, 2)
      else if t = TypeInt \<or> t = TypeUnsignedInt \<or> t = TypeFloat then Some (4, 4)
      else if t = TypeStruct then
        (if structTag \<noteq> [] then
           (case defs structTag of
              Some sd \<Rightarrow> do { sz \<leftarrow> size_bytes sd; if 0 < sz then Some (sz, 8) else Some (8, 8) }
            | None \<Rightarrow> Some (8, 8))
         else Some (8, 8))
      else if t = TypeTypeof then None
      else if t = TypeInt128 \<or> t = TypeUint128 then Some (16, 16)
      else Some (8, 8))"

fun sizeLoop :: "(StructDef \<Rightarrow> int option) \<Rightarrow> structDefs \<Rightarrow> StructField list \<Rightarrow> int \<Rightarrow> int \<Rightarrow> (int \<times> int) option" where
  "sizeLoop size_bytes defs [] maxAlign rawEnd = Some (maxAlign, rawEnd)"
| "sizeLoop size_bytes defs (f # fs) maxAlign rawEnd =
     (if sfIsFlexArray f then sizeLoop size_bytes defs fs maxAlign rawEnd
      else if sfIsBitField f then
        sizeLoop size_bytes defs fs (if maxAlign < 8 then 8 else maxAlign)
          (if rawEnd < sfByteOffset f + 8 then sfByteOffset f + 8 else rawEnd)
      else do {
        (fsz, fa) \<leftarrow> fieldSizeAlign size_bytes defs (sfType f) (sfStructTag f);
        let sz = (if 0 < sfByteSize f then sfByteSize f else fsz);
        let a = (if fa < sfAlign f then sfAlign f else fa);
        let end_off = sfByteOffset f + sz;
        sizeLoop size_bytes defs fs (if maxAlign < a then a else maxAlign) (if rawEnd < end_off then end_off else rawEnd)
      })"

fun SizeBytes :: "nat \<Rightarrow> structDefs \<Rightarrow> StructDef \<Rightarrow> int option" where
  "SizeBytes 0 defs sd = None"
| "SizeBytes (Suc k) defs sd =
     (if sdFields sd = [] then Some 0
      else do {
        (maxAlign, rawEnd) \<leftarrow> sizeLoop (SizeBytes k defs) defs (sdFields sd) 1 0;
        if sdIsPacked sd then Some rawEnd
        else Some ((rawEnd + maxAlign - 1) AND NOT (maxAlign - 1))
      })"

end
