(* ===== verification/Ir.thy ===== *)
theory Ir
  imports Ast Ieee754
begin

section \<open>\<open>ir.go\<close>: the three-address intermediate representation\<close>

text \<open>
  The operands, instructions and functions of the IR. The opcodes of \<open>IROpCode\<close> are grouped by the
  way the code generator treats them; every constructor carries the name of the constant.
\<close>

datatype arithop = IRAdd | IRSub | IRMul | IRDiv | IRUDiv | IRBitAnd | IRBitOr | IRBitXor | IRShl | IRShr | IRUShr

datatype cmpop = IRLt | IRLe | IRGt | IRGe | IREq | IRNe | IRULt | IRULe | IRUGt | IRUGe

datatype ctlop = IREnter | IRLabel | IRJump | IRJumpT | IRJumpF | IRLabelAddr | IRIndirectJump
  | IRParam | IRFParam | IRCall | IRFuncPtrCall | IRReturn

datatype memop = IRLoad | IRStore | IRCharLoad | IRCharStore | IRDerefLoad | IRDerefStore | IRFDerefLoad | IRFDerefStore
  | IRDerefCharLoad | IRDerefCharStore | IRFieldLoad | IRFieldStore | IRFFieldLoad | IRFFieldStore | IRStructCopy

datatype addrop = IRGetAddr | IRAddrOf | IRFrameAddr | IRStrAddr | IRFuncAddr | IRVLAAlloc | IRAllocaAlloc

datatype intop = IRCopy | IRMod | IRUMod | IRBitNot | IRSignExtend | IRZeroExtend | IRCLZ | IRCTZ | IRPopcount | IRFfs
  | IRBswap | IRAddOverflow | IRSubOverflow | IRMulOverflow

datatype fpop = IRFAdd | IRFSub | IRFMul | IRFDiv | IRFNeg | IRFCopy | IRFLt | IRFLe | IRFGt | IRFGe | IRFEq | IRFNe
  | IRIntToDouble | IRDoubleToInt | IRFBitcastFI | IRFBitcastIF | IRFIsNaN | IRFIsInf | IRFCopySign

datatype (plugins only: code) op128 =
    IR128Add | IR128Sub | IR128Mul | IR128And | IR128Or | IR128Xor | IR128Neg
  | IR128Shl | IR128LShr | IR128AShr | IR128Eq | IR128Ne | IR128ULt | IR128ULe | IR128UGt | IR128UGe
  | IR128SLt | IR128SLe | IR128SGt | IR128SGe | IR128Copy | IR128FromI64 | IR128FromU64 | IR64From128

datatype IROpCode = OpArith arithop | OpCmp cmpop | OpCtl ctlop | OpMem memop | OpAdr addrop | OpInt intop | OpFp fpop | Op128 op128

datatype AddrKind = AddrNone | AddrConst | AddrTemp | AddrLocal | AddrGlobal | AddrFConst

record IRAddr =
  aKind :: AddrKind
  aIVal :: int
  aFVal :: double
  aName :: string

record Quad =
  qOp :: IROpCode
  qDst :: IRAddr
  qSrc1 :: IRAddr
  qSrc2 :: IRAddr
  qExtra :: string
  qTypeHint :: TypeKind
  qStructTag :: string

record IRGlobal =
  glName :: string
  glIsPtr :: bool

record IRLocal =
  loName :: string
  loIsArray :: bool
  loIsPtr :: bool
  loIsStruct :: bool
  loIsVLA :: bool
  loIsLongDouble :: bool
  loStructTag :: string
  loArrSize :: int
  loElemType :: TypeKind
  loAlign :: int

record IRFunc =
  fnName :: string
  fnReturnType :: TypeKind
  fnReturnStructTag :: string
  fnParams :: "string list"
  fnParamType :: "TypeKind list"
  fnParamStructTag :: "string list"
  fnIsVariadic :: bool
  fnHasVLA :: bool
  fnLocals :: "IRLocal list"
  fnQuads :: "Quad list"

record IRStrLit =
  slLabel :: string
  slContent :: string

record IRFConst =
  fcLabel :: string
  fcValue :: double

end
