(* ===== verification/Frame.thy ===== *)
theory Frame
  imports Ir
begin

section \<open>\<open>arm64.go\<close>: the stack frame\<close>

text \<open>
  \<open>buildFrame\<close> gives every parameter, local variable and temporary of a function its place in the
  stack frame. \<open>struct_size\<close> is \<open>SizeBytes\<close> of the definition with the given tag, \<open>None\<close> when
  there is none. The loops run over the parameters with their indices, the locals and the
  operands of the quads, in that order.
\<close>

record frame =
  frOffsets :: "string \<Rightarrow> int option"
  frIsArrPtr :: "string \<Rightarrow> bool"
  frIsArrBase :: "string \<Rightarrow> bool"
  frIsPtrVar :: "string \<Rightarrow> bool"
  frHasVLA :: bool
  frFrameSize :: int

record fbuild =
  fbFrame :: frame
  fbOffset :: int

definition fr_off :: "frame \<Rightarrow> string \<Rightarrow> int" where
  "fr_off f x = (case frOffsets f x of Some o' \<Rightarrow> o' | None \<Rightarrow> 0)"

definition place_at :: "string \<Rightarrow> int \<Rightarrow> fbuild \<Rightarrow> fbuild" where
  "place_at name sz b =
     b\<lparr>fbFrame := (fbFrame b)\<lparr>frOffsets := (frOffsets (fbFrame b))(name \<mapsto> fbOffset b)\<rparr>, fbOffset := fbOffset b + sz\<rparr>"

definition mark_arr_ptr :: "string \<Rightarrow> fbuild \<Rightarrow> fbuild" where
  "mark_arr_ptr name b = b\<lparr>fbFrame := (fbFrame b)\<lparr>frIsArrPtr := (frIsArrPtr (fbFrame b))(name := True)\<rparr>\<rparr>"

definition mark_arr_base :: "string \<Rightarrow> fbuild \<Rightarrow> fbuild" where
  "mark_arr_base name b = b\<lparr>fbFrame := (fbFrame b)\<lparr>frIsArrBase := (frIsArrBase (fbFrame b))(name := True)\<rparr>\<rparr>"

definition mark_ptr_var :: "string \<Rightarrow> fbuild \<Rightarrow> fbuild" where
  "mark_ptr_var name b = b\<lparr>fbFrame := (fbFrame b)\<lparr>frIsPtrVar := (frIsPtrVar (fbFrame b))(name := True)\<rparr>\<rparr>"

definition frame_param :: "TypeKind option \<Rightarrow> string \<Rightarrow> fbuild \<Rightarrow> fbuild" where
  "frame_param t name b =
     (if t = Some TypeStruct then b
      else place_at name 8
        (if t = Some TypeIntArray then mark_arr_ptr name b
         else if t = Some TypePtr \<or> t = Some TypeCharPtr then mark_ptr_var name b else b))"

fun frame_params :: "string list \<Rightarrow> TypeKind list \<Rightarrow> fbuild \<Rightarrow> fbuild" where
  "frame_params [] ts b = b"
| "frame_params (n # ns) [] b = frame_params ns [] (frame_param None n b)"
| "frame_params (n # ns) (t # ts) b = frame_params ns ts (frame_param (Some t) n b)"

definition align_up :: "int \<Rightarrow> int \<Rightarrow> int" where
  "align_up x a = (x + a - 1) AND NOT (a - 1)"

definition frame_local :: "(string \<Rightarrow> int option) \<Rightarrow> IRLocal \<Rightarrow> fbuild \<Rightarrow> fbuild" where
  "frame_local struct_size loc b =
     (let b = (if 0 < loAlign loc then b\<lparr>fbOffset := align_up (fbOffset b) (loAlign loc)\<rparr> else b);
          name = loName loc
      in if loIsVLA loc then place_at name 8 (mark_arr_ptr name b)
         else if loIsArray loc then
           (if loElemType loc = TypeChar \<or> loElemType loc = TypeUnsignedChar
            then place_at name (align_up (loArrSize loc) 8) (mark_arr_base name b)
            else place_at name (loArrSize loc * 8) (mark_arr_base name b))
         else if loIsStruct loc then
           (case struct_size (loStructTag loc) of
              Some sz \<Rightarrow> place_at name (align_up sz 8) (mark_arr_base name b)
            | None \<Rightarrow> place_at name (loArrSize loc * 8) (mark_arr_base name b))
         else if loIsLongDouble loc then place_at name 16 b
         else if loIsPtr loc then place_at name 8 (mark_ptr_var name b)
         else place_at name 8 b)"

definition frame_name :: "string \<Rightarrow> fbuild \<Rightarrow> fbuild" where
  "frame_name name b = (if frOffsets (fbFrame b) name = None then place_at name 8 b else b)"

definition frame_addr :: "IRAddr \<Rightarrow> fbuild \<Rightarrow> fbuild" where
  "frame_addr a b = (if aKind a = AddrTemp then frame_name (aName a) b else b)"

definition is_overflow :: "IROpCode \<Rightarrow> bool" where
  "is_overflow q \<longleftrightarrow> q = OpInt IRAddOverflow \<or> q = OpInt IRSubOverflow \<or> q = OpInt IRMulOverflow"

definition frame_quad :: "Quad \<Rightarrow> fbuild \<Rightarrow> fbuild" where
  "frame_quad q b =
     (let b = frame_addr (qSrc2 q) (frame_addr (qSrc1 q) (frame_addr (qDst q) b))
      in if is_overflow (qOp q) \<and> qExtra q \<noteq> [] then frame_name (qExtra q) b else b)"

definition buildFrame :: "(string \<Rightarrow> int option) \<Rightarrow> IRFunc \<Rightarrow> frame" where
  "buildFrame struct_size fn =
     (let b0 = \<lparr>fbFrame = \<lparr>frOffsets = Map.empty, frIsArrPtr = (\<lambda>_. False), frIsArrBase = (\<lambda>_. False),
                           frIsPtrVar = (\<lambda>_. False), frHasVLA = fnHasVLA fn, frFrameSize = 0\<rparr>, fbOffset = 16\<rparr>;
          b1 = frame_params (fnParams fn) (fnParamType fn) b0;
          b2 = (if fnIsVariadic fn \<and> fbOffset b1 < 80 then b1\<lparr>fbOffset := 80\<rparr> else b1);
          b3 = fold (frame_local struct_size) (fnLocals fn) b2;
          b4 = fold frame_quad (fnQuads fn) b3;
          off = (if fbOffset b4 mod 16 \<noteq> 0 then fbOffset b4 + (16 - fbOffset b4 mod 16) else fbOffset b4)
      in (fbFrame b4)\<lparr>frFrameSize := off\<rparr>)"

end
