(* ===== verification/FrameProps.thy ===== *)
theory FrameProps
  imports Frame
begin

section \<open>Struct sizes and stack frames: properties\<close>

text \<open>
  The places that \<open>buildFrame\<close> gives to the variables of a function, and the recursion of
  \<open>SizeBytes\<close> through the struct definitions.
\<close>

subsection \<open>Rounding\<close>

lemma and_not_mask: "(x :: int) AND NOT (2 ^ k - 1) = 2 ^ k * (x div 2 ^ k)"
proof -
  have "x AND NOT (mask k) = push_bit k (drop_bit k x)" by (rule bit_eqI) (auto simp: bit_simps)
  then show ?thesis by (simp add: mask_eq_exp_minus_1 push_bit_eq_mult drop_bit_eq_div mult.commute)
qed

lemma align_up_pow:
  fixes x :: int
  shows "2 ^ k dvd align_up x (2 ^ k)" "x \<le> align_up x (2 ^ k)" "align_up x (2 ^ k) < x + 2 ^ k" "2 ^ k dvd x \<Longrightarrow> align_up x (2 ^ k) = x"
proof -
  let ?a = "2 ^ k :: int"
  have e: "align_up x ?a = ?a * ((x + ?a - 1) div ?a)" by (simp add: align_up_def and_not_mask)
  have m: "?a * ((x + ?a - 1) div ?a) = x + ?a - 1 - (x + ?a - 1) mod ?a" by (simp add: minus_mod_eq_mult_div)
  have b: "0 \<le> (x + ?a - 1) mod ?a" "(x + ?a - 1) mod ?a < ?a" by simp_all
  show "?a dvd align_up x ?a" "x \<le> align_up x ?a" "align_up x ?a < x + ?a" using b m unfolding e by (simp, linarith, linarith)
  show "?a dvd x \<Longrightarrow> align_up x ?a = x"
  proof -
    assume "?a dvd x"
    then obtain c where "x = ?a * c" by auto
    moreover have "(?a * c + ?a - 1) div ?a = c"
    proof -
      have "?a * c + ?a - 1 = (?a - 1) + c * ?a" by simp
      then show ?thesis by (simp only: div_mult_self1) (simp add: div_pos_pos_trivial)
    qed
    ultimately show ?thesis using e by simp
  qed
qed

lemma align_up_8: "(8 :: int) dvd align_up x 8" "x \<le> align_up x 8"
  using align_up_pow(1,2) [where k = 3 and x = x] by simp_all

lemma align_up_dvd8: "(8 :: int) dvd x \<Longrightarrow> 8 dvd align_up x (2 ^ k)"
proof (cases "3 \<le> k")
  case True
  then have "(2 :: int) ^ 3 dvd 2 ^ k" by (rule le_imp_power_dvd)
  then show ?thesis using align_up_pow(1) [where k = k and x = x] by (auto intro: dvd_trans)
next
  case False
  assume x: "8 dvd x"
  have "(2 :: int) ^ k dvd 2 ^ 3" using False by (intro le_imp_power_dvd) simp
  then have "2 ^ k dvd x" using x by (auto intro: dvd_trans)
  then show ?thesis using align_up_pow(4) [where k = k and x = x] x by simp
qed

subsection \<open>The frame\<close>

definition local_size :: "(string \<Rightarrow> int option) \<Rightarrow> IRLocal \<Rightarrow> int" where
  "local_size ss l =
     (if loIsVLA l then 8
      else if loIsArray l then (if loElemType l = TypeChar \<or> loElemType l = TypeUnsignedChar then align_up (loArrSize l) 8 else loArrSize l * 8)
      else if loIsStruct l then (case ss (loStructTag l) of Some sz \<Rightarrow> align_up sz 8 | None \<Rightarrow> loArrSize l * 8)
      else if loIsLongDouble l then 16 else 8)"

text \<open>The bytes that the variable of the name needs; temporaries need one word.\<close>

definition slot_size :: "(string \<Rightarrow> int option) \<Rightarrow> IRFunc \<Rightarrow> string \<Rightarrow> int" where
  "slot_size ss fn n = (case find (\<lambda>l. loName l = n) (fnLocals fn) of Some l \<Rightarrow> local_size ss l | None \<Rightarrow> 8)"

definition local_ok :: "(string \<Rightarrow> int option) \<Rightarrow> IRLocal \<Rightarrow> bool" where
  "local_ok ss l \<longleftrightarrow> 0 \<le> loArrSize l \<and> (case ss (loStructTag l) of Some sz \<Rightarrow> 0 \<le> sz | None \<Rightarrow> True)
     \<and> (loAlign l \<le> 0 \<or> loAlign l \<in> (\<lambda>k. 2 ^ k) ` {..<63})"

text \<open>The parameters that get a slot of their own.\<close>

fun scalar_params :: "string list \<Rightarrow> TypeKind list \<Rightarrow> string list" where
  "scalar_params [] ts = []"
| "scalar_params (n # ns) [] = n # scalar_params ns []"
| "scalar_params (n # ns) (t # ts) = (if t = TypeStruct then scalar_params ns ts else n # scalar_params ns ts)"

definition names_ok :: "(string \<Rightarrow> int option) \<Rightarrow> IRFunc \<Rightarrow> bool" where
  "names_ok ss fn \<longleftrightarrow> list_all (local_ok ss) (fnLocals fn) \<and> distinct (map loName (fnLocals fn))
     \<and> set (scalar_params (fnParams fn) (fnParamType fn)) \<inter> loName ` set (fnLocals fn) = {}"

definition slots_ok :: "(string \<Rightarrow> int) \<Rightarrow> (string \<Rightarrow> int option) \<Rightarrow> int \<Rightarrow> bool" where
  "slots_ok sz offs top_off \<longleftrightarrow> (\<forall>n o'. offs n = Some o' \<longrightarrow> 16 \<le> o' \<and> 8 dvd o' \<and> o' + sz n \<le> top_off)
     \<and> (\<forall>n n' o' o''. offs n = Some o' \<and> offs n' = Some o'' \<and> n \<noteq> n' \<longrightarrow> o' + sz n \<le> o'' \<or> o'' + sz n' \<le> o')"

definition build_ok :: "(string \<Rightarrow> int) \<Rightarrow> fbuild \<Rightarrow> bool" where
  "build_ok sz b \<longleftrightarrow> 16 \<le> fbOffset b \<and> 8 dvd fbOffset b \<and> slots_ok sz (frOffsets (fbFrame b)) (fbOffset b)"

lemma slots_mono: "slots_ok sz offs t \<Longrightarrow> t \<le> t' \<Longrightarrow> slots_ok sz offs t'"
  unfolding slots_ok_def by (meson order_trans)

lemma build_place:
  assumes b: "build_ok sz b" and k: "sz n \<le> k" "0 \<le> k" "8 dvd k"
  shows "build_ok sz (place_at n k b)"
proof -
  have s: "16 \<le> fbOffset b" "8 dvd fbOffset b"
    "\<And>n o'. frOffsets (fbFrame b) n = Some o' \<Longrightarrow> 16 \<le> o' \<and> 8 dvd o' \<and> o' + sz n \<le> fbOffset b"
    "\<And>n n' o' o''. frOffsets (fbFrame b) n = Some o' \<Longrightarrow> frOffsets (fbFrame b) n' = Some o'' \<Longrightarrow> n \<noteq> n' \<Longrightarrow> o' + sz n \<le> o'' \<or> o'' + sz n' \<le> o'"
    using b unfolding build_ok_def slots_ok_def by blast+
  let ?f = "(frOffsets (fbFrame b))(n \<mapsto> fbOffset b)"
  have "slots_ok sz ?f (fbOffset b + k)" unfolding slots_ok_def
  proof (intro conjI allI impI)
    fix m o' assume "?f m = Some o'"
    then show "16 \<le> o'" "8 dvd o'" "o' + sz m \<le> fbOffset b + k" using s(1,2) s(3) [of m o'] k by (auto split: if_splits)
  next
    fix m m' o' o'' assume "?f m = Some o' \<and> ?f m' = Some o'' \<and> m \<noteq> m'"
    then show "o' + sz m \<le> o'' \<or> o'' + sz m' \<le> o'" using s(3) [of m] s(3) [of m'] s(4) [of m o' m' o''] by (auto split: if_splits)
  qed
  then show ?thesis using s(1,2) k by (simp add: build_ok_def place_at_def)
qed

lemma build_mark [simp]: "build_ok sz (mark_arr_ptr n b) = build_ok sz b" "build_ok sz (mark_arr_base n b) = build_ok sz b" "build_ok sz (mark_ptr_var n b) = build_ok sz b"
  by (simp_all add: build_ok_def mark_arr_ptr_def mark_arr_base_def mark_ptr_var_def)

lemma build_raise: "build_ok sz b \<Longrightarrow> fbOffset b \<le> t \<Longrightarrow> 8 dvd t \<Longrightarrow> build_ok sz (b\<lparr>fbOffset := t\<rparr>)"
  by (auto simp: build_ok_def intro: slots_mono)

lemma build_params:
  "build_ok sz b \<Longrightarrow> \<forall>n \<in> set (scalar_params ns ts). sz n = 8 \<Longrightarrow> build_ok sz (frame_params ns ts b)"
proof (induction ns ts b rule: frame_params.induct)
  case (2 n ns b)
  then show ?case by (simp add: frame_param_def build_place)
next
  case (3 n ns t ts b)
  then show ?case by (auto simp: frame_param_def build_place split: if_splits)
qed simp

lemma build_local:
  assumes b: "build_ok sz b" and l: "local_ok ss l" "sz (loName l) = local_size ss l"
  shows "build_ok sz (frame_local ss l b)"
proof -
  let ?b = "if 0 < loAlign l then b\<lparr>fbOffset := align_up (fbOffset b) (loAlign l)\<rparr> else b"
  have ok: "build_ok sz ?b"
  proof (cases "0 < loAlign l")
    case True
    then obtain k where k: "loAlign l = 2 ^ k" using l(1) by (auto simp: local_ok_def)
    have "8 dvd fbOffset b" using b by (simp add: build_ok_def)
    then show ?thesis using True build_raise [OF b align_up_pow(2) [where k = k] align_up_dvd8] by (simp add: k)
  qed (use b in simp)
  have sz: "0 \<le> local_size ss l" "8 dvd local_size ss l"
    using l(1) align_up_8 [of "loArrSize l"] align_up_8 [of "the (ss (loStructTag l))"]
    by (auto simp: local_size_def local_ok_def split: option.splits)
  have "frame_local ss l b = place_at (loName l) (local_size ss l)
      (if loIsVLA l then mark_arr_ptr (loName l) ?b
       else if loIsArray l \<or> loIsStruct l then mark_arr_base (loName l) ?b
       else if loIsLongDouble l then ?b else if loIsPtr l then mark_ptr_var (loName l) ?b else ?b)"
    by (simp add: frame_local_def local_size_def Let_def split: option.splits)
  then show ?thesis using build_place [of sz _ "loName l" "local_size ss l"] ok sz l(2) by (auto split: if_splits)
qed

lemma build_locals: "build_ok sz b \<Longrightarrow> \<forall>l \<in> set ls. local_ok ss l \<and> sz (loName l) = local_size ss l \<Longrightarrow> build_ok sz (fold (frame_local ss) ls b)"
  by (induction ls arbitrary: b) (auto intro: build_local)

lemma round_16: "(16 :: int) dvd (if x mod 16 \<noteq> 0 then x + (16 - x mod 16) else x)"
  by presburger

text \<open>Names that have a place keep it; the quads only add places for new names.\<close>

lemma frame_name_dom [simp]: "dom (frOffsets (fbFrame (frame_name n b))) = insert n (dom (frOffsets (fbFrame b)))"
  by (auto simp: frame_name_def place_at_def)

lemma frame_local_dom [simp]: "dom (frOffsets (fbFrame (frame_local ss l b))) = insert (loName l) (dom (frOffsets (fbFrame b)))"
  by (auto simp: frame_local_def place_at_def mark_arr_ptr_def mark_arr_base_def mark_ptr_var_def Let_def split: option.splits if_splits)

lemma frame_params_dom: "dom (frOffsets (fbFrame (frame_params ns ts b))) = set (scalar_params ns ts) \<union> dom (frOffsets (fbFrame b))"
  by (induction ns ts b rule: frame_params.induct)
    (auto simp: frame_param_def place_at_def mark_arr_ptr_def mark_ptr_var_def split: if_splits)

lemma frame_locals_dom: "dom (frOffsets (fbFrame (fold (frame_local ss) ls b))) = loName ` set ls \<union> dom (frOffsets (fbFrame b))"
  by (induction ls arbitrary: b) auto

definition addr_names :: "IRAddr \<Rightarrow> string set" where
  "addr_names a = (if aKind a = AddrTemp then {aName a} else {})"

definition quad_names :: "Quad \<Rightarrow> string set" where
  "quad_names q = addr_names (qDst q) \<union> addr_names (qSrc1 q) \<union> addr_names (qSrc2 q)
     \<union> (if is_overflow (qOp q) \<and> qExtra q \<noteq> [] then {qExtra q} else {})"

lemma frame_quad_dom: "dom (frOffsets (fbFrame (frame_quad q b))) = quad_names q \<union> dom (frOffsets (fbFrame b))"
  by (auto simp: frame_quad_def frame_addr_def quad_names_def addr_names_def Let_def simp del: dom_def)

lemma frame_quads_dom: "dom (frOffsets (fbFrame (fold frame_quad qs b))) = (\<Union>q \<in> set qs. quad_names q) \<union> dom (frOffsets (fbFrame b))"
  by (induction qs arbitrary: b) (auto simp: frame_quad_dom)

definition temps_ok :: "(string \<Rightarrow> int) \<Rightarrow> fbuild \<Rightarrow> bool" where
  "temps_ok sz b \<longleftrightarrow> build_ok sz b \<and> (\<forall>n. n \<notin> dom (frOffsets (fbFrame b)) \<longrightarrow> sz n = 8)"

lemma temps_name: "temps_ok sz b \<Longrightarrow> temps_ok sz (frame_name m b)"
  unfolding temps_ok_def by (elim conjE, intro conjI) (auto simp: frame_name_def domIff intro!: build_place, auto simp: place_at_def split: if_splits)

lemma temps_quads: "temps_ok sz b \<Longrightarrow> temps_ok sz (fold frame_quad qs b)"
  by (induction qs arbitrary: b) (simp_all add: frame_quad_def frame_addr_def Let_def temps_name)

lemma slot_size_local:
  assumes "distinct (map loName (fnLocals fn))" "l \<in> set (fnLocals fn)"
  shows "slot_size ss fn (loName l) = local_size ss l"
proof -
  have "find (\<lambda>l'. loName l' = loName l) ls = Some l" if "distinct (map loName ls)" "l \<in> set ls" for ls
    using that by (induction ls) (auto simp: rev_image_eqI)
  then show ?thesis using assms by (simp add: slot_size_def)
qed

lemma slot_size_other: "n \<notin> loName ` set (fnLocals fn) \<Longrightarrow> slot_size ss fn n = 8"
  by (auto simp: slot_size_def find_None_iff split: option.splits dest!: find_Some_iff [THEN iffD1])

text \<open>C14: in the frame that \<open>buildFrame\<close> lays out, every parameter passed in a register, every local
  variable and every temporary has a place; the places lie behind the 16 bytes that hold the saved
  frame pointer and link register, start at multiples of 8, end inside the frame and do not overlap,
  and the frame size is a multiple of 16, so that the stack pointer stays aligned.\<close>
theorem buildFrame_slots:
  assumes ok: "names_ok ss fn"
  shows "slots_ok (slot_size ss fn) (frOffsets (buildFrame ss fn)) (frFrameSize (buildFrame ss fn))
    \<and> 16 dvd frFrameSize (buildFrame ss fn)
    \<and> dom (frOffsets (buildFrame ss fn)) =
        set (scalar_params (fnParams fn) (fnParamType fn)) \<union> loName ` set (fnLocals fn) \<union> (\<Union>q \<in> set (fnQuads fn). quad_names q)"
proof -
  let ?sz = "slot_size ss fn"
  define b0 where "b0 = \<lparr>fbFrame = \<lparr>frOffsets = Map.empty, frIsArrPtr = (\<lambda>_. False), frIsArrBase = (\<lambda>_. False),
     frIsPtrVar = (\<lambda>_. False), frHasVLA = fnHasVLA fn, frFrameSize = 0\<rparr>, fbOffset = 16\<rparr>"
  define b1 where "b1 = frame_params (fnParams fn) (fnParamType fn) b0"
  define b2 where "b2 = (if fnIsVariadic fn \<and> fbOffset b1 < 80 then b1\<lparr>fbOffset := 80\<rparr> else b1)"
  define b3 where "b3 = fold (frame_local ss) (fnLocals fn) b2"
  define b4 where "b4 = fold frame_quad (fnQuads fn) b3"
  define sz where "sz = (if fbOffset b4 mod 16 \<noteq> 0 then fbOffset b4 + (16 - fbOffset b4 mod 16) else fbOffset b4)"
  have F: "buildFrame ss fn = (fbFrame b4)\<lparr>frFrameSize := sz\<rparr>"
    by (simp add: buildFrame_def Let_def b0_def b1_def b2_def b3_def b4_def sz_def)
  have d: "distinct (map loName (fnLocals fn))" and l: "\<forall>l \<in> set (fnLocals fn). local_ok ss l"
    and p: "set (scalar_params (fnParams fn) (fnParamType fn)) \<inter> loName ` set (fnLocals fn) = {}"
    using ok by (auto simp: names_ok_def list_all_iff)
  have "build_ok ?sz b0" by (simp add: b0_def build_ok_def slots_ok_def)
  then have "build_ok ?sz b1" unfolding b1_def using p by (intro build_params) (auto intro!: slot_size_other)
  then have "build_ok ?sz b2" unfolding b2_def using build_raise [of ?sz b1 80] by simp
  then have b3: "build_ok ?sz b3" unfolding b3_def using l slot_size_local [OF d] by (intro build_locals) auto
  have dom3: "dom (frOffsets (fbFrame b3)) = set (scalar_params (fnParams fn) (fnParamType fn)) \<union> loName ` set (fnLocals fn)"
    unfolding b3_def frame_locals_dom by (simp add: b2_def b1_def frame_params_dom) (simp add: b0_def Un_commute)
  then have "\<forall>n. n \<notin> dom (frOffsets (fbFrame b3)) \<longrightarrow> ?sz n = 8" by (auto intro: slot_size_other)
  with b3 have "temps_ok ?sz b3" by (simp add: temps_ok_def)
  from temps_quads [OF this] have b4: "build_ok ?sz b4" by (simp add: b4_def temps_ok_def)
  have dom4: "dom (frOffsets (fbFrame b4)) = (\<Union>q \<in> set (fnQuads fn). quad_names q) \<union> dom (frOffsets (fbFrame b3))"
    unfolding b4_def by (rule frame_quads_dom)
  have m: "0 \<le> fbOffset b4 mod 16" "fbOffset b4 mod 16 < 16" by simp_all
  then have "fbOffset b4 \<le> sz" unfolding sz_def by (simp only: split: if_split) linarith
  then have "slots_ok ?sz (frOffsets (fbFrame b4)) sz" using b4 slots_mono unfolding build_ok_def by blast
  moreover have "16 dvd sz" unfolding sz_def by (rule round_16)
  ultimately show ?thesis using dom3 dom4 by (simp add: F Un_ac)
qed

definition demo_local :: "string \<Rightarrow> int \<Rightarrow> IRLocal" where
  "demo_local n k = \<lparr>loName = n, loIsArray = 0 < k, loIsPtr = False, loIsStruct = False, loIsVLA = False, loIsLongDouble = False,
     loStructTag = [], loArrSize = k, loElemType = TypeChar, loAlign = 16\<rparr>"

definition demo_temp :: "string \<Rightarrow> IRAddr" where
  "demo_temp n = \<lparr>aKind = AddrTemp, aIVal = 0, aFVal = 0, aName = n\<rparr>"

definition frame_demo :: IRFunc where
  "frame_demo = \<lparr>fnName = ''f'', fnReturnType = TypeInt, fnReturnStructTag = [], fnParams = [''a'', ''s''],
     fnParamType = [TypeInt, TypeStruct], fnParamStructTag = [[], ''S''], fnIsVariadic = False, fnHasVLA = False,
     fnLocals = [demo_local ''s'' 0, demo_local ''buf'' 13],
     fnQuads = [\<lparr>qOp = OpInt IRAddOverflow, qDst = demo_temp ''#t0'', qSrc1 = demo_temp ''#t0'', qSrc2 = demo_temp ''#t1'',
       qExtra = ''#ov'', qTypeHint = TypeInt, qStructTag = []\<rparr>]\<rparr>"

theorem buildFrame_slots_witness:
  "slots_ok (slot_size (\<lambda>_. None) frame_demo) (frOffsets (buildFrame (\<lambda>_. None) frame_demo)) 96
   \<and> map (fr_off (buildFrame (\<lambda>_. None) frame_demo)) [''a'', ''s'', ''buf'', ''#t0'', ''#t1'', ''#ov''] = [16, 32, 48, 64, 72, 80]"
proof -
  have "names_ok (\<lambda>_. None) frame_demo" by (simp add: names_ok_def frame_demo_def local_ok_def demo_local_def image_iff) (rule bexI [of _ 4], simp_all)
  moreover have "frFrameSize (buildFrame (\<lambda>_. None) frame_demo) = 96" by code_simp
  moreover have "map (fr_off (buildFrame (\<lambda>_. None) frame_demo)) [''a'', ''s'', ''buf'', ''#t0'', ''#t1'', ''#ov''] = [16, 32, 48, 64, 72, 80]"
    by code_simp
  ultimately show ?thesis using buildFrame_slots [of "\<lambda>_. None" frame_demo] by simp
qed

subsection \<open>Sizes of structs\<close>

text \<open>A rank that decreases from a struct to the structs of its fields.\<close>

definition ranked :: "structDefs \<Rightarrow> (string \<Rightarrow> nat) \<Rightarrow> bool" where
  "ranked defs rank \<longleftrightarrow> (\<forall>tag sd f. defs tag = Some sd \<longrightarrow> f \<in> set (sdFields sd) \<longrightarrow>
     sfType f \<noteq> TypeTypeof \<and> (sfType f = TypeStruct \<and> defs (sfStructTag f) \<noteq> None \<longrightarrow> rank (sfStructTag f) < rank tag))"

lemma sizeLoop_total:
  assumes "\<forall>f \<in> set fs. sfType f \<noteq> TypeTypeof \<and>
    (sfType f = TypeStruct \<longrightarrow> (\<forall>sd. defs (sfStructTag f) = Some sd \<longrightarrow> (\<exists>y. sb sd = Some y \<and> sb' sd = Some y)))"
  shows "\<exists>r. sizeLoop sb defs fs a e = Some r \<and> sizeLoop sb' defs fs a e = Some r"
  using assms
proof (induction fs arbitrary: a e)
  case (Cons f fs)
  have "\<exists>p. fieldSizeAlign sb defs (sfType f) (sfStructTag f) = Some p \<and> fieldSizeAlign sb' defs (sfType f) (sfStructTag f) = Some p"
    using Cons.prems by (cases "defs (sfStructTag f)") (auto simp: fieldSizeAlign_def)
  then show ?case using Cons by (auto simp: Let_def)
qed simp

text \<open>C18: when no struct contains itself and no type is left as a typeof, the recursion of \<open>SizeBytes\<close>
  and \<open>fieldSizeAlign\<close> ends: a fuel above the rank of the struct gives a size, and every such fuel
  the same one.\<close>
theorem SizeBytes_terminates:
  assumes "ranked defs rank" "defs tag = Some sd" "rank tag < k" "rank tag < k'"
  shows "\<exists>sz. SizeBytes k defs sd = Some sz \<and> SizeBytes k' defs sd = Some sz"
  using assms(2-)
proof (induction "rank tag" arbitrary: tag sd k k' rule: less_induct)
  case less
  obtain j j' where j: "k = Suc j" "k' = Suc j'" using less.prems by (cases k; cases k') auto
  have "\<exists>r. sizeLoop (SizeBytes j defs) defs (sdFields sd) 1 0 = Some r \<and> sizeLoop (SizeBytes j' defs) defs (sdFields sd) 1 0 = Some r"
  proof (rule sizeLoop_total, intro ballI conjI impI allI)
    fix f assume f: "f \<in> set (sdFields sd)"
    show "sfType f \<noteq> TypeTypeof" using assms(1) less.prems(1) f by (auto simp: ranked_def)
    fix sd' assume s: "sfType f = TypeStruct" "defs (sfStructTag f) = Some sd'"
    then have r: "rank (sfStructTag f) < rank tag" using assms(1) less.prems(1) f unfolding ranked_def by blast
    show "\<exists>y. SizeBytes j defs sd' = Some y \<and> SizeBytes j' defs sd' = Some y"
      using r less.prems j by (intro less.hyps [OF r s(2)]) auto
  qed
  then show ?case by (auto simp: j)
qed

definition demo_field :: "TypeKind \<Rightarrow> string \<Rightarrow> int \<Rightarrow> StructField" where
  "demo_field t tag off = \<lparr>sfName = [], sfType = t, sfStructTag = tag, sfByteOffset = off, sfByteSize = 0, sfIsBitField = False, sfIsFlexArray = False, sfAlign = 0\<rparr>"

definition demo_defs :: structDefs where
  "demo_defs = [''P'' \<mapsto> \<lparr>sdName = ''P'', sdFields = [demo_field TypeInt [] 0, demo_field TypeChar [] 4], sdIsUnion = False, sdIsPacked = False\<rparr>,
     ''Q'' \<mapsto> \<lparr>sdName = ''Q'', sdFields = [demo_field TypeChar [] 0, demo_field TypeStruct ''P'' 8], sdIsUnion = False, sdIsPacked = False\<rparr>]"

theorem SizeBytes_terminates_witness: "SizeBytes 9 demo_defs (the (demo_defs ''Q'')) = Some 16"
proof -
  have "ranked demo_defs (\<lambda>t. if t = ''Q'' then 1 else 0)" by (auto simp: ranked_def demo_defs_def demo_field_def split: if_splits)
  from SizeBytes_terminates [OF this, of "''Q''" "the (demo_defs ''Q'')" 2 9]
  have "SizeBytes 9 demo_defs (the (demo_defs ''Q'')) = SizeBytes 2 demo_defs (the (demo_defs ''Q''))" by (auto simp: demo_defs_def)
  also have "\<dots> = Some 16" by code_simp
  finally show ?thesis .
qed

end
