(* ===== verification/Arm64Exec.thy ===== *)
theory Arm64Exec
  imports Arm64Dec Ieee754
begin

section \<open>An A64 machine\<close>

text \<open>
  The behaviour of the instructions of \<open>Arm64Dec\<close> on a machine with the general registers, the
  stack pointer, the vector registers (low and high half), the condition flags, a byte memory
  and the program counter. The text segment is read only and separate from the data memory, as
  the linker maps it (\<open>PF_R | PF_X\<close>): \<open>txt_words\<close> holds its words, \<open>txt_base\<close> the address of
  the first. A system call is the parameter \<open>txt_svc\<close>. An instruction the model does not execute
  gives \<open>None\<close>.
\<close>

type_synonym mem = "64 word \<Rightarrow> 8 word"

record arm =
  aX :: "nat \<Rightarrow> 64 word"
  aSP :: "64 word"
  aD :: "nat \<Rightarrow> 64 word"
  aDH :: "nat \<Rightarrow> 64 word"
  fN :: bool
  fZ :: bool
  fC :: bool
  fV :: bool
  aM :: mem
  aPC :: "64 word"

record seg =
  txt_base :: "64 word"
  txt_words :: "32 word list"
  txt_svc :: "arm \<Rightarrow> arm option"

subsection \<open>Memory\<close>

fun ldb :: "nat \<Rightarrow> mem \<Rightarrow> 64 word \<Rightarrow> 64 word" where
  "ldb 0 m a = 0"
| "ldb (Suc k) m a = ucast (m a) OR push_bit 8 (ldb k m (a + 1))"

fun stb :: "nat \<Rightarrow> mem \<Rightarrow> 64 word \<Rightarrow> 64 word \<Rightarrow> mem" where
  "stb 0 m a w = m"
| "stb (Suc k) m a w = stb k (m(a := ucast w)) (a + 1) (drop_bit 8 w)"

abbreviation ld64 :: "mem \<Rightarrow> 64 word \<Rightarrow> 64 word" where "ld64 \<equiv> ldb 8"
abbreviation st64 :: "mem \<Rightarrow> 64 word \<Rightarrow> 64 word \<Rightarrow> mem" where "st64 \<equiv> stb 8"

subsection \<open>Registers and conditions\<close>

definition rX :: "arm \<Rightarrow> nat \<Rightarrow> 64 word" where
  "rX s n = (if n = 31 then 0 else aX s n)"

definition rXsp :: "arm \<Rightarrow> nat \<Rightarrow> 64 word" where
  "rXsp s n = (if n = 31 then aSP s else aX s n)"

definition wX :: "nat \<Rightarrow> 64 word \<Rightarrow> arm \<Rightarrow> arm" where
  "wX n v s = (if n = 31 then s else s\<lparr>aX := (aX s)(n := v)\<rparr>)"

definition wXsp :: "nat \<Rightarrow> 64 word \<Rightarrow> arm \<Rightarrow> arm" where
  "wXsp n v s = (if n = 31 then s\<lparr>aSP := v\<rparr> else s\<lparr>aX := (aX s)(n := v)\<rparr>)"

definition wD :: "nat \<Rightarrow> 64 word \<Rightarrow> arm \<Rightarrow> arm" where
  "wD n v s = s\<lparr>aD := (aD s)(n := v), aDH := (aDH s)(n := 0)\<rparr>"

definition set_flags :: "bool \<Rightarrow> bool \<Rightarrow> bool \<Rightarrow> bool \<Rightarrow> arm \<Rightarrow> arm" where
  "set_flags n z c v s = s\<lparr>fN := n, fZ := z, fC := c, fV := v\<rparr>"

text \<open>\<open>AddWithCarry\<close> of the architecture: the sum and the four flags.\<close>

definition awc :: "64 word \<Rightarrow> 64 word \<Rightarrow> bool \<Rightarrow> 64 word" where
  "awc a b c = a + b + of_bool c"

definition awc_flags :: "64 word \<Rightarrow> 64 word \<Rightarrow> bool \<Rightarrow> arm \<Rightarrow> arm" where
  "awc_flags a b c = set_flags (sint (awc a b c) < 0) (awc a b c = 0)
     (2 ^ 64 \<le> uint a + uint b + of_bool c) (sint (awc a b c) \<noteq> sint a + sint b + of_bool c)"

definition cond_holds :: "arm \<Rightarrow> nat \<Rightarrow> bool" where
  "cond_holds s c =
     (let b = (if c div 2 = 0 then fZ s else if c div 2 = 1 then fC s else if c div 2 = 2 then fN s
               else if c div 2 = 3 then fV s else if c div 2 = 4 then fC s \<and> \<not> fZ s
               else if c div 2 = 5 then fN s = fV s else if c div 2 = 6 then fN s = fV s \<and> \<not> fZ s else True)
      in if odd c \<and> c \<noteq> 15 then \<not> b else b)"

subsection \<open>Data operations\<close>

definition bfm :: "bool \<Rightarrow> 64 word \<Rightarrow> nat \<Rightarrow> nat \<Rightarrow> 64 word" where
  "bfm sg x r s =
     (if r \<le> s then (if sg then signed_take_bit (s - r) (drop_bit r x) else take_bit (s - r + 1) (drop_bit r x))
      else push_bit (64 - r) (if sg then signed_take_bit s x else take_bit (s + 1) x))"

definition word_bits :: "nat \<Rightarrow> 64 word \<Rightarrow> bool list" where
  "word_bits k w = map (bit w) [0..<k]"

definition of_bits :: "bool list \<Rightarrow> 64 word" where
  "of_bits bs = horner_sum of_bool 2 bs"

definition clz :: "nat \<Rightarrow> 64 word \<Rightarrow> nat" where
  "clz k w = length (takeWhile Not (rev (word_bits k w)))"

definition bytes :: "nat \<Rightarrow> 64 word \<Rightarrow> 8 word list" where
  "bytes k w = map (\<lambda>i. ucast (drop_bit (8 * i) w)) [0..<k]"

fun of_bytes :: "8 word list \<Rightarrow> 64 word" where
  "of_bytes [] = 0"
| "of_bytes (b # bs) = ucast b OR push_bit 8 (of_bytes bs)"

definition popcount8 :: "8 word \<Rightarrow> nat" where
  "popcount8 b = length (filter (bit b) [0..<8])"

fun op3_val :: "op3 \<Rightarrow> 64 word \<Rightarrow> 64 word \<Rightarrow> bool \<Rightarrow> 64 word" where
  "op3_val ADD a b c = a + b"
| "op3_val SUB a b c = a - b"
| "op3_val ADDS a b c = awc a b False"
| "op3_val SUBS a b c = awc a (NOT b) True"
| "op3_val SUBX a b c = a - b"
| "op3_val ADC a b c = awc a b c"
| "op3_val SBC a b c = awc a (NOT b) c"
| "op3_val SBCS a b c = awc a (NOT b) c"
| "op3_val AND_r a b c = a AND b"
| "op3_val ORR a b c = a OR b"
| "op3_val EOR a b c = a XOR b"
| "op3_val ORN a b c = a OR NOT b"
| "op3_val UMULH a b c = word_of_int (uint a * uint b div 2 ^ 64)"
| "op3_val SMULH a b c = word_of_int (sint a * sint b div 2 ^ 64)"
| "op3_val UDIV a b c = word_of_int (uint a div uint b)"
| "op3_val SDIV a b c = word_of_int (sint a sdiv sint b)"
| "op3_val LSLV a b c = push_bit (unat b mod 64) a"
| "op3_val LSRV a b c = drop_bit (unat b mod 64) a"
| "op3_val ASRV a b c = signed_drop_bit (unat b mod 64) a"

fun op3_flags :: "op3 \<Rightarrow> 64 word \<Rightarrow> 64 word \<Rightarrow> bool \<Rightarrow> arm \<Rightarrow> arm" where
  "op3_flags ADDS a b c = awc_flags a b False"
| "op3_flags SUBS a b c = awc_flags a (NOT b) True"
| "op3_flags SBCS a b c = awc_flags a (NOT b) c"
| "op3_flags _ a b c = id"

fun op2_val :: "op2 \<Rightarrow> 64 word \<Rightarrow> 64 word" where
  "op2_val RBIT a = of_bits (rev (word_bits 64 a))"
| "op2_val RBIT_w a = of_bits (rev (word_bits 32 a))"
| "op2_val CLZ a = of_nat (clz 64 a)"
| "op2_val CLZ_w a = of_nat (clz 32 a)"
| "op2_val REV_x a = of_bytes (rev (bytes 8 a))"
| "op2_val REV_w a = of_bytes (rev (bytes 4 a))"
| "op2_val REV16_w a = of_bytes (rev (bytes 2 a)) OR push_bit 16 (of_bytes (rev (bytes 2 (drop_bit 16 a))))"

text \<open>Floating point. The order of two numbers is that of their signed magnitudes.\<close>

definition d_key :: "double \<Rightarrow> int" where
  "d_key x = (if d_sign x then - uint (take_bit 63 x) else uint (take_bit 63 x))"

definition fcmp_flags :: "double \<Rightarrow> double \<Rightarrow> arm \<Rightarrow> arm" where
  "fcmp_flags x y =
     (if d_isnan x \<or> d_isnan y then set_flags False False True True
      else if d_key x = d_key y then set_flags False True True False
      else if d_key x < d_key y then set_flags True False False False
      else set_flags False False True False)"

fun f3_val :: "fop3 \<Rightarrow> double \<Rightarrow> double \<Rightarrow> double" where
  "f3_val FADD x y = d_add x y"
| "f3_val FSUB x y = d_sub x y"
| "f3_val FMUL x y = d_mul x y"
| "f3_val FDIV x y = d_div x y"

fun f2_exec :: "fop2 \<Rightarrow> nat \<Rightarrow> nat \<Rightarrow> arm \<Rightarrow> arm option" where
  "f2_exec FNEG d n s = Some (wD d (d_neg (aD s n)) s)"
| "f2_exec FABS d n s = Some (wD d (take_bit 63 (aD s n)) s)"
| "f2_exec FMOV d n s = Some (wD d (aD s n) s)"
| "f2_exec SCVTF d n s = Some (wD d (d_of_long (sint (rX s n))) s)"
| "f2_exec FCVTZS d n s = Some (wX d (word_of_int (d_to_long (aD s n))) s)"
| "f2_exec FMOV_to_gp d n s = Some (wX d (aD s n) s)"
| "f2_exec FMOV_from_gp d n s = Some (wD d (rX s n) s)"
| "f2_exec FCVT_to_S d n s = None"
| "f2_exec FCVT_to_D d n s = Some (wD d (d_of_float (ucast (aD s n))) s)"
| "f2_exec CNT_8B d n s = Some (wD d (of_bytes (map (of_nat \<circ> popcount8) (bytes 8 (aD s n)))) s)"
| "f2_exec ADDV_B d n s = Some (wD d (ucast (sum_list (bytes 8 (aD s n)))) s)"
| "f2_exec UMOV_B0 d n s = Some (wX d (take_bit 8 (aD s n)) s)"

subsection \<open>Loads and stores\<close>

fun ls_exec :: "lsop \<Rightarrow> nat \<Rightarrow> 64 word \<Rightarrow> arm \<Rightarrow> arm" where
  "ls_exec LDR_X t a s = wX t (ldb 8 (aM s) a) s"
| "ls_exec STR_X t a s = s\<lparr>aM := stb 8 (aM s) a (rX s t)\<rparr>"
| "ls_exec LDR_W t a s = wX t (ldb 4 (aM s) a) s"
| "ls_exec STR_W t a s = s\<lparr>aM := stb 4 (aM s) a (rX s t)\<rparr>"
| "ls_exec LDRSW t a s = wX t (signed_take_bit 31 (ldb 4 (aM s) a)) s"
| "ls_exec LDR_H t a s = wX t (ldb 2 (aM s) a) s"
| "ls_exec STR_H t a s = s\<lparr>aM := stb 2 (aM s) a (rX s t)\<rparr>"
| "ls_exec LDRSH t a s = wX t (signed_take_bit 15 (ldb 2 (aM s) a)) s"
| "ls_exec LDR_B t a s = wX t (ldb 1 (aM s) a) s"
| "ls_exec STR_B t a s = s\<lparr>aM := stb 1 (aM s) a (rX s t)\<rparr>"
| "ls_exec LDRSB t a s = wX t (signed_take_bit 7 (ldb 1 (aM s) a)) s"
| "ls_exec LDR_D t a s = wD t (ldb 8 (aM s) a) s"
| "ls_exec STR_D t a s = s\<lparr>aM := stb 8 (aM s) a (aD s t)\<rparr>"
| "ls_exec LDR_S t a s = wD t (ldb 4 (aM s) a) s"
| "ls_exec STR_S t a s = s\<lparr>aM := stb 4 (aM s) a (aD s t)\<rparr>"
| "ls_exec LDR_Q t a s = (wD t (ldb 8 (aM s) a) s)\<lparr>aDH := (aDH s)(t := ldb 8 (aM s) (a + 8))\<rparr>"
| "ls_exec STR_Q t a s = s\<lparr>aM := stb 8 (stb 8 (aM s) a (aD s t)) (a + 8) (aDH s t)\<rparr>"

subsection \<open>The step function\<close>

definition txt_index :: "seg \<Rightarrow> 64 word \<Rightarrow> nat" where
  "txt_index T a = unat (a - txt_base T) div 4"

definition fetch :: "seg \<Rightarrow> 64 word \<Rightarrow> 32 word option" where
  "fetch T a = (if unat (a - txt_base T) mod 4 = 0 \<and> txt_index T a < length (txt_words T)
                then Some (txt_words T ! txt_index T a) else None)"

definition lit64 :: "seg \<Rightarrow> 64 word \<Rightarrow> 64 word option" where
  "lit64 T a = (case (fetch T a, fetch T (a + 4)) of
      (Some lo, Some hi) \<Rightarrow> Some (ucast lo OR push_bit 32 (ucast hi)) | _ \<Rightarrow> None)"

definition adv :: "arm \<Rightarrow> arm" where
  "adv s = s\<lparr>aPC := aPC s + 4\<rparr>"

definition jump :: "int \<Rightarrow> arm \<Rightarrow> arm" where
  "jump i s = s\<lparr>aPC := aPC s + 4 * word_of_int i\<rparr>"

fun exec :: "seg \<Rightarrow> instr \<Rightarrow> arm \<Rightarrow> arm option" where
  "exec T (MOVZ d i h) s = Some (adv (wX d (push_bit (16 * h) (of_nat i)) s))"
| "exec T (MOVN d i h) s = Some (adv (wX d (NOT (push_bit (16 * h) (of_nat i))) s))"
| "exec T (MOVK d i h) s =
     Some (adv (wX d ((rX s d AND NOT (push_bit (16 * h) (mask 16))) OR push_bit (16 * h) (of_nat i)) s))"
| "exec T (ADD_i d n i) s = Some (adv (wXsp d (rXsp s n + of_nat i) s))"
| "exec T (SUB_i d n i) s = Some (adv (wXsp d (rXsp s n - of_nat i) s))"
| "exec T (SUBS_i d n i) s =
     Some (adv (awc_flags (rXsp s n) (NOT (of_nat i)) True (wX d (awc (rXsp s n) (NOT (of_nat i)) True) s)))"
| "exec T (UBFM d n r l) s = Some (adv (wX d (bfm False (rX s n) r l) s))"
| "exec T (SBFM d n r l) s = Some (adv (wX d (bfm True (rX s n) r l) s))"
| "exec T (ADR d i) s = Some (adv (wX d (aPC s + word_of_int i) s))"
| "exec T (R3 op d n m) s =
     (if op = SUBX then Some (adv (wXsp d (rXsp s n - rX s m) s))
      else Some (adv (op3_flags op (rX s n) (rX s m) (fC s) (wX d (op3_val op (rX s n) (rX s m) (fC s)) s))))"
| "exec T (R2 op d n) s = Some (adv (wX d (op2_val op (rX s n)) s))"
| "exec T (MADD d n m a) s = Some (adv (wX d (rX s a + rX s n * rX s m) s))"
| "exec T (MSUB d n m a) s = Some (adv (wX d (rX s a - rX s n * rX s m) s))"
| "exec T (CSEL d n m c) s = Some (adv (wX d (if cond_holds s c then rX s n else rX s m) s))"
| "exec T (CSINC d n m c) s = Some (adv (wX d (if cond_holds s c then rX s n else rX s m + 1) s))"
| "exec T (CCMP n m f c) s =
     Some (adv (if cond_holds s c then awc_flags (rX s n) (NOT (rX s m)) True s
                else set_flags (bit f 3) (bit f 2) (bit f 1) (bit f 0) s))"
| "exec T (LS op t n i) s = Some (adv (ls_exec op t (rXsp s n + of_nat i) s))"
| "exec T (LDR_lit t i) s = map_option (\<lambda>v. adv (wX t v s)) (lit64 T (aPC s + 4 * word_of_int i))"
| "exec T (LDR_D_lit t i) s = map_option (\<lambda>v. adv (wD t v s)) (lit64 T (aPC s + 4 * word_of_int i))"
| "exec T (LDP t u n i) s =
     (let a = rXsp s n + word_of_int i in Some (adv (wX u (ldb 8 (aM s) (a + 8)) (wX t (ldb 8 (aM s) a) s))))"
| "exec T (STP t u n i) s =
     (let a = rXsp s n + word_of_int i in Some (adv (s\<lparr>aM := stb 8 (stb 8 (aM s) a (rX s t)) (a + 8) (rX s u)\<rparr>)))"
| "exec T (B i) s = Some (jump i s)"
| "exec T (BL i) s = Some (jump i (wX 30 (aPC s + 4) s))"
| "exec T (B_cond c i) s = Some (if cond_holds s c then jump i s else adv s)"
| "exec T (CBZ t i) s = Some (if rX s t = 0 then jump i s else adv s)"
| "exec T (CBNZ t i) s = Some (if rX s t \<noteq> 0 then jump i s else adv s)"
| "exec T (BR n) s = Some (s\<lparr>aPC := rX s n\<rparr>)"
| "exec T (BLR n) s = Some ((wX 30 (aPC s + 4) s)\<lparr>aPC := rX s n\<rparr>)"
| "exec T (RET n) s = Some (s\<lparr>aPC := rX s n\<rparr>)"
| "exec T (SVC i) s = map_option adv (txt_svc T s)"
| "exec T (F3 op d n m) s = Some (adv (wD d (f3_val op (aD s n) (aD s m)) s))"
| "exec T (F2 op d n) s = map_option adv (f2_exec op d n s)"
| "exec T (FCMP n m) s = Some (adv (fcmp_flags (aD s n) (aD s m) s))"
| "exec T (FCMP_0 n) s = Some (adv (fcmp_flags (aD s n) 0 s))"

definition step :: "seg \<Rightarrow> arm \<Rightarrow> arm option" where
  "step T s = (case fetch T (aPC s) of None \<Rightarrow> None
     | Some w \<Rightarrow> (case decode w of None \<Rightarrow> None | Some i \<Rightarrow> exec T i s))"

inductive runs :: "seg \<Rightarrow> arm \<Rightarrow> arm \<Rightarrow> bool" for T where
  runs_refl [simp, intro]: "runs T s s"
| runs_step: "step T s = Some s' \<Longrightarrow> runs T s' s'' \<Longrightarrow> runs T s s''"

lemma runs_trans: "runs T s s' \<Longrightarrow> runs T s' s'' \<Longrightarrow> runs T s s''"
  by (induction rule: runs.induct) (auto intro: runs_step)

end
