(* ===== verification/CodeBuilder.thy ===== *)
theory CodeBuilder
  imports Ir Arm64Exec
begin

section \<open>\<open>elfgen.go\<close>: the code builder\<close>

text \<open>
  \<open>codeBuilder\<close> collects instruction words, label positions and branch fixups; the literal pool
  takes the first two words per entry. The methods are functions from builder to builder. A Go
  map lookup of a missing key is the zero value. \<open>applyFixups\<close> is an error or the patched builder.
\<close>

datatype fixupKind = fixB | fixBL | fixBcond | fixCBZ | fixCBNZ | fixADR

record branchFixup =
  fxAt :: nat
  fxLabel :: string
  fxKind :: fixupKind

record codeBuilder =
  instrs :: "32 word list"
  labels :: "string \<Rightarrow> nat option"
  fixups :: "branchFixup list"
  poolIdx :: "string \<Rightarrow> nat option"
  externBLs :: "(nat \<times> string) list"
  peepholeBarrier :: bool

datatype fixupError = UndefinedLabel string | OutOfRange string int | BadIndex nat

definition pool_index :: "codeBuilder \<Rightarrow> string \<Rightarrow> nat" where
  "pool_index cb name = (case poolIdx cb name of Some k \<Rightarrow> k | None \<Rightarrow> 0)"

definition funcLabel :: "string \<Rightarrow> string" where
  "funcLabel name = name"

subsection \<open>The literal pool\<close>

fun pool_add :: "string list \<Rightarrow> (string \<Rightarrow> nat option) \<Rightarrow> nat \<Rightarrow> (string \<Rightarrow> nat option) \<times> nat" where
  "pool_add [] p i = (p, i)"
| "pool_add (n # ns) p i = pool_add ns (p(n \<mapsto> i)) (i + 1)"

fun pool_add_new :: "string list \<Rightarrow> (string \<Rightarrow> nat option) \<Rightarrow> nat \<Rightarrow> (string \<Rightarrow> nat option) \<times> nat" where
  "pool_add_new [] p i = (p, i)"
| "pool_add_new (n # ns) p i =
     (if p n = None then pool_add_new ns (p(n \<mapsto> i)) (i + 1) else pool_add_new ns p i)"

definition set64 :: "32 word list \<Rightarrow> nat \<Rightarrow> 64 word \<Rightarrow> 32 word list" where
  "set64 ws k v = ws[2 * k := ucast v, 2 * k + 1 := ucast (drop_bit 32 v)]"

definition newCodeBuilder :: "IRGlobal list \<Rightarrow> IRStrLit list \<Rightarrow> IRFConst list \<Rightarrow> string list \<Rightarrow> codeBuilder" where
  "newCodeBuilder globals strLits fconsts funcRefs =
     (let (p1, i1) = pool_add (map glName globals) Map.empty 0;
          (p2, i2) = pool_add (map slLabel strLits) p1 i1;
          (p3, i3) = pool_add (map fcLabel fconsts) p2 i2;
          (p4, i4) = pool_add_new (map funcLabel funcRefs) p3 i3;
          ws = foldl (\<lambda>ws fc. set64 ws (case p4 (fcLabel fc) of Some k \<Rightarrow> k | None \<Rightarrow> 0) (fcValue fc))
                 (replicate (2 * i4) 0) fconsts
      in \<lparr>instrs = ws, labels = Map.empty, fixups = [], poolIdx = p4, externBLs = [], peepholeBarrier = False\<rparr>)"

text \<open>\<open>patchPool\<close> runs over a Go map, so the pairs have different names.\<close>

definition patchPool :: "(string \<times> 64 word) list \<Rightarrow> codeBuilder \<Rightarrow> codeBuilder" where
  "patchPool globalAddrs cb =
     cb\<lparr>instrs := foldl (\<lambda>ws (name, addr). set64 ws (pool_index cb name) addr) (instrs cb) globalAddrs\<rparr>"

subsection \<open>Emission\<close>

definition emit :: "32 word \<Rightarrow> codeBuilder \<Rightarrow> codeBuilder" where
  "emit w cb = cb\<lparr>instrs := instrs cb @ [w], peepholeBarrier := False\<rparr>"

text \<open>The loop over the shifts \<open>0, 16, 32, 48\<close>, each given by its number of halfwords.\<close>

fun emitMOVimm_loop :: "int \<Rightarrow> int \<Rightarrow> nat list \<Rightarrow> bool \<Rightarrow> codeBuilder \<Rightarrow> bool \<times> codeBuilder" where
  "emitMOVimm_loop r uval [] first cb = (first, cb)"
| "emitMOVimm_loop r uval (hw # hws) first cb =
     (let chunk = drop_bit (16 * hw) uval AND 0xFFFF
      in if chunk = 0 \<and> \<not> first then emitMOVimm_loop r uval hws first cb
         else if first then emitMOVimm_loop r uval hws False (emit (encMOVZ r chunk (16 * int hw)) cb)
         else emitMOVimm_loop r uval hws first (emit (encMOVK r chunk (16 * int hw)) cb))"

definition emitMOVimm :: "int \<Rightarrow> int \<Rightarrow> codeBuilder \<Rightarrow> codeBuilder" where
  "emitMOVimm r val cb =
     (let (first, cb) = emitMOVimm_loop r (val mod 2 ^ 64) [0, 1, 2, 3] True cb
      in if first then emit (encMOVZ r 0 0) cb else cb)"

text \<open>The store-then-load peephole: the load is dropped when the word before it is its store.\<close>

definition peepholeElim :: "32 word \<Rightarrow> codeBuilder \<Rightarrow> bool" where
  "peepholeElim ldrEnc cb =
     (if instrs cb = [] \<or> peepholeBarrier cb then False
      else last (instrs cb) = ldrEnc XOR push_bit 22 1)"

definition emitLDRsp :: "int \<Rightarrow> int \<Rightarrow> codeBuilder \<Rightarrow> codeBuilder" where
  "emitLDRsp rt byteOff cb =
     (let enc = encLDRuoff rt regSP byteOff in if peepholeElim enc cb then cb else emit enc cb)"

definition emitLDRglobal :: "string \<Rightarrow> codeBuilder \<Rightarrow> codeBuilder" where
  "emitLDRglobal name cb =
     emit (encLDRlit regX9 (2 * int (pool_index cb name) - int (length (instrs cb)))) cb"

definition emitLDRFPconst :: "string \<Rightarrow> int \<Rightarrow> codeBuilder \<Rightarrow> codeBuilder" where
  "emitLDRFPconst label fd cb =
     emit (encLDRDlit fd (2 * int (pool_index cb label) - int (length (instrs cb)))) cb"

subsection \<open>Labels and branches\<close>

definition defineLabel :: "string \<Rightarrow> codeBuilder \<Rightarrow> codeBuilder" where
  "defineLabel name cb = cb\<lparr>labels := (labels cb)(name \<mapsto> length (instrs cb)), peepholeBarrier := True\<rparr>"

definition add_fixup :: "fixupKind \<Rightarrow> string \<Rightarrow> codeBuilder \<Rightarrow> codeBuilder" where
  "add_fixup kind label cb =
     cb\<lparr>fixups := fixups cb @ [\<lparr>fxAt = length (instrs cb), fxLabel = label, fxKind = kind\<rparr>]\<rparr>"

definition emitB :: "string \<Rightarrow> codeBuilder \<Rightarrow> codeBuilder" where
  "emitB label cb = emit 0x14000000 (add_fixup fixB label cb)"

definition emitBL :: "string \<Rightarrow> codeBuilder \<Rightarrow> codeBuilder" where
  "emitBL label cb = emit 0x94000000 (add_fixup fixBL label cb)"

definition emitBLextern :: "string \<Rightarrow> codeBuilder \<Rightarrow> codeBuilder" where
  "emitBLextern name cb = emit 0x94000000 (cb\<lparr>externBLs := externBLs cb @ [(length (instrs cb), name)]\<rparr>)"

definition emitBcond :: "int \<Rightarrow> string \<Rightarrow> codeBuilder \<Rightarrow> codeBuilder" where
  "emitBcond cond label cb = emit (u32 (0x54000000 OR cond)) (add_fixup fixBcond label cb)"

definition emitCBZ :: "int \<Rightarrow> string \<Rightarrow> codeBuilder \<Rightarrow> codeBuilder" where
  "emitCBZ rt label cb = emit (u32 (0xB4000000 OR rt)) (add_fixup fixCBZ label cb)"

definition emitCBNZ :: "int \<Rightarrow> string \<Rightarrow> codeBuilder \<Rightarrow> codeBuilder" where
  "emitCBNZ rt label cb = emit (u32 (0xB5000000 OR rt)) (add_fixup fixCBNZ label cb)"

definition emitADR :: "int \<Rightarrow> string \<Rightarrow> codeBuilder \<Rightarrow> codeBuilder" where
  "emitADR r label cb = emit (0x10000000 OR u32 r) (add_fixup fixADR label cb)"

definition patch_word :: "fixupKind \<Rightarrow> string \<Rightarrow> int \<Rightarrow> 32 word \<Rightarrow> fixupError + 32 word" where
  "patch_word kind label offset old =
     (case kind of
        fixADR \<Rightarrow>
          (let byteOff = offset * 4
           in if byteOff < - (2 ^ 20) \<or> 2 ^ 20 \<le> byteOff then Inl (OutOfRange label byteOff)
              else (let immlo = byteOff AND 3; immhi = drop_bit 2 byteOff AND 0x7FFFF
                    in Inr ((old AND 0x9000001F) OR push_bit 29 (u32 immlo) OR push_bit 5 (u32 immhi))))
      | _ \<Rightarrow>
          (if kind = fixB \<or> kind = fixBL then
             (if offset < - (2 ^ 25) \<or> 2 ^ 25 \<le> offset then Inl (OutOfRange label offset)
              else Inr ((old AND 0xFC000000) OR (u32 offset AND 0x3FFFFFF)))
           else
             (if offset < - (2 ^ 18) \<or> 2 ^ 18 \<le> offset then Inl (OutOfRange label offset)
              else Inr ((old AND 0xFF00001F) OR push_bit 5 (u32 offset AND 0x7FFFF)))))"

fun fixup_loop :: "(string \<Rightarrow> nat option) \<Rightarrow> branchFixup list \<Rightarrow> 32 word list \<Rightarrow> fixupError + 32 word list" where
  "fixup_loop lab [] ws = Inr ws"
| "fixup_loop lab (fx # fxs) ws =
     (case lab (fxLabel fx) of
        None \<Rightarrow> Inl (UndefinedLabel (fxLabel fx))
      | Some tgt \<Rightarrow>
          (if fxAt fx < length ws then
             (case patch_word (fxKind fx) (fxLabel fx) (int tgt - int (fxAt fx)) (ws ! fxAt fx) of
                Inl e \<Rightarrow> Inl e
              | Inr w \<Rightarrow> fixup_loop lab fxs (ws[fxAt fx := w]))
           else Inl (BadIndex (fxAt fx))))"

definition applyFixups :: "codeBuilder \<Rightarrow> fixupError + codeBuilder" where
  "applyFixups cb = (case fixup_loop (labels cb) (fixups cb) (instrs cb) of
     Inl e \<Rightarrow> Inl e | Inr ws \<Rightarrow> Inr (cb\<lparr>instrs := ws\<rparr>))"

end
