(* ===== verification/ElfGen.thy ===== *)
theory ElfGen
  imports CodeBuilder Frame
begin

section \<open>\<open>elfgen.go\<close>: from quads to machine words\<close>

text \<open>
  The code generator of a function: loads and stores of operands, the prologue and epilogue and
  one case per opcode. A method of \<open>elfGen\<close> that only emits is a function from builder to
  builder, and a sequence of emissions is a list of them that \<open>emits\<close> runs in order. \<open>gStructSize\<close> stands for the
  sizes that \<open>SizeBytes\<close> gives to the struct definitions. A Go \<open>switch\<close> without a matching case
  emits nothing.
\<close>

definition emits :: "(codeBuilder \<Rightarrow> codeBuilder) list \<Rightarrow> codeBuilder \<Rightarrow> codeBuilder" where
  "emits fs = fold (\<lambda>f. f) fs"

lemma emits_simps [simp]: "emits [] = id" "emits [f] = f" "emits (f # g # fs) = emits (fcomp f g # fs)"
  by (simp_all add: emits_def fun_eq_iff)

record paramArg =
  paAddr :: IRAddr
  paIsFP :: bool
  paIsStruct :: bool
  paStructTag :: string

record elfGen =
  gCb :: codeBuilder
  gPending :: "paramArg list"
  gFn :: IRFunc
  gFr :: frame
  gIsGlobalPtr :: "string \<Rightarrow> bool"
  gFuncRetType :: "string \<Rightarrow> TypeKind"
  gStructSize :: "string \<Rightarrow> int option"
  gIsObjMode :: bool
  gLocalFuncs :: "string \<Rightarrow> bool"

definition irLabel :: "string \<Rightarrow> string \<Rightarrow> string" where
  "irLabel fname extra = ''gaston_'' @ fname @ ''_'' @ extra"

definition struct_size0 :: "elfGen \<Rightarrow> string \<Rightarrow> int" where
  "struct_size0 g tag = (case gStructSize g tag of Some sz \<Rightarrow> sz | None \<Rightarrow> 0)"

subsection \<open>Loads and stores of operands\<close>

definition frameBase :: "frame \<Rightarrow> int" where
  "frameBase fr = (if frHasVLA fr then regFP else regSP)"

definition load_slot :: "frame \<Rightarrow> int \<Rightarrow> int \<Rightarrow> codeBuilder \<Rightarrow> codeBuilder" where
  "load_slot fr r off = (if frHasVLA fr then emit (encLDRuoff r regFP off) else emitLDRsp r off)"

definition load :: "frame \<Rightarrow> IRAddr \<Rightarrow> int \<Rightarrow> codeBuilder \<Rightarrow> codeBuilder" where
  "load fr addr r =
     (case aKind addr of
        AddrConst \<Rightarrow> emitMOVimm r (aIVal addr)
      | AddrTemp \<Rightarrow> load_slot fr r (fr_off fr (aName addr))
      | AddrLocal \<Rightarrow> load_slot fr r (fr_off fr (aName addr))
      | AddrGlobal \<Rightarrow> emits [emitLDRglobal (aName addr), emit (encLDRuoff r regX9 0)]
      | _ \<Rightarrow> id)"

definition store :: "frame \<Rightarrow> int \<Rightarrow> IRAddr \<Rightarrow> codeBuilder \<Rightarrow> codeBuilder" where
  "store fr r dst =
     (case aKind dst of
        AddrTemp \<Rightarrow> emit (encSTRuoff r (frameBase fr) (fr_off fr (aName dst)))
      | AddrLocal \<Rightarrow> emit (encSTRuoff r (frameBase fr) (fr_off fr (aName dst)))
      | AddrGlobal \<Rightarrow> emits [emitLDRglobal (aName dst), emit (encSTRuoff r regX9 0)]
      | _ \<Rightarrow> id)"

definition fpLoad :: "frame \<Rightarrow> IRAddr \<Rightarrow> int \<Rightarrow> codeBuilder \<Rightarrow> codeBuilder" where
  "fpLoad fr addr fd =
     (case aKind addr of
        AddrFConst \<Rightarrow> emitLDRFPconst (aName addr) fd
      | AddrTemp \<Rightarrow> emit (encLDRDuoff fd (frameBase fr) (fr_off fr (aName addr)))
      | AddrLocal \<Rightarrow> emit (encLDRDuoff fd (frameBase fr) (fr_off fr (aName addr)))
      | AddrGlobal \<Rightarrow> emits [emitLDRglobal (aName addr), emit (encLDRDuoff fd regX9 0)]
      | _ \<Rightarrow> id)"

definition load128 :: "frame \<Rightarrow> IRAddr \<Rightarrow> int \<Rightarrow> int \<Rightarrow> codeBuilder \<Rightarrow> codeBuilder" where
  "load128 fr addr lo hi =
     (case aKind addr of
        AddrTemp \<Rightarrow> emits [emit (encLDRuoff lo (frameBase fr) (fr_off fr (aName addr))),
                    emit (encLDRuoff hi (frameBase fr) (fr_off fr (aName addr) + 8))]
      | AddrLocal \<Rightarrow> emits [emit (encLDRuoff lo (frameBase fr) (fr_off fr (aName addr))),
                     emit (encLDRuoff hi (frameBase fr) (fr_off fr (aName addr) + 8))]
      | AddrGlobal \<Rightarrow> emits [emitLDRglobal (aName addr), emit (encLDRuoff lo regX9 0), emit (encLDRuoff hi regX9 8)]
      | _ \<Rightarrow> id)"

definition store128 :: "frame \<Rightarrow> int \<Rightarrow> int \<Rightarrow> IRAddr \<Rightarrow> codeBuilder \<Rightarrow> codeBuilder" where
  "store128 fr lo hi dst =
     (case aKind dst of
        AddrTemp \<Rightarrow> emits [emit (encSTRuoff lo (frameBase fr) (fr_off fr (aName dst))),
                    emit (encSTRuoff hi (frameBase fr) (fr_off fr (aName dst) + 8))]
      | AddrLocal \<Rightarrow> emits [emit (encSTRuoff lo (frameBase fr) (fr_off fr (aName dst))),
                     emit (encSTRuoff hi (frameBase fr) (fr_off fr (aName dst) + 8))]
      | AddrGlobal \<Rightarrow> emits [emitLDRglobal (aName dst), emit (encSTRuoff lo regX9 0), emit (encSTRuoff hi regX9 8)]
      | _ \<Rightarrow> id)"

definition fpStore :: "frame \<Rightarrow> int \<Rightarrow> IRAddr \<Rightarrow> codeBuilder \<Rightarrow> codeBuilder" where
  "fpStore fr fd dst =
     (case aKind dst of
        AddrTemp \<Rightarrow> emit (encSTRDuoff fd (frameBase fr) (fr_off fr (aName dst)))
      | AddrLocal \<Rightarrow> emit (encSTRDuoff fd (frameBase fr) (fr_off fr (aName dst)))
      | AddrGlobal \<Rightarrow> emits [emitLDRglobal (aName dst), emit (encSTRDuoff fd regX9 0)]
      | _ \<Rightarrow> id)"

definition fpStoreLD :: "frame \<Rightarrow> int \<Rightarrow> IRAddr \<Rightarrow> codeBuilder \<Rightarrow> codeBuilder" where
  "fpStoreLD fr fd dst =
     (case aKind dst of
        AddrTemp \<Rightarrow> emit (encSTRQuoff fd (frameBase fr) (fr_off fr (aName dst)))
      | AddrLocal \<Rightarrow> emit (encSTRQuoff fd (frameBase fr) (fr_off fr (aName dst)))
      | AddrGlobal \<Rightarrow> emits [emitLDRglobal (aName dst), emit (encSTRQuoff fd regX9 0)]
      | _ \<Rightarrow> id)"

definition structBase :: "elfGen \<Rightarrow> IRAddr \<Rightarrow> int \<Rightarrow> codeBuilder \<Rightarrow> codeBuilder" where
  "structBase g addr r =
     (let fr = gFr g; off = fr_off fr (aName addr)
      in if aKind addr = AddrGlobal then
           emits [emitLDRglobal (aName addr),
           (if gIsGlobalPtr g (aName addr) then emit (encLDRuoff r regX9 0) else emit (encMOVreg r regX9))]
         else if aKind addr = AddrLocal \<or> aKind addr = AddrTemp then
           (if frIsArrBase fr (aName addr) then emit (encADDimm r (frameBase fr) off) else load_slot fr r off)
         else id)"

definition arrayBase :: "elfGen \<Rightarrow> IRAddr \<Rightarrow> int \<Rightarrow> codeBuilder \<Rightarrow> codeBuilder" where
  "arrayBase g addr r =
     (let fr = gFr g; off = fr_off fr (aName addr)
      in if aKind addr = AddrGlobal then
           emits [emitLDRglobal (aName addr),
           (if gIsGlobalPtr g (aName addr) then emit (encLDRuoff r regX9 0) else emit (encMOVreg r regX9))]
         else if aKind addr = AddrLocal \<or> aKind addr = AddrTemp then
           (if frIsArrPtr fr (aName addr) \<or> frIsPtrVar fr (aName addr) then load_slot fr r off
            else emit (encADDimm r (frameBase fr) off))
         else id)"

definition emitFPCmpBool :: "frame \<Rightarrow> Quad \<Rightarrow> int \<Rightarrow> codeBuilder \<Rightarrow> codeBuilder" where
  "emitFPCmpBool fr q cond =
     emits [fpLoad fr (qSrc1 q) 0, fpLoad fr (qSrc2 q) 1, emit (encFCMPD 0 1), emit (encCSET regX0 cond),
     store fr regX0 (qDst q)]"

subsection \<open>Prologue and epilogue\<close>

function emitSubSP :: "int \<Rightarrow> codeBuilder \<Rightarrow> codeBuilder" where
  "emitSubSP imm cb =
     (if 4095 < imm then emitSubSP (imm - 4095) (emit (encSUBimm regSP regSP 4095) cb)
      else if 0 < imm then emit (encSUBimm regSP regSP imm) cb else cb)"
  by pat_completeness auto
termination by (relation "measure (\<lambda>(imm, cb). nat imm)") auto

function emitAddSP :: "int \<Rightarrow> codeBuilder \<Rightarrow> codeBuilder" where
  "emitAddSP imm cb =
     (if 4095 < imm then emitAddSP (imm - 4095) (emit (encADDimm regSP regSP 4095) cb)
      else if 0 < imm then emit (encADDimm regSP regSP imm) cb else cb)"
  by pat_completeness auto
termination by (relation "measure (\<lambda>(imm, cb). nat imm)") auto

declare emitSubSP.simps [simp del] emitAddSP.simps [simp del]

text \<open>Copying \<open>n\<close> words through X10 or X11 from the address in one register to another.\<close>

definition copy_words :: "int \<Rightarrow> int \<Rightarrow> int \<Rightarrow> int \<Rightarrow> nat \<Rightarrow> codeBuilder \<Rightarrow> codeBuilder" where
  "copy_words tmp src dst dst_off n =
     fold (\<lambda>i. emits [emit (encLDRuoff tmp src (int i * 8)), emit (encSTRuoff tmp dst (dst_off + int i * 8))]) [0..<n]"

fun prologue_params :: "elfGen \<Rightarrow> string list \<Rightarrow> TypeKind list \<Rightarrow> string list \<Rightarrow> int \<Rightarrow> int \<Rightarrow> codeBuilder \<Rightarrow> codeBuilder" where
  "prologue_params g (name # ns) (pt # pts) tags iIdx fIdx cb =
     (let off = fr_off (gFr g) name; tag = (if tags = [] then [] else hd tags); size = struct_size0 g tag
      in if pt = TypeStruct then
           (if size \<le> 8 then prologue_params g ns pts (tl tags) (iIdx + 1) fIdx (emit (encSTRuoff iIdx regSP off) cb)
            else if size \<le> 16 then
              prologue_params g ns pts (tl tags) (iIdx + 2) fIdx
                ((emits [emit (encSTRuoff iIdx regSP off), emit (encSTRuoff (iIdx + 1) regSP (off + 8))]) cb)
            else
              prologue_params g ns pts (tl tags) (iIdx + 1) fIdx
                ((emits [emit (encMOVreg regX9 iIdx), copy_words 10 regX9 regSP off (nat ((size + 7) div 8))]) cb))
         else if isFPType pt then
           (if fIdx < 8 then prologue_params g ns pts (tl tags) iIdx (fIdx + 1) (emit (encSTRDuoff fIdx regSP off) cb)
            else prologue_params g ns pts (tl tags) iIdx fIdx cb)
         else
           (if iIdx < 8 then prologue_params g ns pts (tl tags) (iIdx + 1) fIdx (emit (encSTRuoff iIdx regSP off) cb)
            else prologue_params g ns pts (tl tags) iIdx fIdx cb))"
| "prologue_params g _ _ tags iIdx fIdx cb = cb"

definition emitPrologue :: "elfGen \<Rightarrow> codeBuilder \<Rightarrow> codeBuilder" where
  "emitPrologue g =
     (let fn = gFn g; f = gFr g
      in emits [emitSubSP (frFrameSize f),
         emit (encSTP regFP regLR regSP 0),
         emit (encADDimm regFP regSP 0),
         prologue_params g (fnParams fn) (fnParamType fn) (fnParamStructTag fn) 0 0,
         (if fnIsVariadic fn then fold (\<lambda>i. emit (encSTRuoff i regSP (16 + 8 * i))) [1, 2, 3, 4, 5, 6, 7] else id),
         (if fnReturnStructTag fn \<noteq> [] \<and> 16 < struct_size0 g (fnReturnStructTag fn)
             then (case frOffsets f ''__x8_save'' of Some off \<Rightarrow> emit (encSTRuoff regX8 regSP off) | None \<Rightarrow> id)
             else id)])"

definition emitEpilogue :: "frame \<Rightarrow> codeBuilder \<Rightarrow> codeBuilder" where
  "emitEpilogue fr =
     emits [(if frHasVLA fr then emit (encADDimm regSP regFP 0) else id),
     emit (encLDP regFP regLR regSP 0),
     emitAddSP (frFrameSize fr),
     emit encRET]"

definition emitStructReturn :: "elfGen \<Rightarrow> Quad \<Rightarrow> codeBuilder \<Rightarrow> codeBuilder" where
  "emitStructReturn g q =
     (let size = struct_size0 g (qStructTag q)
      in emits [structBase g (qSrc1 q) regX9,
         (if size \<le> 8 then emit (encLDRuoff regX0 regX9 0)
             else if size \<le> 16 then emits [emit (encLDRuoff regX0 regX9 0), emit (encLDRuoff regX1 regX9 8)]
             else
               emits [(case frOffsets (gFr g) ''__x8_save'' of
                  Some off \<Rightarrow> emit (encLDRuoff regX8 (frameBase (gFr g)) off) | None \<Rightarrow> id),
               copy_words 10 regX9 regX8 0 (nat ((size + 7) div 8))]),
         emitEpilogue (gFr g)])"

subsection \<open>Integer operations\<close>

definition emitArith :: "frame \<Rightarrow> Quad \<Rightarrow> (int \<Rightarrow> int \<Rightarrow> int \<Rightarrow> 32 word) \<Rightarrow> codeBuilder \<Rightarrow> codeBuilder" where
  "emitArith fr q enc =
     emits [load fr (qSrc1 q) regX0, load fr (qSrc2 q) regX1, emit (enc regX0 regX0 regX1), store fr regX0 (qDst q)]"

definition emitMod :: "frame \<Rightarrow> Quad \<Rightarrow> codeBuilder \<Rightarrow> codeBuilder" where
  "emitMod fr q =
     emits [load fr (qSrc1 q) regX0, load fr (qSrc2 q) regX1, emit (encSDIV regX2 regX0 regX1),
     emit (encMSUB regX0 regX2 regX1 regX0), store fr regX0 (qDst q)]"

definition emitUMod :: "frame \<Rightarrow> Quad \<Rightarrow> codeBuilder \<Rightarrow> codeBuilder" where
  "emitUMod fr q =
     emits [load fr (qSrc1 q) regX0, load fr (qSrc2 q) regX1, emit (encUDIV regX2 regX0 regX1),
     emit (encMSUB regX0 regX2 regX1 regX0), store fr regX0 (qDst q)]"

definition emitCmpBool :: "frame \<Rightarrow> Quad \<Rightarrow> int \<Rightarrow> codeBuilder \<Rightarrow> codeBuilder" where
  "emitCmpBool fr q cond =
     emits [load fr (qSrc1 q) regX0, load fr (qSrc2 q) regX1, emit (encCMPreg regX0 regX1),
     emit (encCSET regX0 cond), store fr regX0 (qDst q)]"

fun arith_enc :: "arithop \<Rightarrow> int \<Rightarrow> int \<Rightarrow> int \<Rightarrow> 32 word" where
  "arith_enc IRAdd = encADDreg"
| "arith_enc IRSub = encSUBreg"
| "arith_enc IRMul = encMUL"
| "arith_enc IRDiv = encSDIV"
| "arith_enc IRUDiv = encUDIV"
| "arith_enc IRBitAnd = encAND"
| "arith_enc IRBitOr = encORR"
| "arith_enc IRBitXor = encEOR"
| "arith_enc IRShl = encLSLV"
| "arith_enc IRShr = encASRV"
| "arith_enc IRUShr = encLSRV"

fun cmp_cond :: "cmpop \<Rightarrow> int" where
  "cmp_cond IRLt = condLT"
| "cmp_cond IRLe = condLE"
| "cmp_cond IRGt = condGT"
| "cmp_cond IRGe = condGE"
| "cmp_cond IREq = condEQ"
| "cmp_cond IRNe = condNE"
| "cmp_cond IRULt = condLO"
| "cmp_cond IRULe = condLS"
| "cmp_cond IRUGt = condHI"
| "cmp_cond IRUGe = condHS"

definition unary :: "frame \<Rightarrow> Quad \<Rightarrow> (codeBuilder \<Rightarrow> codeBuilder) \<Rightarrow> codeBuilder \<Rightarrow> codeBuilder" where
  "unary fr q body = emits [load fr (qSrc1 q) regX0, body, store fr regX0 (qDst q)]"

definition overflow_temp :: "Quad \<Rightarrow> IRAddr" where
  "overflow_temp q = \<lparr>aKind = AddrTemp, aIVal = 0, aFVal = 0, aName = qExtra q\<rparr>"

definition load2 :: "frame \<Rightarrow> Quad \<Rightarrow> codeBuilder \<Rightarrow> codeBuilder" where
  "load2 fr q = emits [load fr (qSrc1 q) regX0, load fr (qSrc2 q) regX1]"

fun gen_int :: "frame \<Rightarrow> Quad \<Rightarrow> intop \<Rightarrow> codeBuilder \<Rightarrow> codeBuilder" where
  "gen_int fr q IRCopy = emits [load fr (qSrc1 q) regX0, store fr regX0 (qDst q)]"
| "gen_int fr q IRMod = emitMod fr q"
| "gen_int fr q IRUMod = emitUMod fr q"
| "gen_int fr q IRBitNot = unary fr q (emit (encMVN regX0 regX0))"
| "gen_int fr q IRSignExtend =
     unary fr q (if aIVal (qSrc2 q) = 8 then emit (encSXTB regX0 regX0) else emit (encSXTH regX0 regX0))"
| "gen_int fr q IRZeroExtend =
     unary fr q (if aIVal (qSrc2 q) = 8 then emit (encUXTB regX0 regX0) else emit (encUXTH regX0 regX0))"
| "gen_int fr q IRCLZ =
     unary fr q (if qTypeHint q = TypeUnsignedInt then emit (encCLZ32 regX0 regX0) else emit (encCLZ regX0 regX0))"
| "gen_int fr q IRCTZ =
     unary fr q (if qTypeHint q = TypeUnsignedInt
                 then emits [emit (encRBIT32 regX0 regX0), emit (encCLZ32 regX0 regX0)]
                 else emits [emit (encRBIT regX0 regX0), emit (encCLZ regX0 regX0)])"
| "gen_int fr q IRPopcount =
     unary fr q (emits [emit (encFMOVfromGP 0 regX0), emit (encCNT8B 0 0), emit (encADDVb 0 0), emit (encUMOVb0 regX0 0)])"
| "gen_int fr q IRFfs =
     unary fr q (emits [emit (encCMPimm0 regX0), emit (encRBIT regX1 regX0), emit (encCLZ regX1 regX1),
                 emit (encADDimm regX1 regX1 1), emit (encCSEL regX0 regXZR regX1 condEQ)])"
| "gen_int fr q IRBswap =
     unary fr q (if qTypeHint q = TypeUnsignedShort then emits [emit (encREV16 regX0 regX0), emit (encUXTH regX0 regX0)]
                 else if qTypeHint q = TypeUnsignedInt then emit (encREV32 regX0 regX0)
                 else emit (encREV64 regX0 regX0))"
| "gen_int fr q IRAddOverflow =
     emits [load2 fr q, emit (encADDS regX2 regX0 regX1), store fr regX2 (qDst q), emit (encCSET regX0 condVS),
     store fr regX0 (overflow_temp q)]"
| "gen_int fr q IRSubOverflow =
     emits [load2 fr q, emit (encSUBS regX2 regX0 regX1), store fr regX2 (qDst q), emit (encCSET regX0 condVS),
     store fr regX0 (overflow_temp q)]"
| "gen_int fr q IRMulOverflow =
     emits [load2 fr q, emit (encMUL regX2 regX0 regX1), emit (encSMULH regX3 regX0 regX1), store fr regX2 (qDst q),
     emit (encASR regX4 regX2 63), emit (encEOR regX3 regX3 regX4), emit (encSUBS regXZR regX3 regXZR),
     emit (encCSET regX0 condNE), store fr regX0 (overflow_temp q)]"

subsection \<open>Memory and addresses\<close>

definition emitArrayLoad :: "elfGen \<Rightarrow> Quad \<Rightarrow> codeBuilder \<Rightarrow> codeBuilder" where
  "emitArrayLoad g q =
     emits [arrayBase g (qSrc1 q) regX0, load (gFr g) (qSrc2 q) regX1, emit (encLSLimm regX1 regX1 3),
     emit (encADDreg regX0 regX0 regX1),
     (if isFPType (qTypeHint q) then emits [emit (encLDRDuoff 0 regX0 0), fpStore (gFr g) 0 (qDst q)]
         else emits [emit (encLDRuoff regX0 regX0 0), store (gFr g) regX0 (qDst q)])]"

definition emitArrayStore :: "elfGen \<Rightarrow> Quad \<Rightarrow> codeBuilder \<Rightarrow> codeBuilder" where
  "emitArrayStore g q =
     emits [arrayBase g (qDst q) regX0, load (gFr g) (qSrc1 q) regX1, emit (encLSLimm regX1 regX1 3),
     emit (encADDreg regX0 regX0 regX1),
     (if isFPType (qTypeHint q) then emits [fpLoad (gFr g) (qSrc2 q) 0, emit (encSTRDuoff 0 regX0 0)]
         else emits [load (gFr g) (qSrc2 q) regX2, emit (encSTRuoff regX2 regX0 0)])]"

definition emitCharArrayLoad :: "elfGen \<Rightarrow> Quad \<Rightarrow> codeBuilder \<Rightarrow> codeBuilder" where
  "emitCharArrayLoad g q =
     emits [arrayBase g (qSrc1 q) regX0, load (gFr g) (qSrc2 q) regX1, emit (encADDreg regX0 regX0 regX1),
     emit (encLDRBuoff regX0 regX0 0), store (gFr g) regX0 (qDst q)]"

definition emitCharArrayStore :: "elfGen \<Rightarrow> Quad \<Rightarrow> codeBuilder \<Rightarrow> codeBuilder" where
  "emitCharArrayStore g q =
     emits [arrayBase g (qDst q) regX0, load (gFr g) (qSrc1 q) regX1, emit (encADDreg regX0 regX0 regX1),
     load (gFr g) (qSrc2 q) regX2, emit (encSTRBuoff regX2 regX0 0)]"

definition field_load :: "TypeKind \<Rightarrow> int \<Rightarrow> 32 word" where
  "field_load t off =
     (if t = TypeChar then encLDRSBuoff regX0 regX0 off
      else if t = TypeUnsignedChar then encLDRBuoff regX0 regX0 off
      else if t = TypeShort then encLDRSH regX0 regX0 off
      else if t = TypeUnsignedShort then encLDRH regX0 regX0 off
      else if t = TypeInt then encLDRSWuoff regX0 regX0 off
      else if t = TypeUnsignedInt then encLDRWuoff regX0 regX0 off
      else encLDRuoff regX0 regX0 off)"

definition field_store :: "TypeKind \<Rightarrow> int \<Rightarrow> 32 word" where
  "field_store t off =
     (if t = TypeChar \<or> t = TypeUnsignedChar then encSTRBuoff regX1 regX0 off
      else if t = TypeShort \<or> t = TypeUnsignedShort then encSTRH regX1 regX0 off
      else if t = TypeInt \<or> t = TypeUnsignedInt then encSTRWuoff regX1 regX0 off
      else encSTRuoff regX1 regX0 off)"

fun gen_mem :: "elfGen \<Rightarrow> Quad \<Rightarrow> memop \<Rightarrow> codeBuilder \<Rightarrow> codeBuilder" where
  "gen_mem g q IRLoad = emitArrayLoad g q"
| "gen_mem g q IRStore = emitArrayStore g q"
| "gen_mem g q IRCharLoad = emitCharArrayLoad g q"
| "gen_mem g q IRCharStore = emitCharArrayStore g q"
| "gen_mem g q IRDerefLoad =
     unary (gFr g) q (if qTypeHint q = TypeChar \<or> qTypeHint q = TypeUnsignedChar
                      then emit (encLDRBuoff regX0 regX0 0) else emit (encLDRuoff regX0 regX0 0))"
| "gen_mem g q IRDerefStore =
     emits [load (gFr g) (qDst q) regX0, load (gFr g) (qSrc1 q) regX1,
     (if qTypeHint q = TypeChar \<or> qTypeHint q = TypeUnsignedChar
         then emit (encSTRBuoff regX1 regX0 0) else emit (encSTRuoff regX1 regX0 0))]"
| "gen_mem g q IRFDerefLoad =
     emits [load (gFr g) (qSrc1 q) regX0, emit (encLDRDuoff 0 regX0 0), fpStore (gFr g) 0 (qDst q)]"
| "gen_mem g q IRFDerefStore =
     emits [load (gFr g) (qDst q) regX0, fpLoad (gFr g) (qSrc1 q) 0, emit (encSTRDuoff 0 regX0 0)]"
| "gen_mem g q IRDerefCharLoad = unary (gFr g) q (emit (encLDRBuoff regX0 regX0 0))"
| "gen_mem g q IRDerefCharStore =
     emits [load (gFr g) (qDst q) regX0, load (gFr g) (qSrc1 q) regX1, emit (encSTRBuoff regX1 regX0 0)]"
| "gen_mem g q IRFieldLoad = unary (gFr g) q (emit (field_load (qTypeHint q) (aIVal (qSrc2 q))))"
| "gen_mem g q IRFieldStore =
     emits [load (gFr g) (qDst q) regX0, load (gFr g) (qSrc1 q) regX1, emit (field_store (qTypeHint q) (aIVal (qSrc2 q)))]"
| "gen_mem g q IRFFieldLoad =
     emits [load (gFr g) (qSrc1 q) regX0,
     (if qTypeHint q = TypeFloat then emits [emit (encLDRSuoff 0 regX0 (aIVal (qSrc2 q))), emit (encFCVTSD 0 0)]
         else emit (encLDRDuoff 0 regX0 (aIVal (qSrc2 q)))),
     fpStore (gFr g) 0 (qDst q)]"
| "gen_mem g q IRFFieldStore =
     emits [load (gFr g) (qDst q) regX0, fpLoad (gFr g) (qSrc1 q) 0,
     (if qTypeHint q = TypeFloat then emits [emit (encFCVTDS 0 0), emit (encSTRSuoff 0 regX0 (aIVal (qSrc2 q)))]
         else emit (encSTRDuoff 0 regX0 (aIVal (qSrc2 q))))]"
| "gen_mem g q IRStructCopy =
     (case gStructSize g (qStructTag q) of
        Some sz \<Rightarrow> emits [structBase g (qSrc1 q) regX9, structBase g (qDst q) 10, copy_words 11 regX9 10 0 (nat ((sz + 7) div 8))]
      | None \<Rightarrow> id)"

text \<open>Rounding the size up to 16 and moving the stack pointer down by it.\<close>

definition alloc_stack :: "frame \<Rightarrow> Quad \<Rightarrow> codeBuilder \<Rightarrow> codeBuilder" where
  "alloc_stack fr q =
     emits [emit (encADDimm regX0 regX0 15), emitMOVimm regX1 (- 16), emit (encAND regX0 regX0 regX1),
     emit (encSUBext regSP regSP regX0), emit (encADDimm regX0 regSP 0), store fr regX0 (qDst q)]"

fun gen_adr :: "elfGen \<Rightarrow> Quad \<Rightarrow> addrop \<Rightarrow> codeBuilder \<Rightarrow> codeBuilder" where
  "gen_adr g q IRGetAddr = emits [arrayBase g (qSrc1 q) regX0, store (gFr g) regX0 (qDst q)]"
| "gen_adr g q IRAddrOf =
     emits [(case aKind (qSrc1 q) of
        AddrLocal \<Rightarrow> emit (encADDimm regX0 (frameBase (gFr g)) (fr_off (gFr g) (aName (qSrc1 q))))
      | AddrTemp \<Rightarrow> emit (encADDimm regX0 (frameBase (gFr g)) (fr_off (gFr g) (aName (qSrc1 q))))
      | AddrGlobal \<Rightarrow> emits [emitLDRglobal (aName (qSrc1 q)), emit (encMOVreg regX0 regX9)]
      | _ \<Rightarrow> id),
     store (gFr g) regX0 (qDst q)]"
| "gen_adr g q IRFrameAddr = emits [emit (encMOVreg regX0 29), store (gFr g) regX0 (qDst q)]"
| "gen_adr g q IRStrAddr = emits [emitLDRglobal (qExtra q), emit (encMOVreg regX0 regX9), store (gFr g) regX0 (qDst q)]"
| "gen_adr g q IRFuncAddr =
     emits [emitLDRglobal (funcLabel (qExtra q)), emit (encMOVreg regX0 regX9), store (gFr g) regX0 (qDst q)]"
| "gen_adr g q IRVLAAlloc = emits [load (gFr g) (qSrc1 q) regX0, emit (encLSLimm regX0 regX0 3), alloc_stack (gFr g) q]"
| "gen_adr g q IRAllocaAlloc = emits [load (gFr g) (qSrc1 q) regX0, alloc_stack (gFr g) q]"

subsection \<open>Floating point\<close>

definition fbin :: "frame \<Rightarrow> Quad \<Rightarrow> (int \<Rightarrow> int \<Rightarrow> int \<Rightarrow> 32 word) \<Rightarrow> codeBuilder \<Rightarrow> codeBuilder" where
  "fbin fr q enc = emits [fpLoad fr (qSrc1 q) 0, fpLoad fr (qSrc2 q) 1, emit (enc 0 0 1), fpStore fr 0 (qDst q)]"

fun gen_fp :: "frame \<Rightarrow> Quad \<Rightarrow> fpop \<Rightarrow> codeBuilder \<Rightarrow> codeBuilder" where
  "gen_fp fr q IRFAdd = fbin fr q encFADDD"
| "gen_fp fr q IRFSub = fbin fr q encFSUBD"
| "gen_fp fr q IRFMul = fbin fr q encFMULD"
| "gen_fp fr q IRFDiv = fbin fr q encFDIVD"
| "gen_fp fr q IRFNeg = emits [fpLoad fr (qSrc1 q) 0, emit (encFNEGD 0 0), fpStore fr 0 (qDst q)]"
| "gen_fp fr q IRFCopy =
     emits [fpLoad fr (qSrc1 q) 0, (if qTypeHint q = TypeLongDouble then fpStoreLD fr 0 (qDst q) else fpStore fr 0 (qDst q))]"
| "gen_fp fr q IRFLt = emitFPCmpBool fr q condLT"
| "gen_fp fr q IRFLe = emitFPCmpBool fr q condLE"
| "gen_fp fr q IRFGt = emitFPCmpBool fr q condGT"
| "gen_fp fr q IRFGe = emitFPCmpBool fr q condGE"
| "gen_fp fr q IRFEq = emitFPCmpBool fr q condEQ"
| "gen_fp fr q IRFNe = emitFPCmpBool fr q condNE"
| "gen_fp fr q IRIntToDouble = emits [load fr (qSrc1 q) regX0, emit (encSCVTFD 0 regX0), fpStore fr 0 (qDst q)]"
| "gen_fp fr q IRDoubleToInt = emits [fpLoad fr (qSrc1 q) 0, emit (encFCVTZSD regX0 0), store fr regX0 (qDst q)]"
| "gen_fp fr q IRFBitcastFI = emits [fpLoad fr (qSrc1 q) 0, emit (encFMOVtoGP regX0 0), store fr regX0 (qDst q)]"
| "gen_fp fr q IRFBitcastIF = emits [load fr (qSrc1 q) regX0, emit (encFMOVfromGP 0 regX0), fpStore fr 0 (qDst q)]"
| "gen_fp fr q IRFIsNaN =
     emits [fpLoad fr (qSrc1 q) 0, emit (encFCMPD 0 0), emit (encCSET regX0 condVS), store fr regX0 (qDst q)]"
| "gen_fp fr q IRFIsInf =
     emits [fpLoad fr (qSrc1 q) 0, emit (encFABSD 0 0), emit (encMOVZ regX0 0x7FF0 48), emit (encFMOVfromGP 1 regX0),
     emit (encFCMPD 0 1), emit (encCSET regX0 condEQ), store fr regX0 (qDst q)]"
| "gen_fp fr q IRFCopySign =
     emits [fpLoad fr (qSrc1 q) 0, fpLoad fr (qSrc2 q) 1, emit (encFMOVtoGP regX0 0), emit (encFMOVtoGP regX1 1),
     emit (encMOVZ regX2 0x8000 48), emit (encAND regX1 regX1 regX2), emit (encMOVN regX2 0x8000 48),
     emit (encAND regX0 regX0 regX2), emit (encORR regX0 regX0 regX1), emit (encFMOVfromGP 0 regX0),
     fpStore fr 0 (qDst q)]"

subsection \<open>128-bit integers\<close>

definition emit128Shl :: "int \<Rightarrow> int \<Rightarrow> int \<Rightarrow> codeBuilder \<Rightarrow> codeBuilder" where
  "emit128Shl lo hi n =
     emits [emit (encUBFM hi hi (64 - n) (63 - n)), emit (encUBFM regX2 lo (64 - n) 63), emit (encORR hi hi regX2),
     emit (encUBFM lo lo (64 - n) (63 - n))]"

definition emit128LShr :: "int \<Rightarrow> int \<Rightarrow> int \<Rightarrow> codeBuilder \<Rightarrow> codeBuilder" where
  "emit128LShr lo hi n =
     emits [emit (encUBFM lo lo n 63), emit (encUBFM regX2 hi n (n - 1)), emit (encORR lo lo regX2),
     emit (encUBFM hi hi n 63)]"

definition load128_2 :: "frame \<Rightarrow> Quad \<Rightarrow> codeBuilder \<Rightarrow> codeBuilder" where
  "load128_2 fr q = emits [load128 fr (qSrc1 q) regX0 regX1, load128 fr (qSrc2 q) regX2 regX3]"

definition emit128Cmp :: "frame \<Rightarrow> Quad \<Rightarrow> bool \<Rightarrow> int \<Rightarrow> codeBuilder \<Rightarrow> codeBuilder" where
  "emit128Cmp fr q swapOps finalCond =
     emits [load128_2 fr q,
     (if swapOps then emits [emit (encSUBS regXZR regX2 regX0), emit (encSBCS regXZR regX3 regX1)]
         else emits [emit (encSUBS regXZR regX0 regX2), emit (encSBCS regXZR regX1 regX3)]),
     emit (encCSET regX0 finalCond), store fr regX0 (qDst q)]"

definition bin128 :: "frame \<Rightarrow> Quad \<Rightarrow> 32 word \<Rightarrow> 32 word \<Rightarrow> codeBuilder \<Rightarrow> codeBuilder" where
  "bin128 fr q lo_op hi_op = emits [load128_2 fr q, emit lo_op, emit hi_op, store128 fr regX0 regX1 (qDst q)]"

definition eq128 :: "frame \<Rightarrow> Quad \<Rightarrow> int \<Rightarrow> codeBuilder \<Rightarrow> codeBuilder" where
  "eq128 fr q cond =
     emits [load128_2 fr q, emit (encEOR regX0 regX0 regX2), emit (encEOR regX1 regX1 regX3),
     emit (encORR regX0 regX0 regX1), emit (encCMPimm0 regX0), emit (encCSET regX0 cond), store fr regX0 (qDst q)]"

definition shl128_body :: "int \<Rightarrow> codeBuilder \<Rightarrow> codeBuilder" where
  "shl128_body n =
     (if n = 0 then id
      else if n = 64 then emits [emit (encMOVreg regX1 regX0), emit (encMOVZ regX0 0 0)]
      else if 0 < n \<and> n < 64 then emit128Shl regX0 regX1 n
      else if 64 < n \<and> n < 128 then emits [emit (encUBFM regX1 regX0 (64 - (n - 64)) (63 - (n - 64))), emit (encMOVZ regX0 0 0)]
      else emits [emit (encMOVZ regX0 0 0), emit (encMOVZ regX1 0 0)])"

definition lshr128_body :: "int \<Rightarrow> codeBuilder \<Rightarrow> codeBuilder" where
  "lshr128_body n =
     (if n = 0 then id
      else if n = 64 then emits [emit (encMOVreg regX0 regX1), emit (encMOVZ regX1 0 0)]
      else if 0 < n \<and> n < 64 then emit128LShr regX0 regX1 n
      else if 64 < n \<and> n < 128 then emits [emit (encUBFM regX0 regX1 (n - 64) 63), emit (encMOVZ regX1 0 0)]
      else emits [emit (encMOVZ regX0 0 0), emit (encMOVZ regX1 0 0)])"

definition ashr128_body :: "int \<Rightarrow> codeBuilder \<Rightarrow> codeBuilder" where
  "ashr128_body n =
     (if n = 0 then id
      else if n = 64 then emits [emit (encMOVreg regX0 regX1), emit (encASR regX1 regX1 63)]
      else if 0 < n \<and> n < 64 then
        emits [emit (encUBFM regX0 regX0 n 63), emit (encUBFM regX2 regX1 n (n - 1)), emit (encORR regX0 regX0 regX2),
        emit (encASR regX1 regX1 n)]
      else emits [emit (encASR regX0 regX1 63), emit (encASR regX1 regX1 63)])"

definition shift128 :: "frame \<Rightarrow> Quad \<Rightarrow> (codeBuilder \<Rightarrow> codeBuilder) \<Rightarrow> codeBuilder \<Rightarrow> codeBuilder" where
  "shift128 fr q body = emits [load128 fr (qSrc1 q) regX0 regX1, body, store128 fr regX0 regX1 (qDst q)]"

fun gen_128 :: "frame \<Rightarrow> Quad \<Rightarrow> op128 \<Rightarrow> codeBuilder \<Rightarrow> codeBuilder" where
  "gen_128 fr q IR128Copy = emits [load128 fr (qSrc1 q) regX0 regX1, store128 fr regX0 regX1 (qDst q)]"
| "gen_128 fr q IR128Add = bin128 fr q (encADDS regX0 regX0 regX2) (encADC regX1 regX1 regX3)"
| "gen_128 fr q IR128Sub = bin128 fr q (encSUBS regX0 regX0 regX2) (encSBC regX1 regX1 regX3)"
| "gen_128 fr q IR128Mul =
     emits [load128_2 fr q, emit (encMUL regX4 regX0 regX2),
     (if qTypeHint q = TypeUint128 then emit (encUMULH regX5 regX0 regX2) else emit (encSMULH regX5 regX0 regX2)),
     store128 fr regX4 regX5 (qDst q)]"
| "gen_128 fr q IR128And = bin128 fr q (encAND regX0 regX0 regX2) (encAND regX1 regX1 regX3)"
| "gen_128 fr q IR128Or = bin128 fr q (encORR regX0 regX0 regX2) (encORR regX1 regX1 regX3)"
| "gen_128 fr q IR128Xor = bin128 fr q (encEOR regX0 regX0 regX2) (encEOR regX1 regX1 regX3)"
| "gen_128 fr q IR128Neg =
     emits [load128 fr (qSrc1 q) regX0 regX1, emit (encNEGS regX0 regX0), emit (encNGC regX1 regX1),
     store128 fr regX0 regX1 (qDst q)]"
| "gen_128 fr q IR128Shl = shift128 fr q (shl128_body (aIVal (qSrc2 q)))"
| "gen_128 fr q IR128LShr = shift128 fr q (lshr128_body (aIVal (qSrc2 q)))"
| "gen_128 fr q IR128AShr = shift128 fr q (ashr128_body (aIVal (qSrc2 q)))"
| "gen_128 fr q IR128FromU64 = emits [load fr (qSrc1 q) regX0, emit (encMOVZ regX1 0 0), store128 fr regX0 regX1 (qDst q)]"
| "gen_128 fr q IR128FromI64 = emits [load fr (qSrc1 q) regX0, emit (encASR regX1 regX0 63), store128 fr regX0 regX1 (qDst q)]"
| "gen_128 fr q IR64From128 = emits [load128 fr (qSrc1 q) regX0 regX1, store fr regX0 (qDst q)]"
| "gen_128 fr q IR128Eq = eq128 fr q condEQ"
| "gen_128 fr q IR128Ne = eq128 fr q condNE"
| "gen_128 fr q IR128ULt = emit128Cmp fr q False condLO"
| "gen_128 fr q IR128ULe = emit128Cmp fr q True condHS"
| "gen_128 fr q IR128UGt = emit128Cmp fr q True condLO"
| "gen_128 fr q IR128UGe = emit128Cmp fr q False condHS"
| "gen_128 fr q IR128SLt = emit128Cmp fr q False condLT"
| "gen_128 fr q IR128SLe = emit128Cmp fr q True condGE"
| "gen_128 fr q IR128SGt = emit128Cmp fr q True condLT"
| "gen_128 fr q IR128SGe = emit128Cmp fr q False condGE"

subsection \<open>Calls and control flow\<close>

fun call_params :: "elfGen \<Rightarrow> paramArg list \<Rightarrow> int \<Rightarrow> int \<Rightarrow> codeBuilder \<Rightarrow> codeBuilder" where
  "call_params g [] iIdx fIdx cb = cb"
| "call_params g (p # ps) iIdx fIdx cb =
     (let size = struct_size0 g (paStructTag p)
      in if paIsStruct p then
           (if size \<le> 8 then
              call_params g ps (iIdx + 1) fIdx ((emits [structBase g (paAddr p) regX9, emit (encLDRuoff iIdx regX9 0)]) cb)
            else if size \<le> 16 then
              call_params g ps (iIdx + 2) fIdx
                ((emits [structBase g (paAddr p) regX9, emit (encLDRuoff iIdx regX9 0), emit (encLDRuoff (iIdx + 1) regX9 8)]) cb)
            else call_params g ps (iIdx + 1) fIdx (structBase g (paAddr p) iIdx cb))
         else if paIsFP p then
           (if fIdx < 8 then call_params g ps iIdx (fIdx + 1) (fpLoad (gFr g) (paAddr p) fIdx cb)
            else call_params g ps iIdx fIdx cb)
         else
           (if iIdx < 8 then call_params g ps (iIdx + 1) fIdx (load (gFr g) (paAddr p) iIdx cb)
            else call_params g ps iIdx fIdx cb))"

fun ptr_call_params :: "frame \<Rightarrow> paramArg list \<Rightarrow> int \<Rightarrow> int \<Rightarrow> codeBuilder \<Rightarrow> codeBuilder" where
  "ptr_call_params fr [] iIdx fIdx cb = cb"
| "ptr_call_params fr (p # ps) iIdx fIdx cb =
     (if paIsFP p then
        (if fIdx < 8 then ptr_call_params fr ps iIdx (fIdx + 1) (fpLoad fr (paAddr p) fIdx cb)
         else ptr_call_params fr ps iIdx fIdx cb)
      else
        (if iIdx < 8 then ptr_call_params fr ps (iIdx + 1) fIdx (load fr (paAddr p) iIdx cb)
         else ptr_call_params fr ps iIdx fIdx cb))"

fun va_reg_slots :: "elfGen \<Rightarrow> string list \<Rightarrow> TypeKind list \<Rightarrow> string list \<Rightarrow> int" where
  "va_reg_slots g (n # ns) (t # ts) tags =
     (let size = struct_size0 g (if tags = [] then [] else hd tags)
      in (if t = TypeStruct then (if 8 < size \<and> size \<le> 16 then 2 else 1) else if \<not> isFPType t then 1 else 0)
         + va_reg_slots g ns ts (tl tags))"
| "va_reg_slots g _ _ tags = 0"

definition emit_bl :: "elfGen \<Rightarrow> string \<Rightarrow> codeBuilder \<Rightarrow> codeBuilder" where
  "emit_bl g name =
     (if gIsObjMode g then (if gLocalFuncs g name then emitBL (funcLabel name) else emitBLextern (funcLabel name))
      else emitBL (funcLabel name))"

definition emitCall :: "elfGen \<Rightarrow> Quad \<Rightarrow> codeBuilder \<Rightarrow> codeBuilder" where
  "emitCall g q =
     (let fn = gFn g; size = struct_size0 g (qStructTag q)
      in if qExtra q = ''__va_start'' then
           emits [emit (encADDimm regX0 regSP (16 + 8 * va_reg_slots g (fnParams fn) (fnParamType fn) (fnParamStructTag fn))),
           (if aKind (qDst q) \<noteq> AddrNone then store (gFr g) regX0 (qDst q) else id)]
         else
           emits [call_params g (gPending g) 0 0,
           (if qTypeHint q = TypeStruct \<and> qStructTag q \<noteq> [] then
                 emits [(if 16 < size then arrayBase g (qSrc2 q) regX8 else id),
                 emit_bl g (qExtra q),
                 (if size \<le> 8 then emits [arrayBase g (qSrc2 q) regX9, emit (encSTRuoff regX0 regX9 0)]
                     else if size \<le> 16 then
                       emits [arrayBase g (qSrc2 q) regX9, emit (encSTRuoff regX0 regX9 0), emit (encSTRuoff regX1 regX9 8)]
                     else id)]
               else
                 emits [emit_bl g (qExtra q),
                 (if aKind (qDst q) \<noteq> AddrNone then
                       (if isFPType (gFuncRetType g (qExtra q)) then fpStore (gFr g) 0 (qDst q)
                        else store (gFr g) regX0 (qDst q))
                     else id)])])"

definition emitFuncPtrCall :: "elfGen \<Rightarrow> Quad \<Rightarrow> codeBuilder \<Rightarrow> codeBuilder" where
  "emitFuncPtrCall g q =
     emits [ptr_call_params (gFr g) (gPending g) 0 0, load (gFr g) (qSrc1 q) regX16, emit (encBLR regX16),
     (if aKind (qDst q) \<noteq> AddrNone then store (gFr g) regX0 (qDst q) else id)]"

definition emitReturn :: "elfGen \<Rightarrow> Quad \<Rightarrow> codeBuilder \<Rightarrow> codeBuilder" where
  "emitReturn g q =
     (if qTypeHint q = TypeStruct \<and> qStructTag q \<noteq> [] then emitStructReturn g q
      else emits [(if aKind (qSrc1 q) \<noteq> AddrNone then
              (if isFPType (fnReturnType (gFn g)) then fpLoad (gFr g) (qSrc1 q) 0 else load (gFr g) (qSrc1 q) regX0)
            else id),
           emitEpilogue (gFr g)])"

text \<open>One quad. Only parameters and calls touch the list of pending parameters.\<close>

definition upd_cb :: "(codeBuilder \<Rightarrow> codeBuilder) \<Rightarrow> elfGen \<Rightarrow> elfGen" where
  "upd_cb f g = g\<lparr>gCb := f (gCb g)\<rparr>"

fun gen_ctl :: "elfGen \<Rightarrow> Quad \<Rightarrow> ctlop \<Rightarrow> elfGen" where
  "gen_ctl g q IREnter = g"
| "gen_ctl g q IRLabel = upd_cb (defineLabel (irLabel (fnName (gFn g)) (qExtra q))) g"
| "gen_ctl g q IRJump = upd_cb (emitB (irLabel (fnName (gFn g)) (qExtra q))) g"
| "gen_ctl g q IRJumpT =
     upd_cb (emits [load (gFr g) (qSrc1 q) regX0, emit (encCMPimm0 regX0),
             emitBcond condNE (irLabel (fnName (gFn g)) (qExtra q))]) g"
| "gen_ctl g q IRJumpF =
     upd_cb (emits [load (gFr g) (qSrc1 q) regX0, emit (encCMPimm0 regX0),
             emitBcond condEQ (irLabel (fnName (gFn g)) (qExtra q))]) g"
| "gen_ctl g q IRLabelAddr =
     upd_cb (emits [emitADR regX0 (irLabel (fnName (gFn g)) (qExtra q)), store (gFr g) regX0 (qDst q)]) g"
| "gen_ctl g q IRIndirectJump = upd_cb (emits [load (gFr g) (qSrc1 q) regX16, emit (encBR regX16)]) g"
| "gen_ctl g q IRParam =
     (if qTypeHint q = TypeStruct
      then g\<lparr>gPending := gPending g @ [\<lparr>paAddr = qSrc1 q, paIsFP = False, paIsStruct = True, paStructTag = qStructTag q\<rparr>]\<rparr>
      else g\<lparr>gPending := gPending g @ [\<lparr>paAddr = qSrc1 q, paIsFP = False, paIsStruct = False, paStructTag = []\<rparr>]\<rparr>)"
| "gen_ctl g q IRFParam =
     g\<lparr>gPending := gPending g @ [\<lparr>paAddr = qSrc1 q, paIsFP = True, paIsStruct = False, paStructTag = []\<rparr>]\<rparr>"
| "gen_ctl g q IRCall = (upd_cb (emitCall g q) g)\<lparr>gPending := []\<rparr>"
| "gen_ctl g q IRFuncPtrCall = (upd_cb (emitFuncPtrCall g q) g)\<lparr>gPending := []\<rparr>"
| "gen_ctl g q IRReturn = upd_cb (emitReturn g q) g"

definition genQuad :: "Quad \<Rightarrow> elfGen \<Rightarrow> elfGen" where
  "genQuad q g =
     (case qOp q of
        OpCtl c \<Rightarrow> gen_ctl g q c
      | OpArith a \<Rightarrow> upd_cb (emitArith (gFr g) q (arith_enc a)) g
      | OpCmp c \<Rightarrow> upd_cb (emitCmpBool (gFr g) q (cmp_cond c)) g
      | OpInt i \<Rightarrow> upd_cb (gen_int (gFr g) q i) g
      | OpMem m \<Rightarrow> upd_cb (gen_mem g q m) g
      | OpAdr a \<Rightarrow> upd_cb (gen_adr g q a) g
      | OpFp f \<Rightarrow> upd_cb (gen_fp (gFr g) q f) g
      | Op128 w \<Rightarrow> upd_cb (gen_128 (gFr g) q w) g)"

definition genFunc :: "IRFunc \<Rightarrow> elfGen \<Rightarrow> elfGen" where
  "genFunc fn g =
     (let g = g\<lparr>gFn := fn, gFr := buildFrame (gStructSize g) fn, gPending := []\<rparr>;
          g = upd_cb (defineLabel (funcLabel (fnName fn))) g;
          g = upd_cb (emitPrologue g) g
      in fold genQuad (fnQuads fn) g)"

subsection \<open>Runtime helpers\<close>

definition emitSbrkFn :: "codeBuilder \<Rightarrow> codeBuilder" where
  "emitSbrkFn =
     emits [defineLabel ''sbrk'',
     emit (encSUBimm regSP regSP 48), emit (encSTP regFP regLR regSP 0), emit (encSTP regX19 regX20 regSP 16),
     emit (encSTP regX21 22 regSP 32), emit (encADDimm regFP regSP 0),
     emit (encMOVreg regX19 regX0),
     emitLDRglobal ''sbrk_cur_brk'', emit (encMOVreg regX20 regX9),
     emit (encLDRuoff regX21 regX20 0), emitCBNZ regX21 ''sbrk_have_brk'',
     emit (encMOVZ regX0 0 0), emitMOVimm regX8 214, emit (encSVC 0), emitCBNZ regX0 ''sbrk_init_ok'',
     emit (encMOVN regX0 0 0), emitB ''sbrk_epilogue'',
     defineLabel ''sbrk_init_ok'', emit (encMOVreg regX21 regX0), emit (encSTRuoff regX21 regX20 0),
     defineLabel ''sbrk_have_brk'', emit (encMOVreg regX0 regX21), emitCBZ regX19 ''sbrk_epilogue'',
     emit (encADDreg regX0 regX21 regX19), emitMOVimm regX8 214, emit (encSVC 0),
     emit (encADDreg regX1 regX21 regX19), emit (encCMPreg regX0 regX1), emitBcond condGE ''sbrk_ok'',
     emit (encMOVN regX0 0 0), emitB ''sbrk_epilogue'',
     defineLabel ''sbrk_ok'', emit (encSTRuoff regX0 regX20 0), emit (encMOVreg regX0 regX21),
     defineLabel ''sbrk_epilogue'',
     emit (encLDP regX21 22 regSP 32), emit (encLDP regX19 regX20 regSP 16), emit (encLDP regFP regLR regSP 0),
     emit (encADDimm regSP regSP 48), emit encRET]"

definition syscall_stub :: "string \<Rightarrow> int \<Rightarrow> codeBuilder \<Rightarrow> codeBuilder" where
  "syscall_stub name nr = emits [defineLabel name, emitMOVimm regX8 nr, emit (encSVC 0), emit encRET]"

definition emitPosixSyscalls :: "codeBuilder \<Rightarrow> codeBuilder" where
  "emitPosixSyscalls =
     emits [syscall_stub ''read'' 63, syscall_stub ''write'' 64,
     defineLabel ''open'', emit (encMOVreg regX3 regX2), emit (encMOVreg regX2 regX1), emit (encMOVreg regX1 regX0),
     emitMOVimm regX0 0, emit (encSUBimm regX0 regX0 100), emitMOVimm regX8 56, emit (encSVC 0), emit encRET,
     syscall_stub ''close'' 57, syscall_stub ''lseek'' 62]"

definition emitSetjmpFns :: "codeBuilder \<Rightarrow> codeBuilder" where
  "emitSetjmpFns =
     emits [defineLabel ''setjmp'',
     emit (encSTP 19 20 regX0 0), emit (encSTP 21 22 regX0 16), emit (encSTP 23 24 regX0 32),
     emit (encSTP 25 26 regX0 48), emit (encSTP 27 28 regX0 64), emit (encSTP regFP regLR regX0 80),
     emit (encADDimm regX1 regSP 0), emit (encSTRuoff regX1 regX0 96), emitMOVimm regX0 0, emit encRET,
     defineLabel ''longjmp'',
     emit (encMOVreg regX3 regX0), emit (encMOVreg regX2 regX1),
     emit (encLDP 19 20 regX3 0), emit (encLDP 21 22 regX3 16), emit (encLDP 23 24 regX3 32),
     emit (encLDP 25 26 regX3 48), emit (encLDP 27 28 regX3 64), emit (encLDP regFP regLR regX3 80),
     emit (encLDRuoff regX1 regX3 96), emit (encADDimm regSP regX1 0),
     emit (encCBNZ regX2 2), emitMOVimm regX2 1, emit (encMOVreg regX0 regX2), emit encRET]"

subsection \<open>The text of an object file and the runtime code\<close>

text \<open>The default section of \<open>genObjectFile\<close>: the functions one after the other, then the fixups.\<close>

definition gen_code :: "elfGen \<Rightarrow> IRGlobal list \<Rightarrow> IRStrLit list \<Rightarrow> IRFConst list \<Rightarrow> string list \<Rightarrow> IRFunc list \<Rightarrow> codeBuilder" where
  "gen_code gen globals strLits fconsts funcRefs fns =
     gCb (fold genFunc fns (gen\<lparr>gCb := newCodeBuilder globals strLits fconsts funcRefs, gPending := []\<rparr>))"

definition gen_text :: "elfGen \<Rightarrow> IRGlobal list \<Rightarrow> IRStrLit list \<Rightarrow> IRFConst list \<Rightarrow> string list \<Rightarrow> IRFunc list \<Rightarrow> fixupError + codeBuilder" where
  "gen_text gen globals strLits fconsts funcRefs fns = applyFixups (gen_code gen globals strLits fconsts funcRefs fns)"

text \<open>The code the linker puts in front of the objects.\<close>

definition runtime_code :: codeBuilder where
  "runtime_code =
     (emits [defineLabel ''_start'', emitBL ''__posix_stdio_init'', emitBL ''main'', emitMOVimm regX0 0, emitMOVimm regX8 94,
      emit (encSVC 0), emitSbrkFn, emitPosixSyscalls, emitSetjmpFns])
     (newCodeBuilder [\<lparr>glName = ''sbrk_cur_brk'', glIsPtr = False\<rparr>] [] [] [])"

end
