(* ===== verification/Block.thy ===== *)
theory Block
  imports ElfGen
begin

section \<open>Running emitted code\<close>

text \<open>
  A calculus for the code that the builder emits: \<open>impl M f F\<close> says that the words \<open>f\<close> appends,
  when they stand in the text of image \<open>M\<close> at the place where they were emitted, take every machine
  state \<open>s\<close> to \<open>F s\<close> and leave the program counter behind the block. It accounts for
  the store-then-load peephole: \<open>last_ok\<close> says what the last word emitted allows a load
  to skip.
\<close>

subsection \<open>The code generator as compositions\<close>

text \<open>The equations of \<open>ElfGen\<close> with the sequences of emissions unfolded.\<close>

lemmas load_def = load_def [unfolded emits_simps]
lemmas store_def = store_def [unfolded emits_simps]
lemmas fpLoad_def = fpLoad_def [unfolded emits_simps]
lemmas load128_def = load128_def [unfolded emits_simps]
lemmas store128_def = store128_def [unfolded emits_simps]
lemmas fpStore_def = fpStore_def [unfolded emits_simps]
lemmas fpStoreLD_def = fpStoreLD_def [unfolded emits_simps]
lemmas structBase_def = structBase_def [unfolded emits_simps]
lemmas arrayBase_def = arrayBase_def [unfolded emits_simps]
lemmas emitFPCmpBool_def = emitFPCmpBool_def [unfolded emits_simps]
lemmas copy_words_def = copy_words_def [unfolded emits_simps]
lemmas emitPrologue_def = emitPrologue_def [unfolded emits_simps]
lemmas emitEpilogue_def = emitEpilogue_def [unfolded emits_simps]
lemmas emitStructReturn_def = emitStructReturn_def [unfolded emits_simps]
lemmas emitArith_def = emitArith_def [unfolded emits_simps]
lemmas emitMod_def = emitMod_def [unfolded emits_simps]
lemmas emitUMod_def = emitUMod_def [unfolded emits_simps]
lemmas emitCmpBool_def = emitCmpBool_def [unfolded emits_simps]
lemmas unary_def = unary_def [unfolded emits_simps]
lemmas load2_def = load2_def [unfolded emits_simps]
lemmas emitArrayLoad_def = emitArrayLoad_def [unfolded emits_simps]
lemmas emitArrayStore_def = emitArrayStore_def [unfolded emits_simps]
lemmas emitCharArrayLoad_def = emitCharArrayLoad_def [unfolded emits_simps]
lemmas emitCharArrayStore_def = emitCharArrayStore_def [unfolded emits_simps]
lemmas alloc_stack_def = alloc_stack_def [unfolded emits_simps]
lemmas fbin_def = fbin_def [unfolded emits_simps]
lemmas emit128Shl_def = emit128Shl_def [unfolded emits_simps]
lemmas emit128LShr_def = emit128LShr_def [unfolded emits_simps]
lemmas load128_2_def = load128_2_def [unfolded emits_simps]
lemmas emit128Cmp_def = emit128Cmp_def [unfolded emits_simps]
lemmas bin128_def = bin128_def [unfolded emits_simps]
lemmas eq128_def = eq128_def [unfolded emits_simps]
lemmas shl128_body_def = shl128_body_def [unfolded emits_simps]
lemmas lshr128_body_def = lshr128_body_def [unfolded emits_simps]
lemmas ashr128_body_def = ashr128_body_def [unfolded emits_simps]
lemmas shift128_def = shift128_def [unfolded emits_simps]
lemmas emitCall_def = emitCall_def [unfolded emits_simps]
lemmas emitFuncPtrCall_def = emitFuncPtrCall_def [unfolded emits_simps]
lemmas emitReturn_def = emitReturn_def [unfolded emits_simps]
lemmas emitSbrkFn_def = emitSbrkFn_def [unfolded emits_simps]
lemmas syscall_stub_def = syscall_stub_def [unfolded emits_simps]
lemmas emitPosixSyscalls_def = emitPosixSyscalls_def [unfolded emits_simps]
lemmas emitSetjmpFns_def = emitSetjmpFns_def [unfolded emits_simps]
lemmas runtime_code_def = runtime_code_def [unfolded emits_simps]
lemmas prologue_params_simps = prologue_params.simps [unfolded emits_simps]
lemmas gen_int_simps = gen_int.simps [unfolded emits_simps]
lemmas gen_mem_simps = gen_mem.simps [unfolded emits_simps]
lemmas gen_adr_simps = gen_adr.simps [unfolded emits_simps]
lemmas gen_fp_simps = gen_fp.simps [unfolded emits_simps]
lemmas gen_128_simps = gen_128.simps [unfolded emits_simps]
lemmas call_params_simps = call_params.simps [unfolded emits_simps]
lemmas gen_ctl_simps = gen_ctl.simps [unfolded emits_simps]

subsection \<open>Memory\<close>

definition disj :: "nat \<Rightarrow> 64 word \<Rightarrow> nat \<Rightarrow> 64 word \<Rightarrow> bool" where
  "disj k a l b \<longleftrightarrow> (\<forall>i < k. \<forall>j < l. a + of_nat i \<noteq> b + of_nat j)"

lemma stb_other: "(\<forall>i < k. b \<noteq> a + of_nat i) \<Longrightarrow> stb k m a w b = m b"
proof (induction k arbitrary: m a w)
  case (Suc k)
  have "b \<noteq> a + 1 + of_nat i" if "i < k" for i using Suc.prems [rule_format, of "Suc i"] that by (simp add: add.assoc)
  moreover have "b \<noteq> a" using Suc.prems [rule_format, of 0] by simp
  ultimately show ?case using Suc.IH by simp
qed simp

lemma ldb_cong: "(\<forall>j < l. m (b + of_nat j) = m' (b + of_nat j)) \<Longrightarrow> ldb l m b = ldb l m' b"
proof (induction l arbitrary: b)
  case (Suc l)
  have "m b = m' b" using Suc.prems [rule_format, of 0] by simp
  moreover have "m (b + 1 + of_nat j) = m' (b + 1 + of_nat j)" if "j < l" for j
    using Suc.prems [rule_format, of "Suc j"] that by (simp add: add.assoc)
  ultimately show ?case using Suc.IH [of "b + 1"] by simp
qed simp

lemma ldb_stb_disj: "disj k a l b \<Longrightarrow> ldb l (stb k m a w) b = ldb l m b"
  by (intro ldb_cong allI impI stb_other) (auto simp: disj_def eq_commute)

lemma ldb_stb: "k \<le> 8 \<Longrightarrow> ldb k (stb k m a w) a = take_bit (8 * k) w"
proof (induction k arbitrary: m a w)
  case (Suc k)
  have "a \<noteq> a + 1 + of_nat i" if "i < k" for i
  proof
    assume "a = a + 1 + of_nat i"
    then have "of_nat (Suc i) = (0 :: 64 word)" by (simp add: add.assoc)
    moreover have "unat (of_nat (Suc i) :: 64 word) = Suc i" using that Suc.prems by (simp only: unsigned_of_nat) (simp add: take_bit_nat_eq_self)
    ultimately show False by simp
  qed
  then have "stb k (m(a := ucast w)) (a + 1) (drop_bit 8 w) a = ucast w" by (simp add: stb_other)
  moreover have "ldb k (stb k (m(a := ucast w)) (a + 1) (drop_bit 8 w)) (a + 1) = take_bit (8 * k) (drop_bit 8 w)"
    using Suc by simp
  moreover have "ucast (ucast w :: 8 word) = take_bit 8 w" by (transfer, simp)
  ultimately show ?case by simp (rule bit_eqI, auto simp: bit_simps)
qed simp

lemma ld64_st64 [simp]: "ld64 (st64 m a w) a = w"
  using ldb_stb [of 8 m a w] take_bit_word_eq_self [of 64 w] by simp

subsection \<open>The text of an image\<close>

text \<open>\<open>imPool\<close> is the pool index of the builder and \<open>imAddr\<close> what the linker put into the pool.\<close>

record image =
  imSeg :: seg
  imPool :: "string \<Rightarrow> nat option"
  imAddr :: "string \<Rightarrow> 64 word"

definition pcAt :: "seg \<Rightarrow> nat \<Rightarrow> 64 word" where
  "pcAt T i = txt_base T + 4 * of_nat i"

definition pcs :: "seg \<Rightarrow> nat \<Rightarrow> arm \<Rightarrow> arm" where
  "pcs T i s = s\<lparr>aPC := pcAt T i\<rparr>"

definition linked :: "image \<Rightarrow> bool" where
  "linked M \<longleftrightarrow> length (txt_words (imSeg M)) < 2 ^ 18 \<and>
     (\<forall>g k. imPool M g = Some k \<longrightarrow> 2 * k + 1 < length (txt_words (imSeg M)) \<and>
        lit64 (imSeg M) (pcAt (imSeg M) (2 * k)) = Some (imAddr M g))"

lemma unat_4: "i < 2 ^ 18 \<Longrightarrow> unat (4 * of_nat i :: 64 word) = 4 * i"
proof -
  assume "i < 2 ^ 18"
  then have "unat (of_nat (4 * i) :: 64 word) = 4 * i" by (simp only: unsigned_of_nat) (simp add: take_bit_nat_eq_self)
  then show ?thesis by simp
qed

lemma fetch_at: "i < length (txt_words T) \<Longrightarrow> length (txt_words T) < 2 ^ 18 \<Longrightarrow> fetch T (pcAt T i) = Some (txt_words T ! i)"
  by (simp add: fetch_def pcAt_def txt_index_def unat_4 del: power_numeral)

lemma step_at:
  assumes "i < length (txt_words T)" "length (txt_words T) < 2 ^ 18" "decode (txt_words T ! i) = Some x"
  shows "step T (pcs T i s) = exec T x (pcs T i s)"
  using fetch_at [OF assms(1,2)] assms(3) by (simp add: step_def pcs_def)

subsection \<open>Blocks of code\<close>

definition straight :: "codeBuilder \<Rightarrow> codeBuilder \<Rightarrow> bool" where
  "straight cb cb' \<longleftrightarrow> (\<exists>ws b. cb' = cb\<lparr>instrs := instrs cb @ ws, peepholeBarrier := b\<rparr>)"

lemma straight_refl [simp]: "straight cb cb"
  unfolding straight_def by (rule exI [of _ "[]"], rule exI [of _ "peepholeBarrier cb"]) simp

lemma straight_trans:
  assumes "straight a b" "straight b c"
  shows "straight a c"
proof -
  obtain ws x where b: "b = a\<lparr>instrs := instrs a @ ws, peepholeBarrier := x\<rparr>" using assms(1) by (auto simp: straight_def)
  obtain vs y where c: "c = b\<lparr>instrs := instrs b @ vs, peepholeBarrier := y\<rparr>" using assms(2) by (auto simp: straight_def)
  have "c = a\<lparr>instrs := instrs a @ (ws @ vs), peepholeBarrier := y\<rparr>" by (simp add: b c)
  then show ?thesis unfolding straight_def by blast
qed

lemma straight_emit [simp]: "straight cb (emit w cb)"
  unfolding straight_def emit_def by auto

lemma straightD:
  assumes "straight cb cb'"
  shows "\<exists>ws. instrs cb' = instrs cb @ ws" "length (instrs cb) \<le> length (instrs cb')"
    "labels cb' = labels cb" "fixups cb' = fixups cb" "poolIdx cb' = poolIdx cb" "externBLs cb' = externBLs cb"
  using assms by (auto simp: straight_def)

definition code_at :: "seg \<Rightarrow> codeBuilder \<Rightarrow> codeBuilder \<Rightarrow> bool" where
  "code_at T cb cb' \<longleftrightarrow> length (instrs cb') \<le> length (txt_words T) \<and>
     (\<forall>i. length (instrs cb) \<le> i \<and> i < length (instrs cb') \<longrightarrow> txt_words T ! i = instrs cb' ! i)"

lemma code_at_split:
  assumes "code_at T a c" "straight a b" "straight b c"
  shows "code_at T a b" "code_at T b c"
proof -
  obtain ws where ws: "instrs c = instrs b @ ws" using assms(3) by (auto simp: straight_def)
  have "length (instrs a) \<le> length (instrs b)" using straightD(2) [OF assms(2)] .
  then show "code_at T a b" "code_at T b c" using assms(1) by (auto simp: code_at_def ws nth_append)
qed

text \<open>What the last word tells about the state behind it.\<close>

definition last_ok :: "codeBuilder \<Rightarrow> arm \<Rightarrow> bool" where
  "last_ok cb s \<longleftrightarrow> (instrs cb \<noteq> [] \<and> \<not> peepholeBarrier cb \<longrightarrow>
     (\<forall>t n. decode (last (instrs cb)) = Some (LS STR_X t 31 n) \<longrightarrow> ld64 (aM s) (aSP s + of_nat n) = rX s t))"

definition impl :: "image \<Rightarrow> (codeBuilder \<Rightarrow> codeBuilder) \<Rightarrow> (arm \<Rightarrow> arm) \<Rightarrow> bool" where
  "impl M f F \<longleftrightarrow> (\<forall>cb s. straight cb (f cb) \<and>
     (poolIdx cb = imPool M \<and> linked M \<and> code_at (imSeg M) cb (f cb) \<and> last_ok cb s \<longrightarrow>
        runs (imSeg M) (pcs (imSeg M) (length (instrs cb)) s) (pcs (imSeg M) (length (instrs (f cb))) (F s))
        \<and> last_ok (f cb) (F s)))"

lemma implD:
  assumes "impl M f F" "poolIdx cb = imPool M" "linked M" "code_at (imSeg M) cb (f cb)" "last_ok cb s"
  shows "runs (imSeg M) (pcs (imSeg M) (length (instrs cb)) s) (pcs (imSeg M) (length (instrs (f cb))) (F s))"
    "last_ok (f cb) (F s)"
  using assms unfolding impl_def by blast+

lemma impl_straight: "impl M f F \<Longrightarrow> straight cb (f cb)"
  by (simp add: impl_def)

lemma impl_id [intro]: "impl M id (\<lambda>s. s)"
  by (simp add: impl_def)

lemma impl_seq [intro]:
  assumes f: "impl M f F" and g: "impl M g G"
  shows "impl M (fcomp f g) (\<lambda>s. G (F s))"
  unfolding impl_def
proof (intro allI conjI impI)
  fix cb s
  have st: "straight cb (f cb)" "straight (f cb) (g (f cb))" using f g by (auto simp: impl_def)
  then show "straight cb ((fcomp f g) cb)" by (simp add: fcomp_def straight_trans [OF st])
  assume a: "poolIdx cb = imPool M \<and> linked M \<and> code_at (imSeg M) cb ((fcomp f g) cb) \<and> last_ok cb s"
  note c = code_at_split [OF _ st, of "imSeg M"]
  have F: "runs (imSeg M) (pcs (imSeg M) (length (instrs cb)) s) (pcs (imSeg M) (length (instrs (f cb))) (F s))"
    "last_ok (f cb) (F s)" using implD [OF f] a c by (auto simp: fcomp_def)
  have G: "runs (imSeg M) (pcs (imSeg M) (length (instrs (f cb))) (F s)) (pcs (imSeg M) (length (instrs (g (f cb)))) (G (F s)))"
    "last_ok (g (f cb)) (G (F s))" using implD [OF g] a c F straightD(5) [OF st(1)] by (auto simp: fcomp_def)
  show "runs (imSeg M) (pcs (imSeg M) (length (instrs cb)) s) (pcs (imSeg M) (length (instrs ((fcomp f g) cb))) (G (F s)))"
    "last_ok ((fcomp f g) cb) (G (F s))" using runs_trans [OF F(1) G(1)] G(2) by (simp_all add: fcomp_def)
qed

lemma impl_cong: "impl M f F \<Longrightarrow> (\<And>s. F s = F' s) \<Longrightarrow> impl M f F'"
  by (simp add: impl_def)

text \<open>One instruction. Its effect does not depend on the program counter.\<close>

lemma impl_emit:
  assumes d: "decode w = Some i"
    and e: "\<And>s pc. exec (imSeg M) i (s\<lparr>aPC := pc\<rparr>) = Some ((F s)\<lparr>aPC := pc + 4\<rparr>)"
  shows "impl M (emit w) F"
  unfolding impl_def
proof (intro allI conjI impI)
  fix cb :: codeBuilder and s :: arm
  let ?T = "imSeg M" and ?n = "length (instrs cb)"
  assume a: "poolIdx cb = imPool M \<and> linked M \<and> code_at ?T cb (emit w cb) \<and> last_ok cb s"
  then have "?n < length (txt_words ?T)" "txt_words ?T ! ?n = w" by (auto simp: code_at_def emit_def)
  then have "step ?T (pcs ?T ?n s) = exec ?T i (pcs ?T ?n s)" using step_at [of ?n ?T i s] a d by (simp add: linked_def)
  also have "\<dots> = Some (pcs ?T (Suc ?n) (F s))" by (simp add: pcs_def e pcAt_def algebra_simps)
  finally show "runs ?T (pcs ?T ?n s) (pcs ?T (length (instrs (emit w cb))) (F s))" by (auto intro: runs_step simp: emit_def)
  show "last_ok (emit w cb) (F s)"
  proof -
    have "ld64 (aM (F s)) (aSP (F s) + of_nat n) = rX (F s) t" if "i = LS STR_X t 31 n" for t n
    proof -
      have "(F s)\<lparr>aPC := 4\<rparr> = adv (ls_exec STR_X t (aSP s + of_nat n) (s\<lparr>aPC := 0\<rparr>))" (is "?l = ?r")
        using e [where s = s and pc = 0] by (simp add: that rXsp_def)
      then have "aM ?l = aM ?r" "aSP ?l = aSP ?r" "aX ?l = aX ?r" by simp_all
      then have "aM (F s) = st64 (aM s) (aSP s + of_nat n) (rX s t)" "aSP (F s) = aSP s" "aX (F s) = aX s"
        by (simp_all add: adv_def rX_def)
      then show ?thesis by (simp add: rX_def)
    qed
    then show ?thesis using d by (auto simp: last_ok_def emit_def)
  qed
qed simp

subsection \<open>The effect of an instruction\<close>

text \<open>The instructions that neither jump nor read the program counter or the text.\<close>

fun pure :: "instr \<Rightarrow> bool" where
  "pure (ADR _ _) = False" | "pure (LDR_lit _ _) = False" | "pure (LDR_D_lit _ _) = False"
| "pure (B _) = False" | "pure (BL _) = False" | "pure (B_cond _ _) = False" | "pure (CBZ _ _) = False"
| "pure (CBNZ _ _) = False" | "pure (BR _) = False" | "pure (BLR _) = False" | "pure (RET _) = False"
| "pure (SVC _) = False" | "pure (F2 op _ _) = (op \<noteq> FCVT_to_S)" | "pure _ = True"

definition eff :: "instr \<Rightarrow> arm \<Rightarrow> arm" where
  "eff i s = (case exec \<lparr>txt_base = 0, txt_words = [], txt_svc = (\<lambda>_. None)\<rparr> i s of
     Some t \<Rightarrow> t\<lparr>aPC := aPC s\<rparr> | None \<Rightarrow> s)"

lemma pc_upd [simp]:
  "rX (s\<lparr>aPC := p\<rparr>) n = rX s n" "rXsp (s\<lparr>aPC := p\<rparr>) n = rXsp s n"
  "wX n v (s\<lparr>aPC := p\<rparr>) = (wX n v s)\<lparr>aPC := p\<rparr>" "wXsp n v (s\<lparr>aPC := p\<rparr>) = (wXsp n v s)\<lparr>aPC := p\<rparr>"
  "wD n v (s\<lparr>aPC := p\<rparr>) = (wD n v s)\<lparr>aPC := p\<rparr>" "set_flags a b c d (s\<lparr>aPC := p\<rparr>) = (set_flags a b c d s)\<lparr>aPC := p\<rparr>"
  "awc_flags x y e (s\<lparr>aPC := p\<rparr>) = (awc_flags x y e s)\<lparr>aPC := p\<rparr>" "cond_holds (s\<lparr>aPC := p\<rparr>) k = cond_holds s k"
  "fcmp_flags f h (s\<lparr>aPC := p\<rparr>) = (fcmp_flags f h s)\<lparr>aPC := p\<rparr>"
  by (simp_all add: rX_def rXsp_def wX_def wXsp_def wD_def set_flags_def awc_flags_def cond_holds_def fcmp_flags_def)

lemma aPC_upd [simp]: "aPC (wX n v s) = aPC s" "aPC (wXsp n v s) = aPC s" "aPC (wD n v s) = aPC s"
  "aPC (set_flags a b c d s) = aPC s" "aPC (awc_flags x y e s) = aPC s" "aPC (fcmp_flags f h s) = aPC s"
  by (simp_all add: wX_def wXsp_def wD_def set_flags_def awc_flags_def fcmp_flags_def)

lemma op3_flags_pc [simp]: "op3_flags op a b c (s\<lparr>aPC := p\<rparr>) = (op3_flags op a b c s)\<lparr>aPC := p\<rparr>" "aPC (op3_flags op a b c s) = aPC s"
  by (cases op; simp)+

lemma ls_exec_pc [simp]: "ls_exec op t a (s\<lparr>aPC := p\<rparr>) = (ls_exec op t a s)\<lparr>aPC := p\<rparr>" "aPC (ls_exec op t a s) = aPC s"
  by (cases op; simp)+

lemma f2_exec_pc: "op \<noteq> FCVT_to_S \<Longrightarrow> \<exists>t. f2_exec op d n s = Some t \<and> aPC t = aPC s \<and>
    (\<forall>p. f2_exec op d n (s\<lparr>aPC := p\<rparr>) = Some (t\<lparr>aPC := p\<rparr>))"
  by (cases op) simp_all

lemma pure_exec: "pure i \<Longrightarrow> exec T i (s\<lparr>aPC := p\<rparr>) = Some ((eff i s)\<lparr>aPC := p + 4\<rparr>)"
proof (cases i)
  case (F2 op d n)
  assume "pure i"
  then obtain t where t: "f2_exec op d n s = Some t" "aPC t = aPC s" "\<forall>p. f2_exec op d n (s\<lparr>aPC := p\<rparr>) = Some (t\<lparr>aPC := p\<rparr>)"
    using f2_exec_pc [of op d n s] F2 by auto
  then show ?thesis by (simp add: F2 eff_def adv_def)
qed (simp_all add: eff_def adv_def Let_def)

lemma impl_instr: "decode w = Some i \<Longrightarrow> pure i \<Longrightarrow> impl M (emit w) (eff i)"
  by (rule impl_emit) (auto simp: pure_exec)

lemma eff_simps [simp]:
  "eff (MOVZ d i h) s = wX d (push_bit (16 * h) (of_nat i)) s"
  "eff (MOVN d i h) s = wX d (NOT (push_bit (16 * h) (of_nat i))) s"
  "eff (MOVK d i h) s = wX d ((rX s d AND NOT (push_bit (16 * h) (mask 16))) OR push_bit (16 * h) (of_nat i)) s"
  "eff (ADD_i d n i) s = wXsp d (rXsp s n + of_nat i) s"
  "eff (SUB_i d n i) s = wXsp d (rXsp s n - of_nat i) s"
  "eff (SUBS_i d n i) s = awc_flags (rXsp s n) (NOT (of_nat i)) True (wX d (awc (rXsp s n) (NOT (of_nat i)) True) s)"
  "eff (UBFM d n r l) s = wX d (bfm False (rX s n) r l) s"
  "eff (SBFM d n r l) s = wX d (bfm True (rX s n) r l) s"
  "op \<noteq> SUBX \<Longrightarrow> eff (R3 op d n m) s = op3_flags op (rX s n) (rX s m) (fC s) (wX d (op3_val op (rX s n) (rX s m) (fC s)) s)"
  "eff (R2 op' d n) s = wX d (op2_val op' (rX s n)) s"
  "eff (MADD d n m a) s = wX d (rX s a + rX s n * rX s m) s"
  "eff (MSUB d n m a) s = wX d (rX s a - rX s n * rX s m) s"
  "eff (CSEL d n m c) s = wX d (if cond_holds s c then rX s n else rX s m) s"
  "eff (CSINC d n m c) s = wX d (if cond_holds s c then rX s n else rX s m + 1) s"
  "eff (LS op'' t n i) s = ls_exec op'' t (rXsp s n + of_nat i) s"
  "eff (LDP t u n j) s = wX u (ldb 8 (aM s) (rXsp s n + word_of_int j + 8)) (wX t (ldb 8 (aM s) (rXsp s n + word_of_int j)) s)"
  "eff (STP t u n j) s = s\<lparr>aM := stb 8 (stb 8 (aM s) (rXsp s n + word_of_int j) (rX s t)) (rXsp s n + word_of_int j + 8) (rX s u)\<rparr>"
  "eff (F3 f d n m) s = wD d (f3_val f (aD s n) (aD s m)) s"
  "eff (FCMP n m) s = fcmp_flags (aD s n) (aD s m) s"
  "eff (FCMP_0 n) s = fcmp_flags (aD s n) 0 s"
  by (simp_all add: eff_def adv_def Let_def)

lemma eff_SUBX [simp]: "eff (R3 SUBX d n m) s = wXsp d (rXsp s n - rX s m) s"
  by (simp add: eff_def adv_def)

lemma eff_F2 [simp]:
  "eff (F2 FNEG d n) s = wD d (d_neg (aD s n)) s" "eff (F2 FABS d n) s = wD d (take_bit 63 (aD s n)) s"
  "eff (F2 FMOV d n) s = wD d (aD s n) s" "eff (F2 SCVTF d n) s = wD d (d_of_long (sint (rX s n))) s"
  "eff (F2 FCVTZS d n) s = wX d (word_of_int (d_to_long (aD s n))) s" "eff (F2 FMOV_to_gp d n) s = wX d (aD s n) s"
  "eff (F2 FMOV_from_gp d n) s = wD d (rX s n) s"
  "eff (F2 FCVT_to_D d n) s = wD d (d_of_float (ucast (aD s n))) s"
  "eff (F2 CNT_8B d n) s = wD d (of_bytes (map (of_nat \<circ> popcount8) (bytes 8 (aD s n)))) s"
  "eff (F2 ADDV_B d n) s = wD d (ucast (sum_list (bytes 8 (aD s n)))) s"
  "eff (F2 UMOV_B0 d n) s = wX d (take_bit 8 (aD s n)) s"
  by (simp_all add: eff_def adv_def)

subsection \<open>Registers\<close>

lemma rX_wX [simp]: "n \<noteq> 31 \<Longrightarrow> rX (wX n v s) n = v" "k \<noteq> n \<Longrightarrow> rX (wX n v s) k = rX s k" "rX s 31 = 0"
  by (simp_all add: rX_def wX_def)

lemma wX_proj [simp]: "aM (wX n v s) = aM s" "aSP (wX n v s) = aSP s" "aD (wX n v s) = aD s" "aDH (wX n v s) = aDH s"
  "fN (wX n v s) = fN s" "fZ (wX n v s) = fZ s" "fC (wX n v s) = fC s" "fV (wX n v s) = fV s"
  "rXsp (wX n v s) 31 = aSP s" "k \<noteq> 31 \<Longrightarrow> rXsp t k = rX t k" "rXsp t 31 = aSP t"
  by (simp_all add: wX_def rXsp_def rX_def)

lemma wXsp_simps [simp]: "wXsp 31 v s = s\<lparr>aSP := v\<rparr>" "n \<noteq> 31 \<Longrightarrow> wXsp n v s = wX n v s"
  by (simp_all add: wX_def wXsp_def)

lemma wX_31 [simp]: "wX 31 v s = s"
  by (simp add: wX_def)

lemma rX_upd [simp]: "rX (s\<lparr>aM := m\<rparr>) n = rX s n" "rX (s\<lparr>aSP := a\<rparr>) n = rX s n" "rX (set_flags x y z v s) n = rX s n"
  "rX (awc_flags a b c s) n = rX s n" "rX (wD n' w s) n = rX s n" "rX (fcmp_flags f g s) n = rX s n"
  by (simp_all add: rX_def set_flags_def awc_flags_def wD_def fcmp_flags_def)

lemma flags_proj [simp]: "aM (set_flags x y z v s) = aM s" "aSP (set_flags x y z v s) = aSP s" "aD (set_flags x y z v s) = aD s"
  "fN (set_flags x y z v s) = x" "fZ (set_flags x y z v s) = y" "fC (set_flags x y z v s) = z" "fV (set_flags x y z v s) = v"
  "aM (awc_flags a b c s) = aM s" "aSP (awc_flags a b c s) = aSP s" "aD (awc_flags a b c s) = aD s"
  "aM (fcmp_flags f g s) = aM s" "aSP (fcmp_flags f g s) = aSP s" "aD (fcmp_flags f g s) = aD s"
  by (simp_all add: set_flags_def awc_flags_def fcmp_flags_def)

lemma wD_proj [simp]: "aM (wD n v s) = aM s" "aSP (wD n v s) = aSP s" "aD (wD n v s) = (aD s)(n := v)"
  "fN (wD n v s) = fN s" "fZ (wD n v s) = fZ s" "fC (wD n v s) = fC s" "fV (wD n v s) = fV s"
  by (simp_all add: wD_def)

lemma wX_same: "wX n (rX s n) s = s"
  by (simp add: wX_def rX_def)

lemma wX_wX [simp]: "wX n v (wX n u s) = wX n v s"
  by (simp add: wX_def)

subsection \<open>Constants\<close>

lemma movk_chunk:
  fixes u :: "64 word" and h :: nat
  defines "c \<equiv> take_bit 16 (drop_bit (16 * h) u)"
  shows "take_bit (16 * h + 16) u =
    (if c = 0 then take_bit (16 * h) u else (take_bit (16 * h) u AND NOT (push_bit (16 * h) (mask 16))) OR push_bit (16 * h) c)"
proof -
  have bit_c: "bit c i \<longleftrightarrow> i < 16 \<and> bit u (16 * h + i)" for i by (auto simp: c_def bit_simps)
  have z: "i < 16 * h" if "c = 0" "bit u i" "i < 16 * h + 16" for i
    using bit_c [of "i - 16 * h"] that by (cases "i < 16 * h") auto
  show ?thesis by (rule bit_eqI) (auto simp: bit_simps bit_c dest: z)
qed

lemma chunk_word:
  "(of_nat (nat ((drop_bit (16 * h) (v mod 2 ^ 64) AND 0xFFFF) AND 0xFFFF)) :: 64 word) = take_bit 16 (drop_bit (16 * h) (word_of_int v))"
proof -
  have m: "(i :: int) AND 0xFFFF = take_bit 16 i" for i by (simp add: take_bit_eq_mask mask_eq_exp_minus_1)
  have "(of_nat (nat (take_bit 16 i)) :: 64 word) = word_of_int (take_bit 16 i)" for i by simp
  moreover have "(word_of_int (take_bit 16 (drop_bit (16 * h) (take_bit 64 v))) :: 64 word) = take_bit 16 (drop_bit (16 * h) (word_of_int v))"
    by (rule bit_eqI) (auto simp: bit_simps)
  ultimately show ?thesis by (simp only: m take_bit_take_bit min.idem take_bit_eq_mod [of 64, symmetric])
qed

definition movk_if :: "int \<Rightarrow> int \<Rightarrow> nat \<Rightarrow> codeBuilder \<Rightarrow> codeBuilder" where
  "movk_if r u h = (if drop_bit (16 * h) u AND 0xFFFF = 0 then id else emit (encMOVK r (drop_bit (16 * h) u AND 0xFFFF) (16 * int h)))"

lemma emitMOVimm_unfold:
  "emitMOVimm r v = fcomp (fcomp (fcomp (emit (encMOVZ r (v mod 2 ^ 64 AND 0xFFFF) 0)) (movk_if r (v mod 2 ^ 64) 1)) (movk_if r (v mod 2 ^ 64) 2)) (movk_if r (v mod 2 ^ 64) 3)"
  by (rule ext) (simp add: emitMOVimm_def movk_if_def Let_def fcomp_def del: power_numeral)

lemma impl_movk_if:
  assumes r: "reg r" "r \<noteq> 31" and h: "h < 4"
  shows "impl M (movk_if r (v mod 2 ^ 64) h) (\<lambda>s. if rX s (nat r) = take_bit (16 * h) (word_of_int v)
      then wX (nat r) (take_bit (16 * h + 16) (word_of_int v)) s
      else if take_bit 16 (drop_bit (16 * h) (word_of_int v :: 64 word)) = 0 then s
      else eff (MOVK (nat r) (nat ((drop_bit (16 * h) (v mod 2 ^ 64) AND 0xFFFF) AND 0xFFFF)) h) s)"
  (is "impl M _ ?F")
proof -
  let ?u = "word_of_int v :: 64 word" and ?i = "drop_bit (16 * h) (v mod 2 ^ 64) AND 0xFFFF"
  have z: "?i = 0 \<longleftrightarrow> take_bit 16 (drop_bit (16 * h) ?u) = 0"
  proof -
    have e: "((i :: int) AND 0xFFFF) AND 0xFFFF = i AND 0xFFFF" for i by (simp add: and.assoc)
    have b: "0 \<le> ?i" "?i < 2 ^ 64" using fits_mask(1) [of "drop_bit (16 * h) (v mod 2 ^ 64)"] by (auto simp: fits_def)
    then have "uint (word_of_int ?i :: 64 word) = ?i" using take_bit_int_eq_self [of ?i 64] unfolding uint_word_of_int_eq by simp
    then have "(of_nat (nat ?i) :: 64 word) = 0 \<longleftrightarrow> ?i = 0" using b(1) by (metis of_int_of_nat_eq of_nat_nat unsigned_0 of_int_0)
    then show ?thesis using chunk_word [of h v] by (simp only: e)
  qed
  have t: "?F s = (if take_bit 16 (drop_bit (16 * h) ?u) = 0 then s else eff (MOVK (nat r) (nat (?i AND 0xFFFF)) h) s)" for s
    using wX_same [of "nat r" s] unfolding eff_simps chunk_word movk_chunk [of h ?u] by auto
  have "decode (encMOVK r ?i (16 * int h)) = Some (MOVK (nat r) (nat (?i AND 0xFFFF)) h)"
    using dec_MOVK [OF r(1), of "int h" ?i] h by (simp add: fits_def)
  then have "impl M (emit (encMOVK r ?i (16 * int h))) (eff (MOVK (nat r) (nat (?i AND 0xFFFF)) h))"
    by (rule impl_instr) simp
  then show ?thesis unfolding t movk_if_def z
    by (cases "take_bit 16 (drop_bit (16 * h) ?u) = 0") (simp_all only: if_True if_False simp_thms impl_id)
qed

lemma impl_emitMOVimm:
  assumes r: "reg r" "r \<noteq> 31"
  shows "impl M (emitMOVimm r v) (wX (nat r) (word_of_int v))"
proof -
  let ?u = "word_of_int v :: 64 word"
  have n: "nat r \<noteq> 31" using r by (auto simp: fits_def)
  have "decode (encMOVZ r (v mod 2 ^ 64 AND 0xFFFF) (16 * 0)) = Some (MOVZ (nat r) (nat ((v mod 2 ^ 64 AND 0xFFFF) AND 0xFFFF)) (nat 0))"
    by (rule dec_MOVZ [OF r(1)]) (simp add: fits_def)
  then have z: "impl M (emit (encMOVZ r (v mod 2 ^ 64 AND 0xFFFF) 0)) (wX (nat r) (take_bit 16 ?u))"
    using chunk_word [of 0 v] by (intro impl_cong [OF impl_instr]) auto
  show ?thesis unfolding emitMOVimm_unfold
    by (rule impl_cong [OF impl_seq [OF impl_seq [OF impl_seq [OF z impl_movk_if [OF r, of 1]] impl_movk_if [OF r, of 2]] impl_movk_if [OF r, of 3]]])
      (simp_all add: n take_bit_word_eq_self)
qed

subsection \<open>Loads, the peephole and the literal pool\<close>

lemma bits_top:
  assumes "bits x 22 10 = 0" "bit x k"
  shows "k < 22"
proof (rule ccontr)
  assume "\<not> k < 22"
  moreover have "k < 32" using bit_imp_le_length [OF assms(2)] by simp
  ultimately have "bit (take_bit 10 (drop_bit 22 x)) (k - 22)" using assms(2) by (simp add: bit_take_bit_iff bit_drop_bit_eq)
  then show False using assms(1) by (simp add: bits_def unsigned_eq_0_iff)
qed

lemma fields_22:
  assumes "fits 12 i" "reg n" "reg t"
  shows "(0xF9400000 OR push_bit 10 (u32 i) OR push_bit 5 (u32 n) OR u32 t) XOR push_bit 22 1 = 0xF9000000 OR push_bit 10 (u32 i) OR push_bit 5 (u32 n) OR u32 t"
    (is "(_ OR ?x) XOR _ = _")
proof -
  have "bits ?x 22 10 = 0" using assms by (simp add: bits_or bits_field(1) bits_field0(1))
  then have b: "bit ?x k \<Longrightarrow> k < 22" for k by (rule bits_top)
  have c: "bit (0xF9400000 :: 32 word) k \<longleftrightarrow> bit (0xF9000000 :: 32 word) k \<or> k = 22" "\<not> bit (0xF9000000 :: 32 word) 22" if "k < 32" for k
  proof -
    have "\<forall>k \<in> set [0..<32]. bit (0xF9400000 :: 32 word) k \<longleftrightarrow> bit (0xF9000000 :: 32 word) k \<or> k = 22" by (simp add: upt_rec)
    then show "bit (0xF9400000 :: 32 word) k \<longleftrightarrow> bit (0xF9000000 :: 32 word) k \<or> k = 22" using that by simp
  qed simp
  have p: "bit (push_bit 22 (1 :: 32 word)) k \<longleftrightarrow> k = 22" if "k < 32" for k using that by (simp only: bit_push_bit_iff bit_1_iff) auto
  show ?thesis
  proof (rule bit_word_eqI)
    fix k assume "k < LENGTH(32)"
    then show "bit ((0xF9400000 OR ?x) XOR push_bit 22 1) k = bit (0xF9000000 OR ?x) k"
      using b [of k] c [of k] p [of k] unfolding bit_or_iff [of _ ?x] bit_xor_iff by auto
  qed
qed

lemma str_of_ldr: "reg t \<Longrightarrow> off_ok 8 i \<Longrightarrow> encLDRuoff t 31 i XOR push_bit 22 1 = encSTRuoff t 31 i"
  unfolding encLDRuoff_def encSTRuoff_def by (rule fields_22) (simp_all add: off_ok_field(1), simp add: fits_def)

lemma off_word: "off_ok c i \<Longrightarrow> (of_nat (nat i) :: 64 word) = word_of_int i"
  by (simp add: off_ok_def)

lemma impl_emitLDRsp:
  assumes r: "reg r" "r \<noteq> 31" and i: "off_ok 8 i"
  shows "impl M (emitLDRsp r i) (\<lambda>s. wX (nat r) (ld64 (aM s) (aSP s + word_of_int i)) s)" (is "impl M _ ?F")
  unfolding impl_def
proof (intro allI conjI impI)
  fix cb s
  have e: "impl M (emit (encLDRuoff r 31 i)) ?F"
    using i r by (intro impl_cong [OF impl_instr [OF dec_LDRuoff]]) (auto simp: off_word fits_def)
  show "straight cb (emitLDRsp r i cb)" by (simp add: emitLDRsp_def Let_def)
  assume a: "poolIdx cb = imPool M \<and> linked M \<and> code_at (imSeg M) cb (emitLDRsp r i cb) \<and> last_ok cb s"
  let ?c = "emitLDRsp r i cb"
  have "runs (imSeg M) (pcs (imSeg M) (length (instrs cb)) s) (pcs (imSeg M) (length (instrs ?c)) (?F s)) \<and> last_ok ?c (?F s)"
  proof (cases "peepholeElim (encLDRuoff r 31 i) cb")
    case True
    then have "instrs cb \<noteq> []" "\<not> peepholeBarrier cb" "decode (last (instrs cb)) = Some (LS STR_X (nat r) 31 (nat i))"
      using str_of_ldr dec_STRuoff [of r 31 i] r i by (auto simp: peepholeElim_def fits_def split: if_splits)
    then have "rX s (nat r) = ld64 (aM s) (aSP s + word_of_int i)" using a off_word [OF i] by (auto simp: last_ok_def)
    then have "?F s = s" by (metis wX_same)
    then show ?thesis using True a by (simp add: emitLDRsp_def)
  next
    case False
    then have "?c = emit (encLDRuoff r 31 i) cb" by (simp add: emitLDRsp_def)
    then show ?thesis using implD [OF e, of cb s] a by simp
  qed
  then show "runs (imSeg M) (pcs (imSeg M) (length (instrs cb)) s) (pcs (imSeg M) (length (instrs ?c)) (?F s))" "last_ok ?c (?F s)"
    by blast+
qed

lemma pool_lit:
  assumes "linked M" "imPool M g = Some k" "n < length (txt_words (imSeg M))"
  shows "lit64 (imSeg M) (pcAt (imSeg M) n + 4 * word_of_int (2 * int k - int n)) = Some (imAddr M g)"
    and "- (2 ^ 18) \<le> 2 * int k - int n" "2 * int k - int n < 2 ^ 18"
proof -
  have k: "2 * k + 1 < length (txt_words (imSeg M))" "length (txt_words (imSeg M)) < 2 ^ 18"
    "lit64 (imSeg M) (pcAt (imSeg M) (2 * k)) = Some (imAddr M g)" using assms by (auto simp: linked_def)
  have "pcAt (imSeg M) n + 4 * word_of_int (2 * int k - int n) = pcAt (imSeg M) (2 * k)" by (simp add: pcAt_def algebra_simps)
  then show "lit64 (imSeg M) (pcAt (imSeg M) n + 4 * word_of_int (2 * int k - int n)) = Some (imAddr M g)" using k(3) by simp
  have "int (2 * k + 1) < 2 ^ 18" "int n < 2 ^ 18" using k(1,2) assms(3) by simp_all
  then show "- (2 ^ 18) \<le> 2 * int k - int n" "2 * int k - int n < 2 ^ 18" by simp_all
qed

lemma impl_pool_load:
  assumes g: "imPool M g = Some k"
    and f: "\<And>cb. f cb = emit (enc (2 * int (pool_index cb g) - int (length (instrs cb)))) cb"
    and d: "\<And>i. - (2 ^ 18) \<le> i \<Longrightarrow> i < 2 ^ 18 \<Longrightarrow> decode (enc i) = Some (ins i)"
    and x: "\<And>T i s pc v. lit64 T (pc + 4 * word_of_int i) = Some v \<Longrightarrow> exec T (ins i) (s\<lparr>aPC := pc\<rparr>) = Some ((F v s)\<lparr>aPC := pc + 4\<rparr>)"
    and ns: "\<And>i t n. ins i \<noteq> LS STR_X t 31 n"
  shows "impl M f (F (imAddr M g))"
  unfolding impl_def
proof (intro allI conjI impI)
  fix cb :: codeBuilder and s :: arm
  let ?T = "imSeg M" and ?n = "length (instrs cb)"
  let ?i = "2 * int (pool_index cb g) - int ?n"
  show "straight cb (f cb)" by (simp add: f)
  assume a: "poolIdx cb = imPool M \<and> linked M \<and> code_at ?T cb (f cb) \<and> last_ok cb s"
  then have n: "?n < length (txt_words ?T)" "txt_words ?T ! ?n = enc ?i" by (auto simp: code_at_def emit_def f)
  have k: "pool_index cb g = k" using a g by (simp add: pool_index_def)
  note l = pool_lit [OF _ g n(1)]
  have dd: "decode (enc ?i) = Some (ins ?i)" using d l(2,3) a k by simp
  have "step ?T (pcs ?T ?n s) = exec ?T (ins ?i) (pcs ?T ?n s)" using step_at [of ?n ?T _ s] a dd n by (simp add: linked_def)
  also have "\<dots> = Some (pcs ?T (Suc ?n) (F (imAddr M g) s))"
    using x [of ?T "pcAt ?T ?n" ?i] l(1) a k by (simp add: pcs_def pcAt_def algebra_simps)
  finally show "runs ?T (pcs ?T ?n s) (pcs ?T (length (instrs (f cb))) (F (imAddr M g) s))" by (auto intro: runs_step simp: emit_def f)
  show "last_ok (f cb) (F (imAddr M g) s)" using dd ns by (simp add: last_ok_def f emit_def)
qed

lemma impl_emitLDRglobal:
  assumes "imPool M g = Some k"
  shows "impl M (emitLDRglobal g) (wX 9 (imAddr M g))"
  by (rule impl_pool_load [OF assms, where enc = "encLDRlit 9" and ins = "LDR_lit 9"])
    (auto simp: emitLDRglobal_def dec_LDRlit fits_def adv_def)

lemma impl_emitLDRFPconst:
  assumes "imPool M g = Some k" "reg d"
  shows "impl M (emitLDRFPconst g d) (wD (nat d) (imAddr M g))"
  by (rule impl_pool_load [OF assms(1), where enc = "encLDRDlit d" and ins = "LDR_D_lit (nat d)"])
    (use assms(2) in \<open>auto simp: emitLDRFPconst_def dec_LDRDlit adv_def\<close>)

end
