(* ===== verification/IrSem.thy ===== *)
theory IrSem
  imports Frame Arm64Exec
begin

section \<open>What the quads mean\<close>

text \<open>
  The meaning of the IR as \<open>ir.go\<close> documents it, on the byte memory of the target: a
  temporary, a local and a parameter is the eight-byte cell at its offset in the stack frame, a
  global the cell at its address, and a quad reads its operands and stores its result. Control
  flow is a step function over the index of the quad.
\<close>

record irenv =
  eFr :: frame
  eBase :: "64 word"
  eAddr :: "string \<Rightarrow> 64 word"
  eGlobPtr :: "string \<Rightarrow> bool"

subsection \<open>Operands\<close>

definition cell :: "irenv \<Rightarrow> IRAddr \<Rightarrow> 64 word" where
  "cell e a = (if aKind a = AddrGlobal then eAddr e (aName a) else eBase e + word_of_int (fr_off (eFr e) (aName a)))"

definition ival :: "irenv \<Rightarrow> mem \<Rightarrow> IRAddr \<Rightarrow> 64 word" where
  "ival e m a = (if aKind a = AddrConst then word_of_int (aIVal a) else ld64 m (cell e a))"

definition put :: "irenv \<Rightarrow> IRAddr \<Rightarrow> 64 word \<Rightarrow> mem \<Rightarrow> mem" where
  "put e a v m = st64 m (cell e a) v"

text \<open>A floating-point constant stands in the literal pool, under its label.\<close>

definition fval :: "irenv \<Rightarrow> mem \<Rightarrow> IRAddr \<Rightarrow> double" where
  "fval e m a = (if aKind a = AddrFConst then eAddr e (aName a) else ld64 m (cell e a))"

definition val128 :: "irenv \<Rightarrow> mem \<Rightarrow> IRAddr \<Rightarrow> 128 word" where
  "val128 e m a = word_cat (ld64 m (cell e a + 8)) (ld64 m (cell e a))"

definition put128 :: "irenv \<Rightarrow> IRAddr \<Rightarrow> 128 word \<Rightarrow> mem \<Rightarrow> mem" where
  "put128 e a v m = st64 (st64 m (cell e a) (ucast v)) (cell e a + 8) (ucast (drop_bit 64 v))"

text \<open>The address of an array: of its storage, or the pointer held in its cell.\<close>

definition base_addr :: "irenv \<Rightarrow> mem \<Rightarrow> IRAddr \<Rightarrow> 64 word" where
  "base_addr e m a =
     (if (if aKind a = AddrGlobal then eGlobPtr e (aName a)
          else frIsArrPtr (eFr e) (aName a) \<or> frIsPtrVar (eFr e) (aName a))
      then ld64 m (cell e a) else cell e a)"

subsection \<open>Operations\<close>

fun arith_sem :: "arithop \<Rightarrow> 64 word \<Rightarrow> 64 word \<Rightarrow> 64 word" where
  "arith_sem IRAdd a b = a + b"
| "arith_sem IRSub a b = a - b"
| "arith_sem IRMul a b = a * b"
| "arith_sem IRDiv a b = word_of_int (sint a sdiv sint b)"
| "arith_sem IRUDiv a b = a div b"
| "arith_sem IRBitAnd a b = a AND b"
| "arith_sem IRBitOr a b = a OR b"
| "arith_sem IRBitXor a b = a XOR b"
| "arith_sem IRShl a b = a * 2 ^ (unat b mod 64)"
| "arith_sem IRShr a b = word_of_int (sint a div 2 ^ (unat b mod 64))"
| "arith_sem IRUShr a b = a div 2 ^ (unat b mod 64)"

fun cmp_sem :: "cmpop \<Rightarrow> 64 word \<Rightarrow> 64 word \<Rightarrow> bool" where
  "cmp_sem IRLt a b \<longleftrightarrow> sint a < sint b"
| "cmp_sem IRLe a b \<longleftrightarrow> sint a \<le> sint b"
| "cmp_sem IRGt a b \<longleftrightarrow> sint b < sint a"
| "cmp_sem IRGe a b \<longleftrightarrow> sint b \<le> sint a"
| "cmp_sem IREq a b \<longleftrightarrow> a = b"
| "cmp_sem IRNe a b \<longleftrightarrow> a \<noteq> b"
| "cmp_sem IRULt a b \<longleftrightarrow> uint a < uint b"
| "cmp_sem IRULe a b \<longleftrightarrow> uint a \<le> uint b"
| "cmp_sem IRUGt a b \<longleftrightarrow> uint b < uint a"
| "cmp_sem IRUGe a b \<longleftrightarrow> uint b \<le> uint a"

definition ctz :: "nat \<Rightarrow> 64 word \<Rightarrow> nat" where
  "ctz k w = length (takeWhile Not (word_bits k w))"

definition popcount :: "64 word \<Rightarrow> nat" where
  "popcount w = length (filter (bit w) [0..<64])"

text \<open>The overflow flag of \<open>f\<close> on signed values: the exact result does not fit.\<close>

definition overflows :: "(int \<Rightarrow> int \<Rightarrow> int) \<Rightarrow> 64 word \<Rightarrow> 64 word \<Rightarrow> bool" where
  "overflows f a b \<longleftrightarrow> f (sint a) (sint b) < - (2 ^ 63) \<or> 2 ^ 63 \<le> f (sint a) (sint b)"

definition flag_cell :: "Quad \<Rightarrow> IRAddr" where
  "flag_cell q = \<lparr>aKind = AddrTemp, aIVal = 0, aFVal = 0, aName = qExtra q\<rparr>"

fun int_sem :: "irenv \<Rightarrow> Quad \<Rightarrow> intop \<Rightarrow> mem \<Rightarrow> mem" where
  "int_sem e q IRCopy m = put e (qDst q) (ival e m (qSrc1 q)) m"
| "int_sem e q IRMod m = put e (qDst q) (word_of_int (sint (ival e m (qSrc1 q)) smod sint (ival e m (qSrc2 q)))) m"
| "int_sem e q IRUMod m = put e (qDst q) (ival e m (qSrc1 q) mod ival e m (qSrc2 q)) m"
| "int_sem e q IRBitNot m = put e (qDst q) (NOT (ival e m (qSrc1 q))) m"
| "int_sem e q IRSignExtend m =
     put e (qDst q) (signed_take_bit (if aIVal (qSrc2 q) = 8 then 7 else 15) (ival e m (qSrc1 q))) m"
| "int_sem e q IRZeroExtend m =
     put e (qDst q) (take_bit (if aIVal (qSrc2 q) = 8 then 8 else 16) (ival e m (qSrc1 q))) m"
| "int_sem e q IRCLZ m =
     put e (qDst q) (of_nat (clz (if qTypeHint q = TypeUnsignedInt then 32 else 64) (ival e m (qSrc1 q)))) m"
| "int_sem e q IRCTZ m =
     put e (qDst q) (of_nat (ctz (if qTypeHint q = TypeUnsignedInt then 32 else 64) (ival e m (qSrc1 q)))) m"
| "int_sem e q IRPopcount m = put e (qDst q) (of_nat (popcount (ival e m (qSrc1 q)))) m"
| "int_sem e q IRFfs m =
     (let v = ival e m (qSrc1 q) in put e (qDst q) (if v = 0 then 0 else of_nat (ctz 64 v) + 1) m)"
| "int_sem e q IRBswap m =
     (let k = (if qTypeHint q = TypeUnsignedShort then 2 else if qTypeHint q = TypeUnsignedInt then 4 else 8)
      in put e (qDst q) (of_bytes (rev (bytes k (ival e m (qSrc1 q))))) m)"
| "int_sem e q IRAddOverflow m =
     (let a = ival e m (qSrc1 q); b = ival e m (qSrc2 q)
      in put e (flag_cell q) (of_bool (overflows (+) a b)) (put e (qDst q) (a + b) m))"
| "int_sem e q IRSubOverflow m =
     (let a = ival e m (qSrc1 q); b = ival e m (qSrc2 q)
      in put e (flag_cell q) (of_bool (overflows (-) a b)) (put e (qDst q) (a - b) m))"
| "int_sem e q IRMulOverflow m =
     (let a = ival e m (qSrc1 q); b = ival e m (qSrc2 q)
      in put e (flag_cell q) (of_bool (overflows (*) a b)) (put e (qDst q) (a * b) m))"

subsection \<open>Memory and addresses\<close>

text \<open>The load and the store of a struct field of type \<open>t\<close>: its width and its extension to 64 bits.\<close>

definition field_bytes :: "TypeKind \<Rightarrow> nat" where
  "field_bytes t = (if t = TypeChar \<or> t = TypeUnsignedChar then 1 else if t = TypeShort \<or> t = TypeUnsignedShort then 2
     else if t = TypeInt \<or> t = TypeUnsignedInt then 4 else 8)"

definition field_val :: "TypeKind \<Rightarrow> mem \<Rightarrow> 64 word \<Rightarrow> 64 word" where
  "field_val t m a = (let v = ldb (field_bytes t) m a
     in if t = TypeChar \<or> t = TypeShort \<or> t = TypeInt then signed_take_bit (8 * field_bytes t - 1) v else v)"

definition deref_bytes :: "TypeKind \<Rightarrow> nat" where
  "deref_bytes t = (if t = TypeChar \<or> t = TypeUnsignedChar then 1 else 8)"

text \<open>The opcodes \<open>IRStructCopy\<close> and the store of a single-precision field are left out.\<close>

fun mem_sem :: "irenv \<Rightarrow> Quad \<Rightarrow> memop \<Rightarrow> mem \<Rightarrow> mem" where
  "mem_sem e q IRLoad m = put e (qDst q) (ld64 m (base_addr e m (qSrc1 q) + 8 * ival e m (qSrc2 q))) m"
| "mem_sem e q IRStore m =
     st64 m (base_addr e m (qDst q) + 8 * ival e m (qSrc1 q)) (if isFPType (qTypeHint q) then fval e m (qSrc2 q) else ival e m (qSrc2 q))"
| "mem_sem e q IRCharLoad m = put e (qDst q) (ldb 1 m (base_addr e m (qSrc1 q) + ival e m (qSrc2 q))) m"
| "mem_sem e q IRCharStore m = stb 1 m (base_addr e m (qDst q) + ival e m (qSrc1 q)) (ival e m (qSrc2 q))"
| "mem_sem e q IRDerefLoad m = put e (qDst q) (ldb (deref_bytes (qTypeHint q)) m (ival e m (qSrc1 q))) m"
| "mem_sem e q IRDerefStore m = stb (deref_bytes (qTypeHint q)) m (ival e m (qDst q)) (ival e m (qSrc1 q))"
| "mem_sem e q IRFDerefLoad m = put e (qDst q) (ld64 m (ival e m (qSrc1 q))) m"
| "mem_sem e q IRFDerefStore m = st64 m (ival e m (qDst q)) (fval e m (qSrc1 q))"
| "mem_sem e q IRDerefCharLoad m = put e (qDst q) (ldb 1 m (ival e m (qSrc1 q))) m"
| "mem_sem e q IRDerefCharStore m = stb 1 m (ival e m (qDst q)) (ival e m (qSrc1 q))"
| "mem_sem e q IRFieldLoad m =
     put e (qDst q) (field_val (qTypeHint q) m (ival e m (qSrc1 q) + word_of_int (aIVal (qSrc2 q)))) m"
| "mem_sem e q IRFieldStore m =
     stb (field_bytes (qTypeHint q)) m (ival e m (qDst q) + word_of_int (aIVal (qSrc2 q))) (ival e m (qSrc1 q))"
| "mem_sem e q IRFFieldLoad m =
     (let a = ival e m (qSrc1 q) + word_of_int (aIVal (qSrc2 q))
      in put e (qDst q) (if qTypeHint q = TypeFloat then d_of_float (ucast (ldb 4 m a)) else ld64 m a) m)"
| "mem_sem e q IRFFieldStore m = st64 m (ival e m (qDst q) + word_of_int (aIVal (qSrc2 q))) (fval e m (qSrc1 q))"
| "mem_sem e q IRStructCopy m = m"

fun adr_sem :: "irenv \<Rightarrow> Quad \<Rightarrow> addrop \<Rightarrow> mem \<Rightarrow> mem" where
  "adr_sem e q IRGetAddr m = put e (qDst q) (base_addr e m (qSrc1 q)) m"
| "adr_sem e q IRAddrOf m = put e (qDst q) (cell e (qSrc1 q)) m"
| "adr_sem e q IRFrameAddr m = put e (qDst q) (eBase e) m"
| "adr_sem e q IRStrAddr m = put e (qDst q) (eAddr e (qExtra q)) m"
| "adr_sem e q IRFuncAddr m = put e (qDst q) (eAddr e (qExtra q)) m"
| "adr_sem e q _ m = m"

subsection \<open>Floating point\<close>

text \<open>The comparisons are false when an operand is a NaN, but for inequality.\<close>

definition d_less :: "double \<Rightarrow> double \<Rightarrow> bool" where
  "d_less x y \<longleftrightarrow> \<not> d_isnan x \<and> \<not> d_isnan y \<and> d_key x < d_key y"

definition d_equal :: "double \<Rightarrow> double \<Rightarrow> bool" where
  "d_equal x y \<longleftrightarrow> \<not> d_isnan x \<and> \<not> d_isnan y \<and> d_key x = d_key y"

fun fp_bin :: "fpop \<Rightarrow> double \<Rightarrow> double \<Rightarrow> double" where
  "fp_bin IRFAdd x y = d_add x y"
| "fp_bin IRFSub x y = d_sub x y"
| "fp_bin IRFMul x y = d_mul x y"
| "fp_bin IRFDiv x y = d_div x y"
| "fp_bin IRFLt x y = of_bool (d_less x y)"
| "fp_bin IRFLe x y = of_bool (d_less x y \<or> d_equal x y)"
| "fp_bin IRFGt x y = of_bool (d_less y x)"
| "fp_bin IRFGe x y = of_bool (d_less y x \<or> d_equal x y)"
| "fp_bin IRFEq x y = of_bool (d_equal x y)"
| "fp_bin IRFNe x y = of_bool (\<not> d_equal x y)"
| "fp_bin IRFCopySign x y = (take_bit 63 x OR (y AND NOT (mask 63)))"
| "fp_bin _ x y = x"

fun fp_sem :: "irenv \<Rightarrow> Quad \<Rightarrow> fpop \<Rightarrow> mem \<Rightarrow> mem" where
  "fp_sem e q IRFNeg m = put e (qDst q) (d_neg (fval e m (qSrc1 q))) m"
| "fp_sem e q IRFCopy m = put e (qDst q) (fval e m (qSrc1 q)) m"
| "fp_sem e q IRIntToDouble m = put e (qDst q) (d_of_long (sint (ival e m (qSrc1 q)))) m"
| "fp_sem e q IRDoubleToInt m = put e (qDst q) (word_of_int (d_to_long (fval e m (qSrc1 q)))) m"
| "fp_sem e q IRFBitcastFI m = put e (qDst q) (fval e m (qSrc1 q)) m"
| "fp_sem e q IRFBitcastIF m = put e (qDst q) (ival e m (qSrc1 q)) m"
| "fp_sem e q IRFIsNaN m = put e (qDst q) (of_bool (d_isnan (fval e m (qSrc1 q)))) m"
| "fp_sem e q IRFIsInf m = put e (qDst q) (of_bool (d_isinf (fval e m (qSrc1 q)))) m"
| "fp_sem e q f m = put e (qDst q) (fp_bin f (fval e m (qSrc1 q)) (fval e m (qSrc2 q))) m"

subsection \<open>128-bit integers\<close>

fun bin_128 :: "op128 \<Rightarrow> 128 word \<Rightarrow> 128 word \<Rightarrow> 128 word" where
  "bin_128 IR128Add a b = a + b"
| "bin_128 IR128Sub a b = a - b"
| "bin_128 IR128Mul a b = a * b"
| "bin_128 IR128And a b = a AND b"
| "bin_128 IR128Or a b = a OR b"
| "bin_128 IR128Xor a b = a XOR b"
| "bin_128 _ a b = a"

fun cmp_128 :: "op128 \<Rightarrow> 128 word \<Rightarrow> 128 word \<Rightarrow> bool" where
  "cmp_128 IR128Eq a b \<longleftrightarrow> a = b"
| "cmp_128 IR128Ne a b \<longleftrightarrow> a \<noteq> b"
| "cmp_128 IR128ULt a b \<longleftrightarrow> uint a < uint b"
| "cmp_128 IR128ULe a b \<longleftrightarrow> uint a \<le> uint b"
| "cmp_128 IR128UGt a b \<longleftrightarrow> uint b < uint a"
| "cmp_128 IR128UGe a b \<longleftrightarrow> uint b \<le> uint a"
| "cmp_128 IR128SLt a b \<longleftrightarrow> sint a < sint b"
| "cmp_128 IR128SLe a b \<longleftrightarrow> sint a \<le> sint b"
| "cmp_128 IR128SGt a b \<longleftrightarrow> sint b < sint a"
| "cmp_128 IR128SGe a b \<longleftrightarrow> sint b \<le> sint a"
| "cmp_128 _ a b \<longleftrightarrow> False"

definition is_cmp128 :: "op128 \<Rightarrow> bool" where
  "is_cmp128 w \<longleftrightarrow> w = IR128Eq \<or> w = IR128Ne \<or> w = IR128ULt \<or> w = IR128ULe \<or> w = IR128UGt \<or> w = IR128UGe
     \<or> w = IR128SLt \<or> w = IR128SLe \<or> w = IR128SGt \<or> w = IR128SGe"

fun sem_128 :: "irenv \<Rightarrow> Quad \<Rightarrow> op128 \<Rightarrow> mem \<Rightarrow> mem" where
  "sem_128 e q IR128Copy m = put128 e (qDst q) (val128 e m (qSrc1 q)) m"
| "sem_128 e q IR128Neg m = put128 e (qDst q) (- val128 e m (qSrc1 q)) m"
| "sem_128 e q IR128Shl m = put128 e (qDst q) (push_bit (nat (aIVal (qSrc2 q))) (val128 e m (qSrc1 q))) m"
| "sem_128 e q IR128LShr m = put128 e (qDst q) (drop_bit (nat (aIVal (qSrc2 q))) (val128 e m (qSrc1 q))) m"
| "sem_128 e q IR128AShr m = put128 e (qDst q) (signed_drop_bit (nat (aIVal (qSrc2 q))) (val128 e m (qSrc1 q))) m"
| "sem_128 e q IR128FromU64 m = put128 e (qDst q) (ucast (ival e m (qSrc1 q))) m"
| "sem_128 e q IR128FromI64 m = put128 e (qDst q) (scast (ival e m (qSrc1 q))) m"
| "sem_128 e q IR64From128 m = put e (qDst q) (ucast (val128 e m (qSrc1 q))) m"
| "sem_128 e q w m =
     (if is_cmp128 w then put e (qDst q) (of_bool (cmp_128 w (val128 e m (qSrc1 q)) (val128 e m (qSrc2 q)))) m
      else put128 e (qDst q) (bin_128 w (val128 e m (qSrc1 q)) (val128 e m (qSrc2 q))) m)"

subsection \<open>Control flow\<close>

definition data_sem :: "irenv \<Rightarrow> Quad \<Rightarrow> mem \<Rightarrow> mem" where
  "data_sem e q m =
     (case qOp q of
        OpArith a \<Rightarrow> put e (qDst q) (arith_sem a (ival e m (qSrc1 q)) (ival e m (qSrc2 q))) m
      | OpCmp c \<Rightarrow> put e (qDst q) (of_bool (cmp_sem c (ival e m (qSrc1 q)) (ival e m (qSrc2 q)))) m
      | OpInt i \<Rightarrow> int_sem e q i m
      | OpMem o' \<Rightarrow> mem_sem e q o' m
      | OpAdr a \<Rightarrow> adr_sem e q a m
      | OpFp f \<Rightarrow> fp_sem e q f m
      | Op128 w \<Rightarrow> sem_128 e q w m
      | OpCtl _ \<Rightarrow> m)"

definition is_label :: "string \<Rightarrow> Quad \<Rightarrow> bool" where
  "is_label l q \<longleftrightarrow> qOp q = OpCtl IRLabel \<and> qExtra q = l"

text \<open>The index behind the label.\<close>

fun label_pos :: "Quad list \<Rightarrow> string \<Rightarrow> nat option" where
  "label_pos [] l = None"
| "label_pos (q # qs) l = (if is_label l q then Some 1 else map_option Suc (label_pos qs l))"

text \<open>One step, to the index of the next quad; a return, a call or an indirect jump has none.\<close>

definition ir_step :: "irenv \<Rightarrow> Quad list \<Rightarrow> nat \<Rightarrow> mem \<Rightarrow> (nat \<times> mem) option" where
  "ir_step e qs k m =
     (if k < length qs then
        (let q = qs ! k in
         case qOp q of
           OpCtl IREnter \<Rightarrow> Some (k + 1, m)
         | OpCtl IRLabel \<Rightarrow> Some (k + 1, m)
         | OpCtl IRJump \<Rightarrow> map_option (\<lambda>j. (j, m)) (label_pos qs (qExtra q))
         | OpCtl IRJumpT \<Rightarrow>
             (if ival e m (qSrc1 q) \<noteq> 0 then map_option (\<lambda>j. (j, m)) (label_pos qs (qExtra q)) else Some (k + 1, m))
         | OpCtl IRJumpF \<Rightarrow>
             (if ival e m (qSrc1 q) = 0 then map_option (\<lambda>j. (j, m)) (label_pos qs (qExtra q)) else Some (k + 1, m))
         | OpCtl _ \<Rightarrow> None
         | _ \<Rightarrow> Some (k + 1, data_sem e q m))
      else None)"

inductive ir_runs :: "irenv \<Rightarrow> Quad list \<Rightarrow> nat \<Rightarrow> mem \<Rightarrow> nat \<Rightarrow> mem \<Rightarrow> bool" for e qs where
  ir_refl: "ir_runs e qs k m k m"
| ir_next: "ir_step e qs k m = Some (k', m') \<Longrightarrow> ir_runs e qs k' m' k'' m'' \<Longrightarrow> ir_runs e qs k m k'' m''"

text \<open>The run reaches a return; its value is that of the operand, if there is one.\<close>

definition ir_returns :: "irenv \<Rightarrow> Quad list \<Rightarrow> mem \<Rightarrow> 64 word option \<Rightarrow> mem \<Rightarrow> bool" where
  "ir_returns e qs m v m' \<longleftrightarrow> (\<exists>k < length qs. ir_runs e qs 0 m k m' \<and> qOp (qs ! k) = OpCtl IRReturn \<and>
     v = (if aKind (qSrc1 (qs ! k)) = AddrNone then None else Some (ival e m' (qSrc1 (qs ! k)))))"

end
