(* ===== verification/Codegen.thy ===== *)
theory Codegen
  imports Block IrSem
begin

section \<open>The code of a quad does what the quad means\<close>

text \<open>
  \<open>refines M fr f \<Phi>\<close>: the code that \<open>f\<close> emits changes the memory as \<open>\<Phi>\<close> says, relative to the
  frame base, and keeps the stack pointer and the callee-saved registers. In the body of a function
  the frame pointer holds the frame base.
\<close>

definition fbase :: "frame \<Rightarrow> arm \<Rightarrow> 64 word" where
  "fbase fr s = (if frHasVLA fr then rX s 29 else aSP s)"

definition env_at :: "image \<Rightarrow> frame \<Rightarrow> (string \<Rightarrow> bool) \<Rightarrow> 64 word \<Rightarrow> irenv" where
  "env_at M fr gp b = \<lparr>eFr = fr, eBase = b, eAddr = imAddr M, eGlobPtr = gp\<rparr>"

definition keeps :: "arm \<Rightarrow> arm \<Rightarrow> bool" where
  "keeps s t \<longleftrightarrow> aSP t = aSP s \<and> (\<forall>n. 19 \<le> n \<and> n \<le> 30 \<longrightarrow> rX t n = rX s n)"

definition refines :: "image \<Rightarrow> frame \<Rightarrow> (codeBuilder \<Rightarrow> codeBuilder) \<Rightarrow> (64 word \<Rightarrow> mem \<Rightarrow> mem) \<Rightarrow> bool" where
  "refines M fr f \<Phi> \<longleftrightarrow> (\<exists>F. impl M f F \<and> (\<forall>s. rX s 29 = fbase fr s \<longrightarrow> aM (F s) = \<Phi> (fbase fr s) (aM s) \<and> keeps s (F s)))"

lemma refinesI: "impl M f F \<Longrightarrow> (\<And>s. aM (F s) = \<Phi> (fbase fr s) (aM s)) \<Longrightarrow> (\<And>s. keeps s (F s)) \<Longrightarrow> refines M fr f \<Phi>"
  unfolding refines_def by blast

lemma keeps_refl [simp, intro]: "keeps s s"
  by (simp add: keeps_def)

lemma keeps_trans [trans]: "keeps s t \<Longrightarrow> keeps t u \<Longrightarrow> keeps s u"
  by (simp add: keeps_def)

lemma keeps_upd [simp]:
  "n < 19 \<Longrightarrow> keeps s (wX n v t) = keeps s t" "keeps s (wX 31 v t) = keeps s t"
  "keeps s (t\<lparr>aM := m\<rparr>) = keeps s t" "keeps s (wD d w t) = keeps s t"
  "keeps s (set_flags x y z f t) = keeps s t" "keeps s (awc_flags a b c t) = keeps s t" "keeps s (fcmp_flags p q t) = keeps s t"
  by (auto simp: keeps_def)

lemma keeps_fbase: "keeps s t \<Longrightarrow> fbase fr t = fbase fr s"
  by (simp add: keeps_def fbase_def)

subsection \<open>Operands\<close>

definition opd :: "image \<Rightarrow> frame \<Rightarrow> IRAddr \<Rightarrow> bool" where
  "opd M fr a \<longleftrightarrow> (case aKind a of AddrConst \<Rightarrow> True | AddrTemp \<Rightarrow> off_ok 8 (fr_off fr (aName a))
     | AddrLocal \<Rightarrow> off_ok 8 (fr_off fr (aName a)) | AddrGlobal \<Rightarrow> imPool M (aName a) \<noteq> None | _ \<Rightarrow> False)"

definition dst_ok :: "image \<Rightarrow> frame \<Rightarrow> IRAddr \<Rightarrow> bool" where
  "dst_ok M fr a \<longleftrightarrow> aKind a \<noteq> AddrConst \<and> opd M fr a"

definition ld_eff :: "image \<Rightarrow> frame \<Rightarrow> IRAddr \<Rightarrow> nat \<Rightarrow> arm \<Rightarrow> arm" where
  "ld_eff M fr a r s = wX r (ival (env_at M fr (\<lambda>_. False) (fbase fr s)) (aM s) a)
     (if aKind a = AddrGlobal then wX 9 (imAddr M (aName a)) s else s)"

definition st_eff :: "image \<Rightarrow> frame \<Rightarrow> nat \<Rightarrow> IRAddr \<Rightarrow> arm \<Rightarrow> arm" where
  "st_eff M fr r a s = (let t = (if aKind a = AddrGlobal then wX 9 (imAddr M (aName a)) s else s)
     in t\<lparr>aM := put (env_at M fr (\<lambda>_. False) (fbase fr s)) a (rX t r) (aM s)\<rparr>)"

lemma env_gp: "cell (env_at M fr gp b) = cell (env_at M fr (\<lambda>_. False) b)"
  "ival (env_at M fr gp b) = ival (env_at M fr (\<lambda>_. False) b)" "put (env_at M fr gp b) = put (env_at M fr (\<lambda>_. False) b)"
  by (simp_all add: fun_eq_iff cell_def ival_def put_def env_at_def)

lemma impl_ldr:
  assumes "reg r" "r \<noteq> 31" "reg n" "off_ok 8 i"
  shows "impl M (emit (encLDRuoff r n i)) (\<lambda>s. wX (nat r) (ld64 (aM s) (rXsp s (nat n) + word_of_int i)) s)"
  using assms by (intro impl_cong [OF impl_instr [OF dec_LDRuoff]]) (auto simp: off_word)

lemma impl_str:
  assumes "reg r" "reg n" "off_ok 8 i"
  shows "impl M (emit (encSTRuoff r n i)) (\<lambda>s. s\<lparr>aM := st64 (aM s) (rXsp s (nat n) + word_of_int i) (rX s (nat r))\<rparr>)"
  using assms by (intro impl_cong [OF impl_instr [OF dec_STRuoff]]) (auto simp: off_word)

lemma reg_num [simp]: "reg 0" "reg 1" "reg (numeral k) \<longleftrightarrow> (numeral k :: int) < 32"
  by (simp_all add: fits_def)

lemma off_0 [simp]: "off_ok 8 0" "off_ok 8 8"
  by (simp_all add: off_ok_def)

lemma fbase_rXsp: "rXsp s (nat (frameBase fr)) = fbase fr s" "reg (frameBase fr)"
  by (simp_all add: frameBase_def fbase_def)

lemma impl_load_slot:
  assumes "reg r" "r \<noteq> 31" "off_ok 8 i"
  shows "impl M (load_slot fr r i) (\<lambda>s. wX (nat r) (ld64 (aM s) (fbase fr s + word_of_int i)) s)"
  using impl_emitLDRsp [OF assms] impl_ldr [OF assms(1,2), of 29 i] assms(3) by (simp add: load_slot_def fbase_def)

lemma impl_load:
  assumes r: "reg r" "r \<noteq> 31" and a: "opd M fr a"
  shows "impl M (load fr a r) (ld_eff M fr a (nat r))"
proof (cases "aKind a")
  case AddrGlobal
  then obtain k where "imPool M (aName a) = Some k" using a by (auto simp: opd_def)
  from impl_seq [OF impl_emitLDRglobal [OF this] impl_ldr [OF r, of 9 0]] show ?thesis
    by (simp add: load_def AddrGlobal ld_eff_def [abs_def] ival_def cell_def env_at_def)
qed (use a impl_emitMOVimm [OF r] impl_load_slot [OF r] in \<open>auto simp: opd_def load_def ld_eff_def [abs_def] ival_def cell_def env_at_def\<close>)

lemma impl_store:
  assumes r: "reg r" "r \<noteq> 9" and a: "dst_ok M fr a"
  shows "impl M (store fr r a) (st_eff M fr (nat r) a)"
proof (cases "aKind a")
  case AddrGlobal
  then obtain k where "imPool M (aName a) = Some k" using a by (auto simp: opd_def dst_ok_def)
  from impl_seq [OF impl_emitLDRglobal [OF this] impl_str [OF r(1), of 9 0]] show ?thesis using r
    by (simp add: store_def AddrGlobal st_eff_def [abs_def] put_def cell_def env_at_def Let_def)
qed (use a impl_str [OF r(1) fbase_rXsp(2)] in \<open>auto simp: opd_def dst_ok_def store_def st_eff_def [abs_def] put_def cell_def env_at_def fbase_rXsp\<close>)

lemma ld_eff_simps [simp]:
  assumes "r < 19"
  shows "aM (ld_eff M fr a r s) = aM s" "keeps t (ld_eff M fr a r s) = keeps t s" "fbase fr' (ld_eff M fr a r s) = fbase fr' s"
    "rX (ld_eff M fr a r s) r = ival (env_at M fr (\<lambda>_. False) (fbase fr s)) (aM s) a"
    "k \<noteq> r \<Longrightarrow> k \<noteq> 9 \<Longrightarrow> rX (ld_eff M fr a r s) k = rX s k" "aD (ld_eff M fr a r s) = aD s"
  using assms by (auto simp: ld_eff_def fbase_def)

lemma st_eff_simps [simp]:
  "r \<noteq> 9 \<Longrightarrow> aM (st_eff M fr r a s) = put (env_at M fr (\<lambda>_. False) (fbase fr s)) a (rX s r) (aM s)"
  "keeps t (st_eff M fr r a s) = keeps t s" "k \<noteq> 9 \<Longrightarrow> rX (st_eff M fr r a s) k = rX s k"
  "fN (st_eff M fr r a s) = fN s" "fZ (st_eff M fr r a s) = fZ s" "fC (st_eff M fr r a s) = fC s" "fV (st_eff M fr r a s) = fV s"
  "fbase fr' (st_eff M fr r a s) = fbase fr' s"
  by (auto simp: st_eff_def Let_def fbase_def)

subsection \<open>Loads, a body and a store\<close>

lemma refines_unary:
  assumes b: "impl M body F" "\<And>s. aM (F s) = aM s" "\<And>s. keeps s (F s)" "\<And>s. rX (F s) 0 = h (rX s 0)"
    and q: "opd M fr (qSrc1 q)" "dst_ok M fr (qDst q)"
  shows "refines M fr (unary fr q body) (\<lambda>b m. put (env_at M fr gp b) (qDst q) (h (ival (env_at M fr gp b) m (qSrc1 q))) m)"
  unfolding unary_def env_gp [where gp = gp]
  by (rule refinesI [OF impl_seq [OF impl_seq [OF impl_load b(1)] impl_store]])
    (use q b in \<open>auto simp: keeps_fbase [OF b(3)] intro: keeps_trans [OF _ b(3)]\<close>)

lemma refines_binary:
  assumes b: "impl M body F" "\<And>s. aM (F s) = aM s" "\<And>s. keeps s (F s)" "\<And>s. rX (F s) 0 = h (rX s 0) (rX s 1)"
    and q: "opd M fr (qSrc1 q)" "opd M fr (qSrc2 q)" "dst_ok M fr (qDst q)"
  shows "refines M fr (fcomp (fcomp (fcomp (load fr (qSrc1 q) 0) (load fr (qSrc2 q) 1)) body) (store fr 0 (qDst q)))
    (\<lambda>b m. put (env_at M fr gp b) (qDst q) (h (ival (env_at M fr gp b) m (qSrc1 q)) (ival (env_at M fr gp b) m (qSrc2 q))) m)"
  unfolding env_gp [where gp = gp]
  by (rule refinesI [OF impl_seq [OF impl_seq [OF impl_seq [OF impl_load impl_load] b(1)] impl_store]])
    (use q b in \<open>auto simp: keeps_fbase [OF b(3)] intro: keeps_trans [OF _ b(3)]\<close>)

subsection \<open>Arithmetic and comparison\<close>

lemma sint_bounds: "- (2 ^ 63) \<le> sint (a :: 64 word)" "sint (a :: 64 word) < 2 ^ 63"
  using sint_ge [of a] sint_lt [of a] by simp_all

lemma awc_neg:
  "((sint (awc a b c) < 0) = (sint (awc a b c) \<noteq> sint a + sint b + of_bool c)) \<longleftrightarrow> 0 \<le> sint a + sint b + of_bool c"
proof -
  let ?e = "sint a + sint b + of_bool c :: int"
  have w: "awc a b c = word_of_int ?e" by (simp add: awc_def)
  have s: "sint (awc a b c) = (?e + 2 ^ 63) mod 2 ^ 64 - 2 ^ 63" unfolding w int_word_sint by simp
  have b: "- (2 ^ 64) \<le> ?e" "?e < 2 ^ 64" using sint_bounds [of a] sint_bounds [of b] by (cases c; simp)+
  consider "?e < - (2 ^ 63)" | "- (2 ^ 63) \<le> ?e" "?e < 2 ^ 63" | "2 ^ 63 \<le> ?e" by linarith
  then show ?thesis
  proof cases
    case 1
    have "(?e + 2 ^ 63) mod 2 ^ 64 = (?e + 2 ^ 63 + 2 ^ 64) mod 2 ^ 64" by (rule mod_add_self2 [symmetric])
    also have "\<dots> = ?e + 2 ^ 63 + 2 ^ 64" using 1 b by (intro mod_pos_pos_trivial) auto
    finally have "(?e + 2 ^ 63) mod 2 ^ 64 = ?e + 2 ^ 63 + 2 ^ 64" .
    then show ?thesis using 1 b s by simp
  next
    case 2
    then have "(?e + 2 ^ 63) mod 2 ^ 64 = ?e + 2 ^ 63" by (intro mod_pos_pos_trivial) auto
    then show ?thesis using 2 s by (simp add: not_less)
  next
    case 3
    have "(?e + 2 ^ 63) mod 2 ^ 64 = (?e + 2 ^ 63 - 2 ^ 64) mod 2 ^ 64" by (rule minus_mod_self2 [symmetric])
    also have "\<dots> = ?e + 2 ^ 63 - 2 ^ 64" using 3 b by (intro mod_pos_pos_trivial) auto
    finally have "(?e + 2 ^ 63) mod 2 ^ 64 = ?e + 2 ^ 63 - 2 ^ 64" .
    then show ?thesis using 3 b s by simp
  qed
qed

lemma awc_sub: "awc a (NOT b) True = a - b"
  by (simp add: awc_def not_eq_complement)

lemma sint_not: "sint (NOT b) = - sint (b :: 64 word) - 1"
proof -
  have "sint (NOT b) = signed_take_bit 64 (- sint b - 1)" by (simp add: signed_not_eq not_int_def)
  also have "\<dots> = - sint b - 1" using sint_bounds [of b] by (intro signed_take_bit_int_eq_self) auto
  finally show ?thesis .
qed

lemma uint_not: "uint (NOT b) = 2 ^ 64 - 1 - uint (b :: 64 word)"
  using take_bit_int_eq_self [of "uint b" 64] unsigned_less [of b]
  by (simp add: unsigned_not_eq take_bit_not_eq_mask_diff mask_eq_exp_minus_1)

lemma cmp_flags:
  assumes "t = awc_flags a (NOT b) True s"
  shows "fZ t \<longleftrightarrow> a = b" "fC t \<longleftrightarrow> uint b \<le> uint a" "(fN t = fV t) \<longleftrightarrow> sint b \<le> sint a"
  using awc_neg [of a "NOT b" True] by (auto simp: assms awc_flags_def awc_sub uint_not sint_not)

lemma arith_instr:
  "\<exists>i. decode (arith_enc op 0 0 1) = Some i \<and> pure i \<and> (\<forall>s. eff i s = wX 0 (arith_sem op (rX s 0) (rX s 1)) s)"
proof (cases op)
  case IRDiv then show ?thesis by (simp add: dec)
next
  case IRUDiv
  then show ?thesis by (simp add: dec) (simp add: word_div_def)
next
  case IRShl then show ?thesis by (simp add: dec) (simp add: push_bit_eq_mult)
next
  case IRShr
  have "signed_drop_bit k a = word_of_int (sint a div 2 ^ k)" for k and a :: "64 word"
    using arg_cong [OF sint_signed_drop_bit_eq [of k a], of "word_of_int :: int \<Rightarrow> 64 word"] by (simp add: drop_bit_eq_div)
  with IRShr show ?thesis by (simp add: dec)
next
  case IRUShr then show ?thesis by (simp add: dec) (simp add: drop_bit_eq_div)
qed (simp_all add: dec)

lemma refines_arith:
  assumes "opd M fr (qSrc1 q)" "opd M fr (qSrc2 q)" "dst_ok M fr (qDst q)"
  shows "refines M fr (emitArith fr q (arith_enc op))
    (\<lambda>b m. put (env_at M fr gp b) (qDst q) (arith_sem op (ival (env_at M fr gp b) m (qSrc1 q)) (ival (env_at M fr gp b) m (qSrc2 q))) m)"
proof -
  obtain i where i: "decode (arith_enc op 0 0 1) = Some i" "pure i" "\<And>s. eff i s = wX 0 (arith_sem op (rX s 0) (rX s 1)) s"
    using arith_instr [of op] by blast
  show ?thesis unfolding emitArith_def by (rule refines_binary [OF impl_instr [OF i(1,2)] _ _ _ assms]) (simp_all add: i(3))
qed

lemma cond_cset [simp]: "cond_holds s (nat (cmp_cond op XOR 1)) \<longleftrightarrow> \<not> cond_holds s (nat (cmp_cond op))"
  by (cases op) (simp_all add: cond_holds_def)

lemma refines_cmp:
  assumes "opd M fr (qSrc1 q)" "opd M fr (qSrc2 q)" "dst_ok M fr (qDst q)"
  shows "refines M fr (emitCmpBool fr q (cmp_cond op))
    (\<lambda>b m. put (env_at M fr gp b) (qDst q) (of_bool (cmp_sem op (ival (env_at M fr gp b) m (qSrc1 q)) (ival (env_at M fr gp b) m (qSrc2 q)))) m)"
proof -
  have c: "fits 4 (cmp_cond op)" by (cases op) (simp_all add: fits_def)
  have i: "impl M (emit (encCMPreg 0 1)) (eff (R3 SUBS 31 0 1))" by (rule impl_instr) (simp_all add: dec)
  have j: "impl M (emit (encCSET 0 (cmp_cond op))) (eff (CSINC 0 31 31 (nat (cmp_cond op XOR 1))))"
    using dec_CSET [OF _ c] by (intro impl_instr) simp_all
  have h: "cond_holds (awc_flags a (NOT b) True s) (nat (cmp_cond op)) \<longleftrightarrow> cmp_sem op a b" for a b s
  proof -
    have e: "a = b \<longleftrightarrow> sint a = sint b" "a = b \<longleftrightarrow> uint a = uint b" by (simp_all only: word_eq_iff_signed word_eq_iff_unsigned)
    show ?thesis using e cmp_flags [OF refl, of a b s] by (cases op) (simp_all only: cond_holds_def cmp_cond.simps cmp_sem.simps, simp_all, linarith+)
  qed
  show ?thesis unfolding emitCmpBool_def comp_assoc [symmetric]
    using refines_binary [OF impl_seq [OF i j], of "\<lambda>a b. of_bool (cmp_sem op a b)", OF _ _ _ assms]
    by (simp add: fcomp_assoc h)
qed

subsection \<open>Counting and moving bits\<close>

lemma word_bits_of_bits: "length bs \<le> 64 \<Longrightarrow> word_bits (length bs) (of_bits bs) = bs"
  by (auto simp: word_bits_def of_bits_def bit_horner_sum_bit_word_iff intro: nth_equalityI)

lemma clz_rbit: "k \<le> 64 \<Longrightarrow> clz k (of_bits (rev (word_bits k a))) = ctz k a"
  using word_bits_of_bits [of "rev (word_bits k a)"] by (simp add: clz_def ctz_def word_bits_def)

lemma bit_of_bytes: "bit (of_bytes bs) k \<Longrightarrow> k < 8 * length bs"
proof (induction bs arbitrary: k)
  case (Cons b bs)
  then show ?case using bit_imp_le_length [of b k] by (auto simp: bit_simps dest!: Cons.IH)
qed simp

lemma bytes_of_bytes: "length bs \<le> 8 \<Longrightarrow> bytes (length bs) (of_bytes bs) = bs"
proof (induction bs)
  case (Cons b bs)
  have b: "ucast (ucast b OR push_bit 8 (of_bytes bs)) = b" by (rule bit_word_eqI) (auto simp: bit_simps)
  have "drop_bit (8 * Suc i) (ucast b OR push_bit 8 (of_bytes bs)) = drop_bit (8 * i) (of_bytes bs)" if "i < length bs" for i
    by (rule bit_word_eqI) (use Cons.prems that in \<open>auto simp: bit_simps dest: bit_imp_le_length [of b] bit_of_bytes\<close>)
  then have "bytes (Suc (length bs)) (ucast b OR push_bit 8 (of_bytes bs)) = b # bytes (length bs) (of_bytes bs)"
    unfolding bytes_def by (simp only: upt_conv_Cons) (simp add: b map_Suc_upt [symmetric] del: upt_Suc)
  then show ?case using Cons by simp
qed (simp add: bytes_def)

lemma popcount_bytes: "sum_list (map popcount8 (bytes 8 a)) = popcount a"
proof -
  have "popcount8 (ucast (drop_bit (8 * i) a)) = length (filter (bit a) [8 * i..<8 * i + 8])" if "i < 8" for i
  proof -
    have "[8 * i..<8 * i + 8] = map (\<lambda>j. 8 * i + j) [0..<8]" by (simp add: map_add_upt add.commute [of "8 * i"])
    moreover have "filter (bit (ucast (drop_bit (8 * i) a) :: 8 word)) [0..<8] = filter (bit a \<circ> (\<lambda>j. 8 * i + j)) [0..<8]"
      by (rule filter_cong) (auto simp: bit_simps)
    ultimately show ?thesis by (simp add: popcount8_def filter_map)
  qed
  then have "map popcount8 (bytes 8 a) = map (\<lambda>i. length (filter (bit a) [8 * i..<8 * i + 8])) [0..<8]" by (simp add: bytes_def)
  moreover have "[0..<64] = concat (map (\<lambda>i. [8 * i..<8 * i + 8]) [0..<8])" by (simp add: upt_rec)
  ultimately show ?thesis by (simp add: popcount_def filter_concat length_concat comp_def)
qed

lemma popcount_code:
  "take_bit 8 (ucast (sum_list (bytes 8 (of_bytes (map (of_nat \<circ> popcount8) (bytes 8 a))))) :: 64 word) = of_nat (popcount a)"
proof -
  have l: "length (bytes 8 a) = 8" by (simp add: bytes_def)
  have s: "sum_list (map (of_nat \<circ> f) xs) = (of_nat (sum_list (map f xs)) :: 8 word)" for f :: "8 word \<Rightarrow> nat" and xs
    by (induction xs) auto
  have "bytes 8 (of_bytes (map (of_nat \<circ> popcount8) (bytes 8 a))) = map (of_nat \<circ> popcount8) (bytes 8 a)"
    using bytes_of_bytes [of "map (of_nat \<circ> popcount8) (bytes 8 a)"] l by simp
  then have "sum_list (bytes 8 (of_bytes (map (of_nat \<circ> popcount8) (bytes 8 a)))) = (of_nat (popcount a) :: 8 word)"
    by (simp only: s popcount_bytes)
  moreover have "popcount a \<le> 64" unfolding popcount_def using length_filter_le [of "bit a" "[0..<64]"] by simp
  then have "take_bit 8 (ucast (of_nat (popcount a) :: 8 word) :: 64 word) = of_nat (popcount a)"
    by (simp add: unsigned_of_nat take_bit_nat_eq_self flip: of_nat_take_bit take_bit_of_nat)
  ultimately show ?thesis by simp
qed

lemma rev16_uxth: "take_bit 16 (op2_val REV16_w a) = of_bytes (rev (bytes 2 a))"
proof -
  have "take_bit 16 (of_bytes (rev (bytes 2 a))) = of_bytes (rev (bytes 2 a))"
    by (rule bit_word_eqI) (auto simp: bit_simps bytes_def dest: bit_of_bytes)
  then show ?thesis by (simp add: take_bit_or take_bit_push_bit)
qed

lemma bfm_simps [simp]: "bfm True x 0 7 = signed_take_bit 7 x" "bfm True x 0 15 = signed_take_bit 15 x"
  "bfm False x 0 7 = take_bit 8 x" "bfm False x 0 15 = take_bit 16 x"
  by (simp_all add: bfm_def)

subsection \<open>Overflow\<close>

lemma sint_word_iff: "sint (word_of_int e :: 64 word) = e \<longleftrightarrow> - (2 ^ 63) \<le> e \<and> e < 2 ^ 63"
  by (simp add: signed_of_int signed_take_bit_int_eq_self_iff)

lemma add_overflow: "sint (awc a b False) \<noteq> sint a + sint b \<longleftrightarrow> overflows (+) a b"
proof -
  have "awc a b False = word_of_int (sint a + sint b)" by (simp add: awc_def)
  then show ?thesis unfolding overflows_def using sint_word_iff [of "sint a + sint b"] by (simp only:) linarith
qed

lemma sub_overflow: "sint (awc a (NOT b) True) \<noteq> sint a + sint (NOT b) + 1 \<longleftrightarrow> overflows (-) a b"
proof -
  have "awc a (NOT b) True = word_of_int (sint a - sint b)" by (simp add: awc_sub)
  moreover have "sint a + sint (NOT b) + 1 = sint a - sint b" by (simp add: sint_not)
  ultimately show ?thesis unfolding overflows_def using sint_word_iff [of "sint a - sint b"] by (simp only:) linarith
qed

lemma asr_63: "bfm True x 63 63 = (if sint x < 0 then -1 else 0)"
proof -
  have "bit x 63 \<longleftrightarrow> sint x < 0" by (simp add: bit_last_iff flip: bit_last_iff)
  moreover have "bfm True x 63 63 = (if bit x 63 then -1 else 0)" by (simp add: bfm_def mod2_eq_if bit_iff_odd_drop_bit)
  ultimately show ?thesis by simp
qed

lemma mul_overflow:
  "(word_of_int (sint a * sint b div 2 ^ 64) :: 64 word) XOR bfm True (a * b) 63 63 \<noteq> 0 \<longleftrightarrow> overflows (*) a b"
proof -
  let ?p = "sint a * sint b"
  define h where "h = ?p div 2 ^ 64"
  define l where "l = ?p mod 2 ^ 64"
  have p: "?p = 2 ^ 64 * h + l" "0 \<le> l" "l < 2 ^ 64" by (simp_all add: h_def l_def)
  have "\<bar>sint a\<bar> \<le> 2 ^ 63" "\<bar>sint b\<bar> \<le> 2 ^ 63" using sint_bounds [of a] sint_bounds [of b] by auto
  then have "\<bar>?p\<bar> \<le> 2 ^ 63 * 2 ^ 63" unfolding abs_mult by (intro mult_mono) auto
  then have hb: "- (2 ^ 63) \<le> h" "h < 2 ^ 63" "- (2 ^ 63) \<le> (-1 :: int)" using p by auto
  have eq: "(word_of_int h :: 64 word) = word_of_int c \<longleftrightarrow> h = c" if "c = 0 \<or> c = -1" for c
  proof
    assume e: "(word_of_int h :: 64 word) = word_of_int c"
    have "sint (word_of_int c :: 64 word) = c" using that by (auto simp: sint_word_iff)
    moreover have "sint (word_of_int h :: 64 word) = h" using hb by (simp add: sint_word_iff)
    ultimately show "h = c" using e by simp
  qed simp
  have w: "a * b = word_of_int ?p" by simp
  have s: "sint (a * b) = (if l < 2 ^ 63 then l else l - 2 ^ 64)"
  proof -
    have m: "(word_of_int (x mod 2 ^ 64) :: 64 word) = word_of_int x" for x by (simp add: word_of_int_eq_iff take_bit_eq_mod)
    have "a * b = word_of_int l" unfolding w l_def m ..
    then have "sint (a * b) = (l + 2 ^ 63) mod 2 ^ 64 - 2 ^ 63" by (simp only: int_word_sint) simp
    moreover have "(l + 2 ^ 63) mod 2 ^ 64 = (if l < 2 ^ 63 then l + 2 ^ 63 else l + 2 ^ 63 - 2 ^ 64)"
      using p(2,3) mod_pos_pos_trivial [of "l + 2 ^ 63" "2 ^ 64"] mod_pos_pos_trivial [of "l + 2 ^ 63 - 2 ^ 64" "2 ^ 64"]
        minus_mod_self2 [of "l + 2 ^ 63" "2 ^ 64 :: int"] by auto
    ultimately show ?thesis by simp
  qed
  have x: "(u XOR v = 0) \<longleftrightarrow> u = v" for u v :: "64 word" by (auto simp: bit_eq_iff bit_xor_iff)
  have "(word_of_int h XOR bfm True (a * b) 63 63 = 0) \<longleftrightarrow> (if l < 2 ^ 63 then h = 0 else h = -1)"
    using eq [of 0] eq [of "-1"] p(2,3) unfolding asr_63 s x by auto
  also have "\<dots> \<longleftrightarrow> - (2 ^ 63) \<le> ?p \<and> ?p < 2 ^ 63" using p by auto
  finally show ?thesis unfolding overflows_def h_def by linarith
qed

subsection \<open>The integer operations\<close>

lemma impl_1: "decode w = Some i \<Longrightarrow> pure i \<Longrightarrow> (\<And>s. eff i s = F s) \<Longrightarrow> impl M (emit w) F"
  by (rule impl_cong [OF impl_instr])

lemma impl_comp: "impl M f F \<Longrightarrow> impl M g G \<Longrightarrow> impl M (fcomp f g) (fcomp F G)"
  using impl_seq [of M f F g G] by (simp add: fcomp_def)

lemma cset_vs [simp]: "cond_holds s 7 \<longleftrightarrow> \<not> fV s" "cond_holds s 0 \<longleftrightarrow> fZ s" "cond_holds s (Suc 0) \<longleftrightarrow> \<not> fZ s" "cond_holds s 1 \<longleftrightarrow> \<not> fZ s"
  by (simp_all add: cond_holds_def)

lemma flag_cell: "overflow_temp = flag_cell"
  by (simp add: fun_eq_iff overflow_temp_def flag_cell_def)

lemma keeps_comp: "(\<And>s. keeps s (F s)) \<Longrightarrow> keeps t (F s) = keeps t s"
  unfolding keeps_def by (metis (mono_tags, lifting))

text \<open>Two loads, an instruction into X2, its store, and the flag.\<close>

lemma refines_overflow:
  assumes b: "impl M op F" "\<And>s. aM (F s) = aM s" "\<And>s. keeps s (F s)" "\<And>s. rX (F s) 2 = h (rX s 0) (rX s 1)"
    and f: "impl M flg G" "\<And>s. aM (G s) = aM s" "\<And>s. keeps s (G s)"
      "\<And>s a b m. rX (G ((st_eff M fr 2 (qDst q)) (F s))) 0 = of_bool (v (rX s 0) (rX s 1))"
    and q: "opd M fr (qSrc1 q)" "opd M fr (qSrc2 q)" "dst_ok M fr (qDst q)" "dst_ok M fr (flag_cell q)"
  shows "refines M fr (fcomp (fcomp (fcomp (fcomp (load2 fr q) op) (store fr 2 (qDst q))) flg) (store fr 0 (flag_cell q)))
    (\<lambda>b m. put (env_at M fr gp b) (flag_cell q) (of_bool (v (ival (env_at M fr gp b) m (qSrc1 q)) (ival (env_at M fr gp b) m (qSrc2 q))))
      (put (env_at M fr gp b) (qDst q) (h (ival (env_at M fr gp b) m (qSrc1 q)) (ival (env_at M fr gp b) m (qSrc2 q))) m))"
  unfolding env_gp [where gp = gp] load2_def
  by (rule refinesI [OF impl_seq [OF impl_seq [OF impl_seq [OF impl_seq [OF impl_seq [OF impl_load impl_load] b(1)] impl_store] f(1)] impl_store]])
    (use q b f in \<open>auto simp: keeps_fbase [OF b(3)] keeps_fbase [OF f(3)] keeps_comp [OF b(3)] keeps_comp [OF f(3)]\<close>)

definition int_ok :: "image \<Rightarrow> frame \<Rightarrow> Quad \<Rightarrow> intop \<Rightarrow> bool" where
  "int_ok M fr q op \<longleftrightarrow> opd M fr (qSrc1 q) \<and> dst_ok M fr (qDst q)
     \<and> (op \<in> {IRMod, IRUMod, IRAddOverflow, IRSubOverflow, IRMulOverflow} \<longrightarrow> opd M fr (qSrc2 q))
     \<and> (op \<in> {IRAddOverflow, IRSubOverflow, IRMulOverflow} \<longrightarrow> dst_ok M fr (flag_cell q))"

lemma smod_code: "a - word_of_int (sint a sdiv sint b) * b = (word_of_int (sint a smod sint b) :: 64 word)"
proof -
  have "sint a smod sint b = sint a - sint a sdiv sint b * sint b"
    by (metis add_diff_cancel_left' mult_sdiv_smod_eq mult.commute)
  then show ?thesis by simp
qed

lemma umod_code: "a - word_of_int (uint a div uint b) * b = (a mod b :: 64 word)"
  by (metis minus_div_mult_eq_mod word_div_def)

lemmas int_sem_fun = int_sem.simps [abs_def]

lemma refines_int:
  assumes ok: "int_ok M fr q op"
  shows "refines M fr (gen_int fr q op) (\<lambda>b. int_sem (env_at M fr gp b) q op)"
proof -
  have q1: "opd M fr (qSrc1 q)" "dst_ok M fr (qDst q)" using ok by (auto simp: int_ok_def)
  note un = refines_unary [where gp = gp, OF _ _ _ _ q1]
  show ?thesis
  proof (cases op)
    case IRCopy
    have "refines M fr (unary fr q id) (\<lambda>b m. put (env_at M fr gp b) (qDst q) (ival (env_at M fr gp b) m (qSrc1 q)) m)"
      using un [OF impl_id, of "\<lambda>x. x"] by simp
    then show ?thesis by (simp add: IRCopy int_sem_fun unary_def)
  next
    case IRMod
    have q2: "opd M fr (qSrc2 q)" using ok IRMod by (simp add: int_ok_def)
    have "impl M (fcomp (emit (encSDIV 2 0 1)) (emit (encMSUB 0 2 1 0)))
      (fcomp (eff (R3 SDIV 2 0 1)) (eff (MSUB 0 2 1 0)))" by (intro impl_comp impl_instr) (simp_all add: dec)
    from refines_binary [where gp = gp, OF this _ _ _ q1(1) q2 q1(2), of "\<lambda>a b. word_of_int (sint a smod sint b)"]
    show ?thesis by (simp add: IRMod int_sem_fun emitMod_def fcomp_assoc smod_code)
  next
    case IRUMod
    have q2: "opd M fr (qSrc2 q)" using ok IRUMod by (simp add: int_ok_def)
    have "impl M (fcomp (emit (encUDIV 2 0 1)) (emit (encMSUB 0 2 1 0)))
      (fcomp (eff (R3 UDIV 2 0 1)) (eff (MSUB 0 2 1 0)))" by (intro impl_comp impl_instr) (simp_all add: dec)
    from refines_binary [where gp = gp, OF this _ _ _ q1(1) q2 q1(2), of "\<lambda>a b. a mod b"]
    show ?thesis by (simp add: IRUMod int_sem_fun emitUMod_def fcomp_assoc umod_code)
  next
    case IRBitNot
    have "impl M (emit (encMVN 0 0)) (eff (R3 ORN 0 31 0))" by (rule impl_instr) (simp_all add: dec)
    from un [OF this, of "\<lambda>x. NOT x"] show ?thesis by (simp add: IRBitNot int_sem_fun)
  next
    case IRSignExtend
    have "impl M (emit (encSXTB 0 0)) (eff (SBFM 0 0 0 7))" "impl M (emit (encSXTH 0 0)) (eff (SBFM 0 0 0 15))"
      by (rule impl_instr; simp add: dec)+
    from un [OF this(1), of "signed_take_bit 7"] un [OF this(2), of "signed_take_bit 15"] show ?thesis by (simp add: IRSignExtend int_sem_fun)
  next
    case IRZeroExtend
    have "impl M (emit (encUXTB 0 0)) (eff (UBFM 0 0 0 7))" "impl M (emit (encUXTH 0 0)) (eff (UBFM 0 0 0 15))"
      by (rule impl_instr; simp add: dec)+
    from un [OF this(1), of "take_bit 8"] un [OF this(2), of "take_bit 16"] show ?thesis by (simp add: IRZeroExtend int_sem_fun)
  next
    case IRCLZ
    have "impl M (emit (encCLZ32 0 0)) (eff (R2 CLZ_w 0 0))" "impl M (emit (encCLZ 0 0)) (eff (R2 CLZ 0 0))"
      by (rule impl_instr; simp add: dec)+
    from un [OF this(1), of "\<lambda>x. of_nat (clz 32 x)"] un [OF this(2), of "\<lambda>x. of_nat (clz 64 x)"] show ?thesis by (simp add: IRCLZ int_sem_fun)
  next
    case IRCTZ
    have "impl M (fcomp (emit (encRBIT32 0 0)) (emit (encCLZ32 0 0))) (fcomp (eff (R2 RBIT_w 0 0)) (eff (R2 CLZ_w 0 0)))"
      "impl M (fcomp (emit (encRBIT 0 0)) (emit (encCLZ 0 0))) (fcomp (eff (R2 RBIT 0 0)) (eff (R2 CLZ 0 0)))"
      by (intro impl_comp impl_instr; simp add: dec)+
    from un [OF this(1), of "\<lambda>x. of_nat (ctz 32 x)"] un [OF this(2), of "\<lambda>x. of_nat (ctz 64 x)"]
    show ?thesis by (simp add: IRCTZ int_sem_fun clz_rbit)
  next
    case IRPopcount
    have "impl M (fcomp (fcomp (fcomp (emit (encFMOVfromGP 0 0)) (emit (encCNT8B 0 0))) (emit (encADDVb 0 0))) (emit (encUMOVb0 0 0)))
      (fcomp (fcomp (fcomp (eff (F2 FMOV_from_gp 0 0)) (eff (F2 CNT_8B 0 0))) (eff (F2 ADDV_B 0 0))) (eff (F2 UMOV_B0 0 0)))"
      by (intro impl_comp impl_instr) (simp_all add: dec)
    from un [OF this, of "\<lambda>x. of_nat (popcount x)"] show ?thesis using popcount_code by (simp add: IRPopcount int_sem_fun)
  next
    case IRFfs
    have "impl M (fcomp (fcomp (fcomp (fcomp (emit (encCMPimm0 0)) (emit (encRBIT 1 0))) (emit (encCLZ 1 1))) (emit (encADDimm 1 1 1))) (emit (encCSEL 0 31 1 0)))
      (fcomp (fcomp (fcomp (fcomp (eff (SUBS_i 31 0 0)) (eff (R2 RBIT 1 0))) (eff (R2 CLZ 1 1))) (eff (ADD_i 1 1 1))) (eff (CSEL 0 31 1 0)))"
      by (intro impl_comp impl_instr) (simp_all add: dec fits_def)
    from un [OF this, of "\<lambda>x. if x = 0 then 0 else of_nat (ctz 64 x) + 1"]
    show ?thesis by (simp add: IRFfs int_sem_fun clz_rbit awc_flags_def awc_def Let_def)
  next
    case IRBswap
    have "impl M (fcomp (emit (encREV16 0 0)) (emit (encUXTH 0 0))) (fcomp (eff (R2 REV16_w 0 0)) (eff (UBFM 0 0 0 15)))"
      "impl M (emit (encREV32 0 0)) (eff (R2 REV_w 0 0))" "impl M (emit (encREV64 0 0)) (eff (R2 REV_x 0 0))"
      by (intro impl_comp impl_instr; simp add: dec)+
    from un [OF this(1), of "\<lambda>x. of_bytes (rev (bytes 2 x))"] un [OF this(2), of "\<lambda>x. of_bytes (rev (bytes 4 x))"]
      un [OF this(3), of "\<lambda>x. of_bytes (rev (bytes 8 x))"]
    show ?thesis using rev16_uxth by (simp add: IRBswap int_sem_fun Let_def)
  next
    case IRAddOverflow
    have q2: "opd M fr (qSrc2 q)" "dst_ok M fr (flag_cell q)" using ok IRAddOverflow by (simp_all add: int_ok_def)
    have "impl M (emit (encADDS 2 0 1)) (eff (R3 ADDS 2 0 1))" "impl M (emit (encCSET 0 6)) (eff (CSINC 0 31 31 7))"
      by (rule impl_instr; simp add: dec fits_def)+
    note r = refines_overflow [where gp = gp, OF this(1) _ _ _ this(2) _ _ _ q1(1) q2(1) q1(2) q2(2), of "(+)" "overflows (+)"]
    show ?thesis unfolding IRAddOverflow gen_int_simps int_sem_fun flag_cell fcomp_assoc [symmetric] Let_def
      by (rule r [unfolded fcomp_assoc [symmetric]]) (simp_all add: awc_flags_def, simp_all add: awc_def flip: add_overflow)
  next
    case IRSubOverflow
    have q2: "opd M fr (qSrc2 q)" "dst_ok M fr (flag_cell q)" using ok IRSubOverflow by (simp_all add: int_ok_def)
    have "impl M (emit (encSUBS 2 0 1)) (eff (R3 SUBS 2 0 1))" "impl M (emit (encCSET 0 6)) (eff (CSINC 0 31 31 7))"
      by (rule impl_instr; simp add: dec fits_def)+
    note r = refines_overflow [where gp = gp, OF this(1) _ _ _ this(2) _ _ _ q1(1) q2(1) q1(2) q2(2), of "(-)" "overflows (-)"]
    show ?thesis unfolding IRSubOverflow gen_int_simps int_sem_fun flag_cell fcomp_assoc [symmetric] Let_def
      by (rule r [unfolded fcomp_assoc [symmetric]]) (simp_all add: awc_flags_def, simp_all add: awc_sub flip: sub_overflow)
  next
    case IRMulOverflow
    have q2: "opd M fr (qSrc2 q)" "dst_ok M fr (flag_cell q)" using ok IRMulOverflow by (simp_all add: int_ok_def)
    have "impl M (fcomp (emit (encMUL 2 0 1)) (emit (encSMULH 3 0 1))) (fcomp (eff (MADD 2 0 1 31)) (eff (R3 SMULH 3 0 1)))"
      "impl M (fcomp (fcomp (fcomp (emit (encASR 4 2 63)) (emit (encEOR 3 3 4))) (emit (encSUBS 31 3 31))) (emit (encCSET 0 1)))
        (fcomp (fcomp (fcomp (eff (SBFM 4 2 63 63)) (eff (R3 EOR 3 3 4))) (eff (R3 SUBS 31 3 31))) (eff (CSINC 0 31 31 0)))"
      by (intro impl_comp impl_instr; simp add: dec fits_def)+
    note r = refines_overflow [where gp = gp, OF this(1) _ _ _ this(2) _ _ _ q1(1) q2(1) q1(2) q2(2), of "(*)" "overflows (*)"]
    show ?thesis unfolding IRMulOverflow gen_int_simps int_sem_fun flag_cell fcomp_assoc [symmetric] Let_def
      by (rule r [unfolded fcomp_assoc [symmetric]]) (simp_all add: awc_flags_def, simp_all add: awc_def flip: mul_overflow)
  qed
qed

end
