(* ===== verification/CodegenMem.thy ===== *)
theory CodegenMem
  imports Codegen
begin

section \<open>The code of memory, address and floating-point quads\<close>

text \<open>Effects of the remaining loads and stores of operands, then one case per opcode.\<close>

definition f_opd :: "image \<Rightarrow> frame \<Rightarrow> IRAddr \<Rightarrow> bool" where
  "f_opd M fr a \<longleftrightarrow> (if aKind a = AddrFConst then imPool M (aName a) \<noteq> None else dst_ok M fr a)"

definition arr_ok :: "image \<Rightarrow> elfGen \<Rightarrow> IRAddr \<Rightarrow> bool" where
  "arr_ok M g a \<longleftrightarrow> (aKind a = AddrGlobal \<and> imPool M (aName a) \<noteq> None)
     \<or> ((aKind a = AddrLocal \<or> aKind a = AddrTemp) \<and>
        (if frIsArrPtr (gFr g) (aName a) \<or> frIsPtrVar (gFr g) (aName a) then off_ok 8 (fr_off (gFr g) (aName a))
         else fits 12 (fr_off (gFr g) (aName a))))"

definition glob9 :: "image \<Rightarrow> IRAddr \<Rightarrow> arm \<Rightarrow> arm" where
  "glob9 M a s = (if aKind a = AddrGlobal then wX 9 (imAddr M (aName a)) s else s)"

definition arr_eff :: "image \<Rightarrow> elfGen \<Rightarrow> IRAddr \<Rightarrow> nat \<Rightarrow> arm \<Rightarrow> arm" where
  "arr_eff M g a r s = wX r (base_addr (env_at M (gFr g) (gIsGlobalPtr g) (fbase (gFr g) s)) (aM s) a) (glob9 M a s)"

definition fld_eff :: "image \<Rightarrow> frame \<Rightarrow> IRAddr \<Rightarrow> nat \<Rightarrow> arm \<Rightarrow> arm" where
  "fld_eff M fr a d s = wD d (fval (env_at M fr (\<lambda>_. False) (fbase fr s)) (aM s) a) (glob9 M a s)"

definition fst_eff :: "image \<Rightarrow> frame \<Rightarrow> nat \<Rightarrow> IRAddr \<Rightarrow> arm \<Rightarrow> arm" where
  "fst_eff M fr d a s = (glob9 M a s)\<lparr>aM := put (env_at M fr (\<lambda>_. False) (fbase fr s)) a (aD s d) (aM s)\<rparr>"

lemma env_gp_f: "fval (env_at M fr gp b) = fval (env_at M fr (\<lambda>_. False) b)"
  by (simp add: fun_eq_iff fval_def cell_def env_at_def)

lemma impl_addi: "reg r \<Longrightarrow> r \<noteq> 31 \<Longrightarrow> reg n \<Longrightarrow> fits 12 i \<Longrightarrow>
    impl M (emit (encADDimm r n i)) (\<lambda>s. wX (nat r) (rXsp s (nat n) + word_of_int i) s)"
  by (rule impl_cong [OF impl_instr [OF dec_ADDimm]]) (auto simp: fits_def)

lemma impl_mov: "reg r \<Longrightarrow> reg n \<Longrightarrow> impl M (emit (encMOVreg r n)) (\<lambda>s. wX (nat r) (rX s (nat n)) s)"
  by (rule impl_cong [OF impl_instr [OF dec_MOVreg]]) auto

lemma impl_arrayBase:
  assumes r: "reg r" "r \<noteq> 31" and a: "arr_ok M g a"
  shows "impl M (arrayBase g a r) (arr_eff M g a (nat r))"
proof (cases "aKind a = AddrGlobal")
  case True
  then obtain k where k: "imPool M (aName a) = Some k" using a by (auto simp: arr_ok_def)
  note i = impl_comp [OF impl_emitLDRglobal [OF k] impl_ldr [OF r, of 9 0]] impl_comp [OF impl_emitLDRglobal [OF k] impl_mov [OF r(1), of 9]]
  show ?thesis using i True by (auto simp: arrayBase_def Let_def arr_eff_def [abs_def] base_addr_def cell_def env_at_def fcomp_def glob9_def)
next
  case False
  then show ?thesis using a impl_load_slot [OF r, of "fr_off (gFr g) (aName a)"] impl_addi [OF r fbase_rXsp(2), of "fr_off (gFr g) (aName a)"]
    by (auto simp: arr_ok_def arrayBase_def Let_def arr_eff_def [abs_def] base_addr_def cell_def env_at_def fbase_rXsp glob9_def split: if_splits)
qed

lemma impl_ldrd: "reg d \<Longrightarrow> reg n \<Longrightarrow> off_ok 8 i \<Longrightarrow>
    impl M (emit (encLDRDuoff d n i)) (\<lambda>s. wD (nat d) (ld64 (aM s) (rXsp s (nat n) + word_of_int i)) s)"
  by (rule impl_cong [OF impl_instr [OF dec_LDRDuoff]]) (auto simp: off_word)

lemma impl_strd: "reg d \<Longrightarrow> reg n \<Longrightarrow> off_ok 8 i \<Longrightarrow>
    impl M (emit (encSTRDuoff d n i)) (\<lambda>s. s\<lparr>aM := st64 (aM s) (rXsp s (nat n) + word_of_int i) (aD s (nat d))\<rparr>)"
  by (rule impl_cong [OF impl_instr [OF dec_STRDuoff]]) (auto simp: off_word)

lemma impl_fpLoad:
  assumes d: "reg d" and a: "f_opd M fr a"
  shows "impl M (fpLoad fr a d) (fld_eff M fr a (nat d))"
proof (cases "aKind a")
  case AddrGlobal
  then obtain k where "imPool M (aName a) = Some k" using a by (auto simp: f_opd_def dst_ok_def opd_def)
  from impl_comp [OF impl_emitLDRglobal [OF this] impl_ldrd [OF d, of 9 0]] AddrGlobal show ?thesis
    by (simp add: fpLoad_def fld_eff_def [abs_def] fval_def cell_def env_at_def fcomp_def glob9_def)
next
  case AddrFConst
  then obtain k where "imPool M (aName a) = Some k" using a by (auto simp: f_opd_def)
  from impl_emitLDRFPconst [OF this d] AddrFConst show ?thesis
    by (simp add: fpLoad_def fld_eff_def [abs_def] fval_def env_at_def glob9_def)
qed (use a impl_ldrd [OF d fbase_rXsp(2)] in \<open>auto simp: f_opd_def dst_ok_def opd_def fpLoad_def fld_eff_def [abs_def] fval_def cell_def env_at_def fbase_rXsp glob9_def\<close>)

lemma impl_fpStore:
  assumes d: "reg d" and a: "dst_ok M fr a"
  shows "impl M (fpStore fr d a) (fst_eff M fr (nat d) a)"
proof (cases "aKind a")
  case AddrGlobal
  then obtain k where "imPool M (aName a) = Some k" using a by (auto simp: dst_ok_def opd_def)
  from impl_comp [OF impl_emitLDRglobal [OF this] impl_strd [OF d, of 9 0]] AddrGlobal show ?thesis
    by (simp add: fpStore_def fst_eff_def [abs_def] put_def cell_def env_at_def fcomp_def glob9_def)
qed (use a impl_strd [OF d fbase_rXsp(2)] in \<open>auto simp: dst_ok_def opd_def fpStore_def fst_eff_def [abs_def] put_def cell_def env_at_def fbase_rXsp glob9_def\<close>)

lemma glob9_simps [simp]: "aM (glob9 M a s) = aM s" "keeps t (glob9 M a s) = keeps t s" "fbase fr (glob9 M a s) = fbase fr s"
  "aD (glob9 M a s) = aD s" "k \<noteq> 9 \<Longrightarrow> rX (glob9 M a s) k = rX s k" "aSP (glob9 M a s) = aSP s"
  "fN (glob9 M a s) = fN s" "fZ (glob9 M a s) = fZ s" "fC (glob9 M a s) = fC s" "fV (glob9 M a s) = fV s"
  by (auto simp: glob9_def fbase_def)

lemma fbase_upd [simp]: "n \<noteq> 29 \<Longrightarrow> fbase fr (wX n v s) = fbase fr s" "fbase fr (wD d w s) = fbase fr s"
  "fbase fr (s\<lparr>aM := m\<rparr>) = fbase fr s"  "fbase fr (awc_flags a b c s) = fbase fr s" "fbase fr (set_flags f f' f'' f''' s) = fbase fr s" "fbase fr (fcmp_flags p q s) = fbase fr s"
  by (auto simp: fbase_def)

lemma arr_eff_simps [simp]:
  "aM (arr_eff M g a r s) = aM s" "r < 19 \<Longrightarrow> keeps t (arr_eff M g a r s) = keeps t s" "r < 19 \<Longrightarrow> fbase fr (arr_eff M g a r s) = fbase fr s"
  "r < 19 \<Longrightarrow> rX (arr_eff M g a r s) r = base_addr (env_at M (gFr g) (gIsGlobalPtr g) (fbase (gFr g) s)) (aM s) a"
  "k \<noteq> r \<Longrightarrow> k \<noteq> 9 \<Longrightarrow> rX (arr_eff M g a r s) k = rX s k" "aD (arr_eff M g a r s) = aD s"
  by (auto simp: arr_eff_def)

lemma fld_eff_simps [simp]:
  "aM (fld_eff M fr a d s) = aM s" "keeps t (fld_eff M fr a d s) = keeps t s" "fbase fr' (fld_eff M fr a d s) = fbase fr' s"
  "aD (fld_eff M fr a d s) = (aD s)(d := fval (env_at M fr (\<lambda>_. False) (fbase fr s)) (aM s) a)"
  "k \<noteq> 9 \<Longrightarrow> rX (fld_eff M fr a d s) k = rX s k"
  by (auto simp: fld_eff_def)

lemma fst_eff_simps [simp]:
  "aM (fst_eff M fr d a s) = put (env_at M fr (\<lambda>_. False) (fbase fr s)) a (aD s d) (aM s)" "keeps t (fst_eff M fr d a s) = keeps t s"
  by (auto simp: fst_eff_def)

subsection \<open>Memory\<close>

lemmas impl_intros = impl_comp impl_load impl_store impl_arrayBase impl_fpLoad impl_fpStore

lemma lsl_3: "bfm False x 61 60 = 8 * x"
proof -
  have "bfm False x 61 60 = push_bit 3 (take_bit 61 x)" by (simp add: bfm_def)
  also have "\<dots> = push_bit 3 x" by (rule bit_word_eqI) (auto simp: bit_simps)
  finally show ?thesis by (simp add: push_bit_eq_mult mult.commute)
qed

definition field_off_ok :: "TypeKind \<Rightarrow> int \<Rightarrow> bool" where
  "field_off_ok t i \<longleftrightarrow> off_ok (int (field_bytes t)) i"

definition mem_ok :: "image \<Rightarrow> elfGen \<Rightarrow> Quad \<Rightarrow> memop \<Rightarrow> bool" where
  "mem_ok M g q op \<longleftrightarrow> (let fr = gFr g; d = qDst q; a = qSrc1 q; b = qSrc2 q; i = aIVal (qSrc2 q); fp = isFPType (qTypeHint q) in
     case op of
       IRLoad \<Rightarrow> arr_ok M g a \<and> opd M fr b \<and> dst_ok M fr d
     | IRCharLoad \<Rightarrow> arr_ok M g a \<and> opd M fr b \<and> dst_ok M fr d
     | IRStore \<Rightarrow> arr_ok M g d \<and> opd M fr a \<and> (if fp then f_opd M fr b else opd M fr b)
     | IRCharStore \<Rightarrow> arr_ok M g d \<and> opd M fr a \<and> opd M fr b
     | IRFDerefStore \<Rightarrow> opd M fr d \<and> f_opd M fr a
     | IRFieldLoad \<Rightarrow> opd M fr a \<and> dst_ok M fr d \<and> field_off_ok (qTypeHint q) i
     | IRFieldStore \<Rightarrow> opd M fr d \<and> opd M fr a \<and> field_off_ok (qTypeHint q) i
     | IRFFieldLoad \<Rightarrow> opd M fr a \<and> dst_ok M fr d \<and> off_ok (if qTypeHint q = TypeFloat then 4 else 8) i
     | IRFFieldStore \<Rightarrow> opd M fr d \<and> f_opd M fr a \<and> off_ok 8 i \<and> qTypeHint q \<noteq> TypeFloat
     | IRStructCopy \<Rightarrow> False
     | _ \<Rightarrow> opd M fr a \<and> (if op \<in> {IRDerefLoad, IRFDerefLoad, IRDerefCharLoad} then dst_ok M fr d else opd M fr d))"

lemmas mem_sem_fun = mem_sem.simps [abs_def]

text \<open>The address of an array element in X0: the base plus the scaled index.\<close>

definition elem_eff :: "image \<Rightarrow> elfGen \<Rightarrow> 64 word \<Rightarrow> IRAddr \<Rightarrow> IRAddr \<Rightarrow> arm \<Rightarrow> arm" where
  "elem_eff M g c a b s = (let t = ld_eff M (gFr g) b 1 (arr_eff M g a 0 s) in wX 0 (rX t 0 + c * rX t 1) (wX 1 (c * rX t 1) t))"

lemma elem_eff_simps [simp]:
  "aM (elem_eff M g c a b s) = aM s" "keeps t (elem_eff M g c a b s) = keeps t s" "fbase fr (elem_eff M g c a b s) = fbase fr s"
  "rX (elem_eff M g c a b s) 0 = base_addr (env_at M (gFr g) (gIsGlobalPtr g) (fbase (gFr g) s)) (aM s) a
     + c * ival (env_at M (gFr g) (\<lambda>_. False) (fbase (gFr g) s)) (aM s) b"
  by (simp_all add: elem_eff_def Let_def)

lemma impl_elem8:
  assumes "arr_ok M g a" "opd M (gFr g) b"
  shows "impl M (fcomp (fcomp (fcomp (arrayBase g a 0) (load (gFr g) b 1)) (emit (encLSLimm 1 1 3))) (emit (encADDreg 0 0 1))) (elem_eff M g 8 a b)"
proof -
  have "impl M (emit (encLSLimm 1 1 3)) (eff (UBFM 1 1 61 60))" "impl M (emit (encADDreg 0 0 1)) (eff (R3 ADD 0 0 1))"
    by (rule impl_instr; simp add: dec fits_def)+
  from impl_cong [OF impl_comp [OF impl_comp [OF impl_comp [OF impl_arrayBase impl_load] this(1)] this(2)]] assms
  show ?thesis by (simp add: elem_eff_def lsl_3 Let_def)
qed

lemma impl_elem1:
  assumes "arr_ok M g a" "opd M (gFr g) b"
  shows "impl M (fcomp (fcomp (arrayBase g a 0) (load (gFr g) b 1)) (emit (encADDreg 0 0 1))) (elem_eff M g 1 a b)"
proof -
  have "impl M (emit (encADDreg 0 0 1)) (eff (R3 ADD 0 0 1))" by (rule impl_instr; simp add: dec fits_def)
  from impl_cong [OF impl_comp [OF impl_comp [OF impl_arrayBase impl_load] this]] assms
  show ?thesis by (simp add: elem_eff_def Let_def wX_same)
qed

text \<open>Loads through the address in X0 and stores of X1, X2 or D0 to it.\<close>

lemma impl_ldrb: "fits 12 i \<Longrightarrow> impl M (emit (encLDRBuoff 0 0 i)) (\<lambda>s. wX 0 (ldb 1 (aM s) (rX s 0 + word_of_int i)) s)"
  by (rule impl_cong [OF impl_instr [OF dec_LDRBuoff]]) (auto simp: fits_def)

lemma impl_strb: "reg r \<Longrightarrow> r \<noteq> 31 \<Longrightarrow> fits 12 i \<Longrightarrow>
    impl M (emit (encSTRBuoff r 0 i)) (\<lambda>s. s\<lparr>aM := stb 1 (aM s) (rX s 0 + word_of_int i) (rX s (nat r))\<rparr>)"
  by (rule impl_cong [OF impl_instr [OF dec_STRBuoff]]) (auto simp: fits_def)

lemma field_load_dec:
  assumes "field_off_ok t i"
  shows "impl M (emit (field_load t i)) (\<lambda>s. wX 0 (field_val t (aM s) (rX s 0 + word_of_int i)) s)"
proof -
  have w: "(of_nat (nat i) :: 64 word) = word_of_int i" using assms by (auto simp: field_off_ok_def off_ok_def)
  obtain op where d: "decode (field_load t i) = Some (LS op 0 0 (nat i))"
    and x: "\<And>s. ls_exec op 0 (rX s 0 + word_of_int i) s = wX 0 (field_val t (aM s) (rX s 0 + word_of_int i)) s"
  proof (cases "t \<in> {TypeChar, TypeUnsignedChar, TypeShort, TypeUnsignedShort, TypeInt, TypeUnsignedInt}")
    case True
    then consider "t = TypeChar" | "t = TypeUnsignedChar" | "t = TypeShort" | "t = TypeUnsignedShort" | "t = TypeInt" | "t = TypeUnsignedInt" by auto
    then show ?thesis
    proof cases
      case 1 then show ?thesis using that [of LDRSB] assms by (auto simp: field_load_def field_val_def field_bytes_def field_off_ok_def dec fits_def off_ok_def)
    next
      case 2 then show ?thesis using that [of LDR_B] assms by (auto simp: field_load_def field_val_def field_bytes_def field_off_ok_def dec fits_def off_ok_def)
    next
      case 3 then show ?thesis using that [of LDRSH] assms by (simp add: field_load_def field_val_def field_bytes_def field_off_ok_def dec)
    next
      case 4 then show ?thesis using that [of LDR_H] assms by (simp add: field_load_def field_val_def field_bytes_def field_off_ok_def dec)
    next
      case 5 then show ?thesis using that [of LDRSW] assms by (simp add: field_load_def field_val_def field_bytes_def field_off_ok_def dec)
    next
      case 6 then show ?thesis using that [of LDR_W] assms by (simp add: field_load_def field_val_def field_bytes_def field_off_ok_def dec)
    qed
  next
    case False
    then show ?thesis using that [of LDR_X] assms by (auto simp: field_load_def field_val_def field_bytes_def field_off_ok_def dec)
  qed
  show ?thesis by (rule impl_cong [OF impl_instr [OF d]]) (simp_all add: w x [simplified])
qed

lemma field_store_dec:
  assumes "field_off_ok t i"
  shows "impl M (emit (field_store t i)) (\<lambda>s. s\<lparr>aM := stb (field_bytes t) (aM s) (rX s 0 + word_of_int i) (rX s 1)\<rparr>)"
proof -
  have w: "(of_nat (nat i) :: 64 word) = word_of_int i" using assms by (auto simp: field_off_ok_def off_ok_def)
  obtain op where d: "decode (field_store t i) = Some (LS op 1 0 (nat i))"
    and x: "\<And>s. ls_exec op 1 (rX s 0 + word_of_int i) s = s\<lparr>aM := stb (field_bytes t) (aM s) (rX s 0 + word_of_int i) (rX s 1)\<rparr>"
  proof -
    consider "t = TypeChar \<or> t = TypeUnsignedChar" | "t = TypeShort \<or> t = TypeUnsignedShort" | "t = TypeInt \<or> t = TypeUnsignedInt"
      | "field_bytes t = 8" unfolding field_bytes_def by argo
    then show thesis
    proof cases
      case 1 then show ?thesis using that [of STR_B] assms by (auto simp: field_store_def field_bytes_def field_off_ok_def dec fits_def off_ok_def)
    next
      case 2 then show ?thesis using that [of STR_H] assms by (auto simp: field_store_def field_bytes_def field_off_ok_def dec)
    next
      case 3 then show ?thesis using that [of STR_W] assms by (auto simp: field_store_def field_bytes_def field_off_ok_def dec)
    next
      case 4 then show ?thesis using that [of STR_X] assms by (auto simp: field_store_def field_bytes_def field_off_ok_def dec split: if_splits)
    qed
  qed
  show ?thesis by (rule impl_cong [OF impl_instr [OF d]]) (simp_all add: w x [simplified])
qed

lemma mem_okD:
  assumes "mem_ok M g q op"
  shows "op \<in> {IRLoad, IRCharLoad} \<Longrightarrow> arr_ok M g (qSrc1 q) \<and> opd M (gFr g) (qSrc2 q) \<and> dst_ok M (gFr g) (qDst q)"
    and "op \<in> {IRStore, IRCharStore} \<Longrightarrow> arr_ok M g (qDst q) \<and> opd M (gFr g) (qSrc1 q)"
    and "op = IRStore \<Longrightarrow> if isFPType (qTypeHint q) then f_opd M (gFr g) (qSrc2 q) else opd M (gFr g) (qSrc2 q)"
    and "op = IRCharStore \<Longrightarrow> opd M (gFr g) (qSrc2 q)"
    and "op \<in> {IRDerefLoad, IRFDerefLoad, IRDerefCharLoad, IRFieldLoad, IRFFieldLoad} \<Longrightarrow> opd M (gFr g) (qSrc1 q) \<and> dst_ok M (gFr g) (qDst q)"
    and "op \<in> {IRDerefStore, IRDerefCharStore, IRFieldStore} \<Longrightarrow> opd M (gFr g) (qSrc1 q) \<and> opd M (gFr g) (qDst q)"
    and "op \<in> {IRFDerefStore, IRFFieldStore} \<Longrightarrow> f_opd M (gFr g) (qSrc1 q) \<and> opd M (gFr g) (qDst q)"
    and "op \<in> {IRFieldLoad, IRFieldStore} \<Longrightarrow> field_off_ok (qTypeHint q) (aIVal (qSrc2 q))"
    and "op = IRFFieldLoad \<Longrightarrow> off_ok (if qTypeHint q = TypeFloat then 4 else 8) (aIVal (qSrc2 q))"
    and "op = IRFFieldStore \<Longrightarrow> off_ok 8 (aIVal (qSrc2 q)) \<and> qTypeHint q \<noteq> TypeFloat"
    and "op \<noteq> IRStructCopy"
  using assms by (cases op; simp add: mem_ok_def Let_def)+

lemma refines_mem:
  assumes ok: "mem_ok M g q op"
  shows "refines M (gFr g) (gen_mem g q op) (\<lambda>b. mem_sem (env_at M (gFr g) (gIsGlobalPtr g) b) q op)"
proof -
  let ?fr = "gFr g"
  note [simp] = fits_def
  note envs = env_gp [where gp = "gIsGlobalPtr g"] env_gp_f [where gp = "gIsGlobalPtr g"]
  show ?thesis
  proof (cases op)
    case IRLoad
    then have ok: "arr_ok M g (qSrc1 q)" "opd M ?fr (qSrc2 q)" "dst_ok M ?fr (qDst q)" using mem_okD(1) [OF ok] by auto
    note e = impl_elem8 [OF ok(1,2)]
    have "refines M ?fr (fcomp (fcomp (fcomp (fcomp (arrayBase g (qSrc1 q) 0) (load ?fr (qSrc2 q) 1)) (emit (encLSLimm 1 1 3))) (emit (encADDreg 0 0 1)))
        (fcomp (emit (encLDRDuoff 0 0 0)) (fpStore ?fr 0 (qDst q)))) (\<lambda>b. mem_sem (env_at M ?fr (gIsGlobalPtr g) b) q op)"
      by (rule refinesI [OF impl_comp [OF e impl_comp [OF impl_ldrd impl_fpStore [OF _ ok(3)]]]]) (simp_all add: IRLoad envs)
    moreover have "refines M ?fr (fcomp (fcomp (fcomp (fcomp (arrayBase g (qSrc1 q) 0) (load ?fr (qSrc2 q) 1)) (emit (encLSLimm 1 1 3))) (emit (encADDreg 0 0 1)))
        (fcomp (emit (encLDRuoff 0 0 0)) (store ?fr 0 (qDst q)))) (\<lambda>b. mem_sem (env_at M ?fr (gIsGlobalPtr g) b) q op)"
      by (rule refinesI [OF impl_comp [OF e impl_comp [OF impl_ldr impl_store [OF _ _ ok(3)]]]]) (simp_all add: IRLoad envs)
    ultimately show ?thesis by (simp add: IRLoad emitArrayLoad_def)
  next
    case IRStore
    then have ok: "arr_ok M g (qDst q)" "opd M ?fr (qSrc1 q)" "if isFPType (qTypeHint q) then f_opd M ?fr (qSrc2 q) else opd M ?fr (qSrc2 q)"
      using mem_okD(2,3) [OF ok] by auto
    note e = impl_elem8 [OF ok(1,2)]
    show ?thesis
    proof (cases "isFPType (qTypeHint q)")
      case True
      then have "f_opd M ?fr (qSrc2 q)" using ok(3) by simp
      have "refines M ?fr (fcomp (fcomp (fcomp (fcomp (arrayBase g (qDst q) 0) (load ?fr (qSrc1 q) 1)) (emit (encLSLimm 1 1 3))) (emit (encADDreg 0 0 1)))
          (fcomp (fpLoad ?fr (qSrc2 q) 0) (emit (encSTRDuoff 0 0 0)))) (\<lambda>b. mem_sem (env_at M ?fr (gIsGlobalPtr g) b) q op)"
        by (rule refinesI [OF impl_comp [OF e impl_comp [OF impl_fpLoad [OF _ \<open>f_opd M ?fr (qSrc2 q)\<close>] impl_strd]]]) (simp_all add: IRStore envs envs True)
      with True show ?thesis by (simp add: IRStore emitArrayStore_def)
    next
      case False
      then have o: "opd M ?fr (qSrc2 q)" using ok(3) by simp
      have "refines M ?fr (fcomp (fcomp (fcomp (fcomp (arrayBase g (qDst q) 0) (load ?fr (qSrc1 q) 1)) (emit (encLSLimm 1 1 3))) (emit (encADDreg 0 0 1)))
          (fcomp (load ?fr (qSrc2 q) 2) (emit (encSTRuoff 2 0 0)))) (\<lambda>b. mem_sem (env_at M ?fr (gIsGlobalPtr g) b) q op)"
        by (rule refinesI [OF impl_comp [OF e impl_comp [OF impl_load [OF _ _ o] impl_str]]]) (simp_all add: IRStore envs False)
      with False show ?thesis by (simp add: IRStore emitArrayStore_def)
    qed
  next
    case IRCharLoad
    then have ok: "arr_ok M g (qSrc1 q)" "opd M ?fr (qSrc2 q)" "dst_ok M ?fr (qDst q)" using mem_okD(1) [OF ok] by auto
    show ?thesis unfolding IRCharLoad gen_mem_simps emitCharArrayLoad_def
      by (rule refinesI [OF impl_comp [OF impl_comp [OF impl_elem1 [OF ok(1,2)] impl_ldrb] impl_store [OF _ _ ok(3)]]]) (simp_all add: envs)
  next
    case IRCharStore
    then have ok: "arr_ok M g (qDst q)" "opd M ?fr (qSrc1 q)" "opd M ?fr (qSrc2 q)" using mem_okD(2,4) [OF ok] by auto
    show ?thesis unfolding IRCharStore gen_mem_simps emitCharArrayStore_def
      by (rule refinesI [OF impl_comp [OF impl_comp [OF impl_elem1 [OF ok(1,2)] impl_load [OF _ _ ok(3)]] impl_strb]]) (simp_all add: envs)
  next
    case IRDerefLoad
    then have ok: "opd M ?fr (qSrc1 q)" "dst_ok M ?fr (qDst q)" using mem_okD(5) [OF ok] by auto
    show ?thesis unfolding IRDerefLoad gen_mem_simps unary_def
      using refinesI [OF impl_comp [OF impl_comp [OF impl_load [OF _ _ ok(1)] impl_ldr] impl_store [OF _ _ ok(2)]]]
        refinesI [OF impl_comp [OF impl_comp [OF impl_load [OF _ _ ok(1)] impl_ldrb] impl_store [OF _ _ ok(2)]]]
      by (auto simp: envs deref_bytes_def)
  next
    case IRDerefCharLoad
    then have ok: "opd M ?fr (qSrc1 q)" "dst_ok M ?fr (qDst q)" using mem_okD(5) [OF ok] by auto
    show ?thesis unfolding IRDerefCharLoad gen_mem_simps unary_def
      by (rule refinesI [OF impl_comp [OF impl_comp [OF impl_load [OF _ _ ok(1)] impl_ldrb] impl_store [OF _ _ ok(2)]]]) (simp_all add: envs)
  next
    case IRDerefStore
    then have ok: "opd M ?fr (qSrc1 q)" "opd M ?fr (qDst q)" using mem_okD(6) [OF ok] by auto
    show ?thesis unfolding IRDerefStore gen_mem_simps
      using refinesI [OF impl_comp [OF impl_comp [OF impl_load [OF _ _ ok(2)] impl_load [OF _ _ ok(1)]] impl_str]]
        refinesI [OF impl_comp [OF impl_comp [OF impl_load [OF _ _ ok(2)] impl_load [OF _ _ ok(1)]] impl_strb]]
      by (auto simp: envs deref_bytes_def)
  next
    case IRDerefCharStore
    then have ok: "opd M ?fr (qSrc1 q)" "opd M ?fr (qDst q)" using mem_okD(6) [OF ok] by auto
    show ?thesis unfolding IRDerefCharStore gen_mem_simps
      by (rule refinesI [OF impl_comp [OF impl_comp [OF impl_load [OF _ _ ok(2)] impl_load [OF _ _ ok(1)]] impl_strb]]) (simp_all add: envs)
  next
    case IRFDerefLoad
    then have ok: "opd M ?fr (qSrc1 q)" "dst_ok M ?fr (qDst q)" using mem_okD(5) [OF ok] by auto
    show ?thesis unfolding IRFDerefLoad gen_mem_simps
      by (rule refinesI [OF impl_comp [OF impl_comp [OF impl_load [OF _ _ ok(1)] impl_ldrd] impl_fpStore [OF _ ok(2)]]]) (simp_all add: envs)
  next
    case IRFDerefStore
    then have ok: "f_opd M ?fr (qSrc1 q)" "opd M ?fr (qDst q)" using mem_okD(7) [OF ok] by auto
    show ?thesis unfolding IRFDerefStore gen_mem_simps
      by (rule refinesI [OF impl_comp [OF impl_comp [OF impl_load [OF _ _ ok(2)] impl_fpLoad [OF _ ok(1)]] impl_strd]]) (simp_all add: envs envs)
  next
    case IRFieldLoad
    then have ok: "opd M ?fr (qSrc1 q)" "dst_ok M ?fr (qDst q)" "field_off_ok (qTypeHint q) (aIVal (qSrc2 q))" using mem_okD(5,8) [OF ok] by auto
    show ?thesis unfolding IRFieldLoad gen_mem_simps unary_def
      by (rule refinesI [OF impl_comp [OF impl_comp [OF impl_load [OF _ _ ok(1)] field_load_dec [OF ok(3)]] impl_store [OF _ _ ok(2)]]]) (simp_all add: envs)
  next
    case IRFieldStore
    then have ok: "opd M ?fr (qSrc1 q)" "opd M ?fr (qDst q)" "field_off_ok (qTypeHint q) (aIVal (qSrc2 q))" using mem_okD(6,8) [OF ok] by auto
    show ?thesis unfolding IRFieldStore gen_mem_simps
      by (rule refinesI [OF impl_comp [OF impl_comp [OF impl_load [OF _ _ ok(2)] impl_load [OF _ _ ok(1)]] field_store_dec [OF ok(3)]]]) (simp_all add: envs)
  next
    case IRFFieldLoad
    then have ok: "opd M ?fr (qSrc1 q)" "dst_ok M ?fr (qDst q)" "off_ok (if qTypeHint q = TypeFloat then 4 else 8) (aIVal (qSrc2 q))" using mem_okD(5,9) [OF ok] by auto
    show ?thesis
    proof (cases "qTypeHint q = TypeFloat")
      case True
      have "impl M (fcomp (emit (encLDRSuoff 0 0 (aIVal (qSrc2 q)))) (emit (encFCVTSD 0 0)))
          (fcomp (eff (LS LDR_S 0 0 (nat (aIVal (qSrc2 q))))) (eff (F2 FCVT_to_D 0 0)))"
        using ok(3) True by (intro impl_comp impl_instr) (simp_all add: dec)
      from refinesI [OF impl_comp [OF impl_comp [OF impl_load [OF _ _ ok(1)] this] impl_fpStore [OF _ ok(2)]]] True show ?thesis
        using ok(3) by (simp add: IRFFieldLoad envs Let_def off_word)
    next
      case False
      then have o: "off_ok 8 (aIVal (qSrc2 q))" using ok(3) by simp
      from refinesI [OF impl_comp [OF impl_comp [OF impl_load [OF _ _ ok(1)] impl_ldrd [OF _ _ o]] impl_fpStore [OF _ ok(2)]]] False show ?thesis
        by (simp add: IRFFieldLoad envs Let_def)
    qed
  next
    case IRFFieldStore
    then have ok: "f_opd M ?fr (qSrc1 q)" "opd M ?fr (qDst q)" "off_ok 8 (aIVal (qSrc2 q))" "qTypeHint q \<noteq> TypeFloat" using mem_okD(7,10) [OF ok] by auto
    from refinesI [OF impl_comp [OF impl_comp [OF impl_load [OF _ _ ok(2)] impl_fpLoad [OF _ ok(1)]] impl_strd [OF _ _ ok(3)]]] ok(4)
    show ?thesis by (simp add: IRFFieldStore envs envs)
  next
    case IRStructCopy
    then show ?thesis using mem_okD(11) [OF ok] by simp
  qed
qed

subsection \<open>Addresses\<close>

definition adr_ok :: "image \<Rightarrow> elfGen \<Rightarrow> Quad \<Rightarrow> addrop \<Rightarrow> bool" where
  "adr_ok M g q op \<longleftrightarrow> dst_ok M (gFr g) (qDst q) \<and>
     (case op of IRGetAddr \<Rightarrow> arr_ok M g (qSrc1 q)
      | IRAddrOf \<Rightarrow> (case aKind (qSrc1 q) of AddrGlobal \<Rightarrow> imPool M (aName (qSrc1 q)) \<noteq> None
           | AddrLocal \<Rightarrow> fits 12 (fr_off (gFr g) (aName (qSrc1 q))) | AddrTemp \<Rightarrow> fits 12 (fr_off (gFr g) (aName (qSrc1 q))) | _ \<Rightarrow> False)
      | IRFrameAddr \<Rightarrow> True | IRStrAddr \<Rightarrow> imPool M (qExtra q) \<noteq> None | IRFuncAddr \<Rightarrow> imPool M (qExtra q) \<noteq> None
      | _ \<Rightarrow> False)"

lemma impl_pool_mov: "imPool M x \<noteq> None \<Longrightarrow> impl M (fcomp (emitLDRglobal x) (emit (encMOVreg 0 9))) (\<lambda>s. wX 0 (imAddr M x) (wX 9 (imAddr M x) s))"
  using impl_comp [OF impl_emitLDRglobal impl_mov [of 0 9]] by (auto simp: fcomp_def)

lemma refines_adr:
  assumes ok: "adr_ok M g q op"
  shows "refines M (gFr g) (gen_adr g q op) (\<lambda>b. adr_sem (env_at M (gFr g) (gIsGlobalPtr g) b) q op)"
proof -
  let ?fr = "gFr g"
  note envs = env_gp [where gp = "gIsGlobalPtr g"] env_gp_f [where gp = "gIsGlobalPtr g"]
  have st: "impl M (store ?fr 0 (qDst q)) (st_eff M ?fr 0 (qDst q))" using ok impl_store [of 0 M ?fr "qDst q"] by (simp add: adr_ok_def)
  have b: "eBase (env_at M ?fr gp b) = b" "eAddr (env_at M ?fr gp b) = imAddr M" "eFr (env_at M ?fr gp b) = ?fr" for gp b by (simp_all add: env_at_def)
  show ?thesis
  proof (cases op)
    case IRGetAddr
    then have o: "arr_ok M g (qSrc1 q)" using ok by (simp add: adr_ok_def)
    show ?thesis unfolding IRGetAddr gen_adr_simps
      by (rule refinesI [OF impl_comp [OF impl_arrayBase [OF _ _ o] st]]) (simp_all add: envs)
  next
    case IRAddrOf
    let ?a = "qSrc1 q"
    have c: "impl M (emit (encADDimm 0 (frameBase ?fr) (fr_off ?fr (aName ?a)))) (\<lambda>s. wX 0 (fbase ?fr s + word_of_int (fr_off ?fr (aName ?a))) s)"
      if "fits 12 (fr_off ?fr (aName ?a))" using impl_addi [OF _ _ fbase_rXsp(2) that, of 0 M ?fr] by (simp add: fbase_rXsp)
    show ?thesis
    proof (cases "aKind ?a = AddrGlobal")
      case True
      then have p: "imPool M (aName ?a) \<noteq> None" using ok IRAddrOf by (simp add: adr_ok_def)
      from refinesI [OF impl_comp [OF impl_pool_mov [OF p] st]] True show ?thesis by (simp add: IRAddrOf envs cell_def b)
    next
      case False
      then have f: "fits 12 (fr_off ?fr (aName ?a))" and k: "aKind ?a = AddrLocal \<or> aKind ?a = AddrTemp"
        using ok IRAddrOf by (auto simp: adr_ok_def split: AddrKind.splits)
      have "refines M ?fr (fcomp (emit (encADDimm 0 (frameBase ?fr) (fr_off ?fr (aName ?a)))) (store ?fr 0 (qDst q)))
          (\<lambda>b. adr_sem (env_at M ?fr (gIsGlobalPtr g) b) q op)"
        by (rule refinesI [OF impl_comp [OF c [OF f] st]]) (simp_all add: IRAddrOf envs cell_def [of _ ?a] b False)
      with k show ?thesis by (auto simp: IRAddrOf)
    qed
  next
    case IRFrameAddr
    have "impl M (fcomp (emit (encMOVreg 0 29)) (store ?fr 0 (qDst q))) (fcomp (\<lambda>s. wX 0 (rX s 29) s) (st_eff M ?fr 0 (qDst q)))"
      using impl_comp [OF impl_mov [of 0 29] st] by simp
    then show ?thesis unfolding refines_def IRFrameAddr gen_adr_simps by (intro exI conjI) (auto simp: envs b)
  next
    case IRStrAddr
    then have p: "imPool M (qExtra q) \<noteq> None" using ok by (simp add: adr_ok_def)
    from refinesI [OF impl_comp [OF impl_pool_mov [OF p] st]] show ?thesis by (simp add: IRStrAddr envs b)
  next
    case IRFuncAddr
    then have p: "imPool M (qExtra q) \<noteq> None" using ok by (simp add: adr_ok_def)
    from refinesI [OF impl_comp [OF impl_pool_mov [OF p] st]] show ?thesis by (simp add: IRFuncAddr envs b funcLabel_def)
  qed (use ok in \<open>auto simp: adr_ok_def\<close>)
qed

subsection \<open>Floating point\<close>

lemma refines_fbin:
  assumes b: "impl M body F" "\<And>s. aM (F s) = aM s" "\<And>s. keeps s (F s)" "\<And>s. aD (F s) 0 = h (aD s 0) (aD s 1)"
    and q: "f_opd M fr (qSrc1 q)" "f_opd M fr (qSrc2 q)" "dst_ok M fr (qDst q)"
  shows "refines M fr (fcomp (fcomp (fcomp (fpLoad fr (qSrc1 q) 0) (fpLoad fr (qSrc2 q) 1)) body) (fpStore fr 0 (qDst q)))
    (\<lambda>b m. put (env_at M fr gp b) (qDst q) (h (fval (env_at M fr gp b) m (qSrc1 q)) (fval (env_at M fr gp b) m (qSrc2 q))) m)"
  unfolding env_gp [where gp = gp] env_gp_f [where gp = gp]
  by (rule refinesI [OF impl_comp [OF impl_comp [OF impl_comp [OF impl_fpLoad impl_fpLoad] b(1)] impl_fpStore]])
    (use q b in \<open>auto simp: keeps_fbase [OF b(3)] keeps_comp [OF b(3)]\<close>)

lemma refines_fcmp:
  assumes b: "impl M body F" "\<And>s. aM (F s) = aM s" "\<And>s. keeps s (F s)" "\<And>s. rX (F s) 0 = h (aD s 0) (aD s 1)"
    and q: "f_opd M fr (qSrc1 q)" "f_opd M fr (qSrc2 q)" "dst_ok M fr (qDst q)"
  shows "refines M fr (fcomp (fcomp (fcomp (fpLoad fr (qSrc1 q) 0) (fpLoad fr (qSrc2 q) 1)) body) (store fr 0 (qDst q)))
    (\<lambda>b m. put (env_at M fr gp b) (qDst q) (h (fval (env_at M fr gp b) m (qSrc1 q)) (fval (env_at M fr gp b) m (qSrc2 q))) m)"
  unfolding env_gp [where gp = gp] env_gp_f [where gp = gp]
  by (rule refinesI [OF impl_comp [OF impl_comp [OF impl_comp [OF impl_fpLoad impl_fpLoad] b(1)] impl_store]])
    (use q b in \<open>auto simp: keeps_fbase [OF b(3)] keeps_comp [OF b(3)]\<close>)

lemma refines_fun:
  assumes b: "impl M body F" "\<And>s. aM (F s) = aM s" "\<And>s. keeps s (F s)"
    and q: "f_opd M fr (qSrc1 q)" "dst_ok M fr (qDst q)"
  shows "(\<And>s. aD (F s) 0 = h (aD s 0)) \<Longrightarrow> refines M fr (fcomp (fcomp (fpLoad fr (qSrc1 q) 0) body) (fpStore fr 0 (qDst q)))
      (\<lambda>b m. put (env_at M fr gp b) (qDst q) (h (fval (env_at M fr gp b) m (qSrc1 q))) m)"
    and "(\<And>s. rX (F s) 0 = h (aD s 0)) \<Longrightarrow> refines M fr (fcomp (fcomp (fpLoad fr (qSrc1 q) 0) body) (store fr 0 (qDst q)))
      (\<lambda>b m. put (env_at M fr gp b) (qDst q) (h (fval (env_at M fr gp b) m (qSrc1 q))) m)"
  unfolding env_gp [where gp = gp] env_gp_f [where gp = gp]
  by (rule refinesI [OF impl_comp [OF impl_comp [OF impl_fpLoad b(1)] impl_fpStore]]
      refinesI [OF impl_comp [OF impl_comp [OF impl_fpLoad b(1)] impl_store]];
    use q b in \<open>auto simp: keeps_fbase [OF b(3)] keeps_comp [OF b(3)]\<close>)+

definition fp_ok :: "image \<Rightarrow> frame \<Rightarrow> Quad \<Rightarrow> fpop \<Rightarrow> bool" where
  "fp_ok M fr q f \<longleftrightarrow> dst_ok M fr (qDst q)
     \<and> (if f = IRIntToDouble \<or> f = IRFBitcastIF then opd M fr (qSrc1 q) else f_opd M fr (qSrc1 q))
     \<and> (f \<in> {IRFAdd, IRFSub, IRFMul, IRFDiv, IRFLt, IRFLe, IRFGt, IRFGe, IRFEq, IRFNe, IRFCopySign} \<longrightarrow> f_opd M fr (qSrc2 q))
     \<and> (f = IRFCopy \<longrightarrow> qTypeHint q \<noteq> TypeLongDouble)"

definition fp_binary :: "fpop \<Rightarrow> bool" where
  "fp_binary f \<longleftrightarrow> f \<in> {IRFAdd, IRFSub, IRFMul, IRFDiv, IRFLt, IRFLe, IRFGt, IRFGe, IRFEq, IRFNe, IRFCopySign}"

lemma fp_okD:
  assumes "fp_ok M fr q f"
  shows "fp_binary f \<Longrightarrow> f_opd M fr (qSrc1 q)" "fp_binary f \<Longrightarrow> f_opd M fr (qSrc2 q)" "dst_ok M fr (qDst q)"
    "f \<noteq> IRIntToDouble \<Longrightarrow> f \<noteq> IRFBitcastIF \<Longrightarrow> f_opd M fr (qSrc1 q)"
    "f = IRIntToDouble \<or> f = IRFBitcastIF \<Longrightarrow> opd M fr (qSrc1 q)"
  using assms by (cases f; simp add: fp_ok_def fp_binary_def)+

fun fp_enc :: "fpop \<Rightarrow> (int \<Rightarrow> int \<Rightarrow> int \<Rightarrow> 32 word) \<times> fop3" where
  "fp_enc IRFAdd = (encFADDD, FADD)" | "fp_enc IRFSub = (encFSUBD, FSUB)" | "fp_enc IRFMul = (encFMULD, FMUL)" | "fp_enc _ = (encFDIVD, FDIV)"

lemmas fp_sem_fun = fp_sem.simps [abs_def]

lemma refines_farith:
  assumes ok: "fp_ok M fr q f" and f: "f \<in> {IRFAdd, IRFSub, IRFMul, IRFDiv}"
  shows "refines M fr (gen_fp fr q f) (\<lambda>b. fp_sem (env_at M fr gp b) q f)"
proof -
  have "fp_binary f" using f by (cases f) (simp_all add: fp_binary_def)
  note q = fp_okD(1,2) [OF ok this] fp_okD(3) [OF ok]
  have "impl M (emit (fst (fp_enc f) 0 0 1)) (eff (F3 (snd (fp_enc f)) 0 0 1))" by (rule impl_instr) (use f in \<open>cases f; simp add: dec\<close>)+
  then have r: "refines M fr (fbin fr q (fst (fp_enc f))) (\<lambda>b m. put (env_at M fr gp b) (qDst q)
      (f3_val (snd (fp_enc f)) (fval (env_at M fr gp b) m (qSrc1 q)) (fval (env_at M fr gp b) m (qSrc2 q))) m)"
    unfolding fbin_def by (rule refines_fbin [where h = "f3_val (snd (fp_enc f))", OF _ _ _ _ q]) simp_all
  show ?thesis using f by (cases f) (use r in \<open>simp_all add: fp_sem_fun\<close>)
qed

fun fp_cond :: "fpop \<Rightarrow> int" where
  "fp_cond IRFLt = condLT" | "fp_cond IRFLe = condLE" | "fp_cond IRFGt = condGT" | "fp_cond IRFGe = condGE"
| "fp_cond IRFEq = condEQ" | "fp_cond _ = condNE"

text \<open>The value the comparison stores: \<open>IRFLt\<close> and \<open>IRFLe\<close> also hold when an operand is a NaN.\<close>

definition fcmp_val :: "fpop \<Rightarrow> double \<Rightarrow> double \<Rightarrow> 64 word" where
  "fcmp_val f x y = (if (d_isnan x \<or> d_isnan y) \<and> (f = IRFLt \<or> f = IRFLe) then 1 else fp_bin f x y)"

lemma fcmp_cond:
  assumes "f \<in> {IRFLt, IRFLe, IRFGt, IRFGe, IRFEq, IRFNe}"
  shows "(if cond_holds (fcmp_flags x y s) (nat (fp_cond f XOR 1)) then 0 else 1) = fcmp_val f x y"
  using assms by (cases f) (simp_all add: cond_holds_def fcmp_flags_def fcmp_val_def d_less_def d_equal_def)

lemma refines_fcompare:
  assumes ok: "fp_ok M fr q f" and f: "f \<in> {IRFLt, IRFLe, IRFGt, IRFGe, IRFEq, IRFNe}"
  shows "refines M fr (gen_fp fr q f)
    (\<lambda>b m. put (env_at M fr gp b) (qDst q) (fcmp_val f (fval (env_at M fr gp b) m (qSrc1 q)) (fval (env_at M fr gp b) m (qSrc2 q))) m)"
proof -
  have "fp_binary f" using f by (cases f) (simp_all add: fp_binary_def)
  note q = fp_okD(1,2) [OF ok this] fp_okD(3) [OF ok]
  have c: "fits 4 (fp_cond f)" using f by (cases f) (simp_all add: fits_def)
  have h: "cond_holds (fcmp_flags x y s) (nat (fp_cond f XOR 1)) \<Longrightarrow> fcmp_val f x y = 0"
    "\<not> cond_holds (fcmp_flags x y s) (nat (fp_cond f XOR 1)) \<Longrightarrow> fcmp_val f x y = 1" for x y s
    using fcmp_cond [OF f, of x y s] by simp_all
  have i: "impl M (fcomp (emit (encFCMPD 0 1)) (emit (encCSET 0 (fp_cond f)))) (fcomp (eff (FCMP 0 1)) (eff (CSINC 0 31 31 (nat (fp_cond f XOR 1)))))"
    using dec_CSET [OF _ c] by (intro impl_comp impl_instr) (simp_all add: dec)
  have "refines M fr (emitFPCmpBool fr q (fp_cond f))
    (\<lambda>b m. put (env_at M fr gp b) (qDst q) (fcmp_val f (fval (env_at M fr gp b) m (qSrc1 q)) (fval (env_at M fr gp b) m (qSrc2 q))) m)"
    unfolding emitFPCmpBool_def fcomp_assoc
    by (rule refines_fcmp [where gp = gp and h = "fcmp_val f", OF i _ _ _ q, unfolded fcomp_assoc]) (simp_all add: h)
  then show ?thesis using f by (cases f) simp_all
qed

text \<open>The other operations. The infinities are the values whose magnitude is that of \<open>0x7FF0\<close> shifted by 48.\<close>

lemma d_fields: "d_exp x = unat (take_bit 63 x) div 2 ^ 52" "d_man x = unat (take_bit 63 x) mod 2 ^ 52"
proof -
  have d: "unat (drop_bit n w) = unat w div 2 ^ n" for n and w :: "64 word"
  proof -
    have "take_bit 64 (unat w) = unat w" using unsigned_less [of w, where 'a = nat] by (intro take_bit_nat_eq_self) simp
    then show ?thesis unfolding unsigned_drop_bit_eq by (simp add: drop_bit_eq_div)
  qed
  have "drop_bit 52 x AND 0x7FF = drop_bit 52 (take_bit 63 x)" by (simp add: and_mask_11 drop_bit_take_bit)
  then show "d_exp x = unat (take_bit 63 x) div 2 ^ 52" by (simp only: d_exp_def d)
  have "x AND 0x000FFFFFFFFFFFFF = take_bit 52 (take_bit 63 x)" by (simp add: and_mask_52)
  then show "d_man x = unat (take_bit 63 x) mod 2 ^ 52" by (simp only: d_man_def unsigned_take_bit_eq) (simp add: take_bit_eq_mod mod_mod_cancel)
qed

lemma d_mag: "d_exp (take_bit 63 x) = d_exp x" "d_man (take_bit 63 x) = d_man x" "\<not> d_sign (take_bit 63 x)"
  by (simp_all add: d_fields d_sign_def bit_simps)

lemma d_inf_bits: "d_exp 0x7FF0000000000000 = 2047" "d_man 0x7FF0000000000000 = 0" "\<not> d_sign 0x7FF0000000000000"
  by (simp_all add: d_exp_def d_man_def d_sign_def)

lemma nat_split: "0 < c \<Longrightarrow> n = k * c \<longleftrightarrow> n div c = k \<and> n mod c = (0 :: nat)"
  using div_mult_mod_eq [of n c] by auto

lemma inf_cmp: "d_equal (take_bit 63 x) 0x7FF0000000000000 \<longleftrightarrow> d_isinf x"
proof -
  let ?m = "take_bit 63 x" and ?i = "0x7FF0000000000000 :: 64 word"
  have "d_key ?m = int (unat ?m)" using d_mag(3) [of x] by (simp add: d_key_def)
  moreover have "d_key ?i = int (2047 * 2 ^ 52)" by (simp add: d_key_def d_inf_bits)
  ultimately have "d_key ?m = d_key ?i \<longleftrightarrow> unat ?m = 2047 * 2 ^ 52" by (simp only: of_nat_eq_iff)
  also have "\<dots> \<longleftrightarrow> d_exp x = 2047 \<and> d_man x = 0" 
    using nat_split [of "2 ^ 52" "unat ?m" 2047] by (simp only: d_fields) simp
  finally show ?thesis by (auto simp: d_equal_def d_isnan_def d_isinf_def d_mag d_inf_bits)
qed

lemma copysign_code: "(x AND NOT 0x8000000000000000) OR (y AND 0x8000000000000000) = (fp_bin IRFCopySign x y :: 64 word)"
proof -
  have p: "(0x8000000000000000 :: 64 word) = push_bit 63 1" by simp
  have b: "bit (push_bit 63 1 :: 64 word) n \<longleftrightarrow> n = 63" if "n < 64" for n using that by (simp only: bit_push_bit_iff bit_1_iff) auto
  show ?thesis unfolding p by (rule bit_word_eqI) (auto simp: bit_or_iff bit_and_iff bit_not_iff bit_take_bit_iff bit_mask_iff b simp del: push_bit_of_1 push_bit_numeral)
qed

lemma copysign_code': "x AND - 9223372036854775809 OR y AND 9223372036854775808 = fp_bin IRFCopySign x y"
  using copysign_code [of x y] by (simp del: fp_bin.simps)

lemma refines_fp:
  assumes ok: "fp_ok M fr q f" and f: "f \<notin> {IRFLt, IRFLe, IRFGt, IRFGe, IRFEq, IRFNe}"
  shows "refines M fr (gen_fp fr q f) (\<lambda>b. fp_sem (env_at M fr gp b) q f)"
proof -
  note d = fp_okD(3) [OF ok]
  note envs = env_gp [where gp = gp] env_gp_f [where gp = gp]
  note s1 = fp_okD(4) [OF ok] and i1 = fp_okD(5) [OF ok]
  have n: "impl M (emit (encFNEGD 0 0)) (eff (F2 FNEG 0 0))" "impl M (emit (encSCVTFD 0 0)) (eff (F2 SCVTF 0 0))"
    "impl M (emit (encFCVTZSD 0 0)) (eff (F2 FCVTZS 0 0))" "impl M (emit (encFMOVtoGP 0 0)) (eff (F2 FMOV_to_gp 0 0))"
    "impl M (emit (encFMOVfromGP 0 0)) (eff (F2 FMOV_from_gp 0 0))" by (rule impl_instr; simp add: dec)+
  show ?thesis
  proof (cases f)
    case IRFNeg
    show ?thesis unfolding IRFNeg gen_fp_simps fp_sem_fun using refines_fun(1) [where gp = gp and h = d_neg, OF n(1) _ _ s1 d] IRFNeg by simp
  next
    case IRFCopy
    then have "qTypeHint q \<noteq> TypeLongDouble" using ok by (simp add: fp_ok_def)
    with refines_fun(1) [where gp = gp and h = "\<lambda>x. x", OF impl_id _ _ s1 d] IRFCopy show ?thesis by (simp add: fp_sem_fun)
  next
    case IRIntToDouble
    then have o: "opd M fr (qSrc1 q)" using i1 by simp
    show ?thesis unfolding IRIntToDouble gen_fp_simps fp_sem_fun
      by (rule refinesI [OF impl_comp [OF impl_comp [OF impl_load [OF _ _ o] n(2)] impl_fpStore [OF _ d]]]) (simp_all add: envs)
  next
    case IRFBitcastIF
    then have o: "opd M fr (qSrc1 q)" using i1 by simp
    show ?thesis unfolding IRFBitcastIF gen_fp_simps fp_sem_fun
      by (rule refinesI [OF impl_comp [OF impl_comp [OF impl_load [OF _ _ o] n(5)] impl_fpStore [OF _ d]]]) (simp_all add: envs)
  next
    case IRDoubleToInt
    show ?thesis unfolding IRDoubleToInt gen_fp_simps fp_sem_fun
      using refines_fun(2) [where gp = gp and h = "\<lambda>x. word_of_int (d_to_long x)", OF n(3) _ _ s1 d] IRDoubleToInt by simp
  next
    case IRFBitcastFI
    show ?thesis unfolding IRFBitcastFI gen_fp_simps fp_sem_fun
      using refines_fun(2) [where gp = gp and h = "\<lambda>x. x", OF n(4) _ _ s1 d] IRFBitcastFI by simp
  next
    case IRFIsNaN
    have i: "impl M (fcomp (emit (encFCMPD 0 0)) (emit (encCSET 0 6))) (fcomp (eff (FCMP 0 0)) (eff (CSINC 0 31 31 7)))"
      by (intro impl_comp impl_instr) (simp_all add: dec fits_def)
    have v: "fV (fcmp_flags x x s) \<longleftrightarrow> d_isnan x" for x s by (simp add: fcmp_flags_def)
    show ?thesis unfolding IRFIsNaN gen_fp_simps fp_sem_fun fcomp_assoc
      by (rule refines_fun(2) [where gp = gp and h = "\<lambda>x. of_bool (d_isnan x)", OF i _ _ s1 d, unfolded fcomp_assoc]) (simp_all add: IRFIsNaN v)
  next
    case IRFIsInf
    have i: "impl M (fcomp (fcomp (fcomp (fcomp (emit (encFABSD 0 0)) (emit (encMOVZ 0 0x7FF0 48))) (emit (encFMOVfromGP 1 0))) (emit (encFCMPD 0 1))) (emit (encCSET 0 0)))
        (fcomp (fcomp (fcomp (fcomp (eff (F2 FABS 0 0)) (eff (MOVZ 0 0x7FF0 3))) (eff (F2 FMOV_from_gp 1 0))) (eff (FCMP 0 1))) (eff (CSINC 0 31 31 1)))"
      using dec_MOVZ [of 0 3 "0x7FF0"] by (intro impl_comp impl_instr) (simp_all add: dec fits_def)
    have v: "fZ (fcmp_flags x y s) \<longleftrightarrow> d_equal x y" for x y s by (auto simp: fcmp_flags_def d_equal_def)
    show ?thesis unfolding IRFIsInf gen_fp_simps fp_sem_fun fcomp_assoc
      by (rule refines_fun(2) [where gp = gp and h = "\<lambda>x. of_bool (d_isinf x)", OF i _ _ s1 d, unfolded fcomp_assoc]) (simp_all add: IRFIsInf v inf_cmp)
  next
    case IRFCopySign
    have i: "impl M (fcomp (fcomp (fcomp (fcomp (fcomp (fcomp (fcomp (emit (encFMOVtoGP 0 0)) (emit (encFMOVtoGP 1 1))) (emit (encMOVZ 2 0x8000 48))) (emit (encAND 1 1 2))) (emit (encMOVN 2 0x8000 48)))
          (emit (encAND 0 0 2))) (emit (encORR 0 0 1))) (emit (encFMOVfromGP 0 0)))
        (fcomp (fcomp (fcomp (fcomp (fcomp (fcomp (fcomp (eff (F2 FMOV_to_gp 0 0)) (eff (F2 FMOV_to_gp 1 1))) (eff (MOVZ 2 0x8000 3))) (eff (R3 AND_r 1 1 2))) (eff (MOVN 2 0x8000 3)))
          (eff (R3 AND_r 0 0 2))) (eff (R3 ORR 0 0 1))) (eff (F2 FMOV_from_gp 0 0)))"
      using dec_MOVZ [of 2 3 "0x8000"] dec_MOVN [of 2 3 "0x8000"] by (intro impl_comp impl_instr) (simp_all add: dec fits_def)
    have b: "fp_binary f" by (simp add: IRFCopySign fp_binary_def)
    show ?thesis unfolding IRFCopySign gen_fp_simps fp_sem_fun fcomp_assoc
      by (rule refines_fbin [where gp = gp and h = "fp_bin IRFCopySign", OF i _ _ _ fp_okD(1,2) [OF ok b] d, unfolded fcomp_assoc])
        (simp_all del: fp_bin.simps add: copysign_code')
  qed (use refines_farith [OF ok] f in simp_all)
qed

end
