(* ===== verification/CodegenW.thy ===== *)
theory CodegenW
  imports CodegenMem
begin

section \<open>The code of 128-bit quads\<close>

text \<open>A 128-bit value is a pair of registers; \<open>word_cat hi lo\<close> is its value.\<close>

subsection \<open>Pairs of words\<close>

abbreviation pair :: "64 word \<Rightarrow> 64 word \<Rightarrow> 128 word" where "pair hi lo \<equiv> word_cat hi lo"

lemma bit_pair: "bit (pair h l) n \<longleftrightarrow> n < 128 \<and> (if n < 64 then bit l n else bit h (n - 64))"
  by (simp add: bit_word_cat_iff)

lemma pair_lo [simp]: "ucast (pair h l) = l"
  by (rule bit_word_eqI) (simp add: bit_simps bit_pair)

lemma pair_hi [simp]: "ucast (drop_bit 64 (pair h l)) = h"
  by (rule bit_word_eqI) (simp add: bit_simps bit_pair)

lemma uint_lt: "0 \<le> uint (x :: 64 word)" "uint (x :: 64 word) < 2 ^ 64"
  using unsigned_less [of x] by simp_all

lemma pair_of_int: "pair (word_of_int h) l = word_of_int (h * 2 ^ 64 + uint l)"
proof (rule bit_word_eqI)
  fix n assume "n < LENGTH(128)"
  have d: "h * 2 ^ 64 + uint l = push_bit 64 h OR uint l"
  proof -
    have "push_bit 64 h AND uint l = 0" by (rule bit_eqI) (auto simp: bit_simps dest: bit_imp_le_length)
    then have "push_bit 64 h + uint l = push_bit 64 h OR uint l" using disjunctive_add_eq_or by blast
    then show ?thesis by (simp add: push_bit_eq_mult)
  qed
  show "bit (pair (word_of_int h) l) n = bit (word_of_int (h * 2 ^ 64 + uint l) :: 128 word) n" unfolding d
    using \<open>n < LENGTH(128)\<close> by (auto simp: bit_pair bit_simps dest: bit_imp_le_length)
qed

lemma pair_uint: "pair h l = word_of_int (uint h * 2 ^ 64 + uint l)" "pair h l = word_of_int (sint h * 2 ^ 64 + uint l)"
  using pair_of_int [of "uint h" l] pair_of_int [of "sint h" l] by simp_all

lemma uint_pair: "uint (pair h l) = uint h * 2 ^ 64 + uint l"
proof -
  have "uint h * 2 ^ 64 + uint l < 2 ^ 128" using uint_lt [of h] uint_lt [of l] by simp
  moreover have "0 \<le> uint h * 2 ^ 64 + uint l" using uint_lt [of h] uint_lt [of l] by simp
  ultimately have "take_bit 128 (uint h * 2 ^ 64 + uint l) = uint h * 2 ^ 64 + uint l" by (intro take_bit_int_eq_self)
  then show ?thesis unfolding pair_uint(1) uint_word_of_int_eq by simp
qed

lemma sint_pair: "sint (pair h l) = sint h * 2 ^ 64 + uint l"
proof -
  have "signed_take_bit 127 (sint h * 2 ^ 64 + uint l) = sint h * 2 ^ 64 + uint l"
  proof (rule signed_take_bit_int_eq_self)
    have "- (2 ^ 63) * 2 ^ 64 \<le> sint h * 2 ^ 64" "(sint h + 1) * 2 ^ 64 \<le> 2 ^ 63 * 2 ^ 64"
      using sint_bounds [of h] by (intro mult_right_mono; simp)+
    then have "- (2 ^ 63) * 2 ^ 64 \<le> sint h * 2 ^ 64" "sint h * 2 ^ 64 + 2 ^ 64 \<le> 2 ^ 63 * 2 ^ 64" unfolding distrib_right by simp_all
    then have "- (2 ^ 63) * 2 ^ 64 \<le> sint h * 2 ^ 64 + uint l" "sint h * 2 ^ 64 + uint l < 2 ^ 63 * 2 ^ 64" using uint_lt [of l] by linarith+
    then show "- (2 ^ 127) \<le> sint h * 2 ^ 64 + uint l" "sint h * 2 ^ 64 + uint l < 2 ^ 127" by simp_all
  qed
  then show ?thesis unfolding pair_uint(2) signed_of_int by simp
qed

lemma mod_once: "0 \<le> x \<Longrightarrow> x < 2 * w \<Longrightarrow> x mod w = (if w \<le> x then x - w else x)" for x w :: int
  using mod_pos_pos_trivial [of x w] mod_pos_pos_trivial [of "x - w" w] minus_mod_self2 [of x w] by auto

lemma lex_le: "0 \<le> x0 \<Longrightarrow> x0 < w \<Longrightarrow> 0 \<le> y0 \<Longrightarrow> y0 < w \<Longrightarrow>
    y1 * w + y0 \<le> x1 * w + x0 \<longleftrightarrow> y1 + (if y0 \<le> x0 then 0 else 1) \<le> x1" for x0 y0 x1 y1 w :: int
proof -
  assume b: "0 \<le> x0" "x0 < w" "0 \<le> y0" "y0 < w"
  consider "y1 < x1" | "y1 = x1" | "x1 < y1" by linarith
  then show ?thesis
  proof cases
    case 1
    then have "(y1 + 1) * w \<le> x1 * w" using b by (intro mult_right_mono) auto
    then show ?thesis using 1 b by (auto simp: algebra_simps)
  next
    case 3
    then have "(x1 + 1) * w \<le> y1 * w" using b by (intro mult_right_mono) auto
    then show ?thesis using 3 b by (auto simp: algebra_simps)
  qed auto
qed

lemma uint_add_carry: "uint (a + b) = uint a + uint b - (if 2 ^ 64 \<le> uint a + uint b then 2 ^ 64 else 0)" for a b :: "64 word"
proof -
  have "uint (a + b) = (uint a + uint b) mod 2 ^ 64" by (simp add: uint_word_ariths)
  then show ?thesis using uint_lt [of a] uint_lt [of b] mod_once [of "uint a + uint b" "2 ^ 64"] by auto
qed

lemma uint_sub_borrow: "uint (a - b) = uint a - uint b + (if uint b \<le> uint a then 0 else 2 ^ 64)" for a b :: "64 word"
proof -
  have "uint (a - b) = (uint a - uint b + 2 ^ 64) mod 2 ^ 64" by (simp add: uint_word_ariths)
  moreover have "0 \<le> uint a - uint b + 2 ^ 64" "uint a - uint b + 2 ^ 64 < 2 * 2 ^ 64" using uint_lt [of a] uint_lt [of b] by linarith+
  ultimately show ?thesis using mod_once [of "uint a - uint b + 2 ^ 64" "2 ^ 64"] by auto
qed

lemma pair_add: "pair (awc a1 b1 (2 ^ 64 \<le> uint a0 + uint b0)) (a0 + b0) = pair a1 a0 + pair b1 b0"
proof -
  let ?c = "2 ^ 64 \<le> uint a0 + uint b0"
  have w: "awc a1 b1 ?c = word_of_int (uint a1 + uint b1 + of_bool ?c)" by (simp add: awc_def)
  have "pair (awc a1 b1 ?c) (a0 + b0) = word_of_int ((uint a1 + uint b1 + of_bool ?c) * 2 ^ 64 + uint (a0 + b0))"
    unfolding w pair_of_int ..
  also have "(uint a1 + uint b1 + of_bool ?c) * 2 ^ 64 + uint (a0 + b0) = (uint a1 * 2 ^ 64 + uint a0) + (uint b1 * 2 ^ 64 + uint b0)"
    by (simp add: uint_add_carry algebra_simps)
  finally show ?thesis by (simp only: pair_uint(1) of_int_add)
qed

lemma pair_sub: "pair (awc a1 (NOT b1) (uint b0 \<le> uint a0)) (a0 - b0) = pair a1 a0 - pair b1 b0"
proof -
  let ?c = "uint b0 \<le> uint a0"
  have w: "awc a1 (NOT b1) ?c = word_of_int (uint a1 - uint b1 - 1 + of_bool ?c)" by (simp add: awc_def not_eq_complement)
  have "pair (awc a1 (NOT b1) ?c) (a0 - b0) = word_of_int ((uint a1 - uint b1 - 1 + of_bool ?c) * 2 ^ 64 + uint (a0 - b0))"
    unfolding w pair_of_int ..
  also have "(uint a1 - uint b1 - 1 + of_bool ?c) * 2 ^ 64 + uint (a0 - b0) = (uint a1 * 2 ^ 64 + uint a0) - (uint b1 * 2 ^ 64 + uint b0)"
    by (simp add: uint_sub_borrow algebra_simps)
  finally show ?thesis by (simp only: pair_uint(1) of_int_diff)
qed

lemma pair_bitwise: "pair (a1 AND b1) (a0 AND b0) = pair a1 a0 AND pair b1 b0" "pair (a1 OR b1) (a0 OR b0) = pair a1 a0 OR pair b1 b0"
  "pair (a1 XOR b1) (a0 XOR b0) = pair a1 a0 XOR pair b1 b0"
  by (rule bit_word_eqI; auto simp: bit_pair bit_simps)+

lemma pair_eq: "pair a1 a0 = pair b1 b0 \<longleftrightarrow> (a0 XOR b0) OR (a1 XOR b1) = 0"
proof -
  have "pair a1 a0 = pair b1 b0 \<longleftrightarrow> a1 = b1 \<and> a0 = b0" by (metis pair_hi pair_lo)
  moreover have "(a0 XOR b0) OR (a1 XOR b1) = 0 \<longleftrightarrow> a1 = b1 \<and> a0 = b0" by (auto simp: bit_eq_iff bit_or_iff bit_xor_iff)
  ultimately show ?thesis by simp
qed

text \<open>The flags of a comparison of pairs: the high words subtract with the borrow of the low ones.\<close>

lemma cmp_pair:
  assumes "t = awc_flags a1 (NOT b1) (uint b0 \<le> uint a0) s"
  shows "fC t \<longleftrightarrow> uint (pair b1 b0) \<le> uint (pair a1 a0)" "(fN t = fV t) \<longleftrightarrow> sint (pair b1 b0) \<le> sint (pair a1 a0)"
proof -
  have n: "(fN t = fV t) \<longleftrightarrow> 0 \<le> sint a1 + sint (NOT b1) + of_bool (uint b0 \<le> uint a0)"
    using awc_neg [of a1 "NOT b1" "uint b0 \<le> uint a0"] by (simp add: assms awc_flags_def)
  have c: "fC t \<longleftrightarrow> 2 ^ 64 \<le> uint a1 + uint (NOT b1) + of_bool (uint b0 \<le> uint a0)" by (simp add: assms awc_flags_def)
  note l = lex_le [OF uint_lt [of a0] uint_lt [of b0]]
  show "fC t \<longleftrightarrow> uint (pair b1 b0) \<le> uint (pair a1 a0)" unfolding c uint_pair l uint_not by auto
  show "(fN t = fV t) \<longleftrightarrow> sint (pair b1 b0) \<le> sint (pair a1 a0)" unfolding n sint_pair l sint_not by auto
qed

subsection \<open>Shifts\<close>

lemma pair_shl: "0 < n \<Longrightarrow> n < 64 \<Longrightarrow>
    pair (bfm False h (64 - n) (63 - n) OR bfm False l (64 - n) 63) (bfm False l (64 - n) (63 - n)) = push_bit n (pair h l)"
  by (rule bit_word_eqI) (auto simp: bfm_def bit_pair bit_simps add.commute [of n])

lemma pair_lshr: "0 < n \<Longrightarrow> n < 64 \<Longrightarrow>
    pair (bfm False h n 63) (bfm False l n 63 OR bfm False h n (n - 1)) = drop_bit n (pair h l)"
  by (rule bit_word_eqI) (auto simp: bfm_def bit_pair bit_simps add.commute [of n])

lemma pair_ashr: "0 < n \<Longrightarrow> n < 64 \<Longrightarrow>
    pair (bfm True h n 63) (bfm False l n 63 OR bfm False h n (n - 1)) = signed_drop_bit n (pair h l)"
  by (rule bit_word_eqI) (auto simp: bfm_def bit_pair bit_simps add.commute [of n])

lemma pair_far: "64 \<le> n \<Longrightarrow> n < 128 \<Longrightarrow> pair (push_bit (n - 64) l) 0 = push_bit n (pair h l)"
  "64 \<le> n \<Longrightarrow> n < 128 \<Longrightarrow> pair 0 (drop_bit (n - 64) h) = drop_bit n (pair h l)"
  "128 \<le> n \<Longrightarrow> pair 0 0 = push_bit n (pair h l)" "128 \<le> n \<Longrightarrow> pair 0 0 = drop_bit n (pair h l)"
  by (rule bit_word_eqI; auto simp: bit_pair bit_simps dest: bit_imp_le_length)+

lemma eq_63: "63 \<le> n \<Longrightarrow> n < 64 \<Longrightarrow> n = (63 :: nat)"
  by simp

lemma pair_sign: "pair (bfm True h 63 63) h = signed_drop_bit 64 (pair h l)"
  "128 \<le> n \<Longrightarrow> pair (bfm True h 63 63) (bfm True h 63 63) = signed_drop_bit n (pair h l)"
  "pair (bfm True l 63 63) l = scast l"
  by (rule bit_word_eqI; auto simp: bfm_def bit_pair bit_signed_take_bit_iff bit_signed_drop_bit_iff bit_drop_bit_eq bit_signed_iff min_def simp del: signed_take_bit_0 dest: eq_63 split: if_splits)+

lemma bfm_lsl: "0 < k \<Longrightarrow> k < 64 \<Longrightarrow> bfm False x (64 - k) (63 - k) = push_bit k x" "bfm False x k 63 = drop_bit k x" if "k < 64"
  by (rule bit_word_eqI; use that in \<open>auto simp: bfm_def bit_simps dest: bit_imp_le_length\<close>)+

subsection \<open>Loads and stores of pairs\<close>

definition opd128 :: "image \<Rightarrow> frame \<Rightarrow> IRAddr \<Rightarrow> bool" where
  "opd128 M fr a \<longleftrightarrow> dst_ok M fr a \<and> (aKind a \<noteq> AddrGlobal \<longrightarrow> off_ok 8 (fr_off fr (aName a) + 8))"

definition cell_at :: "image \<Rightarrow> frame \<Rightarrow> arm \<Rightarrow> IRAddr \<Rightarrow> 64 word" where
  "cell_at M fr s a = cell (env_at M fr (\<lambda>_. False) (fbase fr s)) a"

definition ld128_eff :: "image \<Rightarrow> frame \<Rightarrow> IRAddr \<Rightarrow> nat \<Rightarrow> nat \<Rightarrow> arm \<Rightarrow> arm" where
  "ld128_eff M fr a lo hi s = wX hi (ld64 (aM s) (cell_at M fr s a + 8)) (wX lo (ld64 (aM s) (cell_at M fr s a)) (glob9 M a s))"

definition st128_eff :: "image \<Rightarrow> frame \<Rightarrow> nat \<Rightarrow> nat \<Rightarrow> IRAddr \<Rightarrow> arm \<Rightarrow> arm" where
  "st128_eff M fr lo hi a s = (glob9 M a s)\<lparr>aM := st64 (st64 (aM s) (cell_at M fr s a) (rX s lo)) (cell_at M fr s a + 8) (rX s hi)\<rparr>"

lemma cell_slot: "aKind a \<noteq> AddrGlobal \<Longrightarrow> cell_at M fr s a = fbase fr s + word_of_int (fr_off fr (aName a))"
  "aKind a = AddrGlobal \<Longrightarrow> cell_at M fr s a = imAddr M (aName a)"
  by (simp_all add: cell_at_def cell_def env_at_def)

lemma cell_at_keep: "fbase fr t = fbase fr s \<Longrightarrow> cell_at M fr t a = cell_at M fr s a"
  by (simp add: cell_at_def)

lemma impl_load128:
  assumes lo: "reg lo" "lo < 9" and hi: "reg hi" "hi < 9" and a: "opd128 M fr a"
  shows "impl M (load128 fr a lo hi) (ld128_eff M fr a (nat lo) (nat hi))"
proof (cases "aKind a = AddrGlobal")
  case True
  then obtain k where "imPool M (aName a) = Some k" using a by (auto simp: opd128_def dst_ok_def opd_def)
  from impl_comp [OF impl_comp [OF impl_emitLDRglobal [OF this] impl_ldr [of lo 9 0]] impl_ldr [of hi 9 8]] lo hi True show ?thesis
    by (simp add: load128_def ld128_eff_def [abs_def] cell_slot glob9_def fcomp_def fits_def)
next
  case False
  then have k: "aKind a = AddrTemp \<or> aKind a = AddrLocal" and o: "off_ok 8 (fr_off fr (aName a))" "off_ok 8 (fr_off fr (aName a) + 8)"
    using a by (auto simp: opd128_def dst_ok_def opd_def split: AddrKind.splits)
  have n: "nat lo < 9" "nat hi < 9" using lo hi by simp_all
  have "impl M (fcomp (emit (encLDRuoff lo (frameBase fr) (fr_off fr (aName a)))) (emit (encLDRuoff hi (frameBase fr) (fr_off fr (aName a) + 8))))
      (ld128_eff M fr a (nat lo) (nat hi))"
    by (rule impl_cong [OF impl_comp [OF impl_ldr impl_ldr]])
      (use lo hi o False n fbase_rXsp in \<open>auto simp: ld128_eff_def cell_slot glob9_def ac_simps\<close>)
  with k show ?thesis by (auto simp: load128_def)
qed

lemma impl_store128:
  assumes lo: "reg lo" "lo < 9" and hi: "reg hi" "hi < 9" and a: "opd128 M fr a"
  shows "impl M (store128 fr lo hi a) (st128_eff M fr (nat lo) (nat hi) a)"
proof (cases "aKind a = AddrGlobal")
  case True
  then obtain k where "imPool M (aName a) = Some k" using a by (auto simp: opd128_def dst_ok_def opd_def)
  from impl_comp [OF impl_comp [OF impl_emitLDRglobal [OF this] impl_str [of lo 9 0]] impl_str [of hi 9 8]] lo hi True show ?thesis
    by (simp add: store128_def st128_eff_def [abs_def] cell_slot glob9_def fcomp_def fits_def)
next
  case False
  then have k: "aKind a = AddrTemp \<or> aKind a = AddrLocal" and o: "off_ok 8 (fr_off fr (aName a))" "off_ok 8 (fr_off fr (aName a) + 8)"
    using a by (auto simp: opd128_def dst_ok_def opd_def split: AddrKind.splits)
  have n: "nat lo < 9" "nat hi < 9" using lo hi by simp_all
  have "impl M (fcomp (emit (encSTRuoff lo (frameBase fr) (fr_off fr (aName a)))) (emit (encSTRuoff hi (frameBase fr) (fr_off fr (aName a) + 8))))
      (st128_eff M fr (nat lo) (nat hi) a)"
    by (rule impl_cong [OF impl_comp [OF impl_str impl_str]])
      (use lo hi o False n fbase_rXsp in \<open>auto simp: st128_eff_def cell_slot glob9_def ac_simps\<close>)
  with k show ?thesis by (auto simp: store128_def)
qed

lemma ld128_simps [simp]:
  assumes "lo < 9" "hi < 9"
  shows "aM (ld128_eff M fr a lo hi s) = aM s" "keeps t (ld128_eff M fr a lo hi s) = keeps t s" "fbase fr' (ld128_eff M fr a lo hi s) = fbase fr' s"
    "rX (ld128_eff M fr a lo hi s) hi = ld64 (aM s) (cell_at M fr s a + 8)" "lo \<noteq> hi \<Longrightarrow> rX (ld128_eff M fr a lo hi s) lo = ld64 (aM s) (cell_at M fr s a)"
    "k < 9 \<Longrightarrow> k \<noteq> lo \<Longrightarrow> k \<noteq> hi \<Longrightarrow> rX (ld128_eff M fr a lo hi s) k = rX s k"
  using assms by (auto simp: ld128_eff_def)

lemma st128_simps [simp]:
  "keeps t (st128_eff M fr lo hi a s) = keeps t s"
  "aM (st128_eff M fr lo hi a s) = put128 (env_at M fr (\<lambda>_. False) (fbase fr s)) a (pair (rX s hi) (rX s lo)) (aM s)"
  by (auto simp: st128_eff_def put128_def cell_at_def)

lemma env_128: "val128 (env_at M fr gp b) = val128 (env_at M fr (\<lambda>_. False) b)" "put128 (env_at M fr gp b) = put128 (env_at M fr (\<lambda>_. False) b)"
  by (simp_all add: fun_eq_iff val128_def put128_def cell_def env_at_def)

lemma val128_pair: "val128 (env_at M fr (\<lambda>_. False) (fbase fr s)) m a = pair (ld64 m (cell_at M fr s a + 8)) (ld64 m (cell_at M fr s a))"
  by (simp add: val128_def cell_at_def)

lemma cell_at_upd [simp]: "lo < 9 \<Longrightarrow> hi < 9 \<Longrightarrow> cell_at M fr (ld128_eff M fr' a' lo hi s) a = cell_at M fr s a"
  by (simp add: cell_at_def)

subsection \<open>The operations\<close>

lemma refines_bin128:
  assumes b: "impl M body F" "\<And>s. aM (F s) = aM s" "\<And>s. keeps s (F s)"
    "\<And>s. pair (rX (F s) 1) (rX (F s) 0) = h (pair (rX s 1) (rX s 0)) (pair (rX s 3) (rX s 2))"
    and q: "opd128 M fr (qSrc1 q)" "opd128 M fr (qSrc2 q)" "opd128 M fr (qDst q)"
  shows "refines M fr (fcomp (fcomp (load128_2 fr q) body) (store128 fr 0 1 (qDst q)))
    (\<lambda>b m. put128 (env_at M fr gp b) (qDst q) (h (val128 (env_at M fr gp b) m (qSrc1 q)) (val128 (env_at M fr gp b) m (qSrc2 q))) m)"
  unfolding env_128 [where gp = gp] load128_2_def
  by (rule refinesI [OF impl_comp [OF impl_comp [OF impl_comp [OF impl_load128 impl_load128] b(1)] impl_store128]])
    (use q b(4) in \<open>auto simp: b(2) keeps_fbase [OF b(3)] keeps_comp [OF b(3)] val128_pair\<close>)

lemma refines_cmp128:
  assumes b: "impl M body F" "\<And>s. aM (F s) = aM s" "\<And>s. keeps s (F s)"
    "\<And>s. rX (F s) 0 = h (pair (rX s 1) (rX s 0)) (pair (rX s 3) (rX s 2))"
    and q: "opd128 M fr (qSrc1 q)" "opd128 M fr (qSrc2 q)" "dst_ok M fr (qDst q)"
  shows "refines M fr (fcomp (fcomp (load128_2 fr q) body) (store fr 0 (qDst q)))
    (\<lambda>b m. put (env_at M fr gp b) (qDst q) (h (val128 (env_at M fr gp b) m (qSrc1 q)) (val128 (env_at M fr gp b) m (qSrc2 q))) m)"
  unfolding env_128 [where gp = gp] env_gp [where gp = gp] load128_2_def
  by (rule refinesI [OF impl_comp [OF impl_comp [OF impl_comp [OF impl_load128 impl_load128] b(1)] impl_store]])
    (use q b(4) in \<open>auto simp: b(2) keeps_fbase [OF b(3)] keeps_comp [OF b(3)] val128_pair\<close>)

lemma refines_un128:
  assumes b: "impl M body F" "\<And>s. aM (F s) = aM s" "\<And>s. keeps s (F s)"
    "\<And>s. pair (rX (F s) 1) (rX (F s) 0) = h (pair (rX s 1) (rX s 0))"
    and q: "opd128 M fr (qSrc1 q)" "opd128 M fr (qDst q)"
  shows "refines M fr (fcomp (fcomp (load128 fr (qSrc1 q) 0 1) body) (store128 fr 0 1 (qDst q)))
    (\<lambda>b m. put128 (env_at M fr gp b) (qDst q) (h (val128 (env_at M fr gp b) m (qSrc1 q))) m)"
  unfolding env_128 [where gp = gp]
  by (rule refinesI [OF impl_comp [OF impl_comp [OF impl_load128 b(1)] impl_store128]])
    (use q b(4) in \<open>auto simp: b(2) keeps_fbase [OF b(3)] keeps_comp [OF b(3)] val128_pair\<close>)

lemma flags_C [simp]: "fC (awc_flags a b c s) \<longleftrightarrow> 2 ^ 64 \<le> uint a + uint b + of_bool c"
  by (simp add: awc_flags_def)

lemma carry_sub: "18446744073709551615 \<le> uint a + uint (NOT b) \<longleftrightarrow> uint b \<le> uint a" for a b :: "64 word"
  by (auto simp: uint_not)

definition wide_ok :: "image \<Rightarrow> frame \<Rightarrow> Quad \<Rightarrow> op128 \<Rightarrow> bool" where
  "wide_ok M fr q w \<longleftrightarrow> w \<noteq> IR128Mul
     \<and> (if w = IR128FromU64 \<or> w = IR128FromI64 then opd M fr (qSrc1 q) else opd128 M fr (qSrc1 q))
     \<and> (if w = IR64From128 \<or> is_cmp128 w then dst_ok M fr (qDst q) else opd128 M fr (qDst q))
     \<and> (is_cmp128 w \<or> w = IR128Add \<or> w = IR128Sub \<or> w = IR128And \<or> w = IR128Or \<or> w = IR128Xor \<longrightarrow> opd128 M fr (qSrc2 q))
     \<and> (w = IR128Shl \<or> w = IR128LShr \<or> w = IR128AShr \<longrightarrow> 0 \<le> aIVal (qSrc2 q))
     \<and> (w = IR128AShr \<longrightarrow> aIVal (qSrc2 q) \<le> 64 \<or> 128 \<le> aIVal (qSrc2 q))"

lemma refines_bin:
  assumes q: "opd128 M fr (qSrc1 q)" "opd128 M fr (qSrc2 q)" "opd128 M fr (qDst q)"
    and w: "w = IR128Add \<or> w = IR128Sub \<or> w = IR128And \<or> w = IR128Or \<or> w = IR128Xor"
  shows "refines M fr (gen_128 fr q w) (\<lambda>b. sem_128 (env_at M fr gp b) q w)"
proof -
  have i: "impl M (fcomp (emit (encADDS 0 0 2)) (emit (encADC 1 1 3))) (fcomp (eff (R3 ADDS 0 0 2)) (eff (R3 ADC 1 1 3)))"
    "impl M (fcomp (emit (encSUBS 0 0 2)) (emit (encSBC 1 1 3))) (fcomp (eff (R3 SUBS 0 0 2)) (eff (R3 SBC 1 1 3)))"
    "impl M (fcomp (emit (encAND 0 0 2)) (emit (encAND 1 1 3))) (fcomp (eff (R3 AND_r 0 0 2)) (eff (R3 AND_r 1 1 3)))"
    "impl M (fcomp (emit (encORR 0 0 2)) (emit (encORR 1 1 3))) (fcomp (eff (R3 ORR 0 0 2)) (eff (R3 ORR 1 1 3)))"
    "impl M (fcomp (emit (encEOR 0 0 2)) (emit (encEOR 1 1 3))) (fcomp (eff (R3 EOR 0 0 2)) (eff (R3 EOR 1 1 3)))"
    by (intro impl_comp impl_instr; simp add: dec)+
  note r = refines_bin128 [where gp = gp, OF _ _ _ _ q]
  show ?thesis using w
  proof (elim disjE)
    assume w: "w = IR128Add"
    have "refines M fr (fcomp (fcomp (load128_2 fr q) (fcomp (emit (encADDS 0 0 2)) (emit (encADC 1 1 3)))) (store128 fr 0 1 (qDst q))) (\<lambda>b m. put128 (env_at M fr gp b) (qDst q)
        (val128 (env_at M fr gp b) m (qSrc1 q) + val128 (env_at M fr gp b) m (qSrc2 q)) m)"
      by (rule r [OF i(1), of "(+)"]) (use pair_add in \<open>simp_all add: awc_def\<close>)
    with w show ?thesis by (simp add: bin128_def fcomp_assoc sem_128.simps [abs_def] is_cmp128_def)
  next
    assume w: "w = IR128Sub"
    have "refines M fr (fcomp (fcomp (load128_2 fr q) (fcomp (emit (encSUBS 0 0 2)) (emit (encSBC 1 1 3)))) (store128 fr 0 1 (qDst q))) (\<lambda>b m. put128 (env_at M fr gp b) (qDst q)
        (val128 (env_at M fr gp b) m (qSrc1 q) - val128 (env_at M fr gp b) m (qSrc2 q)) m)"
      by (rule r [OF i(2), of "(-)"]) (use pair_sub in \<open>simp_all add: awc_sub carry_sub\<close>)
    with w show ?thesis by (simp add: bin128_def fcomp_assoc sem_128.simps [abs_def] is_cmp128_def)
  qed (use r [OF i(3), of "(AND)"] r [OF i(4), of "(OR)"] r [OF i(5), of "(XOR)"] in \<open>simp_all add: bin128_def fcomp_assoc sem_128.simps [abs_def] is_cmp128_def pair_bitwise\<close>)
qed

text \<open>A body that turns the pair in X1, X0 into \<open>h\<close> of it.\<close>

definition on_pair :: "image \<Rightarrow> (codeBuilder \<Rightarrow> codeBuilder) \<Rightarrow> (128 word \<Rightarrow> 128 word) \<Rightarrow> bool" where
  "on_pair M body h \<longleftrightarrow> (\<exists>F. impl M body F \<and>
     (\<forall>s. aM (F s) = aM s \<and> keeps s (F s) \<and> pair (rX (F s) 1) (rX (F s) 0) = h (pair (rX s 1) (rX s 0))))"

lemma on_pairI: "impl M body F \<Longrightarrow> (\<And>s. aM (F s) = aM s) \<Longrightarrow> (\<And>s. keeps s (F s)) \<Longrightarrow>
    (\<And>s. pair (rX (F s) 1) (rX (F s) 0) = h (pair (rX s 1) (rX s 0))) \<Longrightarrow> on_pair M body h"
  unfolding on_pair_def by blast

lemma refines_on_pair:
  assumes b: "on_pair M body h" and q: "opd128 M fr (qSrc1 q)" "opd128 M fr (qDst q)"
  shows "refines M fr (fcomp (fcomp (load128 fr (qSrc1 q) 0 1) body) (store128 fr 0 1 (qDst q)))
    (\<lambda>b m. put128 (env_at M fr gp b) (qDst q) (h (val128 (env_at M fr gp b) m (qSrc1 q))) m)"
  using b unfolding on_pair_def by (elim exE) (rule refines_un128 [OF _ _ _ _ q]; blast)

lemma impl_movz0: "reg d \<Longrightarrow> impl M (emit (encMOVZ d 0 0)) (wX (nat d) 0)"
  using dec_MOVZ [of d 0 0] by (auto intro!: impl_1 simp: fits_def)

lemma impl_ubfm: "reg d \<Longrightarrow> reg x \<Longrightarrow> fits 6 i \<Longrightarrow> fits 6 l \<Longrightarrow>
    impl M (emit (encUBFM d x i l)) (\<lambda>s. wX (nat d) (bfm False (rX s (nat x)) (nat i) (nat l)) s)"
  by (rule impl_1 [OF dec_UBFM]) simp_all

lemma impl_asr: "reg d \<Longrightarrow> reg x \<Longrightarrow> fits 6 i \<Longrightarrow> impl M (emit (encASR d x i)) (\<lambda>s. wX (nat d) (bfm True (rX s (nat x)) (nat i) 63) s)"
  by (rule impl_1 [OF dec_ASR]) simp_all

lemma impl_orr: "reg d \<Longrightarrow> reg x \<Longrightarrow> reg y \<Longrightarrow> impl M (emit (encORR d x y)) (\<lambda>s. wX (nat d) (rX s (nat x) OR rX s (nat y)) s)"
  by (rule impl_1 [OF dec_ORR]) simp_all

lemma shift_fits: "0 < n \<Longrightarrow> n < 64 \<Longrightarrow> fits 6 n" "0 < n \<Longrightarrow> n < 64 \<Longrightarrow> fits 6 (n - 1)" "0 < n \<Longrightarrow> n < 64 \<Longrightarrow> fits 6 (64 - n)"
  "0 < n \<Longrightarrow> n < 64 \<Longrightarrow> fits 6 (63 - n)" "64 < n \<Longrightarrow> n < 128 \<Longrightarrow> fits 6 (n - 64)"
  "64 < n \<Longrightarrow> n < 128 \<Longrightarrow> fits 6 (64 - (n - 64))" "64 < n \<Longrightarrow> n < 128 \<Longrightarrow> fits 6 (63 - (n - 64))" "fits 6 63"
  by (auto simp: fits_def)

lemma shift_cases:
  assumes "0 \<le> (n :: int)"
  obtains "n = 0" | "n = 64" | "0 < n" "n < 64" | "64 < n" "n < 128" | "128 \<le> n"
  using assms by linarith

lemma on_pair_shl:
  assumes "0 \<le> n"
  shows "on_pair M (shl128_body n) (push_bit (nat n))"
  using assms
proof (cases rule: shift_cases)
  case 1 then show ?thesis by (simp add: shl128_body_def on_pairI [OF impl_id])
next
  case 2
  have "on_pair M (fcomp (emit (encMOVreg 1 0)) (emit (encMOVZ 0 0 0))) (push_bit 64)"
    by (rule on_pairI [OF impl_comp [OF impl_mov impl_movz0]]) (use pair_far(1) [of 64] in simp_all)
  with 2 show ?thesis by (simp add: shl128_body_def)
next
  case 3
  have e: "nat (64 - n) = 64 - nat n" "nat (63 - n) = 63 - nat n" "0 < nat n" "nat n < 64" using 3 by auto
  have "on_pair M (emit128Shl 0 1 n) (push_bit (nat n))" unfolding emit128Shl_def
    by (rule on_pairI [OF impl_comp [OF impl_comp [OF impl_comp [OF impl_ubfm impl_ubfm] impl_orr] impl_ubfm]])
      (use 3 pair_shl [OF e(3,4)] in \<open>simp_all add: shift_fits e\<close>)
  with 3 show ?thesis by (simp add: shl128_body_def)
next
  case 4
  have e: "nat (128 - n) = 64 - (nat n - 64)" "nat (127 - n) = 63 - (nat n - 64)" "0 < nat n - 64" "nat n - 64 < 64" using 4 by auto
  have f: "fits 6 (128 - n)" "fits 6 (127 - n)" using 4 by (simp_all add: fits_def)
  have b: "bfm False x (128 - nat n) (127 - nat n) = push_bit (nat n - 64) x" for x using bfm_lsl(1) [OF e(4,3,4), of x] e(3) by simp
  have "on_pair M (fcomp (emit (encUBFM 1 0 (64 - (n - 64)) (63 - (n - 64)))) (emit (encMOVZ 0 0 0))) (push_bit (nat n))"
    by (rule on_pairI [OF impl_comp [OF impl_ubfm impl_movz0]])
      (use 4 pair_far(1) [of "nat n"] in \<open>simp_all add: f e(1,2) b\<close>)
  with 4 show ?thesis by (simp add: shl128_body_def)
next
  case 5
  have "on_pair M (fcomp (emit (encMOVZ 0 0 0)) (emit (encMOVZ 1 0 0))) (push_bit (nat n))"
    by (rule on_pairI [OF impl_comp [OF impl_movz0 impl_movz0]]) (use 5 pair_far(3) [of "nat n"] in simp_all)
  with 5 show ?thesis by (simp add: shl128_body_def)
qed

lemma on_pair_lshr:
  assumes "0 \<le> n"
  shows "on_pair M (lshr128_body n) (drop_bit (nat n))"
  using assms
proof (cases rule: shift_cases)
  case 1 then show ?thesis by (simp add: lshr128_body_def on_pairI [OF impl_id])
next
  case 2
  have "on_pair M (fcomp (emit (encMOVreg 0 1)) (emit (encMOVZ 1 0 0))) (drop_bit 64)"
    by (rule on_pairI [OF impl_comp [OF impl_mov impl_movz0]]) (use pair_far(2) [of 64] in simp_all)
  with 2 show ?thesis by (simp add: lshr128_body_def)
next
  case 3
  have e: "nat (n - 1) = nat n - 1" "0 < nat n" "nat n < 64" using 3 by auto
  have "on_pair M (emit128LShr 0 1 n) (drop_bit (nat n))" unfolding emit128LShr_def
    by (rule on_pairI [OF impl_comp [OF impl_comp [OF impl_comp [OF impl_ubfm impl_ubfm] impl_orr] impl_ubfm]])
      (use 3 pair_lshr [OF e(2,3)] in \<open>simp_all add: shift_fits e(1)\<close>)
  with 3 show ?thesis by (simp add: lshr128_body_def)
next
  case 4
  have e: "nat (n - 64) = nat n - 64" "nat n - 64 < 64" using 4 by auto
  have "on_pair M (fcomp (emit (encUBFM 0 1 (n - 64) 63)) (emit (encMOVZ 1 0 0))) (drop_bit (nat n))"
    by (rule on_pairI [OF impl_comp [OF impl_ubfm impl_movz0]])
      (use 4 pair_far(2) [of "nat n"] in \<open>simp_all add: shift_fits e(1) bfm_lsl(2) [OF e(2)]\<close>)
  with 4 show ?thesis by (simp add: lshr128_body_def)
next
  case 5
  have "on_pair M (fcomp (emit (encMOVZ 0 0 0)) (emit (encMOVZ 1 0 0))) (drop_bit (nat n))"
    by (rule on_pairI [OF impl_comp [OF impl_movz0 impl_movz0]]) (use 5 pair_far(4) [of "nat n"] in simp_all)
  with 5 show ?thesis by (simp add: lshr128_body_def)
qed

lemma on_pair_ashr:
  assumes "0 \<le> n" "n \<le> 64 \<or> 128 \<le> n"
  shows "on_pair M (ashr128_body n) (signed_drop_bit (nat n))"
  using assms(1)
proof (cases rule: shift_cases)
  case 1 then show ?thesis by (simp add: ashr128_body_def on_pairI [OF impl_id])
next
  case 2
  have "on_pair M (fcomp (emit (encMOVreg 0 1)) (emit (encASR 1 1 63))) (signed_drop_bit 64)"
    by (rule on_pairI [OF impl_comp [OF impl_mov impl_asr]]) (use pair_sign(1) in \<open>simp_all add: shift_fits\<close>)
  with 2 show ?thesis by (simp add: ashr128_body_def)
next
  case 3
  have e: "nat (n - 1) = nat n - 1" "0 < nat n" "nat n < 64" using 3 by auto
  have "on_pair M (fcomp (fcomp (fcomp (emit (encUBFM 0 0 n 63)) (emit (encUBFM 2 1 n (n - 1)))) (emit (encORR 0 0 2))) (emit (encASR 1 1 n))) (signed_drop_bit (nat n))"
    by (rule on_pairI [OF impl_comp [OF impl_comp [OF impl_comp [OF impl_ubfm impl_ubfm] impl_orr] impl_asr]])
      (use 3 pair_ashr [OF e(2,3)] in \<open>simp_all add: shift_fits e(1)\<close>)
  with 3 show ?thesis by (simp add: ashr128_body_def)
next
  case 5
  have "on_pair M (fcomp (emit (encASR 0 1 63)) (emit (encASR 1 1 63))) (signed_drop_bit (nat n))"
    by (rule on_pairI [OF impl_comp [OF impl_asr impl_asr]]) (use 5 pair_sign(2) [of "nat n"] in \<open>simp_all add: shift_fits\<close>)
  with 5 show ?thesis by (simp add: ashr128_body_def)
qed (use assms(2) in simp)

lemma refines_cmp_pairs:
  assumes q: "opd128 M fr (qSrc1 q)" "opd128 M fr (qSrc2 q)" "dst_ok M fr (qDst q)" and c: "cond \<in> {2, 3, 10, 11}"
  shows "refines M fr (emit128Cmp fr q swap cond) (\<lambda>b m. put (env_at M fr gp b) (qDst q) (of_bool
    (let a = val128 (env_at M fr gp b) m (qSrc1 q); b' = val128 (env_at M fr gp b) m (qSrc2 q); x = (if swap then b' else a); y = (if swap then a else b')
     in if cond = 2 then uint y \<le> uint x else if cond = 3 then uint x < uint y else if cond = 10 then sint y \<le> sint x else sint x < sint y)) m)"
proof -
  have f: "fits 4 cond" using c by (auto simp: fits_def)
  have s: "impl M (emit (encCSET 0 cond)) (eff (CSINC 0 31 31 (nat (cond XOR 1))))" using dec_CSET [OF _ f] by (intro impl_instr) simp_all
  let ?r = "\<lambda>x y :: 128 word. if cond = 2 then uint y \<le> uint x else if cond = 3 then uint x < uint y else if cond = 10 then sint y \<le> sint x else sint x < sint y"
  have h: "cond_holds (awc_flags a1 (NOT b1) (uint b0 \<le> uint a0) t) (nat (cond XOR 1)) \<longleftrightarrow> \<not> ?r (pair a1 a0) (pair b1 b0)"
    for a1 b1 a0 b0 :: "64 word" and t
  proof -
    note cp = cmp_pair [OF refl, of a1 b1 b0 a0 t]
    have "cond = 2 \<or> cond = 3 \<or> cond = 10 \<or> cond = 11" using c by simp
    then show ?thesis by (elim disjE) (simp_all add: cond_holds_def cp not_less del: flags_C)
  qed
  have i: "impl M (fcomp (emit (encSUBS 31 0 2)) (emit (encSBCS 31 1 3))) (fcomp (eff (R3 SUBS 31 0 2)) (eff (R3 SBCS 31 1 3)))"
    "impl M (fcomp (emit (encSUBS 31 2 0)) (emit (encSBCS 31 3 1))) (fcomp (eff (R3 SUBS 31 2 0)) (eff (R3 SBCS 31 3 1)))"
    by (intro impl_comp impl_instr; simp add: dec)+
  note r = refines_cmp128 [where gp = gp, OF _ _ _ _ q]
  show ?thesis
  proof (cases swap)
    case True
    show ?thesis unfolding emit128Cmp_def Let_def eqTrueI [OF True] if_True fcomp_assoc
      by (rule r [where h = "\<lambda>a b. of_bool (?r b a)", OF impl_comp [OF i(2) s], unfolded fcomp_assoc]) (simp_all add: carry_sub h)
  next
    case False
    show ?thesis unfolding emit128Cmp_def Let_def Eq_FalseI [OF False] if_False fcomp_assoc
      by (rule r [where h = "\<lambda>a b. of_bool (?r a b)", OF impl_comp [OF i(1) s], unfolded fcomp_assoc]) (simp_all add: carry_sub h)
  qed
qed

lemma refines_eq_pairs:
  assumes q: "opd128 M fr (qSrc1 q)" "opd128 M fr (qSrc2 q)" "dst_ok M fr (qDst q)" and c: "cond = 0 \<or> cond = 1"
  shows "refines M fr (eq128 fr q cond) (\<lambda>b m. put (env_at M fr gp b) (qDst q) (of_bool
    ((cond = 0) = (val128 (env_at M fr gp b) m (qSrc1 q) = val128 (env_at M fr gp b) m (qSrc2 q)))) m)"
proof -
  have f: "fits 4 cond" using c by (auto simp: fits_def)
  have i: "impl M (fcomp (fcomp (fcomp (fcomp (emit (encEOR 0 0 2)) (emit (encEOR 1 1 3))) (emit (encORR 0 0 1))) (emit (encCMPimm0 0))) (emit (encCSET 0 cond)))
      (fcomp (fcomp (fcomp (fcomp (eff (R3 EOR 0 0 2)) (eff (R3 EOR 1 1 3))) (eff (R3 ORR 0 0 1))) (eff (SUBS_i 31 0 0))) (eff (CSINC 0 31 31 (nat (cond XOR 1)))))"
    using dec_CSET [OF _ f] by (intro impl_comp impl_instr) (simp_all add: dec)
  have z: "fZ (awc_flags x (- 1) True s) \<longleftrightarrow> x = 0" for x s by (simp add: awc_flags_def awc_def)
  show ?thesis unfolding eq128_def fcomp_assoc
    by (rule refines_cmp128 [where gp = gp and h = "\<lambda>a b. of_bool ((cond = 0) = (a = b))", OF i _ _ _ q, unfolded fcomp_assoc])
      (use c in \<open>elim disjE; simp add: z pair_eq cond_holds_def\<close>)+
qed

lemma wide_okD:
  assumes "wide_ok M fr q w"
  shows "w \<noteq> IR128FromU64 \<Longrightarrow> w \<noteq> IR128FromI64 \<Longrightarrow> opd128 M fr (qSrc1 q)"
    "w = IR128FromU64 \<or> w = IR128FromI64 \<Longrightarrow> opd M fr (qSrc1 q)"
    "w \<noteq> IR64From128 \<Longrightarrow> \<not> is_cmp128 w \<Longrightarrow> opd128 M fr (qDst q)" "w = IR64From128 \<or> is_cmp128 w \<Longrightarrow> dst_ok M fr (qDst q)"
    "is_cmp128 w \<Longrightarrow> opd128 M fr (qSrc2 q)"
    "w = IR128Add \<or> w = IR128Sub \<or> w = IR128And \<or> w = IR128Or \<or> w = IR128Xor \<Longrightarrow> opd128 M fr (qSrc2 q)"
    "w = IR128Shl \<or> w = IR128LShr \<or> w = IR128AShr \<Longrightarrow> 0 \<le> aIVal (qSrc2 q)"
    "w = IR128AShr \<Longrightarrow> aIVal (qSrc2 q) \<le> 64 \<or> 128 \<le> aIVal (qSrc2 q)" "w \<noteq> IR128Mul"
  using assms unfolding wide_ok_def by (auto split: if_splits)

lemmas sem_128_fun = sem_128.simps [abs_def]

lemma refines_128:
  assumes ok: "wide_ok M fr q w"
  shows "refines M fr (gen_128 fr q w) (\<lambda>b. sem_128 (env_at M fr gp b) q w)"
proof -
  note D = wide_okD [OF ok]
  note envs = env_128 [where gp = gp] env_gp [where gp = gp]
  have cmp: "refines M fr (emit128Cmp fr q swap cond) (\<lambda>b. sem_128 (env_at M fr gp b) q w)"
    if "is_cmp128 w" "cond \<in> {2, 3, 10, 11}" "\<And>a b. cmp_128 w a b \<longleftrightarrow> (let x = (if swap then b else a); y = (if swap then a else b)
     in if cond = 2 then uint y \<le> uint x else if cond = 3 then uint x < uint y else if cond = 10 then sint y \<le> sint x else sint x < sint y)"
      "w \<notin> {IR128Copy, IR128Neg, IR128Shl, IR128LShr, IR128AShr, IR128FromU64, IR128FromI64, IR64From128}" for swap cond
  proof -
    have s: "sem_128 e q w = (\<lambda>m. put e (qDst q) (of_bool (cmp_128 w (val128 e m (qSrc1 q)) (val128 e m (qSrc2 q)))) m)" for e
      using that(1,4) by (cases w) (simp_all add: sem_128_fun)
    have "w \<noteq> IR128FromU64" "w \<noteq> IR128FromI64" using that(4) by auto
    from refines_cmp_pairs [where gp = gp and swap = swap, OF D(1) [OF this] D(5) [OF that(1)] D(4) [OF disjI2 [OF that(1)]] that(2)]
    show ?thesis unfolding s that(3) Let_def .
  qed
  show ?thesis
  proof (cases w)
    case IR128Copy
    have "on_pair M id (\<lambda>x. x)" by (rule on_pairI [OF impl_id]) simp_all
    from refines_on_pair [where gp = gp, OF this D(1) D(3)] show ?thesis by (simp add: IR128Copy sem_128_fun is_cmp128_def)
  next
    case IR128Neg
    have i: "impl M (fcomp (emit (encNEGS 0 0)) (emit (encNGC 1 1))) (fcomp (eff (R3 SUBS 0 31 0)) (eff (R3 SBC 1 31 1)))"
      by (intro impl_comp impl_instr) (simp_all add: dec)
    have "on_pair M (fcomp (emit (encNEGS 0 0)) (emit (encNGC 1 1))) uminus"
      by (rule on_pairI [OF i]) (use pair_sub [of 0 _ _ 0] carry_sub [of 0] in \<open>simp_all add: awc_sub\<close>)
    from refines_on_pair [where gp = gp, OF this D(1) D(3)] show ?thesis by (simp add: IR128Neg sem_128_fun is_cmp128_def fcomp_assoc)
  next
    case IR128Shl
    from refines_on_pair [where gp = gp, OF on_pair_shl D(1) D(3)] D(7) show ?thesis by (simp add: IR128Shl sem_128_fun is_cmp128_def shift128_def)
  next
    case IR128LShr
    from refines_on_pair [where gp = gp, OF on_pair_lshr D(1) D(3)] D(7) show ?thesis by (simp add: IR128LShr sem_128_fun is_cmp128_def shift128_def)
  next
    case IR128AShr
    from refines_on_pair [where gp = gp, OF on_pair_ashr D(1) D(3)] D(7,8) show ?thesis by (simp add: IR128AShr sem_128_fun is_cmp128_def shift128_def)
  next
    case IR128FromU64
    then have o: "opd M fr (qSrc1 q)" "opd128 M fr (qDst q)" using D(2,3) by (simp_all add: is_cmp128_def)
    have e: "pair 0 x = ucast x" for x by (rule bit_word_eqI) (auto simp: bit_pair bit_simps dest: bit_imp_le_length)
    show ?thesis unfolding IR128FromU64 gen_128_simps sem_128_fun
      by (rule refinesI [OF impl_comp [OF impl_comp [OF impl_load [OF _ _ o(1)] impl_movz0] impl_store128 [OF _ _ _ _ o(2)]]]) (simp_all add: envs e)
  next
    case IR128FromI64
    then have o: "opd M fr (qSrc1 q)" "opd128 M fr (qDst q)" using D(2,3) by (simp_all add: is_cmp128_def)
    show ?thesis unfolding IR128FromI64 gen_128_simps sem_128_fun
      by (rule refinesI [OF impl_comp [OF impl_comp [OF impl_load [OF _ _ o(1)] impl_asr] impl_store128 [OF _ _ _ _ o(2)]]]) (simp_all add: envs shift_fits pair_sign(3))
  next
    case IR64From128
    then have o: "opd128 M fr (qSrc1 q)" "dst_ok M fr (qDst q)" using D(1,4) by simp_all
    show ?thesis unfolding IR64From128 gen_128_simps sem_128_fun
      by (rule refinesI [OF impl_comp [OF impl_load128 [OF _ _ _ _ o(1)] impl_store [OF _ _ o(2)]]]) (simp_all add: envs val128_pair)
  next
    case IR128Eq
    from refines_eq_pairs [where gp = gp, OF D(1) D(5) D(4), of 0] show ?thesis by (simp add: IR128Eq sem_128_fun is_cmp128_def)
  next
    case IR128Ne
    from refines_eq_pairs [where gp = gp, OF D(1) D(5) D(4), of 1] show ?thesis by (simp add: IR128Ne sem_128_fun is_cmp128_def)
  next
    case IR128ULt from cmp [of 3 False] show ?thesis by (simp add: IR128ULt is_cmp128_def)
  next
    case IR128ULe from cmp [of 2 True] show ?thesis by (simp add: IR128ULe is_cmp128_def)
  next
    case IR128UGt from cmp [of 3 True] show ?thesis by (simp add: IR128UGt is_cmp128_def)
  next
    case IR128UGe from cmp [of 2 False] show ?thesis by (simp add: IR128UGe is_cmp128_def)
  next
    case IR128SLt from cmp [of 11 False] show ?thesis by (simp add: IR128SLt is_cmp128_def)
  next
    case IR128SLe from cmp [of 10 True] show ?thesis by (simp add: IR128SLe is_cmp128_def)
  next
    case IR128SGt from cmp [of 11 True] show ?thesis by (simp add: IR128SGt is_cmp128_def)
  next
    case IR128SGe from cmp [of 10 False] show ?thesis by (simp add: IR128SGe is_cmp128_def)
  next
    case IR128Mul then show ?thesis using D(9) by simp
  qed (use refines_bin [where gp = gp and w = w, OF D(1) D(6) D(3)] in \<open>simp_all add: is_cmp128_def\<close>)
qed

end
