(* ===== verification/Fixups.thy ===== *)
theory Fixups
  imports Block
begin

section \<open>Labels, fixups and the shape of the emitted code\<close>

text \<open>
  The builder only grows: every emission appends words, records fixups for the words it appends
  and defines labels at the words it appends (\<open>ext\<close>). A builder made this way is well-formed,
  and on a well-formed builder \<open>applyFixups\<close> either reports an undefined or a too distant label or
  turns every placeholder into the branch to its label and changes nothing else.
\<close>

subsection \<open>Placeholders\<close>

fun tmpl :: "fixupKind \<Rightarrow> 32 word \<Rightarrow> bool" where
  "tmpl fixB w \<longleftrightarrow> w = 0x14000000"
| "tmpl fixBL w \<longleftrightarrow> w = 0x94000000"
| "tmpl fixBcond w \<longleftrightarrow> (\<exists>c. fits 4 c \<and> w = u32 (0x54000000 OR c))"
| "tmpl fixCBZ w \<longleftrightarrow> (\<exists>t. reg t \<and> w = u32 (0xB4000000 OR t))"
| "tmpl fixCBNZ w \<longleftrightarrow> (\<exists>t. reg t \<and> w = u32 (0xB5000000 OR t))"
| "tmpl fixADR w \<longleftrightarrow> (\<exists>d. reg d \<and> w = 0x10000000 OR u32 d)"

text \<open>The instruction a placeholder becomes: its operand and the distance in words.\<close>

fun branch_to :: "fixupKind \<Rightarrow> 32 word \<Rightarrow> int \<Rightarrow> instr" where
  "branch_to fixB w d = B d"
| "branch_to fixBL w d = BL d"
| "branch_to fixBcond w d = B_cond (bits w 0 4) d"
| "branch_to fixCBZ w d = CBZ (bits w 0 5) d"
| "branch_to fixCBNZ w d = CBNZ (bits w 0 5) d"
| "branch_to fixADR w d = ADR (bits w 0 5) (4 * d)"

definition in_range :: "fixupKind \<Rightarrow> int \<Rightarrow> bool" where
  "in_range k d \<longleftrightarrow> (if k = fixB \<or> k = fixBL then - (2 ^ 25) \<le> d \<and> d < 2 ^ 25 else - (2 ^ 18) \<le> d \<and> d < 2 ^ 18)"

lemma u32_or: "u32 (a OR b) = u32 a OR u32 b"
  by (simp add: of_int_or_eq)

lemma mask_keep:
  assumes "fits 5 c"
  shows "u32 c AND 0xFF00001F = u32 c" "u32 c AND 0x9000001F = u32 c"
proof -
  have b: "k < 5" if "bit (u32 c) k" for k
  proof (rule ccontr)
    assume "\<not> k < 5"
    have "bit c k" using that by (simp add: bit_simps)
    moreover have "take_bit 5 c = c" using assms by (intro take_bit_int_eq_self) (auto simp: fits_def)
    ultimately show False using \<open>\<not> k < 5\<close> by (metis bit_take_bit_iff)
  qed
  have "\<forall>k \<in> set [0..<5]. bit (0xFF00001F :: 32 word) k \<and> bit (0x9000001F :: 32 word) k" by (simp add: upt_rec)
  then have m: "bit (0xFF00001F :: 32 word) k" "bit (0x9000001F :: 32 word) k" if "k < 5" for k using that by simp_all
  have "bit (u32 c AND 0xFF00001F) n = bit (u32 c) n" "bit (u32 c AND 0x9000001F) n = bit (u32 c) n" for n
    using m [of n] b [of n] unfolding bit_and_iff by blast+
  then show "u32 c AND 0xFF00001F = u32 c" "u32 c AND 0x9000001F = u32 c" by (auto intro!: bit_word_eqI)
qed

lemma u32_mask: "u32 d AND 0x7FFFF = u32 (d AND 0x7FFFF)"
  by (simp add: of_int_and_eq)

lemma imm19_word:
  assumes c: "fits 5 c" and b: "base AND 0xFF00001F = base"
  shows "((base OR u32 c) AND 0xFF00001F) OR push_bit 5 (u32 d AND 0x7FFFF) = base OR push_bit 5 (u32 (d AND 0x7FFFF)) OR u32 c"
proof -
  have "(base OR u32 c) AND 0xFF00001F = base OR u32 c" using b mask_keep(1) [OF c] by (simp only: bit.conj_disj_distrib2)
  then show ?thesis by (simp only: u32_mask or.assoc or.commute or.left_commute)
qed

lemma fits_45: "fits 4 c \<Longrightarrow> fits 5 c"
  by (auto simp: fits_def)

lemma patch_branch:
  assumes w: "tmpl k w" and r: "in_range k d"
  shows "\<exists>v. patch_word k l d w = Inr v \<and> decode v = Some (branch_to k w d)"
proof (cases k)
  case fixB
  have "patch_word k l d w = Inr (encB d)" using w r by (simp add: fixB patch_word_def encB_def in_range_def)
  then show ?thesis using r fixB dec_B [of d] by (simp add: in_range_def)
next
  case fixBL
  have "patch_word k l d w = Inr (encBL d)" using w r by (simp add: fixBL patch_word_def encBL_def in_range_def)
  then show ?thesis using r fixBL dec_BL [of d] by (simp add: in_range_def)
next
  case fixBcond
  then obtain c where c: "fits 4 c" "w = 0x54000000 OR u32 c" using w by (auto simp: u32_or)
  have "patch_word k l d w = Inr (encBcond c d)" unfolding encBcond_def c(2)
    using r imm19_word [OF fits_45 [OF c(1)], of "0x54000000" d] by (simp add: fixBcond patch_word_def in_range_def)
  moreover have "bits w 0 4 = nat c" using c(1) by (simp add: c(2) bits_simps)
  ultimately show ?thesis using r fixBcond dec_Bcond [OF c(1), of d] by (simp add: in_range_def)
next
  case fixCBZ
  then obtain t where c: "fits 5 t" "w = 0xB4000000 OR u32 t" using w by (auto simp: u32_or)
  have "patch_word k l d w = Inr (encCBZ t d)" unfolding encCBZ_def c(2)
    using r imm19_word [OF c(1), of "0xB4000000" d] by (simp add: fixCBZ patch_word_def in_range_def)
  moreover have "bits w 0 5 = nat t" using c(1) by (simp add: c(2) bits_simps)
  ultimately show ?thesis using r fixCBZ dec_CBZ [OF c(1), of d] by (simp add: in_range_def)
next
  case fixCBNZ
  then obtain t where c: "fits 5 t" "w = 0xB5000000 OR u32 t" using w by (auto simp: u32_or)
  have "patch_word k l d w = Inr (encCBNZ t d)" unfolding encCBNZ_def c(2)
    using r imm19_word [OF c(1), of "0xB5000000" d] by (simp add: fixCBNZ patch_word_def in_range_def)
  moreover have "bits w 0 5 = nat t" using c(1) by (simp add: c(2) bits_simps)
  ultimately show ?thesis using r fixCBNZ dec_CBNZ [OF c(1), of d] by (simp add: in_range_def)
next
  case fixADR
  then obtain t where c: "fits 5 t" "w = 0x10000000 OR u32 t" using w by auto
  have "w AND 0x9000001F = w" unfolding c(2) using mask_keep(2) [OF c(1)] by (simp add: bit.conj_disj_distrib2)
  then have "patch_word k l d w = Inr (encADR t (4 * d))" unfolding encADR_def
    using r by (simp add: fixADR patch_word_def in_range_def Let_def c(2) ac_simps)
  moreover have "bits w 0 5 = nat t" using c(1) by (simp add: c(2) bits_simps)
  ultimately show ?thesis using r fixADR dec_ADR [OF c(1), of "4 * d"] by (simp add: in_range_def)
qed

lemma patch_error: "\<not> in_range k d \<Longrightarrow> \<exists>e. patch_word k l d w = Inl (OutOfRange l e)"
  by (cases k) (auto simp: in_range_def patch_word_def Let_def)

subsection \<open>Applying the fixups\<close>

definition wf_cb :: "codeBuilder \<Rightarrow> bool" where
  "wf_cb cb \<longleftrightarrow> sorted_wrt (<) (map fxAt (fixups cb)) \<and>
     (\<forall>f \<in> set (fixups cb). fxAt f < length (instrs cb) \<and> tmpl (fxKind f) (instrs cb ! fxAt f))"

definition linkable :: "(string \<Rightarrow> nat option) \<Rightarrow> branchFixup \<Rightarrow> bool" where
  "linkable lab f \<longleftrightarrow> (\<exists>t. lab (fxLabel f) = Some t \<and> in_range (fxKind f) (int t - int (fxAt f)))"

text \<open>What the loop reports for a fixup that cannot be applied.\<close>

definition reports :: "(string \<Rightarrow> nat option) \<Rightarrow> branchFixup \<Rightarrow> fixupError \<Rightarrow> bool" where
  "reports lab f e \<longleftrightarrow> (case lab (fxLabel f) of None \<Rightarrow> e = UndefinedLabel (fxLabel f) | Some _ \<Rightarrow> \<exists>d. e = OutOfRange (fxLabel f) d)"

lemma fixup_loop_ok:
  assumes "distinct (map fxAt fxs)" "\<forall>f \<in> set fxs. fxAt f < length ws \<and> tmpl (fxKind f) (ws ! fxAt f)" "\<forall>f \<in> set fxs. linkable lab f"
  shows "\<exists>ws'. fixup_loop lab fxs ws = Inr ws' \<and> length ws' = length ws
      \<and> (\<forall>i. i \<notin> fxAt ` set fxs \<longrightarrow> ws' ! i = ws ! i)
      \<and> (\<forall>f \<in> set fxs. \<exists>t. lab (fxLabel f) = Some t \<and>
           decode (ws' ! fxAt f) = Some (branch_to (fxKind f) (ws ! fxAt f) (int t - int (fxAt f))))"
  using assms
proof (induction fxs arbitrary: ws)
  case (Cons f fxs)
  have at: "fxAt f < length ws" "tmpl (fxKind f) (ws ! fxAt f)" using Cons.prems(2) by auto
  have inv: "distinct (map fxAt fxs)" "\<forall>g \<in> set fxs. fxAt g < length (ws[fxAt f := w]) \<and> tmpl (fxKind g) (ws[fxAt f := w] ! fxAt g)" for w
    using Cons.prems(1,2) by (auto simp: nth_list_update)
  obtain t where t: "lab (fxLabel f) = Some t" "in_range (fxKind f) (int t - int (fxAt f))" using Cons.prems(3) by (auto simp: linkable_def)
  obtain v where v: "patch_word (fxKind f) (fxLabel f) (int t - int (fxAt f)) (ws ! fxAt f) = Inr v"
    "decode v = Some (branch_to (fxKind f) (ws ! fxAt f) (int t - int (fxAt f)))" using patch_branch [OF at(2) t(2)] by blast
  have "\<forall>g \<in> set fxs. linkable lab g" using Cons.prems(3) by simp
  from Cons.IH [OF inv this, of v] obtain ws' where ws': "fixup_loop lab fxs (ws[fxAt f := v]) = Inr ws'" "length ws' = length ws"
    "\<And>i. i \<notin> fxAt ` set fxs \<Longrightarrow> ws' ! i = ws[fxAt f := v] ! i"
    "\<And>g. g \<in> set fxs \<Longrightarrow> \<exists>t. lab (fxLabel g) = Some t \<and>
       decode (ws' ! fxAt g) = Some (branch_to (fxKind g) (ws[fxAt f := v] ! fxAt g) (int t - int (fxAt g)))" by auto
  have "fixup_loop lab (f # fxs) ws = Inr ws'" using t v ws'(1) at by simp
  moreover have "ws' ! i = ws ! i" if "i \<notin> fxAt ` set (f # fxs)" for i using ws'(3) that by auto
  moreover have "\<exists>t. lab (fxLabel g) = Some t \<and> decode (ws' ! fxAt g) = Some (branch_to (fxKind g) (ws ! fxAt g) (int t - int (fxAt g)))"
    if "g \<in> set (f # fxs)" for g
  proof (cases "g = f")
    case True
    have "fxAt f \<notin> fxAt ` set fxs" using Cons.prems(1) by auto
    then show ?thesis using ws'(3) at v t True by simp
  next
    case False
    then have "g \<in> set fxs" using that by simp
    moreover have "fxAt g \<noteq> fxAt f" using Cons.prems(1) calculation by (force simp: image_iff)
    ultimately show ?thesis using ws'(4) [of g] by simp
  qed
  ultimately show ?case using ws'(2) by blast
qed simp

lemma fixup_loop_err:
  assumes "distinct (map fxAt fxs)" "\<forall>f \<in> set fxs. fxAt f < length ws \<and> tmpl (fxKind f) (ws ! fxAt f)" "\<not> (\<forall>f \<in> set fxs. linkable lab f)"
  shows "\<exists>e. fixup_loop lab fxs ws = Inl e \<and> (\<exists>f \<in> set fxs. \<not> linkable lab f \<and> reports lab f e)"
  using assms
proof (induction fxs arbitrary: ws)
  case (Cons f fxs)
  have at: "fxAt f < length ws" "tmpl (fxKind f) (ws ! fxAt f)" using Cons.prems(2) by auto
  have inv: "distinct (map fxAt fxs)" "\<forall>g \<in> set fxs. fxAt g < length (ws[fxAt f := w]) \<and> tmpl (fxKind g) (ws[fxAt f := w] ! fxAt g)" for w
    using Cons.prems(1,2) by (auto simp: nth_list_update)
  show ?case
  proof (cases "linkable lab f")
    case True
    then obtain t where t: "lab (fxLabel f) = Some t" "in_range (fxKind f) (int t - int (fxAt f))" by (auto simp: linkable_def)
    obtain v where v: "patch_word (fxKind f) (fxLabel f) (int t - int (fxAt f)) (ws ! fxAt f) = Inr v" using patch_branch [OF at(2) t(2)] by blast
    have "\<not> (\<forall>g \<in> set fxs. linkable lab g)" using Cons.prems(3) True by simp
    from Cons.IH [OF inv this, of v] show ?thesis using t v at by auto
  next
    case False
    show ?thesis
    proof (cases "lab (fxLabel f)")
      case (Some t)
      then have "\<not> in_range (fxKind f) (int t - int (fxAt f))" using False by (simp add: linkable_def)
      from patch_error [OF this, of "fxLabel f" "ws ! fxAt f"] show ?thesis using Some at False by (auto simp: reports_def)
    qed (use False in \<open>auto simp: reports_def\<close>)
  qed
qed simp

lemma applyFixups_spec:
  assumes "wf_cb cb"
  shows "(\<forall>f \<in> set (fixups cb). linkable (labels cb) f) \<Longrightarrow> \<exists>ws. applyFixups cb = Inr (cb\<lparr>instrs := ws\<rparr>) \<and> length ws = length (instrs cb)
      \<and> (\<forall>i. i \<notin> fxAt ` set (fixups cb) \<longrightarrow> ws ! i = instrs cb ! i)
      \<and> (\<forall>f \<in> set (fixups cb). \<exists>t. labels cb (fxLabel f) = Some t \<and>
           decode (ws ! fxAt f) = Some (branch_to (fxKind f) (instrs cb ! fxAt f) (int t - int (fxAt f))))"
    and "\<not> (\<forall>f \<in> set (fixups cb). linkable (labels cb) f) \<Longrightarrow>
      \<exists>e. applyFixups cb = Inl e \<and> (\<exists>f \<in> set (fixups cb). \<not> linkable (labels cb) f \<and> reports (labels cb) f e)"
proof -
  have d: "distinct (map fxAt (fixups cb))" using assms unfolding wf_cb_def strict_sorted_iff [of "map fxAt (fixups cb)"] by blast
  have t: "\<forall>f \<in> set (fixups cb). fxAt f < length (instrs cb) \<and> tmpl (fxKind f) (instrs cb ! fxAt f)" using assms by (simp add: wf_cb_def)
  show "\<exists>ws. applyFixups cb = Inr (cb\<lparr>instrs := ws\<rparr>) \<and> length ws = length (instrs cb)
      \<and> (\<forall>i. i \<notin> fxAt ` set (fixups cb) \<longrightarrow> ws ! i = instrs cb ! i)
      \<and> (\<forall>f \<in> set (fixups cb). \<exists>t. labels cb (fxLabel f) = Some t \<and>
           decode (ws ! fxAt f) = Some (branch_to (fxKind f) (instrs cb ! fxAt f) (int t - int (fxAt f))))"
    if "\<forall>f \<in> set (fixups cb). linkable (labels cb) f" using fixup_loop_ok [OF d t that] by (elim exE) (auto simp: applyFixups_def)
  show "\<exists>e. applyFixups cb = Inl e \<and> (\<exists>f \<in> set (fixups cb). \<not> linkable (labels cb) f \<and> reports (labels cb) f e)"
    if "\<not> (\<forall>f \<in> set (fixups cb). linkable (labels cb) f)" using fixup_loop_err [OF d t that] by (elim exE) (auto simp: applyFixups_def)
qed

subsection \<open>The builder grows\<close>

definition ext :: "codeBuilder \<Rightarrow> codeBuilder \<Rightarrow> bool" where
  "ext cb cb' \<longleftrightarrow> (\<exists>ws fx. instrs cb' = instrs cb @ ws \<and> fixups cb' = fixups cb @ fx \<and> poolIdx cb' = poolIdx cb
     \<and> sorted_wrt (<) (map fxAt fx)
     \<and> (\<forall>f \<in> set fx. length (instrs cb) \<le> fxAt f \<and> fxAt f < length (instrs cb') \<and> tmpl (fxKind f) (instrs cb' ! fxAt f))
     \<and> (\<forall>l. labels cb' l = labels cb l \<or> (\<exists>n. labels cb' l = Some n \<and> length (instrs cb) \<le> n \<and> n \<le> length (instrs cb'))))"

lemma ext_refl [simp]: "ext cb cb"
  unfolding ext_def by (rule exI [of _ "[]"], rule exI [of _ "[]"]) simp

lemma ext_trans:
  assumes "ext a b" "ext b c"
  shows "ext a c"
proof -
  obtain ws fx where b: "instrs b = instrs a @ ws" "fixups b = fixups a @ fx" "poolIdx b = poolIdx a" "sorted_wrt (<) (map fxAt fx)"
    "\<forall>f \<in> set fx. length (instrs a) \<le> fxAt f \<and> fxAt f < length (instrs b) \<and> tmpl (fxKind f) (instrs b ! fxAt f)"
    "\<forall>l. labels b l = labels a l \<or> (\<exists>n. labels b l = Some n \<and> length (instrs a) \<le> n \<and> n \<le> length (instrs b))"
    using assms(1) unfolding ext_def by (elim exE conjE) (rule that)
  obtain vs gx where c: "instrs c = instrs b @ vs" "fixups c = fixups b @ gx" "poolIdx c = poolIdx b" "sorted_wrt (<) (map fxAt gx)"
    "\<forall>f \<in> set gx. length (instrs b) \<le> fxAt f \<and> fxAt f < length (instrs c) \<and> tmpl (fxKind f) (instrs c ! fxAt f)"
    "\<forall>l. labels c l = labels b l \<or> (\<exists>n. labels c l = Some n \<and> length (instrs b) \<le> n \<and> n \<le> length (instrs c))"
    using assms(2) unfolding ext_def by (elim exE conjE) (rule that)
  have le: "length (instrs a) \<le> length (instrs b)" "length (instrs b) \<le> length (instrs c)" by (simp_all add: b(1) c(1))
  show ?thesis unfolding ext_def
  proof (intro exI conjI)
    show "instrs c = instrs a @ (ws @ vs)" "fixups c = fixups a @ (fx @ gx)" "poolIdx c = poolIdx a" by (simp_all add: b c)
    show "sorted_wrt (<) (map fxAt (fx @ gx))" using b(4,5) c(4,5) by (auto simp: sorted_wrt_append intro: less_le_trans)
    show "\<forall>f \<in> set (fx @ gx). length (instrs a) \<le> fxAt f \<and> fxAt f < length (instrs c) \<and> tmpl (fxKind f) (instrs c ! fxAt f)"
      using b(5) c(5) le by (auto simp: c(1) nth_append)
    show "\<forall>l. labels c l = labels a l \<or> (\<exists>n. labels c l = Some n \<and> length (instrs a) \<le> n \<and> n \<le> length (instrs c))"
      using b(6) c(6) le by (metis order_trans)
  qed
qed

lemma ext_wf: "ext cb cb' \<Longrightarrow> wf_cb cb \<Longrightarrow> wf_cb cb'"
  unfolding ext_def wf_cb_def by (auto simp: sorted_wrt_append nth_append) (meson less_le_trans, meson trans_less_add1)

lemma ext_len: "ext cb cb' \<Longrightarrow> length (instrs cb) \<le> length (instrs cb')"
  by (auto simp: ext_def)

text \<open>Functions that grow the builder.\<close>

definition grows :: "(codeBuilder \<Rightarrow> codeBuilder) \<Rightarrow> bool" where
  "grows f \<longleftrightarrow> (\<forall>cb. ext cb (f cb))"

named_theorems grow \<open>functions that only grow the builder\<close>

lemma growsD: "grows f \<Longrightarrow> ext cb (f cb)"
  by (simp add: grows_def)

lemma grows_id [grow, simp, intro!]: "grows id"
  by (simp add: grows_def)

lemma grows_comp [grow]: "grows f \<Longrightarrow> grows g \<Longrightarrow> grows (fcomp f g)"
  unfolding grows_def by (auto intro: ext_trans)

lemma grows_if [grow]: "grows f \<Longrightarrow> grows g \<Longrightarrow> grows (if c then f else g)"
  by simp

lemma grows_emit [grow, simp]: "grows (emit w)"
  by (auto simp: grows_def ext_def emit_def)

lemma grows_fold [grow]: "(\<And>x. x \<in> set xs \<Longrightarrow> grows (f x)) \<Longrightarrow> grows (fold f xs)"
proof (induction xs)
  case (Cons x xs)
  then show ?case using grows_comp [of "f x" "fold f xs"] by (simp add: fcomp_comp comp_def fcomp_def [abs_def])
qed simp

lemma grows_emitMOVimm [grow]: "grows (emitMOVimm r v)"
  unfolding emitMOVimm_unfold movk_if_def by (intro grow)

lemma grows_pool [grow]: "grows (emitLDRsp r i)" "grows (emitLDRglobal n)" "grows (emitLDRFPconst n d)"
  by (auto simp: grows_def emitLDRsp_def Let_def emitLDRglobal_def emitLDRFPconst_def growsD [OF grows_emit])

lemma grows_label [grow]: "grows (defineLabel l)"
  by (auto simp: grows_def ext_def defineLabel_def)

lemma grows_fixup:
  assumes "tmpl k w"
  shows "grows (\<lambda>cb. emit w (add_fixup k l cb))"
  using assms by (auto simp: grows_def ext_def emit_def add_fixup_def)

lemma grows_branch [grow]: "grows (emitB l)" "grows (emitBL l)" "fits 4 c \<Longrightarrow> grows (emitBcond c l)"
  "reg r \<Longrightarrow> grows (emitCBZ r l)" "reg r \<Longrightarrow> grows (emitCBNZ r l)" "reg r \<Longrightarrow> grows (emitADR r l)"
  unfolding emitB_def [abs_def] emitBL_def [abs_def] emitBcond_def [abs_def] emitCBZ_def [abs_def] emitCBNZ_def [abs_def] emitADR_def [abs_def]
  by (rule grows_fixup; auto)+

lemma grows_extern [grow]: "grows (emitBLextern l)"
  by (auto simp: grows_def ext_def emitBLextern_def emit_def)

subsection \<open>Every emission of the code generator grows the builder\<close>

lemma grows_access [grow]: "grows (load_slot fr r i)" "grows (load fr a r)" "grows (store fr r a)" "grows (fpLoad fr a r)" "grows (load128 fr a r r')"
  "grows (store128 fr r r' a)" "grows (fpStore fr r a)" "grows (fpStoreLD fr r a)" "grows (structBase g a r)" "grows (arrayBase g a r)"
  by (auto simp: load_slot_def load_def store_def fpLoad_def load128_def store128_def fpStore_def fpStoreLD_def structBase_def arrayBase_def Let_def
      intro!: grow split: AddrKind.splits)

lemma grows_sp [grow]: "grows (emitSubSP i)" "grows (emitAddSP i)"
proof -
  have "ext cb (emitSubSP i cb)" for cb
    by (induction i cb rule: emitSubSP.induct) (subst emitSubSP.simps, auto intro: ext_trans growsD [OF grows_emit])
  moreover have "ext cb (emitAddSP i cb)" for cb
    by (induction i cb rule: emitAddSP.induct) (subst emitAddSP.simps, auto intro: ext_trans growsD [OF grows_emit])
  ultimately show "grows (emitSubSP i)" "grows (emitAddSP i)" by (auto simp: grows_def)
qed

lemma grows_copy [grow]: "grows (copy_words t a b o' n)"
  unfolding copy_words_def by (auto intro!: grow)

lemma grows_pro [grow]: "grows (prologue_params g ns ts tags i f)"
proof (induction ns arbitrary: ts tags i f)
  case (Cons n ns)
  show ?case
  proof (cases ts)
    case (Cons t ts')
    let ?off = "fr_off (gFr g) n" and ?size = "struct_size0 g (if tags = [] then [] else hd tags)" and ?p = "prologue_params g ns ts' (tl tags)"
    have "prologue_params g (n # ns) ts tags i f =
       (if t = TypeStruct then
          (if ?size \<le> 8 then fcomp (emit (encSTRuoff i regSP ?off)) (?p (i + 1) f)
           else if ?size \<le> 16 then fcomp (fcomp (emit (encSTRuoff i regSP ?off)) (emit (encSTRuoff (i + 1) regSP (?off + 8)))) (?p (i + 2) f)
           else fcomp (fcomp (emit (encMOVreg regX9 i)) (copy_words 10 regX9 regSP ?off (nat ((?size + 7) div 8)))) (?p (i + 1) f))
        else if isFPType t then (if f < 8 then fcomp (emit (encSTRDuoff f regSP ?off)) (?p i (f + 1)) else ?p i f)
        else (if i < 8 then fcomp (emit (encSTRuoff i regSP ?off)) (?p (i + 1) f) else ?p i f))"
      by (rule ext) (simp add: Cons Let_def)
    then show ?thesis by (simp only:) (intro grow Cons.IH)
  qed (simp add: grows_def)
qed (simp add: grows_def)

lemma grows_option [grow]: "(\<And>x. grows (f x)) \<Longrightarrow> grows h \<Longrightarrow> grows (case o' of Some x \<Rightarrow> f x | None \<Rightarrow> h)"
  by (cases o') simp_all

lemma grows_prologue [grow]: "grows (emitPrologue g)" "grows (emitEpilogue fr)" "grows (emitStructReturn g q)"
proof -
  show "grows (emitPrologue g)" unfolding emitPrologue_def Let_def by (intro grow)
  show e: "grows (emitEpilogue fr)" for fr unfolding emitEpilogue_def by (intro grow)
  show "grows (emitStructReturn g q)" unfolding emitStructReturn_def Let_def by (intro grow e)
qed

lemma grows_int [grow]: "grows (emitArith fr q e)" "grows (emitCmpBool fr q c)" "grows (gen_int fr q op)"
proof -
  show "grows (emitArith fr q e)" "grows (emitCmpBool fr q c)" unfolding emitArith_def emitCmpBool_def by (intro grow)+
  show "grows (gen_int fr q op)"
    by (cases op; simp only: gen_int_simps emitMod_def emitUMod_def unary_def load2_def; intro grow)
qed

lemma grows_mem [grow]: "grows (gen_mem g q op)"
  by (cases op; simp only: gen_mem_simps emitArrayLoad_def emitArrayStore_def emitCharArrayLoad_def emitCharArrayStore_def unary_def; intro grow)

lemma grows_kind [grow]: "(\<And>k. grows (h k)) \<Longrightarrow> grows (case aKind a of AddrNone \<Rightarrow> h 0 | AddrConst \<Rightarrow> h (1 :: nat) | AddrTemp \<Rightarrow> h 2 | AddrLocal \<Rightarrow> h 3 | AddrGlobal \<Rightarrow> h 4 | AddrFConst \<Rightarrow> h 5)"
  by (cases "aKind a") simp_all

lemma grows_adr [grow]: "grows (gen_adr g q op)"
proof (cases op)
  case IRAddrOf
  show ?thesis unfolding IRAddrOf gen_adr_simps by (cases "aKind (qSrc1 q)"; simp only: AddrKind.case; intro grow)
qed (simp only: gen_adr_simps alloc_stack_def; intro grow)+

lemma grows_fp [grow]: "grows (gen_fp fr q op)"
  by (cases op; simp only: gen_fp_simps fbin_def emitFPCmpBool_def; intro grow)

lemma grows_128 [grow]: "grows (gen_128 fr q op)"
  by (cases op; simp only: gen_128_simps bin128_def load128_2_def shift128_def eq128_def emit128Cmp_def shl128_body_def lshr128_body_def ashr128_body_def
      emit128Shl_def emit128LShr_def; intro grow)

lemma grows_call_params [grow]: "grows (call_params g ps i f)" "grows (ptr_call_params fr ps i f)"
proof -
  show "grows (call_params g ps i f)"
  proof (induction ps arbitrary: i f)
    case (Cons p ps)
    let ?size = "struct_size0 g (paStructTag p)"
    have "call_params g (p # ps) i f =
       (if paIsStruct p then
          (if ?size \<le> 8 then fcomp (fcomp (structBase g (paAddr p) regX9) (emit (encLDRuoff i regX9 0))) (call_params g ps (i + 1) f)
           else if ?size \<le> 16 then fcomp (fcomp (fcomp (structBase g (paAddr p) regX9) (emit (encLDRuoff i regX9 0))) (emit (encLDRuoff (i + 1) regX9 8))) (call_params g ps (i + 2) f)
           else fcomp (structBase g (paAddr p) i) (call_params g ps (i + 1) f))
        else if paIsFP p then (if f < 8 then fcomp (fpLoad (gFr g) (paAddr p) f) (call_params g ps i (f + 1)) else call_params g ps i f)
        else (if i < 8 then fcomp (load (gFr g) (paAddr p) i) (call_params g ps (i + 1) f) else call_params g ps i f))"
      by (rule ext) (simp add: Let_def)
    then show ?case by (simp only:) (intro grow Cons.IH)
  qed (simp add: grows_def)
  show "grows (ptr_call_params fr ps i f)"
  proof (induction ps arbitrary: i f)
    case (Cons p ps)
    have "ptr_call_params fr (p # ps) i f =
       (if paIsFP p then (if f < 8 then fcomp (fpLoad fr (paAddr p) f) (ptr_call_params fr ps i (f + 1)) else ptr_call_params fr ps i f)
        else (if i < 8 then fcomp (load fr (paAddr p) i) (ptr_call_params fr ps (i + 1) f) else ptr_call_params fr ps i f))"
      by (rule ext) simp
    then show ?case by (simp only:) (intro grow Cons.IH)
  qed (simp add: grows_def)
qed

lemma grows_calls [grow]: "grows (emit_bl g n)" "grows (emitCall g q)" "grows (emitFuncPtrCall g q)" "grows (emitReturn g q)"
proof -
  show b: "grows (emit_bl g n)" for n unfolding emit_bl_def by (intro grow)
  show "grows (emitCall g q)" unfolding emitCall_def Let_def by (intro grow b)
  show "grows (emitFuncPtrCall g q)" "grows (emitReturn g q)" unfolding emitFuncPtrCall_def emitReturn_def by (intro grow)+
qed

lemma ext_gen_ctl: "ext (gCb g) (gCb (gen_ctl g q c))"
proof -
  have u: "grows f \<Longrightarrow> ext (gCb g) (gCb (upd_cb f g))" for f by (simp add: upd_cb_def growsD)
  show ?thesis
    by (cases c; simp only: gen_ctl_simps; (intro u grow)?)
      (simp_all add: upd_cb_def fits_def growsD [OF grows_calls(2)] growsD [OF grows_calls(3)])
qed

lemma ext_genQuad: "ext (gCb g) (gCb (genQuad q g))"
  unfolding genQuad_def by (cases "qOp q") (auto simp: upd_cb_def ext_gen_ctl intro!: growsD grow)

lemma ext_genQuads: "ext (gCb g) (gCb (fold genQuad qs g))"
  by (induction qs arbitrary: g) (auto intro: ext_trans [OF ext_genQuad])

lemma ext_genFunc: "ext (gCb g) (gCb (genFunc fn g))"
proof -
  let ?g = "g\<lparr>gFn := fn, gFr := buildFrame (gStructSize g) fn, gPending := []\<rparr>"
  let ?g1 = "upd_cb (defineLabel (funcLabel (fnName fn))) ?g"
  have "ext (gCb g) (gCb ?g1)" "ext (gCb ?g1) (gCb (upd_cb (emitPrologue ?g1) ?g1))"
    using growsD [OF grows_label] growsD [OF grows_prologue(1)] by (simp_all add: upd_cb_def)
  then show ?thesis unfolding genFunc_def Let_def by (blast intro: ext_trans ext_genQuads)
qed

lemma grows_runtime: "grows emitSbrkFn" "grows (syscall_stub n i)" "grows emitPosixSyscalls" "grows emitSetjmpFns"
  unfolding emitSbrkFn_def syscall_stub_def emitPosixSyscalls_def emitSetjmpFns_def
  by (intro grow | simp add: fits_def)+

subsection \<open>Complete texts\<close>

lemma wf_new: "wf_cb (newCodeBuilder gl sl fc fr)"
  by (simp add: newCodeBuilder_def wf_cb_def Let_def split_def)

lemma ext_genFuncs: "ext (gCb g) (gCb (fold genFunc fns g))"
  by (induction fns arbitrary: g) (auto intro: ext_trans [OF ext_genFunc])

lemma wf_gen_code: "wf_cb (gen_code g gl sl fc fr fns)"
  unfolding gen_code_def by (rule ext_wf [OF ext_genFuncs]) (simp add: wf_new)

lemma wf_runtime: "wf_cb runtime_code"
  unfolding runtime_code_def by (rule ext_wf [OF growsD wf_new]) (intro grow grows_runtime)

end
