(* ===== verification/Simulate.thy ===== *)
theory Simulate
  imports CodegenW CodegenMem Fixups
begin

section \<open>Compiled functions run as their quads do\<close>

text \<open>
  The code of a function, placed in the text of an image and with its branches patched, simulates
  the steps of its quads: at every quad boundary the memory is that of the IR, and the frame base
  and the callee-saved registers are those of the function's entry.
\<close>

subsection \<open>Code in its place\<close>

text \<open>From word \<open>lo\<close> on, the text is what \<open>applyFixups\<close> makes of builder \<open>X\<close>. In front of it stands the pool.\<close>

definition placed :: "seg \<Rightarrow> nat \<Rightarrow> codeBuilder \<Rightarrow> bool" where
  "placed T lo X \<longleftrightarrow> wf_cb X \<and> (\<exists>Y. applyFixups X = Inr Y \<and> length (instrs X) \<le> length (txt_words T) \<and>
     (\<forall>i. lo \<le> i \<and> i < length (instrs X) \<longrightarrow> txt_words T ! i = instrs Y ! i))"

lemma placed_words:
  assumes p: "placed T lo X"
  shows "length (instrs X) \<le> length (txt_words T)"
    and "lo \<le> i \<Longrightarrow> i < length (instrs X) \<Longrightarrow> i \<notin> fxAt ` set (fixups X) \<Longrightarrow> txt_words T ! i = instrs X ! i"
    and "f \<in> set (fixups X) \<Longrightarrow> lo \<le> fxAt f \<Longrightarrow> \<exists>t. labels X (fxLabel f) = Some t \<and> fxAt f < length (instrs X) \<and>
       decode (txt_words T ! fxAt f) = Some (branch_to (fxKind f) (instrs X ! fxAt f) (int t - int (fxAt f)))"
proof -
  obtain Y where Y: "wf_cb X" "applyFixups X = Inr Y" "length (instrs X) \<le> length (txt_words T)"
    "\<And>i. lo \<le> i \<Longrightarrow> i < length (instrs X) \<Longrightarrow> txt_words T ! i = instrs Y ! i" using p unfolding placed_def by blast
  have "\<forall>f \<in> set (fixups X). linkable (labels X) f"
  proof (rule ccontr)
    assume "\<not> (\<forall>f \<in> set (fixups X). linkable (labels X) f)"
    from applyFixups_spec(2) [OF Y(1) this] show False using Y(2) by auto
  qed
  from applyFixups_spec(1) [OF Y(1) this] obtain ws where ws: "Y = X\<lparr>instrs := ws\<rparr>"
    "\<And>i. i \<notin> fxAt ` set (fixups X) \<Longrightarrow> ws ! i = instrs X ! i"
    "\<And>f. f \<in> set (fixups X) \<Longrightarrow> \<exists>t. labels X (fxLabel f) = Some t \<and>
           decode (ws ! fxAt f) = Some (branch_to (fxKind f) (instrs X ! fxAt f) (int t - int (fxAt f)))"
    using Y(2) by auto
  have at: "f \<in> set (fixups X) \<Longrightarrow> fxAt f < length (instrs X)" for f using Y(1) by (simp add: wf_cb_def)
  show "length (instrs X) \<le> length (txt_words T)" by fact
  show "lo \<le> i \<Longrightarrow> i < length (instrs X) \<Longrightarrow> i \<notin> fxAt ` set (fixups X) \<Longrightarrow> txt_words T ! i = instrs X ! i"
    using Y(4) [of i] ws(1) ws(2) [of i] by simp
  show "f \<in> set (fixups X) \<Longrightarrow> lo \<le> fxAt f \<Longrightarrow> \<exists>t. labels X (fxLabel f) = Some t \<and> fxAt f < length (instrs X) \<and>
       decode (txt_words T ! fxAt f) = Some (branch_to (fxKind f) (instrs X ! fxAt f) (int t - int (fxAt f)))"
    using Y(4) [of "fxAt f"] ws(1) ws(3) [of f] at [of f] by auto
qed

lemma extE:
  assumes "ext cb cb'"
  obtains ws fx where "instrs cb' = instrs cb @ ws" "fixups cb' = fixups cb @ fx" "poolIdx cb' = poolIdx cb"
    "\<And>f. f \<in> set fx \<Longrightarrow> length (instrs cb) \<le> fxAt f"
  using assms unfolding ext_def by (elim exE conjE) (rule that, auto)

lemma placed_code_at:
  assumes p: "placed T lo X" and a: "wf_cb a" "lo \<le> length (instrs a)" and s: "straight a b" and x: "ext b X"
  shows "code_at T a b"
proof -
  obtain ws fx where X: "instrs X = instrs b @ ws" "fixups X = fixups b @ fx" "\<And>f. f \<in> set fx \<Longrightarrow> length (instrs b) \<le> fxAt f"
    using extE [OF x] by metis
  have "fixups b = fixups a" "length (instrs a) \<le> length (instrs b)" using straightD [OF s] by auto
  then have free: "i \<notin> fxAt ` set (fixups X)" if "length (instrs a) \<le> i" "i < length (instrs b)" for i
    using a(1) that X(2,3) by (auto simp: wf_cb_def) (meson leD)+
  show ?thesis unfolding code_at_def
    using placed_words(1,2) [OF p] free a(2) X(1) by (auto simp: nth_append)
qed

subsection \<open>Quads of the fragment\<close>

fun ctl_ok :: "image \<Rightarrow> elfGen \<Rightarrow> Quad \<Rightarrow> ctlop \<Rightarrow> bool" where
  "ctl_ok M g q IREnter = True"
| "ctl_ok M g q IRLabel = True"
| "ctl_ok M g q IRJump = True"
| "ctl_ok M g q IRJumpT = opd M (gFr g) (qSrc1 q)"
| "ctl_ok M g q IRJumpF = opd M (gFr g) (qSrc1 q)"
| "ctl_ok M g q IRReturn = (\<not> isFPType (fnReturnType (gFn g)) \<and> \<not> (qTypeHint q = TypeStruct \<and> qStructTag q \<noteq> [])
     \<and> (aKind (qSrc1 q) = AddrNone \<or> opd M (gFr g) (qSrc1 q)))"
| "ctl_ok M g q _ = False"

definition quad_ok :: "image \<Rightarrow> elfGen \<Rightarrow> Quad \<Rightarrow> bool" where
  "quad_ok M g q \<longleftrightarrow> (case qOp q of
      OpArith _ \<Rightarrow> opd M (gFr g) (qSrc1 q) \<and> opd M (gFr g) (qSrc2 q) \<and> dst_ok M (gFr g) (qDst q)
    | OpCmp _ \<Rightarrow> opd M (gFr g) (qSrc1 q) \<and> opd M (gFr g) (qSrc2 q) \<and> dst_ok M (gFr g) (qDst q)
    | OpInt i \<Rightarrow> int_ok M (gFr g) q i
    | OpMem o' \<Rightarrow> mem_ok M g q o'
    | OpAdr a \<Rightarrow> adr_ok M g q a
    | OpFp f \<Rightarrow> fp_ok M (gFr g) q f \<and> f \<noteq> IRFLt \<and> f \<noteq> IRFLe
    | Op128 w \<Rightarrow> wide_ok M (gFr g) q w
    | OpCtl c \<Rightarrow> ctl_ok M g q c)"

lemma gen_same [simp]: "gFr (genQuad q g) = gFr g" "gFn (genQuad q g) = gFn g" "gIsGlobalPtr (genQuad q g) = gIsGlobalPtr g"
proof -
  have "gFr (gen_ctl g q c) = gFr g" "gFn (gen_ctl g q c) = gFn g" "gIsGlobalPtr (gen_ctl g q c) = gIsGlobalPtr g" for c
    by (cases c; simp add: upd_cb_def)+
  then show "gFr (genQuad q g) = gFr g" "gFn (genQuad q g) = gFn g" "gIsGlobalPtr (genQuad q g) = gIsGlobalPtr g"
    unfolding genQuad_def by (cases "qOp q"; simp add: upd_cb_def)+
qed

lemma quad_ok_gen [simp]: "quad_ok M (genQuad q' g) q = quad_ok M g q"
proof -
  have "ctl_ok M (genQuad q' g) q c = ctl_ok M g q c" for c by (cases c) simp_all
  moreover have a: "arr_ok M (genQuad q' g) = arr_ok M g" by (simp add: fun_eq_iff arr_ok_def)
  moreover have "mem_ok M (genQuad q' g) q o' = mem_ok M g q o'" for o' by (simp only: mem_ok_def a gen_same)
  moreover have "adr_ok M (genQuad q' g) q o' = adr_ok M g q o'" for o' by (simp only: adr_ok_def a gen_same)
  ultimately show ?thesis unfolding quad_ok_def by (cases "qOp q") (simp_all only: gen_same IROpCode.case)
qed

definition is_ctl :: "Quad \<Rightarrow> bool" where
  "is_ctl q \<longleftrightarrow> (\<exists>c. qOp q = OpCtl c)"

text \<open>A quad that is not control flow refines its meaning.\<close>

lemma data_refines:
  assumes ok: "quad_ok M g q" and d: "\<not> is_ctl q"
  shows "\<exists>f. genQuad q g = upd_cb f g \<and> refines M (gFr g) f (\<lambda>b. data_sem (env_at M (gFr g) (gIsGlobalPtr g) b) q)"
proof (cases "qOp q")
  case (OpFp f)
  then have ok: "fp_ok M (gFr g) q f" "f \<noteq> IRFLt" "f \<noteq> IRFLe" using ok by (auto simp: quad_ok_def)
  have "refines M (gFr g) (gen_fp (gFr g) q f) (\<lambda>b. fp_sem (env_at M (gFr g) (gIsGlobalPtr g) b) q f)"
  proof (cases "f = IRFGt \<or> f = IRFGe \<or> f = IRFEq \<or> f = IRFNe")
    case True
    then have f: "f \<in> {IRFLt, IRFLe, IRFGt, IRFGe, IRFEq, IRFNe}" by auto
    have v: "fcmp_val f = fp_bin f" using ok by (simp add: fun_eq_iff fcmp_val_def)
    from True show ?thesis using refines_fcompare [where gp = "gIsGlobalPtr g", OF ok(1) f] unfolding v
      by (elim disjE) (simp_all add: fp_sem_fun)
  next
    case False
    then show ?thesis using ok by (intro refines_fp) auto
  qed
  then show ?thesis using OpFp by (intro exI [of _ "gen_fp (gFr g) q f"]) (simp add: genQuad_def data_sem_def [abs_def])
next
  case (OpArith a)
  then show ?thesis using ok refines_arith [where gp = "gIsGlobalPtr g" and q = q and fr = "gFr g" and M = M and op = a]
    by (intro exI [of _ "emitArith (gFr g) q (arith_enc a)"]) (simp add: genQuad_def data_sem_def [abs_def] quad_ok_def)
next
  case (OpCmp c)
  then show ?thesis using ok refines_cmp [where gp = "gIsGlobalPtr g" and q = q and fr = "gFr g" and M = M and op = c]
    by (intro exI [of _ "emitCmpBool (gFr g) q (cmp_cond c)"]) (simp add: genQuad_def data_sem_def [abs_def] quad_ok_def)
next
  case (OpInt i)
  then show ?thesis using ok refines_int [where gp = "gIsGlobalPtr g" and q = q and fr = "gFr g" and M = M and op = i]
    by (intro exI [of _ "gen_int (gFr g) q i"]) (simp add: genQuad_def data_sem_def [abs_def] quad_ok_def)
next
  case (OpMem o')
  then show ?thesis using ok refines_mem [of M g q o'] by (intro exI [of _ "gen_mem g q o'"]) (simp add: genQuad_def data_sem_def [abs_def] quad_ok_def)
next
  case (OpAdr o')
  then show ?thesis using ok refines_adr [of M g q o'] by (intro exI [of _ "gen_adr g q o'"]) (simp add: genQuad_def data_sem_def [abs_def] quad_ok_def)
next
  case (Op128 w)
  then show ?thesis using ok refines_128 [where gp = "gIsGlobalPtr g" and q = q and fr = "gFr g" and M = M and w = w]
    by (intro exI [of _ "gen_128 (gFr g) q w"]) (simp add: genQuad_def data_sem_def [abs_def] quad_ok_def)
next
  case (OpCtl c)
  then show ?thesis using d by (simp add: is_ctl_def)
qed

subsection \<open>Quad boundaries\<close>

definition gen_at :: "elfGen \<Rightarrow> Quad list \<Rightarrow> nat \<Rightarrow> elfGen" where
  "gen_at g qs k = fold genQuad (take k qs) g"

lemma gen_at_0 [simp]: "gen_at g qs 0 = g"
  by (simp add: gen_at_def)

lemma gen_at_Suc: "k < length qs \<Longrightarrow> gen_at g qs (Suc k) = genQuad (qs ! k) (gen_at g qs k)"
  by (simp add: gen_at_def take_Suc_conv_app_nth)

lemma gen_at_same [simp]: "gFr (gen_at g qs k) = gFr g" "gFn (gen_at g qs k) = gFn g" "gIsGlobalPtr (gen_at g qs k) = gIsGlobalPtr g"
  "quad_ok M (gen_at g qs k) q = quad_ok M g q"
proof -
  have "gFr (fold genQuad ps g) = gFr g \<and> gFn (fold genQuad ps g) = gFn g \<and> gIsGlobalPtr (fold genQuad ps g) = gIsGlobalPtr g
    \<and> quad_ok M (fold genQuad ps g) q = quad_ok M g q" for ps by (induction ps arbitrary: g) simp_all
  then show "gFr (gen_at g qs k) = gFr g" "gFn (gen_at g qs k) = gFn g" "gIsGlobalPtr (gen_at g qs k) = gIsGlobalPtr g"
    "quad_ok M (gen_at g qs k) q = quad_ok M g q" by (auto simp: gen_at_def)
qed

lemma gen_at_ext:
  assumes "j \<le> k"
  shows "ext (gCb (gen_at g qs j)) (gCb (gen_at g qs k))"
proof -
  have "take k qs = take j qs @ take (k - j) (drop j qs)" using assms by (metis le_add_diff_inverse take_add)
  then show ?thesis by (simp add: gen_at_def ext_genQuads)
qed

definition at_quad :: "image \<Rightarrow> elfGen \<Rightarrow> Quad list \<Rightarrow> arm \<Rightarrow> nat \<Rightarrow> mem \<Rightarrow> arm \<Rightarrow> bool" where
  "at_quad M g qs s0 k m s \<longleftrightarrow> k \<le> length qs \<and> aPC s = pcAt (imSeg M) (length (instrs (gCb (gen_at g qs k))))
     \<and> last_ok (gCb (gen_at g qs k)) s \<and> aM s = m \<and> keeps s0 s"

text \<open>The assumptions of the simulation: the image holds the function and its labels stay as they are.\<close>

definition compiled :: "image \<Rightarrow> elfGen \<Rightarrow> Quad list \<Rightarrow> codeBuilder \<Rightarrow> bool" where
  "compiled M g qs X \<longleftrightarrow> linked M \<and> wf_cb (gCb g) \<and> poolIdx (gCb g) = imPool M
     \<and> placed (imSeg M) (length (instrs (gCb g))) X \<and> ext (gCb (gen_at g qs (length qs))) X
     \<and> (\<forall>l. (\<exists>q \<in> set qs. is_label l q) \<longrightarrow>
           labels X (irLabel (fnName (gFn g)) l) = labels (gCb (gen_at g qs (length qs))) (irLabel (fnName (gFn g)) l))
     \<and> (\<forall>q \<in> set qs. quad_ok M g q) \<and> distinct (map qExtra (filter (\<lambda>q. qOp q = OpCtl IRLabel) qs))"

lemma pcs_self: "aPC s = pcAt T n \<Longrightarrow> pcs T n s = s"
  by (simp add: pcs_def)

lemma compiled_at:
  assumes "compiled M g qs X" "k \<le> length qs"
  shows "wf_cb (gCb (gen_at g qs k))" "length (instrs (gCb g)) \<le> length (instrs (gCb (gen_at g qs k)))"
    "poolIdx (gCb (gen_at g qs k)) = imPool M" "ext (gCb (gen_at g qs k)) X"
proof -
  have e: "ext (gCb g) (gCb (gen_at g qs k))" using gen_at_ext [of 0 k g qs] by simp
  show "wf_cb (gCb (gen_at g qs k))" "length (instrs (gCb g)) \<le> length (instrs (gCb (gen_at g qs k)))"
    using assms ext_wf [OF e] ext_len [OF e] by (auto simp: compiled_def)
  show "poolIdx (gCb (gen_at g qs k)) = imPool M" using assms(1) e by (auto simp: compiled_def ext_def)
  show "ext (gCb (gen_at g qs k)) X" using assms ext_trans [OF gen_at_ext [of k "length qs" g qs]] by (simp add: compiled_def)
qed

text \<open>A straight block at a quad boundary.\<close>

lemma run_block:
  assumes c: "compiled M g qs X" and k: "k \<le> length qs" and i: "impl M f F" and x: "ext (f (gCb (gen_at g qs k))) X"
    and l: "last_ok (gCb (gen_at g qs k)) s" and pc: "aPC s = pcAt (imSeg M) (length (instrs (gCb (gen_at g qs k))))"
  shows "runs (imSeg M) s (pcs (imSeg M) (length (instrs (f (gCb (gen_at g qs k))))) (F s))" "last_ok (f (gCb (gen_at g qs k))) (F s)"
proof -
  let ?cb = "gCb (gen_at g qs k)"
  have p: "placed (imSeg M) (length (instrs (gCb g))) X" and ln: "linked M" using c by (auto simp: compiled_def)
  have "code_at (imSeg M) ?cb (f ?cb)" by (rule placed_code_at [OF p compiled_at(1,2) [OF c k] impl_straight [OF i] x])
  from implD [OF i compiled_at(3) [OF c k] ln this l] pcs_self [OF pc]
  show "runs (imSeg M) s (pcs (imSeg M) (length (instrs (f ?cb))) (F s))" "last_ok (f ?cb) (F s)" by simp_all
qed

lemma last_ok_pcs [simp]: "last_ok cb (pcs T n s) = last_ok cb s" "aM (pcs T n s) = aM s" "keeps s0 (pcs T n s) = keeps s0 s" "aPC (pcs T n s) = pcAt T n"
  "rX (pcs T n s) r = rX s r" "aSP (pcs T n s) = aSP s" "fbase fr (pcs T n s) = fbase fr s"
  by (simp_all add: last_ok_def pcs_def keeps_def fbase_def)

lemma step_data:
  assumes c: "compiled M g qs X" and a: "at_quad M g qs s0 k m s" and k: "k < length qs" and d: "\<not> is_ctl (qs ! k)"
    and b: "rX s0 29 = b" "fbase (gFr g) s0 = b"
  shows "\<exists>s'. runs (imSeg M) s s' \<and> at_quad M g qs s0 (Suc k) (data_sem (env_at M (gFr g) (gIsGlobalPtr g) b) (qs ! k) m) s'"
proof -
  let ?h = "gen_at g qs k"
  have "quad_ok M ?h (qs ! k)" using c k by (simp add: compiled_def)
  from data_refines [OF this d] obtain f F where f: "genQuad (qs ! k) ?h = upd_cb f ?h" "impl M f F"
    "\<And>t. rX t 29 = fbase (gFr g) t \<Longrightarrow> aM (F t) = data_sem (env_at M (gFr g) (gIsGlobalPtr g) (fbase (gFr g) t)) (qs ! k) (aM t) \<and> keeps t (F t)"
    by (auto simp: refines_def)
  have cb: "gCb (gen_at g qs (Suc k)) = f (gCb ?h)" using f(1) k by (simp add: gen_at_Suc upd_cb_def)
  have x: "ext (f (gCb ?h)) X" using compiled_at(4) [OF c, of "Suc k"] k cb by simp
  have s: "aM s = m" "keeps s0 s" "last_ok (gCb ?h) s" "aPC s = pcAt (imSeg M) (length (instrs (gCb ?h)))" using a by (auto simp: at_quad_def)
  note r = run_block [OF c less_imp_le [OF k] f(2) x s(3,4)]
  have bs: "fbase (gFr g) s = b" "rX s 29 = b" using keeps_fbase [OF s(2)] b s(2) by (auto simp: keeps_def)
  have "aM (F s) = data_sem (env_at M (gFr g) (gIsGlobalPtr g) b) (qs ! k) m" "keeps s0 (F s)"
    using f(3) [of s] bs s(1) keeps_trans [OF s(2)] by auto
  then have "at_quad M g qs s0 (Suc k) (data_sem (env_at M (gFr g) (gIsGlobalPtr g) b) (qs ! k) m) (pcs (imSeg M) (length (instrs (f (gCb ?h)))) (F s))"
    using r(2) k by (simp add: at_quad_def cb)
  then show ?thesis using r(1) by blast
qed

subsection \<open>Labels\<close>

lemma straight_comp: "(\<And>cb. straight cb (f cb)) \<Longrightarrow> (\<And>cb. straight cb (h cb)) \<Longrightarrow> straight cb ((fcomp f h) cb)"
  by (auto simp: fcomp_def intro: straight_trans)

lemma straight_AddSP: "straight cb (emitAddSP i cb)"
proof (induction i cb rule: emitAddSP.induct)
  case (1 imm cb)
  then show ?case by (subst emitAddSP.simps) (auto intro: straight_trans [OF straight_emit])
qed

lemma straight_epilogue: "straight cb (emitEpilogue fr cb)"
  unfolding emitEpilogue_def by (intro straight_comp straight_AddSP) auto

lemma labels_gen:
  assumes ok: "quad_ok M g q"
  shows "labels (gCb (genQuad q g)) =
    (if qOp q = OpCtl IRLabel then (labels (gCb g))(irLabel (fnName (gFn g)) (qExtra q) \<mapsto> length (instrs (gCb g))) else labels (gCb g))"
proof (cases "is_ctl q")
  case False
  then obtain f F where "genQuad q g = upd_cb f g" "impl M f F" using data_refines [OF ok False] by (auto simp: refines_def)
  then have "labels (gCb (genQuad q g)) = labels (gCb g)" using straightD(3) [OF impl_straight] by (simp add: upd_cb_def)
  then show ?thesis using False by (auto simp: is_ctl_def)
next
  case True
  then obtain c where c: "qOp q = OpCtl c" by (auto simp: is_ctl_def)
  have ld: "opd M (gFr g) a \<Longrightarrow> straight cb (load (gFr g) a 0 cb)" for a cb by (rule impl_straight [OF impl_load]) auto
  have jmp: "labels (emitBcond k l ((fcomp (load (gFr g) a 0) (emit w)) cb)) = labels cb" if "opd M (gFr g) a" for k l a w cb
    using straightD(3) [OF ld [OF that]] by (simp add: emitBcond_def emit_def add_fixup_def)
  show ?thesis
  proof (cases "c = IRReturn")
    case True
    have "straight (gCb g) (emitReturn g q (gCb g))" unfolding emitReturn_def using ok c True
      by (auto simp: quad_ok_def intro: straight_trans [OF ld straight_epilogue] straight_epilogue)
    then show ?thesis using straightD(3) c True by (simp add: genQuad_def upd_cb_def)
  next
    case False
    then show ?thesis using ok c jmp
      by (cases c) (auto simp: quad_ok_def genQuad_def upd_cb_def defineLabel_def emitB_def emit_def add_fixup_def)
  qed
qed

lemma distinct_filter_nth:
  "distinct (map f (filter P xs)) \<Longrightarrow> i < length xs \<Longrightarrow> j < length xs \<Longrightarrow> P (xs ! i) \<Longrightarrow> P (xs ! j) \<Longrightarrow> f (xs ! i) = f (xs ! j) \<Longrightarrow> i = j"
proof (induction xs arbitrary: i j)
  case (Cons x xs)
  have m: "f (xs ! k) \<in> f ` {y \<in> set xs. P y}" if "k < length xs" "P (xs ! k)" for k using that by simp
  show ?case using Cons m by (cases i; cases j) (auto split: if_splits, metis imageI mem_Collect_eq nth_mem)+
qed simp

lemma label_posD: "label_pos qs l = Some j \<Longrightarrow> \<exists>i. j = Suc i \<and> i < length qs \<and> is_label l (qs ! i)"
  by (induction qs arbitrary: j) (auto split: if_splits)

lemma irLabel_inj [simp]: "irLabel f l = irLabel f l' \<longleftrightarrow> l = l'"
  by (simp add: irLabel_def)

lemma label_at:
  assumes c: "compiled M g qs X" and l: "label_pos qs l = Some j"
  shows "j \<le> length qs" "labels X (irLabel (fnName (gFn g)) l) = Some (length (instrs (gCb (gen_at g qs j))))"
    "peepholeBarrier (gCb (gen_at g qs j))"
proof -
  obtain i where i: "j = Suc i" "i < length qs" "is_label l (qs ! i)" using label_posD [OF l] by blast
  let ?L = "irLabel (fnName (gFn g)) l"
  have ok: "quad_ok M (gen_at g qs k) (qs ! k)" if "k < length qs" for k using c that by (simp add: compiled_def)
  have g: "genQuad (qs ! i) (gen_at g qs i) = upd_cb (defineLabel ?L) (gen_at g qs i)"
    using i(3) by (simp add: is_label_def genQuad_def)
  then have j: "gCb (gen_at g qs j) = defineLabel ?L (gCb (gen_at g qs i))" using i by (simp add: gen_at_Suc upd_cb_def)
  have at: "labels (gCb (gen_at g qs k)) ?L = Some (length (instrs (gCb (gen_at g qs j))))" if "j \<le> k" "k \<le> length qs" for k
    using that
  proof (induction k rule: dec_induct)
    case base
    then show ?case by (simp add: j defineLabel_def)
  next
    case (step k)
    have "\<not> is_label l (qs ! k)"
    proof
      assume "is_label l (qs ! k)"
      then have "i = k" using i step c distinct_filter_nth [of qExtra "\<lambda>q. qOp q = OpCtl IRLabel" qs i k] by (auto simp: compiled_def is_label_def)
      then show False using i(1) step(1) by simp
    qed
    then show ?case using step labels_gen [OF ok, of k] by (auto simp: gen_at_Suc is_label_def)
  qed
  show "j \<le> length qs" using i by simp
  have "\<exists>q \<in> set qs. is_label l q" using i(2,3) nth_mem by blast
  then have "labels X ?L = labels (gCb (gen_at g qs (length qs))) ?L" using c by (simp add: compiled_def)
  then show "labels X ?L = Some (length (instrs (gCb (gen_at g qs j))))" using at [of "length qs"] i(1,2) by simp
  show "peepholeBarrier (gCb (gen_at g qs j))" by (simp add: j defineLabel_def)
qed

subsection \<open>Branches\<close>

lemma placed_branch:
  assumes p: "placed T lo X" and x: "ext (emit w (add_fixup k l cb)) X" and lo: "lo \<le> length (instrs cb)"
  shows "length (instrs cb) < length (txt_words T)"
    "\<exists>t. labels X l = Some t \<and> decode (txt_words T ! length (instrs cb)) = Some (branch_to k w (int t - int (length (instrs cb))))"
proof -
  let ?n = "length (instrs cb)" and ?f = "\<lparr>fxAt = length (instrs cb), fxLabel = l, fxKind = k\<rparr>"
  obtain ws fx where X: "instrs X = instrs cb @ [w] @ ws" "fixups X = fixups cb @ [?f] @ fx"
    by (rule extE [OF x]) (rule that, simp_all add: emit_def add_fixup_def)
  have "?f \<in> set (fixups X)" "instrs X ! ?n = w" by (simp_all add: X nth_append)
  then show "?n < length (txt_words T)"
    "\<exists>t. labels X l = Some t \<and> decode (txt_words T ! ?n) = Some (branch_to k w (int t - int ?n))"
    using placed_words(1,3) [OF p] lo by fastforce+
qed

lemma jump_pc: "jump (int t - int n) (pcs T n s) = pcs T t s"
  by (simp add: jump_def pcs_def pcAt_def algebra_simps)

lemma adv_pc: "adv (pcs T n s) = pcs T (Suc n) s"
  by (simp add: adv_def pcs_def pcAt_def algebra_simps)

lemma step_branch:
  assumes c: "compiled M g qs X" and cb: "length (instrs (gCb g)) \<le> length (instrs cb)" and x: "ext (emit w (add_fixup f l cb)) X"
  shows "\<exists>t. labels X l = Some t \<and> step (imSeg M) (pcs (imSeg M) (length (instrs cb)) s) =
    exec (imSeg M) (branch_to f w (int t - int (length (instrs cb)))) (pcs (imSeg M) (length (instrs cb)) s)"
proof -
  have p: "placed (imSeg M) (length (instrs (gCb g))) X" and l: "linked M" using c by (auto simp: compiled_def)
  from placed_branch [OF p x cb] step_at l show ?thesis by (auto simp: linked_def)
qed

lemma at_label:
  assumes c: "compiled M g qs X" and j: "label_pos qs l = Some j" and s: "aM s = m" "keeps s0 s"
  shows "at_quad M g qs s0 j m (pcs (imSeg M) (length (instrs (gCb (gen_at g qs j)))) s)"
  using label_at [OF c j] s by (simp add: at_quad_def last_ok_def)

lemma runs_1: "step T s = Some s' \<Longrightarrow> runs T s s'"
  by (rule runs_step) auto

lemma step_jump:
  assumes c: "compiled M g qs X" and a: "at_quad M g qs s0 k m s" and k: "k < length qs" and q: "qOp (qs ! k) = OpCtl IRJump"
    and j: "label_pos qs (qExtra (qs ! k)) = Some j"
  shows "\<exists>s'. runs (imSeg M) s s' \<and> at_quad M g qs s0 j m s'"
proof -
  let ?h = "gen_at g qs k" and ?l = "irLabel (fnName (gFn g)) (qExtra (qs ! k))"
  let ?n = "length (instrs (gCb ?h))" and ?t = "length (instrs (gCb (gen_at g qs j)))"
  have x: "ext (emit 0x14000000 (add_fixup fixB ?l (gCb ?h))) X"
    using compiled_at(4) [OF c, of "Suc k"] k q by (simp add: gen_at_Suc genQuad_def upd_cb_def emitB_def)
  have s: "aM s = m" "keeps s0 s" "pcs (imSeg M) ?n s = s" using a by (auto simp: at_quad_def pcs_self)
  have "step (imSeg M) s = Some (pcs (imSeg M) ?t s)"
    using step_branch [OF c compiled_at(2) [OF c less_imp_le [OF k]] x, of s] label_at(2) [OF c j] s(3) jump_pc [of ?t ?n "imSeg M" s] by simp
  then show ?thesis using at_label [OF c j s(1,2)] by (blast intro: runs_1)
qed

lemma decode_bcond: "fits 4 c \<Longrightarrow> decode (u32 (0x54000000 OR c)) = Some (B_cond (nat c) 0)"
  using dec_Bcond [of c 0] by (simp add: encBcond_def u32_or)

lemma bcond_bits: "fits 4 c \<Longrightarrow> branch_to fixBcond (u32 (0x54000000 OR c)) d = B_cond (nat c) d"
  by (simp add: u32_or bits_simps)

text \<open>The test of a conditional jump.\<close>

lemma impl_test:
  assumes "opd M fr a"
  shows "\<exists>F. impl M (fcomp (load fr a 0) (emit (encCMPimm0 0))) F \<and> (\<forall>s. aM (F s) = aM s \<and> keeps s (F s)
     \<and> (fZ (F s) \<longleftrightarrow> ival (env_at M fr (\<lambda>_. False) (fbase fr s)) (aM s) a = 0))"
proof -
  have d: "impl M (emit (encCMPimm0 0)) (\<lambda>s. awc_flags (rX s 0) (NOT 0) True s)"
    by (rule impl_cong [OF impl_instr [OF dec_CMPimm0]]) auto
  have z: "fZ (awc_flags v (NOT 0) True s) \<longleftrightarrow> v = 0" for v s by (simp add: awc_flags_def awc_def)
  show ?thesis using impl_seq [OF impl_load [OF _ _ assms, of 0] d] z
    by (intro exI [of _ "\<lambda>s. awc_flags (rX (ld_eff M fr a 0 s) 0) (NOT 0) True (ld_eff M fr a 0 s)"]) auto
qed

lemma step_cond:
  assumes c: "compiled M g qs X" and a: "at_quad M g qs s0 k m s" and k: "k < length qs" and q: "qOp (qs ! k) = OpCtl o'"
    and o: "o' = IRJumpT \<and> cn = condNE \<and> neg \<or> o' = IRJumpF \<and> cn = condEQ \<and> \<not> neg"
    and b: "rX s0 29 = b" "fbase (gFr g) s0 = b"
    and r: "(if (ival (env_at M (gFr g) gp b) m (qSrc1 (qs ! k)) = 0) \<noteq> neg then label_pos qs (qExtra (qs ! k)) else Some (k + 1)) = Some j"
  shows "\<exists>s'. runs (imSeg M) s s' \<and> at_quad M g qs s0 j m s'"
proof -
  let ?h = "gen_at g qs k" and ?l = "irLabel (fnName (gFn g)) (qExtra (qs ! k))" and ?T = "imSeg M" and ?w = "u32 (0x54000000 OR cn)"
  let ?f = "fcomp (load (gFr g) (qSrc1 (qs ! k)) 0) (emit (encCMPimm0 0))"
  let ?n = "length (instrs (?f (gCb ?h)))" and ?z = "ival (env_at M (gFr g) gp b) m (qSrc1 (qs ! k)) = 0"
  have cn: "fits 4 cn" using o by (auto simp: fits_def)
  have gen: "gCb (gen_at g qs (Suc k)) = emit ?w (add_fixup fixBcond ?l (?f (gCb ?h)))"
    using o k q by (auto simp: gen_at_Suc genQuad_def upd_cb_def emitBcond_def)
  have x: "ext (emit ?w (add_fixup fixBcond ?l (?f (gCb ?h)))) X" using compiled_at(4) [OF c, of "Suc k"] k gen by simp
  have "quad_ok M g (qs ! k)" using c k by (simp add: compiled_def)
  then have "opd M (gFr g) (qSrc1 (qs ! k))" using q o by (auto simp: quad_ok_def)
  then obtain F where F: "impl M ?f F" "\<And>s. aM (F s) = aM s \<and> keeps s (F s) \<and>
     (fZ (F s) \<longleftrightarrow> ival (env_at M (gFr g) (\<lambda>_. False) (fbase (gFr g) s)) (aM s) (qSrc1 (qs ! k)) = 0)" using impl_test by metis
  have s: "aM s = m" "keeps s0 s" "last_ok (gCb ?h) s" "aPC s = pcAt ?T (length (instrs (gCb ?h)))" using a by (auto simp: at_quad_def)
  have "ext (?f (gCb ?h)) (emit ?w (add_fixup fixBcond ?l (?f (gCb ?h))))"
    using growsD [OF grows_branch(3) [OF cn], of "?f (gCb ?h)" ?l] by (simp add: emitBcond_def)
  note R = run_block [OF c less_imp_le [OF k] F(1) ext_trans [OF this x] s(3,4)]
  have z: "fZ (F s) \<longleftrightarrow> ?z" "aM (F s) = m" "keeps s0 (F s)"
    using F(2) [of s] s(1) keeps_trans [OF s(2)] keeps_fbase [OF s(2)] b env_gp(2) [where gp = gp] by metis+
  have lo: "length (instrs (gCb g)) \<le> ?n"
    using compiled_at(2) [OF c less_imp_le [OF k]] straightD(2) [OF impl_straight [OF F(1)], of "gCb ?h"] by simp
  have holds: "cond_holds (F s) (nat cn) \<longleftrightarrow> ?z \<noteq> neg" using z(1) o by (auto simp: cond_holds_def Let_def)
  obtain t where t: "labels X ?l = Some t" "step ?T (pcs ?T ?n (F s)) = exec ?T (B_cond (nat cn) (int t - int ?n)) (pcs ?T ?n (F s))"
    using step_branch [OF c lo x, of "F s"] unfolding bcond_bits [OF cn] by blast
  show ?thesis
  proof (cases "?z \<noteq> neg")
    case True
    then have j: "label_pos qs (qExtra (qs ! k)) = Some j" using r by simp
    let ?t = "length (instrs (gCb (gen_at g qs j)))"
    have "step ?T (pcs ?T ?n (F s)) = Some (pcs ?T ?t (F s))"
      using t(1,2) label_at(2) [OF c j] True holds jump_pc [of ?t ?n ?T "F s"] by (simp add: pcs_def)
    then show ?thesis using R(1) at_label [OF c j z(2,3)] by (blast intro: runs_trans runs_1)
  next
    case False
    then have j: "j = Suc k" using r by simp
    have "last_ok (gCb (gen_at g qs (Suc k))) (F s)"
      using decode_bcond [OF cn] by (simp add: gen last_ok_def emit_def add_fixup_def)
    then have "at_quad M g qs s0 j m (pcs ?T (Suc ?n) (F s))" using z k by (simp add: j at_quad_def gen emit_def add_fixup_def)
    moreover have "step ?T (pcs ?T ?n (F s)) = Some (pcs ?T (Suc ?n) (F s))"
      using t(2) False holds adv_pc [of ?T ?n "F s"] by (simp add: pcs_def)
    ultimately show ?thesis using R(1) by (blast intro: runs_trans runs_1)
  qed
qed

text \<open>Every step of the quads is a run of the machine.\<close>

lemma step_sim:
  assumes c: "compiled M g qs X" and a: "at_quad M g qs s0 k m s" and b: "rX s0 29 = b" "fbase (gFr g) s0 = b"
    and r: "ir_step (env_at M (gFr g) (gIsGlobalPtr g) b) qs k m = Some (k', m')"
  shows "\<exists>s'. runs (imSeg M) s s' \<and> at_quad M g qs s0 k' m' s'"
proof -
  have k: "k < length qs" using r by (simp add: ir_step_def split: if_splits)
  note r = r [unfolded ir_step_def Let_def if_P [OF k]]
  show ?thesis
  proof (cases "qOp (qs ! k)")
    case (OpCtl o')
    show ?thesis
    proof (cases o')
      case IREnter
      have "at_quad M g qs s0 (Suc k) m s" using a k IREnter OpCtl by (simp add: at_quad_def gen_at_Suc genQuad_def)
      then show ?thesis using r IREnter OpCtl by auto
    next
      case IRLabel
      have "at_quad M g qs s0 (Suc k) m s" using a k IRLabel OpCtl
        by (simp add: at_quad_def gen_at_Suc genQuad_def upd_cb_def defineLabel_def last_ok_def)
      then show ?thesis using r IRLabel OpCtl by auto
    next
      case IRJump
      then show ?thesis using r OpCtl step_jump [OF c a k] by auto
    next
      case IRJumpT
      then show ?thesis using r OpCtl step_cond [OF c a k OpCtl _ b, where gp = "gIsGlobalPtr g" and neg = True and cn = condNE and j = k'] by (auto split: if_splits)
    next
      case IRJumpF
      then show ?thesis using r OpCtl step_cond [OF c a k OpCtl _ b, where gp = "gIsGlobalPtr g" and neg = False and cn = condEQ and j = k'] by (auto split: if_splits)
    qed (use r OpCtl in auto)
  qed (use r step_data [OF c a k _ b] in \<open>auto simp: is_ctl_def\<close>)
qed

text \<open>
  A forward simulation: every step of the source is matched by a run of the target. Then so is every
  run of the source.
\<close>

locale forward_simulation =
  fixes source_step :: "'a \<Rightarrow> 'a \<Rightarrow> bool" and target_run :: "'b \<Rightarrow> 'b \<Rightarrow> bool" and match :: "'a \<Rightarrow> 'b \<Rightarrow> bool"
  assumes target_refl: "target_run t t"
    and target_trans: "target_run t t' \<Longrightarrow> target_run t' t'' \<Longrightarrow> target_run t t''"
    and simulation: "match a t \<Longrightarrow> source_step a a' \<Longrightarrow> \<exists>t'. target_run t t' \<and> match a' t'"
begin

lemma source_run: "source_step\<^sup>*\<^sup>* a a' \<Longrightarrow> match a t \<Longrightarrow> \<exists>t'. target_run t t' \<and> match a' t'"
proof (induction rule: rtranclp_induct)
  case base
  then show ?case using target_refl by blast
next
  case (step a1 a2)
  then show ?case using simulation target_trans by blast
qed

end

definition ir_moves :: "irenv \<Rightarrow> Quad list \<Rightarrow> nat \<times> mem \<Rightarrow> nat \<times> mem \<Rightarrow> bool" where
  "ir_moves e qs c c' \<longleftrightarrow> ir_step e qs (fst c) (snd c) = Some c'"

lemma ir_runs_moves: "ir_runs e qs k m k' m' \<Longrightarrow> (ir_moves e qs)\<^sup>*\<^sup>* (k, m) (k', m')"
  by (induction rule: ir_runs.induct) (auto simp: ir_moves_def intro: converse_rtranclp_into_rtranclp)

interpretation quads: forward_simulation "ir_moves (env_at M (gFr g) (gIsGlobalPtr g) b) qs" "runs (imSeg M)"
  "\<lambda>c s. compiled M g qs X \<and> rX s0 29 = b \<and> fbase (gFr g) s0 = b \<and> at_quad M g qs s0 (fst c) (snd c) s" for M g b qs X s0
  by unfold_locales (auto simp: ir_moves_def intro: runs_trans dest: step_sim)

lemma runs_sim:
  assumes "ir_runs e qs k m k' m'" and "compiled M g qs X" "rX s0 29 = b" "fbase (gFr g) s0 = b"
    and "e = env_at M (gFr g) (gIsGlobalPtr g) b"
  shows "at_quad M g qs s0 k m s \<Longrightarrow> \<exists>s'. runs (imSeg M) s s' \<and> at_quad M g qs s0 k' m' s'"
  using quads.source_run [OF ir_runs_moves [OF assms(1) [unfolded assms(5)]], where X = X and ?s0.0 = s0 and t = s] assms(2-4) by auto

subsection \<open>Leaving a function\<close>

lemma sp_unfold:
  "emitSubSP i = (if 4095 < i then fcomp (emit (encSUBimm 31 31 4095)) (emitSubSP (i - 4095)) else if 0 < i then emit (encSUBimm 31 31 i) else id)"
  "emitAddSP i = (if 4095 < i then fcomp (emit (encADDimm 31 31 4095)) (emitAddSP (i - 4095)) else if 0 < i then emit (encADDimm 31 31 i) else id)"
  by (rule ext, subst emitSubSP.simps emitAddSP.simps, simp)+

lemma impl_sp_imm:
  assumes "0 \<le> i" "i \<le> 4095"
  shows "impl M (emit (encSUBimm 31 31 i)) (\<lambda>s. s\<lparr>aSP := aSP s - word_of_int i\<rparr>)"
    "impl M (emit (encADDimm 31 31 i)) (\<lambda>s. s\<lparr>aSP := aSP s + word_of_int i\<rparr>)"
  using assms by (auto intro!: impl_cong [OF impl_instr [OF dec_SUBimm]] impl_cong [OF impl_instr [OF dec_ADDimm]] simp: fits_def)

lemma impl_SP:
  assumes "0 \<le> i"
  shows "impl M (emitSubSP i) (\<lambda>s. s\<lparr>aSP := aSP s - word_of_int i\<rparr>)" (is "?sub i")
    and "impl M (emitAddSP i) (\<lambda>s. s\<lparr>aSP := aSP s + word_of_int i\<rparr>)" (is "?add i")
proof -
  have "?sub i \<and> ?add i" using assms
  proof (induction "nat i" arbitrary: i rule: less_induct)
    case less
    show ?case
    proof (cases "4095 < i")
      case True
      then have IH: "?sub (i - 4095)" "?add (i - 4095)" using less.hyps [of "i - 4095"] by auto
      show ?thesis using True impl_seq [OF impl_sp_imm(1) [of 4095] IH(1)] impl_seq [OF impl_sp_imm(2) [of 4095] IH(2)]
        by (subst sp_unfold(1), subst sp_unfold(2)) (simp add: algebra_simps)
    next
      case False
      show ?thesis
      proof (cases "0 < i")
        case True
        then show ?thesis using False impl_sp_imm [of i M] by (subst sp_unfold(1), subst sp_unfold(2)) simp
      next
        case False
        then have "i = 0" using less.prems by simp
        then show ?thesis using impl_id [of M] by (subst sp_unfold(1), subst sp_unfold(2)) simp
      qed
    qed
  qed
  then show "?sub i" "?add i" by auto
qed

definition leave :: "frame \<Rightarrow> arm \<Rightarrow> arm" where
  "leave fr s = (let b = (if frHasVLA fr then rX s 29 else aSP s)
     in (wX 30 (ld64 (aM s) (b + 8)) (wX 29 (ld64 (aM s) b) s))\<lparr>aSP := b + word_of_int (frFrameSize fr)\<rparr>)"

lemma impl_leave:
  assumes "0 \<le> frFrameSize fr"
  shows "impl M (fcomp (fcomp (if frHasVLA fr then emit (encADDimm 31 29 0) else id) (emit (encLDP 29 30 31 0))) (emitAddSP (frFrameSize fr))) (leave fr)"
proof -
  have m: "impl M (if frHasVLA fr then emit (encADDimm 31 29 0) else id) (\<lambda>s. if frHasVLA fr then s\<lparr>aSP := rX s 29\<rparr> else s)"
    using impl_id [of M] by (auto intro!: impl_cong [OF impl_instr [OF dec_ADDimm]] simp: fits_def)
  have l: "impl M (emit (encLDP 29 30 31 0)) (\<lambda>s. wX 30 (ld64 (aM s) (aSP s + 8)) (wX 29 (ld64 (aM s) (aSP s)) s))"
    using dec_LDP [of 29 30 31 0] by (intro impl_cong [OF impl_instr]) auto
  show ?thesis
    by (rule impl_cong [OF impl_seq [OF impl_seq [OF m l] impl_SP(2) [OF assms]]]) (auto simp: leave_def Let_def wX_def)
qed

lemma step_return:
  assumes c: "compiled M g qs X" and a: "at_quad M g qs s0 k m s" and k: "k < length qs" and q: "qOp (qs ! k) = OpCtl IRReturn"
    and b: "rX s0 29 = b" "fbase (gFr g) s0 = b" and sz: "0 \<le> frFrameSize (gFr g)"
  shows "\<exists>s'. runs (imSeg M) s s' \<and> aM s' = m \<and> aPC s' = ld64 m (b + 8) \<and> aSP s' = b + word_of_int (frFrameSize (gFr g))
    \<and> rX s' 29 = ld64 m b \<and> (\<forall>n. 19 \<le> n \<and> n < 29 \<longrightarrow> rX s' n = rX s0 n)
    \<and> (aKind (qSrc1 (qs ! k)) \<noteq> AddrNone \<longrightarrow> rX s' 0 = ival (env_at M (gFr g) (gIsGlobalPtr g) b) m (qSrc1 (qs ! k)))"
proof -
  let ?h = "gen_at g qs k" and ?q = "qs ! k" and ?T = "imSeg M" and ?fr = "gFr g"
  let ?ld = "if aKind (qSrc1 ?q) \<noteq> AddrNone then load ?fr (qSrc1 ?q) 0 else id"
  let ?lv = "fcomp (fcomp (if frHasVLA ?fr then emit (encADDimm 31 29 0) else id) (emit (encLDP 29 30 31 0))) (emitAddSP (frFrameSize ?fr))"
  have ok: "quad_ok M g ?q" using c k by (simp add: compiled_def)
  then have o: "\<not> isFPType (fnReturnType (gFn g))" "\<not> (qTypeHint ?q = TypeStruct \<and> qStructTag ?q \<noteq> [])"
    "aKind (qSrc1 ?q) \<noteq> AddrNone \<Longrightarrow> opd M ?fr (qSrc1 ?q)" using q by (auto simp: quad_ok_def)
  let ?F = "\<lambda>s. if aKind (qSrc1 ?q) \<noteq> AddrNone then ld_eff M ?fr (qSrc1 ?q) 0 s else s"
  have "impl M ?ld ?F" using impl_load [OF _ _ o(3), of 0] impl_id [of M] by auto
  then have I: "impl M (fcomp ?ld ?lv) (\<lambda>s. leave ?fr (?F s))" by (rule impl_seq [OF _ impl_leave [OF sz]])
  have gen: "gCb (gen_at g qs (Suc k)) = emit encRET ((fcomp ?ld ?lv) (gCb ?h))"
    using k q o(1,2) by (auto simp: gen_at_Suc genQuad_def upd_cb_def emitReturn_def emitEpilogue_def)
  have x: "ext (emit encRET ((fcomp ?ld ?lv) (gCb ?h))) X" using compiled_at(4) [OF c, of "Suc k"] k gen by simp
  have s: "aM s = m" "keeps s0 s" "last_ok (gCb ?h) s" "aPC s = pcAt ?T (length (instrs (gCb ?h)))" using a by (auto simp: at_quad_def)
  note R = run_block [OF c less_imp_le [OF k] I ext_trans [OF growsD [OF grows_emit] x] s(3,4)]
  let ?n = "length (instrs ((fcomp ?ld ?lv) (gCb ?h)))" and ?s1 = "leave ?fr (?F s)"
  have p: "placed ?T (length (instrs (gCb g))) X" and ln: "linked M" using c by (auto simp: compiled_def)
  have le: "length (instrs (gCb ?h)) \<le> ?n" using straightD(2) [OF impl_straight [OF I]] .
  have "grows (fcomp ?ld ?lv)" by (intro grow)
  then have wf: "wf_cb ((fcomp ?ld ?lv) (gCb ?h))" by (rule ext_wf [OF growsD compiled_at(1) [OF c less_imp_le [OF k]]])
  have "code_at ?T ((fcomp ?ld ?lv) (gCb ?h)) (emit encRET ((fcomp ?ld ?lv) (gCb ?h)))"
    using le compiled_at(2) [OF c less_imp_le [OF k]] by (intro placed_code_at [OF p wf _ straight_emit x]) simp
  then have "?n < length (txt_words ?T)" "txt_words ?T ! ?n = encRET" by (auto simp: code_at_def emit_def)
  then have "step ?T (pcs ?T ?n ?s1) = Some (?s1\<lparr>aPC := rX ?s1 30\<rparr>)"
    using step_at [of ?n ?T "RET 30" ?s1] dec_RET ln by (simp add: linked_def pcs_def)
  then have run: "runs ?T s (?s1\<lparr>aPC := rX ?s1 30\<rparr>)" using R(1) by (blast intro: runs_trans runs_1)
  have bs: "fbase ?fr s = b" "rX s 29 = b" "(if frHasVLA ?fr then rX s 29 else aSP s) = b"
    using keeps_fbase [OF s(2)] b s(2) by (auto simp: keeps_def fbase_def)
  obtain t where t: "?F s = t" "aM t = m" "keeps s0 t" "fbase ?fr t = b" "rX t 29 = b"
    "aKind (qSrc1 ?q) \<noteq> AddrNone \<Longrightarrow> rX t 0 = ival (env_at M ?fr (gIsGlobalPtr g) b) m (qSrc1 ?q)"
    using s bs env_gp(2) [where gp = "gIsGlobalPtr g"] by auto
  have "(if frHasVLA ?fr then rX t 29 else aSP t) = b" using t(4,5) by (auto simp: fbase_def)
  then have L: "leave ?fr t = (wX 30 (ld64 m (b + 8)) (wX 29 (ld64 m b) t))\<lparr>aSP := b + word_of_int (frFrameSize ?fr)\<rparr>"
    using t(2) by (simp add: leave_def Let_def)
  have "\<forall>n. 19 \<le> n \<and> n < 29 \<longrightarrow> rX t n = rX s0 n" using t(3) by (simp add: keeps_def)
  then show ?thesis using t by (intro exI [of _ "(leave ?fr t)\<lparr>aPC := rX (leave ?fr t) 30\<rparr>"] conjI run [unfolded t(1)]) (simp_all add: L)
qed

end
