(* ===== verification/FuncRefine.thy ===== *)
theory FuncRefine
  imports Simulate
begin

section \<open>A call of a compiled function\<close>

text \<open>
  From the entry of a function to its return: the prologue makes the frame, saves the frame pointer
  and the link register and stores the parameters; the body runs as its quads do; the epilogue gives
  the frame back and returns to the caller.
\<close>

subsection \<open>Entering a function\<close>

text \<open>The parameters in the frame at \<open>b\<close>, from the integer and the floating-point registers.\<close>

fun params_in :: "frame \<Rightarrow> 64 word \<Rightarrow> (nat \<Rightarrow> 64 word) \<Rightarrow> (nat \<Rightarrow> 64 word) \<Rightarrow> string list \<Rightarrow> TypeKind list \<Rightarrow> nat \<Rightarrow> nat \<Rightarrow> mem \<Rightarrow> mem" where
  "params_in fr b xs ds (n # ns) (t # ts) i f m =
     (if isFPType t then (if f < 8 then params_in fr b xs ds ns ts i (f + 1) (st64 m (b + word_of_int (fr_off fr n)) (ds f))
                          else params_in fr b xs ds ns ts i f m)
      else (if i < 8 then params_in fr b xs ds ns ts (i + 1) f (st64 m (b + word_of_int (fr_off fr n)) (xs i))
            else params_in fr b xs ds ns ts i f m))"
| "params_in fr b xs ds _ _ i f m = m"

definition enter_mem :: "frame \<Rightarrow> IRFunc \<Rightarrow> arm \<Rightarrow> mem" where
  "enter_mem fr fn s = (let b = aSP s - word_of_int (frFrameSize fr)
     in params_in fr b (rX s) (aD s) (fnParams fn) (fnParamType fn) 0 0 (st64 (st64 (aM s) b (rX s 29)) (b + 8) (rX s 30)))"

definition enter :: "frame \<Rightarrow> IRFunc \<Rightarrow> arm \<Rightarrow> arm" where
  "enter fr fn s = (let b = aSP s - word_of_int (frFrameSize fr) in (wX 29 b s)\<lparr>aSP := b, aM := enter_mem fr fn s\<rparr>)"

definition params_ok :: "frame \<Rightarrow> IRFunc \<Rightarrow> bool" where
  "params_ok fr fn \<longleftrightarrow> \<not> fnIsVariadic fn \<and> TypeStruct \<notin> set (fnParamType fn) \<and> fnReturnStructTag fn = []
     \<and> list_all (\<lambda>n. off_ok 8 (fr_off fr n)) (fnParams fn) \<and> 0 \<le> frFrameSize fr"

lemma params_in_cong: "\<forall>i < 8. xs i = ys i \<Longrightarrow> params_in fr b xs ds ns ts i f m = params_in fr b ys ds ns ts i f m"
  by (induction fr b xs ds ns ts i f m rule: params_in.induct) simp_all

lemma prologue_unfold:
  assumes "t \<noteq> TypeStruct"
  shows "prologue_params g (n # ns) (t # ts) tags i f =
    (if isFPType t then (if f < 8 then fcomp (emit (encSTRDuoff f 31 (fr_off (gFr g) n))) (prologue_params g ns ts (tl tags) i (f + 1))
                         else prologue_params g ns ts (tl tags) i f)
     else (if i < 8 then fcomp (emit (encSTRuoff i 31 (fr_off (gFr g) n))) (prologue_params g ns ts (tl tags) (i + 1) f)
           else prologue_params g ns ts (tl tags) i f))"
  using assms by (intro ext) (simp add: Let_def)

lemma impl_params:
  assumes "TypeStruct \<notin> set ts" "list_all (\<lambda>n. off_ok 8 (fr_off (gFr g) n)) ns" "i \<le> 8" "f \<le> 8"
  shows "impl M (prologue_params g ns ts tags (int i) (int f))
    (\<lambda>s. s\<lparr>aM := params_in (gFr g) (aSP s) (rX s) (aD s) ns ts i f (aM s)\<rparr>)"
  using assms
proof (induction ns arbitrary: ts tags i f)
  case Nil
  have e: "prologue_params g [] ts tags (int i) (int f) = id" by (simp add: fun_eq_iff)
  show ?case by (rule impl_cong [where F = "\<lambda>s. s"]) (simp_all only: e impl_id, simp)
next
  case (Cons n ns)
  show ?case
  proof (cases ts)
    case Nil
    have e: "prologue_params g (n # ns) [] tags (int i) (int f) = id" by (simp add: fun_eq_iff)
    show ?thesis unfolding Nil by (rule impl_cong [where F = "\<lambda>s. s"]) (simp_all only: e impl_id, simp)
  next
    case T: (Cons t ts')
    have t: "t \<noteq> TypeStruct" and o: "off_ok 8 (fr_off (gFr g) n)" using Cons.prems T by auto
    have IH: "i' \<le> 8 \<Longrightarrow> f' \<le> 8 \<Longrightarrow> impl M (prologue_params g ns ts' (tl tags) (int i') (int f'))
      (\<lambda>s. s\<lparr>aM := params_in (gFr g) (aSP s) (rX s) (aD s) ns ts' i' f' (aM s)\<rparr>)" for i' f'
      using Cons.IH Cons.prems T by auto
    have r: "reg (int k)" if "k < 8" for k using that by (simp add: fits_def)
    have rX_M: "rX (s\<lparr>aM := x\<rparr>) = rX s" for s :: arm and x by (simp add: fun_eq_iff)
    have A: "impl M (fcomp (emit (encSTRDuoff (int f) 31 (fr_off (gFr g) n))) (prologue_params g ns ts' (tl tags) (int i) (int (f + 1))))
      (\<lambda>s. s\<lparr>aM := params_in (gFr g) (aSP s) (rX s) (aD s) ns ts' i (f + 1) (st64 (aM s) (aSP s + word_of_int (fr_off (gFr g) n)) (aD s f))\<rparr>)" if "f < 8"
      using that Cons.prems impl_strd [OF r _ o, of f 31 M]
      by (intro impl_cong [OF impl_seq [OF impl_strd [OF r _ o] IH]]) (auto simp: rX_M)
    have B: "impl M (fcomp (emit (encSTRuoff (int i) 31 (fr_off (gFr g) n))) (prologue_params g ns ts' (tl tags) (int (i + 1)) (int f)))
      (\<lambda>s. s\<lparr>aM := params_in (gFr g) (aSP s) (rX s) (aD s) ns ts' (i + 1) f (st64 (aM s) (aSP s + word_of_int (fr_off (gFr g) n)) (rX s i))\<rparr>)" if "i < 8"
      using that Cons.prems by (intro impl_cong [OF impl_seq [OF impl_str [OF r _ o] IH]]) (auto simp: rX_M)
    show ?thesis unfolding T prologue_unfold [OF t] using A B IH [of i f] Cons.prems(3,4) by (auto simp: add.commute)
  qed
qed

lemma impl_prologue:
  assumes "params_ok (gFr g) (gFn g)"
  shows "impl M (emitPrologue g) (enter (gFr g) (gFn g))"
proof -
  let ?fr = "gFr g" and ?fn = "gFn g"
  note p = assms [unfolded params_ok_def]
  have a: "impl M (emit (encSTP 29 30 31 0)) (\<lambda>s. s\<lparr>aM := st64 (st64 (aM s) (aSP s) (rX s 29)) (aSP s + 8) (rX s 30)\<rparr>)"
    using dec_STP [of 29 30 31 0] by (intro impl_cong [OF impl_instr]) auto
  have b: "impl M (emit (encADDimm 29 31 0)) (\<lambda>s. wX 29 (aSP s) s)"
    by (intro impl_cong [OF impl_instr [OF dec_ADDimm]]) (auto simp: fits_def)
  have c: "impl M (prologue_params g (fnParams ?fn) (fnParamType ?fn) (fnParamStructTag ?fn) 0 0)
    (\<lambda>s. s\<lparr>aM := params_in ?fr (aSP s) (rX s) (aD s) (fnParams ?fn) (fnParamType ?fn) 0 0 (aM s)\<rparr>)"
    using impl_params [of "fnParamType ?fn" g "fnParams ?fn" 0 0 M "fnParamStructTag ?fn"] p by simp
  have e: "emitPrologue g = fcomp (fcomp (fcomp (emitSubSP (frFrameSize ?fr)) (emit (encSTP 29 30 31 0))) (emit (encADDimm 29 31 0)))
      (prologue_params g (fnParams ?fn) (fnParamType ?fn) (fnParamStructTag ?fn) 0 0)"
    using p by (simp add: emitPrologue_def Let_def fun_eq_iff)
  have r: "params_in fr b (rX (wX 29 v t)) ds ns ts 0 0 m = params_in fr b (rX t) ds ns ts 0 0 m" for fr b v t ds ns ts m
    by (rule params_in_cong) simp
  have w: "wX 29 v (t\<lparr>aSP := x, aM := y\<rparr>) = (wX 29 v t)\<lparr>aSP := x, aM := y\<rparr>" "rX (t\<lparr>aSP := x, aM := y\<rparr>) = rX t" for v t x y
    by (simp_all add: wX_def fun_eq_iff)
  show ?thesis unfolding e
    by (rule impl_cong [OF impl_seq [OF impl_seq [OF impl_seq [OF impl_SP(1) a] b] c]]) (use p in \<open>simp_all add: enter_def enter_mem_def Let_def r w\<close>)
qed

subsection \<open>The function in the text\<close>

text \<open>The generator as it is when the body of the function is emitted, and the code before and behind it.\<close>

definition fn_gen :: "IRFunc \<Rightarrow> elfGen \<Rightarrow> elfGen" where
  "fn_gen fn g = g\<lparr>gFn := fn, gFr := buildFrame (gStructSize g) fn, gPending := []\<rparr>"

definition fn_ok :: "image \<Rightarrow> elfGen \<Rightarrow> IRFunc \<Rightarrow> bool" where
  "fn_ok M g fn \<longleftrightarrow> params_ok (buildFrame (gStructSize g) fn) fn \<and> list_all (quad_ok M (fn_gen fn g)) (fnQuads fn)
     \<and> distinct (map qExtra (filter (\<lambda>q. qOp q = OpCtl IRLabel) (fnQuads fn)))"

definition body_gen :: "IRFunc \<Rightarrow> elfGen \<Rightarrow> elfGen" where
  "body_gen fn g = upd_cb (emitPrologue (fn_gen fn g)) (upd_cb (defineLabel (funcLabel (fnName fn))) (fn_gen fn g))"

lemma prologue_same: "emitPrologue (upd_cb f g) = emitPrologue g"
proof -
  have "prologue_params (upd_cb f g) ns ts tags i j cb = prologue_params g ns ts tags i j cb" for ns ts tags i j cb
    by (induction g ns ts tags i j cb rule: prologue_params.induct) (simp_all add: upd_cb_def struct_size0_def Let_def)
  then show ?thesis by (simp add: emitPrologue_def fun_eq_iff Let_def) (simp add: upd_cb_def struct_size0_def)
qed

lemma genFunc_body: "genFunc fn g = fold genQuad (fnQuads fn) (body_gen fn g)"
  by (simp add: genFunc_def body_gen_def Let_def prologue_same fn_gen_def)

lemma body_same [simp]: "gFr (body_gen fn g) = buildFrame (gStructSize g) fn" "gFn (body_gen fn g) = fn" "gIsGlobalPtr (body_gen fn g) = gIsGlobalPtr g"
  by (simp_all add: body_gen_def upd_cb_def fn_gen_def)

lemma quad_ok_cong:
  assumes s: "gFr g' = gFr g" "gFn g' = gFn g" "gIsGlobalPtr g' = gIsGlobalPtr g"
  shows "quad_ok M g' q = quad_ok M g q"
proof -
  have a: "arr_ok M g' = arr_ok M g" by (simp add: fun_eq_iff arr_ok_def s)
  moreover have "ctl_ok M g' q c = ctl_ok M g q c" for c by (cases c) (simp_all add: s)
  moreover have "mem_ok M g' q o' = mem_ok M g q o'" for o' by (simp only: mem_ok_def a s)
  moreover have "adr_ok M g' q o' = adr_ok M g q o'" for o' by (simp only: adr_ok_def a s)
  ultimately show ?thesis unfolding quad_ok_def by (cases "qOp q") (simp_all only: s IROpCode.case)
qed

lemma size_same: "gStructSize (fold genQuad qs g) = gStructSize g"
proof -
  have "gStructSize (gen_ctl g q c) = gStructSize g" for g q c by (cases c) (simp_all add: upd_cb_def)
  then have "gStructSize (genQuad q g) = gStructSize g" for g q unfolding genQuad_def by (cases "qOp q") (simp_all add: upd_cb_def)
  then show ?thesis by (induction qs arbitrary: g) simp_all
qed

lemma genFunc_same: "gStructSize (genFunc fn g) = gStructSize g" "gIsGlobalPtr (genFunc fn g) = gIsGlobalPtr g"
proof -
  show "gStructSize (genFunc fn g) = gStructSize g" unfolding genFunc_body size_same by (simp add: body_gen_def upd_cb_def fn_gen_def)
  show "gIsGlobalPtr (genFunc fn g) = gIsGlobalPtr g"
    using gen_at_same(3) [of "body_gen fn g" "fnQuads fn" "length (fnQuads fn)"] unfolding genFunc_body by (simp add: gen_at_def)
qed

lemma genFuncs_same: "gStructSize (fold genFunc fns g) = gStructSize g" "gIsGlobalPtr (fold genFunc fns g) = gIsGlobalPtr g"
  by (induction fns arbitrary: g) (simp_all add: genFunc_same)

text \<open>The text from word \<open>lo\<close> on is that of builder \<open>Y\<close>; the pool in front of it holds the addresses.\<close>

definition loads :: "image \<Rightarrow> nat \<Rightarrow> codeBuilder \<Rightarrow> bool" where
  "loads M lo Y \<longleftrightarrow> linked M \<and> imPool M = poolIdx Y \<and> length (instrs Y) \<le> length (txt_words (imSeg M))
     \<and> (\<forall>i. lo \<le> i \<and> i < length (instrs Y) \<longrightarrow> txt_words (imSeg M) ! i = instrs Y ! i)"

lemma applyFixups_keeps:
  assumes "wf_cb X" "applyFixups X = Inr Y"
  shows "length (instrs Y) = length (instrs X)" "labels Y = labels X" "poolIdx Y = poolIdx X"
proof -
  have "\<forall>f \<in> set (fixups X). linkable (labels X) f" using applyFixups_spec(2) [OF assms(1)] assms(2) by auto
  from applyFixups_spec(1) [OF assms(1) this] obtain ws where "Y = X\<lparr>instrs := ws\<rparr>" "length ws = length (instrs X)" using assms(2) by auto
  then show "length (instrs Y) = length (instrs X)" "labels Y = labels X" "poolIdx Y = poolIdx X" by simp_all
qed

lemma loads_placed: "wf_cb X \<Longrightarrow> applyFixups X = Inr Y \<Longrightarrow> loads M lo Y \<Longrightarrow> lo \<le> n \<Longrightarrow> placed (imSeg M) n X"
  using applyFixups_keeps(1) unfolding placed_def loads_def by auto

text \<open>The labels of a function: its entry and those of its quads.\<close>

definition fn_labels :: "IRFunc \<Rightarrow> string list" where
  "fn_labels fn = funcLabel (fnName fn) # map (irLabel (fnName fn)) (map qExtra (filter (\<lambda>q. qOp q = OpCtl IRLabel) (fnQuads fn)))"

lemma irLabel_entry: "irLabel f l \<noteq> funcLabel f"
proof
  assume "irLabel f l = funcLabel f"
  then have "length (irLabel f l) = length f" by (simp add: funcLabel_def)
  then show False by (simp add: irLabel_def)
qed

lemma entry_label:
  assumes "\<And>q. q \<in> set qs \<Longrightarrow> quad_ok M g q" "k \<le> length qs"
  shows "labels (gCb (gen_at g qs k)) (funcLabel (fnName (gFn g))) = labels (gCb g) (funcLabel (fnName (gFn g)))"
  using assms(2)
proof (induction k)
  case (Suc k)
  then have "quad_ok M (gen_at g qs k) (qs ! k)" using assms(1) by simp
  from labels_gen [OF this] Suc show ?case using irLabel_entry [of "fnName (gFn g)" "qExtra (qs ! k)"]
    by (auto simp: gen_at_Suc)
qed simp

subsection \<open>The refinement\<close>

definition gen_start :: "elfGen \<Rightarrow> IRGlobal list \<Rightarrow> IRStrLit list \<Rightarrow> IRFConst list \<Rightarrow> string list \<Rightarrow> elfGen" where
  "gen_start gen gl sl fc fr = gen\<lparr>gCb := newCodeBuilder gl sl fc fr, gPending := []\<rparr>"

lemma gen_code_start: "gen_code gen gl sl fc fr fns = gCb (fold genFunc fns (gen_start gen gl sl fc fr))"
  by (simp add: gen_code_def gen_start_def)

lemma body_ext: "ext (gCb g) (gCb (body_gen fn g))"
  by (simp add: body_gen_def upd_cb_def fn_gen_def) (rule ext_trans [OF growsD [OF grows_label] growsD [OF grows_prologue(1)]])

lemma fn_compiled:
  assumes X: "X = gen_code gen gl sl fc fr (pre @ fn # post)" and a: "applyFixups X = Inr Y"
    and M: "loads M (length (instrs (newCodeBuilder gl sl fc fr))) Y" and ok: "fn_ok M gen fn"
    and l: "\<forall>l \<in> set (fn_labels fn). labels X l = labels (gen_code gen gl sl fc fr (pre @ [fn])) l"
    and g: "g = fold genFunc pre (gen_start gen gl sl fc fr)"
  shows "compiled M (body_gen fn g) (fnQuads fn) X" "labels X (funcLabel (fnName fn)) = Some (length (instrs (gCb g)))"
    "placed (imSeg M) (length (instrs (gCb g))) X" "wf_cb (gCb g)" "poolIdx (gCb g) = imPool M"
proof -
  let ?b = "body_gen fn g" and ?qs = "fnQuads fn" and ?n0 = "newCodeBuilder gl sl fc fr"
  have wfX: "wf_cb X" unfolding X by (rule wf_gen_code)
  have g0: "ext ?n0 (gCb g)" using ext_genFuncs [of "gen_start gen gl sl fc fr" pre] by (simp add: g gen_start_def)
  show wfg: "wf_cb (gCb g)" by (rule ext_wf [OF g0 wf_new])
  have all: "gen_at ?b ?qs (length ?qs) = genFunc fn g" by (simp add: gen_at_def genFunc_body)
  have after: "gCb (genFunc fn g) = gen_code gen gl sl fc fr (pre @ [fn])" by (simp add: gen_code_start g)
  have x: "ext (gCb (genFunc fn g)) X" using ext_genFuncs [of "genFunc fn g" post] by (simp add: X gen_code_start g)
  have "ext ?n0 X" using ext_genFuncs [of "gen_start gen gl sl fc fr" "pre @ fn # post"] by (simp add: X gen_code_start) (simp add: gen_start_def)
  moreover have "poolIdx Y = imPool M" using M by (simp add: loads_def)
  ultimately have pool: "poolIdx ?n0 = imPool M" using applyFixups_keeps(3) [OF wfX a] by (auto simp: ext_def)
  then show poolg: "poolIdx (gCb g) = imPool M" using g0 by (auto simp: ext_def)
  show pg: "placed (imSeg M) (length (instrs (gCb g))) X" by (rule loads_placed [OF wfX a M ext_len [OF g0]])
  have q: "quad_ok M ?b q" if "q \<in> set ?qs" for q
  proof -
    have "quad_ok M ?b q = quad_ok M (fn_gen fn gen) q" by (rule quad_ok_cong) (simp_all add: fn_gen_def g genFuncs_same gen_start_def)
    then show ?thesis using ok that by (simp add: fn_ok_def list_all_iff)
  qed
  have own: "labels X (irLabel (fnName fn) l') = labels (gCb (genFunc fn g)) (irLabel (fnName fn) l')" if "q \<in> set ?qs" "is_label l' q" for l' q
    using l that unfolding after by (force simp: fn_labels_def is_label_def)
  show "compiled M ?b ?qs X" unfolding compiled_def all
  proof (intro conjI)
    show "linked M" using M by (simp add: loads_def)
    show "wf_cb (gCb ?b)" by (rule ext_wf [OF body_ext wfg])
    show "poolIdx (gCb ?b) = imPool M" using poolg body_ext [of g fn] by (auto simp: ext_def)
    show "placed (imSeg M) (length (instrs (gCb ?b))) X" by (rule loads_placed [OF wfX a M order_trans [OF ext_len [OF g0] ext_len [OF body_ext]]])
    show "ext (gCb (genFunc fn g)) X" by fact
    show "\<forall>l'. (\<exists>q \<in> set ?qs. is_label l' q) \<longrightarrow> labels X (irLabel (fnName (gFn ?b)) l') = labels (gCb (genFunc fn g)) (irLabel (fnName (gFn ?b)) l')"
      using own by auto
    show "\<forall>q \<in> set ?qs. quad_ok M ?b q" using q by blast
    show "distinct (map qExtra (filter (\<lambda>q. qOp q = OpCtl IRLabel) ?qs))" using ok by (simp add: fn_ok_def)
  qed
  have "params_ok (gFr (fn_gen fn g)) (gFn (fn_gen fn g))" using ok by (simp add: fn_ok_def fn_gen_def g genFuncs_same gen_start_def)
  then have "labels (gCb ?b) (funcLabel (fnName fn)) = Some (length (instrs (gCb g)))"
    using straightD(3) [OF impl_straight [OF impl_prologue]] by (simp add: body_gen_def upd_cb_def fn_gen_def defineLabel_def)
  then show "labels X (funcLabel (fnName fn)) = Some (length (instrs (gCb g)))"
    using l entry_label [OF q, of ?qs "length ?qs"] by (simp add: fn_labels_def all after [symmetric])
qed

lemma enter_state:
  assumes "params_ok fr fn"
  shows "rX (enter fr fn s) 29 = aSP s - word_of_int (frFrameSize fr)" "fbase fr (enter fr fn s) = aSP s - word_of_int (frFrameSize fr)"
    "aM (enter fr fn s) = enter_mem fr fn s" "19 \<le> n \<Longrightarrow> n < 29 \<Longrightarrow> rX (enter fr fn s) n = rX s n"
  by (simp_all add: enter_def Let_def fbase_def rX_def wX_def)

lemma run_function:
  assumes X: "X = gen_code gen gl sl fc fr (pre @ fn # post)" and a: "applyFixups X = Inr Y"
    and M: "loads M (length (instrs (newCodeBuilder gl sl fc fr))) Y" and ok: "fn_ok M gen fn"
    and l: "\<forall>l \<in> set (fn_labels fn). labels X l = labels (gen_code gen gl sl fc fr (pre @ [fn])) l"
    and n: "labels X (funcLabel (fnName fn)) = Some n" "aPC s = pcAt (imSeg M) n"
    and b: "fm = buildFrame (gStructSize gen) fn" "b = aSP s - word_of_int (frFrameSize fm)"
    and r: "ir_returns (env_at M fm (gIsGlobalPtr gen) b) (fnQuads fn) (enter_mem fm fn s) v m"
  shows "\<exists>s'. runs (imSeg M) s s' \<and> aM s' = m \<and> aPC s' = ld64 m (b + 8) \<and> aSP s' = aSP s
    \<and> rX s' 29 = ld64 m b \<and> (\<forall>n. 19 \<le> n \<and> n < 29 \<longrightarrow> rX s' n = rX s n) \<and> (\<forall>x. v = Some x \<longrightarrow> rX s' 0 = x)"
proof -
  define g where "g = fold genFunc pre (gen_start gen gl sl fc fr)"
  note C = fn_compiled [OF X a M ok l g_def]
  let ?b = "body_gen fn g" and ?T = "imSeg M" and ?L = "defineLabel (funcLabel (fnName fn))" and ?h = "fn_gen fn g"
  have same: "gFr ?b = fm" "gFr ?h = fm" "gFn ?h = fn" "gIsGlobalPtr ?b = gIsGlobalPtr gen" "gCb ?h = gCb g"
    by (simp_all add: b(1) g_def fn_gen_def genFuncs_same gen_start_def)
  have po: "params_ok fm fn" using ok by (simp add: fn_ok_def b(1))
  have I: "impl M (emitPrologue ?h) (enter fm fn)" using impl_prologue [of ?h M] po by (simp add: same)
  have cb: "gCb ?b = emitPrologue ?h (?L (gCb g))" by (simp add: body_gen_def upd_cb_def same)
  have ln: "linked M" using C(1) by (simp add: compiled_def)
  have x: "ext (gCb ?b) X" using compiled_at(4) [OF C(1), of 0] by simp
  have "code_at ?T (?L (gCb g)) (emitPrologue ?h (?L (gCb g)))"
    using ext_wf [OF growsD [OF grows_label] C(4)] impl_straight [OF I] x
    by (intro placed_code_at [OF C(3)]) (simp_all add: cb defineLabel_def)
  from implD [OF I _ ln this] C(5)
  have "runs ?T (pcs ?T (length (instrs (gCb g))) s) (pcs ?T (length (instrs (gCb ?b))) (enter fm fn s))" "last_ok (gCb ?b) (enter fm fn s)"
    by (simp_all add: defineLabel_def last_ok_def cb)
  then have run: "runs ?T s (pcs ?T (length (instrs (gCb ?b))) (enter fm fn s))" and "last_ok (gCb ?b) (enter fm fn s)"
    using n C(2) pcs_self [of s ?T "length (instrs (gCb g))"] by simp_all
  then have at0: "at_quad M ?b (fnQuads fn) (enter fm fn s) 0 (enter_mem fm fn s) (pcs ?T (length (instrs (gCb ?b))) (enter fm fn s))"
    using enter_state(3) [OF po] by (simp add: at_quad_def)
  note e = enter_state [OF po, where s = s, folded b(2)]
  obtain k where k: "k < length (fnQuads fn)" "ir_runs (env_at M fm (gIsGlobalPtr gen) b) (fnQuads fn) 0 (enter_mem fm fn s) k m"
    "qOp (fnQuads fn ! k) = OpCtl IRReturn"
    "v = (if aKind (qSrc1 (fnQuads fn ! k)) = AddrNone then None else Some (ival (env_at M fm (gIsGlobalPtr gen) b) m (qSrc1 (fnQuads fn ! k))))"
    using r by (auto simp: ir_returns_def)
  have be: "rX (enter fm fn s) 29 = b" "fbase (gFr ?b) (enter fm fn s) = b" using e(1,2) same(1) by auto
  obtain s1 where s1: "runs ?T (pcs ?T (length (instrs (gCb ?b))) (enter fm fn s)) s1" "at_quad M ?b (fnQuads fn) (enter fm fn s) k m s1"
    using runs_sim [OF k(2) C(1) be _ at0] same by auto
  obtain s' where s': "runs ?T s1 s'" "aM s' = m" "aPC s' = ld64 m (b + 8)" "aSP s' = b + word_of_int (frFrameSize fm)"
    "rX s' 29 = ld64 m b" "\<forall>n. 19 \<le> n \<and> n < 29 \<longrightarrow> rX s' n = rX (enter fm fn s) n"
    "aKind (qSrc1 (fnQuads fn ! k)) \<noteq> AddrNone \<longrightarrow> rX s' 0 = ival (env_at M fm (gIsGlobalPtr gen) b) m (qSrc1 (fnQuads fn ! k))"
    using step_return [OF C(1) s1(2) k(1,3) be] po unfolding same params_ok_def by auto
  have "runs ?T s s'" using run s1(1) s'(1) by (blast intro: runs_trans)
  then show ?thesis using s' e(4) k(4) b(2) by (intro exI [of _ s']) auto
qed

end
