(* ===== verification/BackendProps.thy ===== *)
theory BackendProps
  imports FuncRefine
begin

section \<open>The code generator: properties\<close>

text \<open>
  What the emitted code does, from single emissions to whole functions, and the places where it
  does not do what the IR says.
\<close>

subsection \<open>Constants and loads\<close>

text \<open>C17: the words of \<open>emitMOVimm\<close>, at most four of them, put any 64-bit constant into the register and
  change nothing else.\<close>
theorem emitMOVimm_loads:
  assumes "reg r" "r \<noteq> 31" "poolIdx cb = imPool M" "linked M" "code_at (imSeg M) cb (emitMOVimm r v cb)" "last_ok cb s"
  shows "runs (imSeg M) (pcs (imSeg M) (length (instrs cb)) s)
      (pcs (imSeg M) (length (instrs (emitMOVimm r v cb))) (wX (nat r) (word_of_int v) s))
    \<and> length (instrs (emitMOVimm r v cb)) \<le> length (instrs cb) + 4"
proof -
  have "length (instrs (emitMOVimm r v cb)) \<le> length (instrs cb) + 4"
    by (simp add: emitMOVimm_unfold movk_if_def emit_def)
  then show ?thesis using implD(1) [OF impl_emitMOVimm [OF assms(1,2)] assms(3-6)] by simp
qed

text \<open>An image with nothing but the given words.\<close>

definition bare_image :: "32 word list \<Rightarrow> image" where
  "bare_image ws = \<lparr>imSeg = \<lparr>txt_base = 0x400000, txt_words = ws, txt_svc = (\<lambda>_. None)\<rparr>, imPool = Map.empty, imAddr = (\<lambda>_. 0)\<rparr>"

definition start_state :: "64 word list \<Rightarrow> arm" where
  "start_state xs = \<lparr>aX = (\<lambda>n. if n < length xs then xs ! n else of_nat n), aSP = 0x10000, aD = (\<lambda>_. 0), aDH = (\<lambda>_. 0),
     fN = False, fZ = False, fC = False, fV = False, aM = (\<lambda>_. 0), aPC = 0x400000\<rparr>"

definition empty_builder :: codeBuilder where
  "empty_builder = newCodeBuilder [] [] [] []"

lemma empty_builder_eq: "empty_builder = \<lparr>instrs = [], labels = Map.empty, fixups = [], poolIdx = Map.empty, externBLs = [], peepholeBarrier = False\<rparr>"
  by (simp add: empty_builder_def newCodeBuilder_def)

lemma bare_image_ok:
  assumes "length (instrs (f empty_builder)) < 2 ^ 18"
  shows "poolIdx empty_builder = imPool (bare_image (instrs (f empty_builder)))" "linked (bare_image (instrs (f empty_builder)))"
    "code_at (imSeg (bare_image (instrs (f empty_builder)))) empty_builder (f empty_builder)"
  using assms by (simp_all add: empty_builder_eq bare_image_def linked_def code_at_def)

lemma last_ok_empty [simp]: "last_ok empty_builder s"
  by (simp add: empty_builder_eq last_ok_def)

theorem emitMOVimm_loads_witness:
  "runs (imSeg (bare_image (instrs (emitMOVimm 3 (- 65536) empty_builder)))) (start_state [])
     (pcs (imSeg (bare_image (instrs (emitMOVimm 3 (- 65536) empty_builder)))) 4 (wX 3 (- 65536) (start_state [])))"
proof -
  have l: "length (instrs (emitMOVimm 3 (- 65536) empty_builder)) = 4" by code_simp
  have p: "pcs (imSeg (bare_image ws)) 0 (start_state []) = start_state []" for ws by (simp add: pcs_def pcAt_def bare_image_def start_state_def)
  show ?thesis using emitMOVimm_loads [where r = 3 and v = "- 65536" and cb = empty_builder and s = "start_state []" and M = "bare_image (instrs (emitMOVimm 3 (- 65536) empty_builder))"]
    bare_image_ok [of "emitMOVimm 3 (- 65536)"] l p by (simp add: empty_builder_eq [THEN arg_cong, of instrs])
qed

text \<open>C15: the peephole is sound: after any code whose last word it may look at, the load of a stack slot
  that \<open>emitLDRsp\<close> emits or drops leaves the register with the contents of the slot and changes
  nothing else; it drops the load exactly when the word before is the store of the same register to
  the same slot and no label stands between them.\<close>
theorem peephole_sound:
  assumes "reg r" "r \<noteq> 31" "off_ok 8 i" "poolIdx cb = imPool M" "linked M" "code_at (imSeg M) cb (emitLDRsp r i cb)" "last_ok cb s"
  shows "runs (imSeg M) (pcs (imSeg M) (length (instrs cb)) s)
      (pcs (imSeg M) (length (instrs (emitLDRsp r i cb))) (wX (nat r) (ld64 (aM s) (aSP s + word_of_int i)) s))
    \<and> last_ok (emitLDRsp r i cb) (wX (nat r) (ld64 (aM s) (aSP s + word_of_int i)) s)
    \<and> (emitLDRsp r i cb = cb \<longleftrightarrow> instrs cb \<noteq> [] \<and> \<not> peepholeBarrier cb \<and> last (instrs cb) = encSTRuoff r 31 i)"
proof -
  have "emit w cb \<noteq> cb" for w
  proof
    assume "emit w cb = cb"
    then have "length (instrs (emit w cb)) = length (instrs cb)" by simp
    then show False by (simp add: emit_def)
  qed
  then have "emitLDRsp r i cb = cb \<longleftrightarrow> peepholeElim (encLDRuoff r 31 i) cb" by (auto simp: emitLDRsp_def Let_def)
  also have "\<dots> \<longleftrightarrow> instrs cb \<noteq> [] \<and> \<not> peepholeBarrier cb \<and> last (instrs cb) = encSTRuoff r 31 i"
    unfolding peepholeElim_def str_of_ldr [OF assms(1,3)] by auto
  finally show ?thesis using implD [OF impl_emitLDRsp [OF assms(1-3)] assms(4-7)] by simp
qed

definition stored_builder :: codeBuilder where
  "stored_builder = emit (encSTRuoff 2 31 24) empty_builder"

theorem peephole_sound_witness:
  "emitLDRsp 2 24 stored_builder = stored_builder \<and> length (instrs (emitLDRsp 2 24 (defineLabel ''L'' stored_builder))) = 2"
proof -
  let ?M = "bare_image [encSTRuoff 2 31 24]" and ?s = "(start_state [])\<lparr>aM := st64 (\<lambda>_. 0) (0x10000 + 24) 2\<rparr>"
  have d: "decode (encSTRuoff 2 31 24) = Some (LS STR_X 2 31 24)" by (simp add: dec_STRuoff off_ok_def)
  have x: "encLDRuoff 2 31 24 XOR push_bit 22 1 = encSTRuoff 2 31 24" by (rule str_of_ldr) (simp_all add: off_ok_def)
  have l: "emitLDRsp 2 24 stored_builder = stored_builder"
    by (simp only: emitLDRsp_def stored_builder_def emit_def empty_builder_eq peepholeElim_def Let_def x) simp
  have k: "linked ?M" "last_ok stored_builder ?s" "code_at (imSeg ?M) stored_builder stored_builder" "poolIdx stored_builder = imPool ?M"
    using d by (auto simp: linked_def bare_image_def last_ok_def stored_builder_def emit_def empty_builder_eq start_state_def rX_def code_at_def)
  moreover have "length (instrs (emitLDRsp 2 24 (defineLabel ''L'' stored_builder))) = 2" by code_simp
  ultimately show ?thesis using peephole_sound [of 2 24 stored_builder ?M ?s] l by (simp add: off_ok_def)
qed

subsection \<open>Quads\<close>


definition mk_addr :: "AddrKind \<Rightarrow> int \<Rightarrow> string \<Rightarrow> IRAddr" where
  "mk_addr k i n = \<lparr>aKind = k, aIVal = i, aFVal = 0, aName = n\<rparr>"

definition mk_quad :: "IROpCode \<Rightarrow> IRAddr \<Rightarrow> IRAddr \<Rightarrow> IRAddr \<Rightarrow> string \<Rightarrow> Quad" where
  "mk_quad op d a b x = \<lparr>qOp = op, qDst = d, qSrc1 = a, qSrc2 = b, qExtra = x, qTypeHint = TypeLong, qStructTag = []\<rparr>"

definition mk_fn :: "string \<Rightarrow> string list \<Rightarrow> Quad list \<Rightarrow> IRFunc" where
  "mk_fn name ps qs = \<lparr>fnName = name, fnReturnType = TypeLong, fnReturnStructTag = [], fnParams = ps, fnParamType = map (\<lambda>_. TypeLong) ps,
     fnParamStructTag = map (\<lambda>_. []) ps, fnIsVariadic = False, fnHasVLA = False, fnLocals = [], fnQuads = qs\<rparr>"

definition mk_gen :: "IRFunc \<Rightarrow> elfGen" where
  "mk_gen fn = \<lparr>gCb = empty_builder, gPending = [], gFn = fn, gFr = buildFrame (\<lambda>_. None) fn, gIsGlobalPtr = (\<lambda>_. False),
     gFuncRetType = (\<lambda>_. TypeLong), gStructSize = (\<lambda>_. None), gIsObjMode = True, gLocalFuncs = (\<lambda>_. True)\<rparr>"

abbreviation t_none :: IRAddr where "t_none \<equiv> mk_addr AddrNone 0 []"
abbreviation t_const :: "int \<Rightarrow> IRAddr" where "t_const i \<equiv> mk_addr AddrConst i []"
abbreviation t_temp :: "string \<Rightarrow> IRAddr" where "t_temp n \<equiv> mk_addr AddrTemp 0 n"
abbreviation t_local :: "string \<Rightarrow> IRAddr" where "t_local n \<equiv> mk_addr AddrLocal 0 n"




text \<open>C38: the floating-point \<open><\<close> and \<open>\<le>\<close> of the code generator are wrong on NaN: with a NaN operand the code
  stores 1, where the comparison of the IR, like that of C, is false.\<close>
theorem float_less_nan:
  assumes "fp_ok M fr q f" "f = IRFLt \<or> f = IRFLe"
  shows "\<exists>F. impl M (gen_fp fr q f) F \<and> (\<forall>s. rX s 29 = fbase fr s \<longrightarrow>
    (let e = env_at M fr gp (fbase fr s) in d_isnan (fval e (aM s) (qSrc1 q)) \<or> d_isnan (fval e (aM s) (qSrc2 q)) \<longrightarrow>
       aM (F s) = put e (qDst q) 1 (aM s) \<and> fp_sem e q f (aM s) = put e (qDst q) 0 (aM s)))"
proof -
  have f: "f \<in> {IRFLt, IRFLe, IRFGt, IRFGe, IRFEq, IRFNe}" using assms(2) by auto
  have n: "fp_bin f x y = 0" "fcmp_val f x y = 1" if "d_isnan x \<or> d_isnan y" for x y
    using assms(2) that by (auto simp: d_less_def d_equal_def fcmp_val_def)
  have e: "fp_sem e q f m = put e (qDst q) (fp_bin f (fval e m (qSrc1 q)) (fval e m (qSrc2 q))) m" for e m using assms(2) by auto
  obtain F where "impl M (gen_fp fr q f) F" "\<And>s. rX s 29 = fbase fr s \<Longrightarrow> aM (F s) = put (env_at M fr gp (fbase fr s)) (qDst q)
      (fcmp_val f (fval (env_at M fr gp (fbase fr s)) (aM s) (qSrc1 q)) (fval (env_at M fr gp (fbase fr s)) (aM s) (qSrc2 q))) (aM s)"
    using refines_fcompare [OF assms(1) f, where gp = gp] unfolding refines_def by blast
  then show ?thesis using n unfolding e Let_def by (intro exI [of _ F]) simp
qed

definition less_quad :: Quad where
  "less_quad = mk_quad (OpFp IRFLt) (t_temp ''#t0'') (t_temp ''#t1'') (t_temp ''#t2'') []"

definition less_frame :: frame where
  "less_frame = buildFrame (\<lambda>_. None) (mk_fn ''f'' [] [less_quad])"

definition nan_state :: arm where
  "nan_state = (start_state [])\<lparr>aX := (\<lambda>_. 0x10000), aM := st64 (\<lambda>_. 0) 0x10018 0x7FF8000000000000\<rparr>"

theorem float_less_nan_witness:
  "\<exists>F. impl (bare_image []) (gen_fp less_frame less_quad IRFLt) F \<and> ld64 (aM (F nan_state)) 0x10010 = 1"
proof -
  let ?fr = less_frame
  have o: "fr_off ?fr ''#t0'' = 16" "fr_off ?fr ''#t1'' = 24" "fr_off ?fr ''#t2'' = 32" "\<not> frHasVLA ?fr" by code_simp+
  have ok: "fp_ok (bare_image []) ?fr less_quad IRFLt"
    by (simp add: fp_ok_def f_opd_def less_quad_def mk_quad_def opd_def dst_ok_def mk_addr_def o off_ok_def)
  have b: "fbase ?fr nan_state = 0x10000" "rX nan_state 29 = 0x10000" using o(4) by (simp_all add: fbase_def nan_state_def start_state_def rX_def)
  have n: "d_isnan (fval (env_at (bare_image []) ?fr (\<lambda>_. False) 0x10000) (aM nan_state) (qSrc1 less_quad))"
    by (simp add: fval_def less_quad_def mk_quad_def mk_addr_def cell_def env_at_def o nan_state_def d_isnan_def d_exp_def d_man_def)
  have c: "put (env_at (bare_image []) ?fr (\<lambda>_. False) 0x10000) (qDst less_quad) 1 m = st64 m 0x10010 1" for m
    by (simp add: put_def less_quad_def mk_quad_def mk_addr_def cell_def env_at_def o)
  obtain F where "impl (bare_image []) (gen_fp ?fr less_quad IRFLt) F" "aM (F nan_state) = st64 (aM nan_state) 0x10010 1"
    using float_less_nan [OF ok, where gp = "\<lambda>_. False"] b n c by (auto simp: Let_def)
  then show ?thesis by auto
qed

text \<open>C39: the 128-bit arithmetic right shift is right for shifts by at most 64 and by 128 or more; for
  shifts by 65 to 127 its code stores only copies of the sign bit, so that \<open>2 ^ 100\<close> shifted by 65 is 0
  instead of \<open>2 ^ 35\<close>.\<close>
theorem ashr128_result:
  assumes "opd128 M fr (qSrc1 q)" "opd128 M fr (qDst q)" "0 \<le> aIVal (qSrc2 q)"
  shows "refines M fr (gen_128 fr q IR128AShr) (\<lambda>b m. let e = env_at M fr gp b; n = aIVal (qSrc2 q); v = val128 e m (qSrc1 q)
      in put128 e (qDst q) (if 64 < n \<and> n < 128 then signed_drop_bit 128 v else signed_drop_bit (nat n) v) m)
    \<and> signed_drop_bit 128 (2 ^ 100 :: 128 word) = 0 \<and> signed_drop_bit 65 (2 ^ 100 :: 128 word) = 2 ^ 35"
proof -
  have e: "signed_drop_bit 128 (2 ^ 100 :: 128 word) = 0" "signed_drop_bit 65 (2 ^ 100 :: 128 word) = 2 ^ 35" by code_simp+
  let ?n = "aIVal (qSrc2 q)"
  have "on_pair M (ashr128_body ?n) (if 64 < ?n \<and> ?n < 128 then signed_drop_bit 128 else signed_drop_bit (nat ?n))"
  proof (cases "64 < ?n \<and> ?n < 128")
    case True
    have "on_pair M (fcomp (emit (encASR 0 1 63)) (emit (encASR 1 1 63))) (signed_drop_bit 128)"
      by (rule on_pairI [OF impl_comp [OF impl_asr impl_asr]]) (use pair_sign(2) [of 128] in \<open>simp_all add: shift_fits\<close>)
    with True show ?thesis by (simp add: ashr128_body_def)
  next
    case False
    then show ?thesis using on_pair_ashr [of ?n M] assms(3) by auto
  qed
  note r = refines_on_pair [OF this assms(1,2), where gp = gp]
  have "(\<lambda>b m. let e = env_at M fr gp b; n = ?n; v = val128 e m (qSrc1 q)
      in put128 e (qDst q) (if 64 < n \<and> n < 128 then signed_drop_bit 128 v else signed_drop_bit (nat n) v) m)
    = (\<lambda>b m. put128 (env_at M fr gp b) (qDst q) ((if 64 < ?n \<and> ?n < 128 then signed_drop_bit 128 else signed_drop_bit (nat ?n))
        (val128 (env_at M fr gp b) m (qSrc1 q))) m)" by (auto simp: fun_eq_iff Let_def)
  then show ?thesis using r e by (simp add: shift128_def)
qed

definition shift_quad :: Quad where
  "shift_quad = mk_quad (Op128 IR128AShr) (t_local ''x'') (t_local ''y'') (t_const 65) []"

definition shift_frame :: frame where
  "shift_frame = \<lparr>frOffsets = [''x'' \<mapsto> 16, ''y'' \<mapsto> 32], frIsArrPtr = (\<lambda>_. False), frIsArrBase = (\<lambda>_. False), frIsPtrVar = (\<lambda>_. False),
     frHasVLA = False, frFrameSize = 48\<rparr>"

theorem ashr128_result_witness:
  "refines (bare_image []) shift_frame (gen_128 shift_frame shift_quad IR128AShr)
     (\<lambda>b m. let e = env_at (bare_image []) shift_frame (\<lambda>_. False) b
      in put128 e (t_local ''x'') (signed_drop_bit 128 (val128 e m (t_local ''y''))) m)"
  using ashr128_result [of "bare_image []" shift_frame shift_quad "\<lambda>_. False"]
  by (simp add: shift_quad_def mk_quad_def mk_addr_def opd128_def dst_ok_def opd_def shift_frame_def fr_off_def off_ok_def Let_def)


subsection \<open>Labels and branches\<close>

text \<open>C19: the builder of an object's text and that of the runtime code are well formed, whatever the IR: the
  fixups stand in increasing order, each at a word of the text that is the placeholder of its kind.
  So \<open>applyFixups\<close> never indexes out of range and never patches a word twice.\<close>
theorem builders_well_formed:
  "wf_cb (gen_code gen globals strLits fconsts funcRefs fns) \<and> wf_cb runtime_code"
  by (simp add: wf_gen_code wf_runtime)

text \<open>C3: generating the text of an object succeeds exactly when every label that a branch names is defined
  and near enough. Then every placeholder has become the branch to its label, and every other word is as
  it was emitted; otherwise the error names the label of a branch that cannot be resolved.\<close>
theorem gen_text_links:
  assumes "X = gen_code gen globals strLits fconsts funcRefs fns"
  shows "((\<exists>Y. gen_text gen globals strLits fconsts funcRefs fns = Inr Y) \<longleftrightarrow> (\<forall>f \<in> set (fixups X). linkable (labels X) f))
    \<and> (\<forall>Y. gen_text gen globals strLits fconsts funcRefs fns = Inr Y \<longrightarrow> length (instrs Y) = length (instrs X)
        \<and> (\<forall>i. i \<notin> fxAt ` set (fixups X) \<longrightarrow> instrs Y ! i = instrs X ! i)
        \<and> (\<forall>f \<in> set (fixups X). \<exists>t. labels X (fxLabel f) = Some t \<and>
             decode (instrs Y ! fxAt f) = Some (branch_to (fxKind f) (instrs X ! fxAt f) (int t - int (fxAt f)))))
    \<and> (\<forall>e. gen_text gen globals strLits fconsts funcRefs fns = Inl e \<longrightarrow>
        (\<exists>f \<in> set (fixups X). \<not> linkable (labels X) f \<and> reports (labels X) f e))"
proof -
  have w: "wf_cb X" unfolding assms by (rule wf_gen_code)
  have t: "gen_text gen globals strLits fconsts funcRefs fns = applyFixups X" by (simp add: gen_text_def assms)
  note S = applyFixups_spec [OF w]
  show ?thesis
  proof (cases "\<forall>f \<in> set (fixups X). linkable (labels X) f")
    case True
    from S(1) [OF this] obtain ws where ws: "applyFixups X = Inr (X\<lparr>instrs := ws\<rparr>)" "length ws = length (instrs X)"
      "\<forall>i. i \<notin> fxAt ` set (fixups X) \<longrightarrow> ws ! i = instrs X ! i"
      "\<forall>f \<in> set (fixups X). \<exists>t. labels X (fxLabel f) = Some t \<and>
         decode (ws ! fxAt f) = Some (branch_to (fxKind f) (instrs X ! fxAt f) (int t - int (fxAt f)))" by blast
    then show ?thesis using True unfolding t by auto
  next
    case False
    from S(2) [OF this] obtain e where "applyFixups X = Inl e" "\<exists>f \<in> set (fixups X). \<not> linkable (labels X) f \<and> reports (labels X) f e" by blast
    then show ?thesis using False unfolding t by auto
  qed
qed

definition jump_fn :: "string \<Rightarrow> string \<Rightarrow> string \<Rightarrow> IRFunc" where
  "jump_fn name l l' = mk_fn name [] [mk_quad (OpCtl IREnter) t_none t_none t_none [], mk_quad (OpCtl IRLabel) t_none t_none t_none l,
     mk_quad (OpCtl IRJump) t_none t_none t_none l']"

theorem gen_text_links_witness:
  "\<exists>e. gen_text (mk_gen (jump_fn ''f'' ''L0'' ''L1'')) [] [] [] [] [jump_fn ''f'' ''L0'' ''L1''] = Inl e
    \<and> e = UndefinedLabel ''gaston_f_L1''"
proof -
  have "gen_text (mk_gen (jump_fn ''f'' ''L0'' ''L1'')) [] [] [] [] [jump_fn ''f'' ''L0'' ''L1''] = Inl (UndefinedLabel ''gaston_f_L1'')" (is "?t = _")
  proof -
    have "(case ?t of Inl e \<Rightarrow> e = UndefinedLabel ''gaston_f_L1'' | Inr _ \<Rightarrow> False)" by code_simp
    then show ?thesis by (cases ?t) simp_all
  qed
  then show ?thesis using gen_text_links [OF refl, of "mk_gen (jump_fn ''f'' ''L0'' ''L1'')" "[]" "[]" "[]" "[]" "[jump_fn ''f'' ''L0'' ''L1'']"] by blast
qed


subsection \<open>Functions\<close>

text \<open>C1: compiled functions refine their IR. Let the text of an object be generated without error and
  loaded, with the addresses of the globals in its pool, and let no later function define one of the
  labels of \<open>fn\<close>. If the quads of \<open>fn\<close>, started on the memory with the frame, the saved registers and the
  parameters in place, run to a return with result \<open>v\<close> and memory \<open>m\<close> and have not overwritten the saved
  frame pointer and link register, then the machine, started at the entry of \<open>fn\<close>, comes back to the
  caller: with memory \<open>m\<close>, the result in X0, and the stack pointer, the frame pointer and the
  callee-saved registers as they were.\<close>
theorem compiled_function_refines:
  assumes txt_ok: "gen_text gen globals strLits fconsts funcRefs (pre @ fn # post) = Inr Y"
    and img: "loads M (length (instrs (newCodeBuilder globals strLits fconsts funcRefs))) Y" and ok: "fn_ok M gen fn"
    and lab: "\<forall>l \<in> set (fn_labels fn). labels Y l = labels (gen_code gen globals strLits fconsts funcRefs (pre @ [fn])) l"
    and start: "labels Y (funcLabel (fnName fn)) = Some n" "aPC s = pcAt (imSeg M) n"
    and fm: "fm = buildFrame (gStructSize gen) fn" and b: "b = aSP s - word_of_int (frFrameSize fm)"
    and run: "ir_returns (env_at M fm (gIsGlobalPtr gen) b) (fnQuads fn) (enter_mem fm fn s) v m"
    and kept: "ld64 m b = rX s 29" "ld64 m (b + 8) = rX s 30"
  shows "\<exists>s'. runs (imSeg M) s s' \<and> aPC s' = rX s 30 \<and> aM s' = m \<and> aSP s' = aSP s \<and> (\<forall>x. v = Some x \<longrightarrow> rX s' 0 = x)
    \<and> (\<forall>n. 19 \<le> n \<and> n \<le> 29 \<longrightarrow> rX s' n = rX s n)"
proof -
  let ?X = "gen_code gen globals strLits fconsts funcRefs (pre @ fn # post)"
  have a: "applyFixups ?X = Inr Y" using txt_ok by (simp add: gen_text_def)
  have l: "labels Y = labels ?X" using applyFixups_keeps(2) [OF wf_gen_code a] .
  from run_function [OF refl a img ok lab [unfolded l] start [unfolded l] fm b run]
  obtain s' where s': "runs (imSeg M) s s'" "aM s' = m" "aPC s' = rX s 30" "aSP s' = aSP s" "rX s' 29 = rX s 29"
    "\<forall>n. 19 \<le> n \<and> n < 29 \<longrightarrow> rX s' n = rX s n" "\<forall>x. v = Some x \<longrightarrow> rX s' 0 = x" using kept by auto
  have "rX s' n = rX s n" if "19 \<le> n \<and> n \<le> 29" for n using s'(5,6) that by (cases "n = 29") auto
  then show ?thesis using s' by blast
qed

text \<open>A loop that adds up the numbers from its argument down to 1.\<close>

definition sum_fn :: IRFunc where
  "sum_fn = mk_fn ''sum'' [''n'']
     [mk_quad (OpCtl IREnter) t_none t_none t_none [],
      mk_quad (OpInt IRCopy) (t_temp ''#t0'') (t_const 0) t_none [],
      mk_quad (OpCtl IRLabel) t_none t_none t_none ''L0'',
      mk_quad (OpCtl IRJumpF) t_none (t_local ''n'') t_none ''L1'',
      mk_quad (OpArith IRAdd) (t_temp ''#t0'') (t_temp ''#t0'') (t_local ''n'') [],
      mk_quad (OpArith IRSub) (t_local ''n'') (t_local ''n'') (t_const 1) [],
      mk_quad (OpCtl IRJump) t_none t_none t_none ''L0'',
      mk_quad (OpCtl IRLabel) t_none t_none t_none ''L1'',
      mk_quad (OpCtl IRReturn) t_none (t_temp ''#t0'') t_none []]"

definition sum_text :: codeBuilder where
  "sum_text = projr (gen_text (mk_gen sum_fn) [] [] [] [] [sum_fn])"

definition sum_image :: image where
  "sum_image = bare_image (instrs sum_text)"

definition sum_frame :: frame where
  "sum_frame = buildFrame (\<lambda>_. None) sum_fn"

definition sum_start :: arm where
  "sum_start = start_state [2]"

fun ir_eval :: "nat \<Rightarrow> irenv \<Rightarrow> Quad list \<Rightarrow> nat \<Rightarrow> mem \<Rightarrow> (nat \<times> mem) option" where
  "ir_eval 0 e qs k m = None"
| "ir_eval (Suc j) e qs k m =
     (if k < length qs \<and> qOp (qs ! k) = OpCtl IRReturn then Some (k, m)
      else (case ir_step e qs k m of Some (k', m') \<Rightarrow> ir_eval j e qs k' m' | None \<Rightarrow> None))"

lemma ir_eval_runs: "ir_eval j e qs k m = Some (k', m') \<Longrightarrow> ir_runs e qs k m k' m' \<and> k' < length qs \<and> qOp (qs ! k') = OpCtl IRReturn"
proof (induction j e qs k m rule: ir_eval.induct)
  case (2 j e qs k m)
  then show ?case by (auto split: if_splits option.splits prod.splits intro: ir_refl ir_next)
qed simp

lemma gen_code_pool: "poolIdx (gen_code gen gl sl fc fr fns) = poolIdx (newCodeBuilder gl sl fc fr)"
  using ext_genFuncs [of "gen_start gen gl sl fc fr" fns] by (auto simp: gen_code_start ext_def gen_start_def)

lemma sum_text_eq: "gen_text (mk_gen sum_fn) [] [] [] [] ([] @ sum_fn # []) = Inr sum_text"
proof -
  have "\<not> isl (gen_text (mk_gen sum_fn) [] [] [] [] [sum_fn])" by code_simp
  then show ?thesis by (simp add: sum_text_def)
qed

lemma sum_facts:
  "length (instrs sum_text) < 100" "labels sum_text ''sum'' = Some 0" "frFrameSize sum_frame = 32" "fr_off sum_frame ''n'' = 16" "fr_off sum_frame ''#t0'' = 24"
  by code_simp+

lemma sum_loads: "loads sum_image 0 sum_text"
proof -
  have "poolIdx sum_text = Map.empty"
    using applyFixups_keeps(3) [OF wf_gen_code, of "mk_gen sum_fn" "[]" "[]" "[]" "[]" "[sum_fn]" sum_text] sum_text_eq
    by (simp add: gen_text_def gen_code_pool) (simp add: newCodeBuilder_def)
  then show ?thesis using sum_facts(1) by (simp add: loads_def linked_def sum_image_def bare_image_def)
qed

lemma sum_ok: "fn_ok sum_image (mk_gen sum_fn) sum_fn"
proof -
  have f: "buildFrame (gStructSize (mk_gen sum_fn)) sum_fn = sum_frame" by (simp add: mk_gen_def sum_frame_def)
  have "gFr (fn_gen sum_fn (mk_gen sum_fn)) = sum_frame" "gFn (fn_gen sum_fn (mk_gen sum_fn)) = sum_fn" by (simp_all add: fn_gen_def f)
  then show ?thesis unfolding fn_ok_def f
    by (simp add: sum_fn_def mk_fn_def params_ok_def sum_facts off_ok_def quad_ok_def mk_quad_def opd_def dst_ok_def mk_addr_def int_ok_def isFPType_def)
qed

definition sum_env :: irenv where
  "sum_env = env_at sum_image sum_frame (\<lambda>_. False) (aSP sum_start - 32)"

lemma sum_run:
  "\<exists>m. ir_eval 40 sum_env (fnQuads sum_fn) 0 (enter_mem sum_frame sum_fn sum_start) = Some (8, m)
     \<and> ld64 m 0xFFE0 = 29 \<and> ld64 m 0xFFE8 = 30 \<and> ival sum_env m (t_temp ''#t0'') = 3"
proof -
  have "(case ir_eval 40 sum_env (fnQuads sum_fn) 0 (enter_mem sum_frame sum_fn sum_start) of None \<Rightarrow> False
     | Some (k, m) \<Rightarrow> k = 8 \<and> ld64 m 0xFFE0 = 29 \<and> ld64 m 0xFFE8 = 30 \<and> ival sum_env m (t_temp ''#t0'') = 3)" by code_simp
  then show ?thesis by (auto split: option.splits)
qed

theorem compiled_function_refines_witness:
  "\<exists>s'. runs (imSeg sum_image) sum_start s' \<and> aPC s' = 30 \<and> rX s' 0 = 3 \<and> aSP s' = 0x10000"
proof -
  obtain m where m: "ir_eval 40 sum_env (fnQuads sum_fn) 0 (enter_mem sum_frame sum_fn sum_start) = Some (8, m)"
    "ld64 m 0xFFE0 = 29" "ld64 m 0xFFE8 = 30" "ival sum_env m (t_temp ''#t0'') = 3" using sum_run by blast
  have s: "rX sum_start 29 = 29" "rX sum_start 30 = 30" "aSP sum_start = 0x10000" "aPC sum_start = pcAt (imSeg sum_image) 0"
    by (simp_all add: sum_start_def start_state_def rX_def sum_image_def bare_image_def pcAt_def)
  have q: "qSrc1 (fnQuads sum_fn ! 8) = t_temp ''#t0''" by (simp add: sum_fn_def mk_fn_def mk_quad_def)
  have r: "ir_returns sum_env (fnQuads sum_fn) (enter_mem sum_frame sum_fn sum_start) (Some 3) m"
    unfolding ir_returns_def using ir_eval_runs [OF m(1)] m(4) by (intro exI [of _ 8]) (simp add: q, simp add: mk_addr_def)
  have "\<exists>s'. runs (imSeg sum_image) sum_start s' \<and> aPC s' = rX sum_start 30 \<and> aM s' = m \<and> aSP s' = aSP sum_start
      \<and> (\<forall>x. Some 3 = Some x \<longrightarrow> rX s' 0 = x) \<and> (\<forall>n. 19 \<le> n \<and> n \<le> 29 \<longrightarrow> rX s' n = rX sum_start n)"
  proof (rule compiled_function_refines [OF sum_text_eq _ sum_ok _ _ s(4) refl refl])
    show "loads sum_image (length (instrs (newCodeBuilder [] [] [] []))) sum_text" using sum_loads by (simp add: newCodeBuilder_def)
    have "labels sum_text = labels (gen_code (mk_gen sum_fn) [] [] [] [] ([] @ [sum_fn]))"
      using applyFixups_keeps(2) [OF wf_gen_code] sum_text_eq by (simp add: gen_text_def)
    then show "\<forall>l \<in> set (fn_labels sum_fn). labels sum_text l = labels (gen_code (mk_gen sum_fn) [] [] [] [] ([] @ [sum_fn])) l" by simp
    show "labels sum_text (funcLabel (fnName sum_fn)) = Some 0" using sum_facts(2) by (simp add: funcLabel_def sum_fn_def mk_fn_def)
    have f: "buildFrame (gStructSize (mk_gen sum_fn)) sum_fn = sum_frame" "gIsGlobalPtr (mk_gen sum_fn) = (\<lambda>_. False)"
      by (simp_all add: mk_gen_def sum_frame_def)
    show "ir_returns (env_at sum_image (buildFrame (gStructSize (mk_gen sum_fn)) sum_fn) (gIsGlobalPtr (mk_gen sum_fn))
        (aSP sum_start - word_of_int (frFrameSize (buildFrame (gStructSize (mk_gen sum_fn)) sum_fn)))) (fnQuads sum_fn)
        (enter_mem (buildFrame (gStructSize (mk_gen sum_fn)) sum_fn) sum_fn sum_start) (Some 3) m"
      using r unfolding f sum_facts(3) sum_env_def by simp
    show "ld64 m (aSP sum_start - word_of_int (frFrameSize (buildFrame (gStructSize (mk_gen sum_fn)) sum_fn))) = rX sum_start 29"
      "ld64 m (aSP sum_start - word_of_int (frFrameSize (buildFrame (gStructSize (mk_gen sum_fn)) sum_fn)) + 8) = rX sum_start 30"
      using m(2,3) s unfolding f sum_facts(3) by simp_all
  qed
  then show ?thesis using s by auto
qed

end
