(* ===== verification/ObjFile.thy ===== *)
theory ObjFile
  imports CodeBuilder
begin

unbundle bit_operations_syntax

section \<open>\<open>linker.go\<close>: relocatable object files\<close>

text \<open>
  What the linker keeps of one relocatable object, and how \<open>parseObjELF\<close> extracts it from an ELF
  file. A Go string and a Go byte slice are both a list of bytes, a \<open>string\<close> here. The ELF
  container itself is read by the package \<open>debug/elf\<close>, whose sections are the records below: a section has a
  name, a type, flags, a size and the result of its method \<open>Data\<close>, which may fail. The function that turns the
  bytes of a file into these records is a parameter.
\<close>

type_synonym bytes = string

subsection \<open>Error results and little-endian numbers\<close>

datatype linkError =
    ReadFailed string
  | NotAnArchive string
  | TruncatedMember string nat
  | ElfError string
  | NotRelocatable string
  | SectionError string string
  | BadMember string linkError
  | DuplicateDef string string string
  | UndefinedMain
  | FixupFailed fixupError
  | IndexPanic nat

definition andThen :: "'e + 'a \<Rightarrow> ('a \<Rightarrow> 'e + 'b) \<Rightarrow> 'e + 'b" where
  "andThen r f = (case r of Inl e \<Rightarrow> Inl e | Inr x \<Rightarrow> f x)"

lemma andThen_simps [simp]: "andThen (Inl e) f = Inl e" "andThen (Inr x) f = f x"
  by (simp_all add: andThen_def)

lemma andThen_eq_Inr: "andThen r f = Inr y \<longleftrightarrow> (\<exists>x. r = Inr x \<and> f x = Inr y)"
  by (cases r) auto

fun foldE :: "('a \<Rightarrow> 's \<Rightarrow> 'e + 's) \<Rightarrow> 'a list \<Rightarrow> 's \<Rightarrow> 'e + 's" where
  "foldE f [] s = Inr s"
| "foldE f (x # xs) s = andThen (f x s) (foldE f xs)"

lemma foldE_append: "foldE f (xs @ ys) s = andThen (foldE f xs s) (foldE f ys)"
proof (induction xs arbitrary: s)
  case (Cons x xs)
  show ?case by (cases "f x s") (simp_all add: Cons)
qed simp

lemma foldE_inv:
  assumes "foldE f xs s = Inr t" "P s" "\<And>x s s'. x \<in> set xs \<Longrightarrow> P s \<Longrightarrow> f x s = Inr s' \<Longrightarrow> P s'"
  shows "P t"
  using assms
proof (induction xs arbitrary: s)
  case (Cons x xs)
  from Cons.prems(1) obtain s' where s': "f x s = Inr s'" "foldE f xs s' = Inr t" by (auto simp: andThen_eq_Inr)
  have "P s'" by (rule Cons.prems(3) [OF _ Cons.prems(2) s'(1)]) simp
  then show ?case using Cons.IH [OF s'(2)] Cons.prems(3) by (meson list.set_intros(2))
qed simp

fun leval :: "bytes \<Rightarrow> nat" where
  "leval [] = 0"
| "leval (b # bs) = of_char b + 256 * leval bs"

fun lebytes :: "nat \<Rightarrow> nat \<Rightarrow> bytes" where
  "lebytes 0 v = []"
| "lebytes (Suc n) v = char_of v # lebytes n (v div 256)"

lemma length_lebytes [simp]: "length (lebytes n v) = n"
  by (induction n arbitrary: v) auto

lemma leval_lebytes [simp]: "leval (lebytes n v) = v mod 256 ^ n"
proof (induction n arbitrary: v)
  case (Suc n)
  have "v mod (256 * 256 ^ n) = v mod 256 + 256 * (v div 256 mod 256 ^ n)"
    by (simp add: mod_mult2_eq)
  then show ?case by (simp add: Suc)
qed simp

lemma leval_zeros [simp]: "leval (replicate n (CHR 0x00)) = 0"
  by (induction n) auto

definition le16 :: "bytes \<Rightarrow> nat \<Rightarrow> nat" where
  "le16 b i = leval (take 2 (drop i b))"

definition le32 :: "bytes \<Rightarrow> nat \<Rightarrow> nat" where
  "le32 b i = leval (take 4 (drop i b))"

definition le64 :: "bytes \<Rightarrow> nat \<Rightarrow> 64 word" where
  "le64 b i = word_of_nat (leval (take 8 (drop i b)))"

subsection \<open>The records\<close>

record elfSection =
  seName :: string
  seType :: nat
  seFlags :: "32 word"
  seSize :: "64 word"
  seData :: "bytes option"

record elfFile =
  efType :: nat
  efSections :: "elfSection list"

record lnkSym =
  lsName :: string
  lsValue :: "64 word"
  lsSize :: "64 word"
  lsSec :: string
  lsBinding :: nat
  lsType :: nat

record lnkRela =
  lrOffset :: "64 word"
  lrSymIdx :: nat
  lrType :: nat
  lrAddend :: "64 word"

record objFile =
  obPath :: string
  obText :: bytes
  obRodata :: bytes
  obData :: bytes
  obBssSize :: "64 word"
  obSyms :: "lnkSym list"
  obRelas :: "lnkRela list"
  obDataRelas :: "lnkRela list"
  obTextBase :: nat
  obRodataOff :: "64 word"
  obDataOff :: "64 word"
  obBssOff :: "64 word"
  obFromArchive :: bool

definition ET_REL :: nat where "ET_REL = 1"
definition SHT_PROGBITS :: nat where "SHT_PROGBITS = 1"
definition SHT_NOBITS :: nat where "SHT_NOBITS = 8"
definition SHN_COMMON :: nat where "SHN_COMMON = 0xFFF2"
definition STB_GLOBAL :: nat where "STB_GLOBAL = 1"
definition STB_WEAK :: nat where "STB_WEAK = 2"

lemmas elf_consts = ET_REL_def SHT_PROGBITS_def SHT_NOBITS_def SHN_COMMON_def STB_GLOBAL_def STB_WEAK_def

definition isLinkableDef :: "lnkSym \<Rightarrow> bool" where
  "isLinkableDef s \<longleftrightarrow> (lsBinding s = STB_GLOBAL \<or> lsBinding s = STB_WEAK) \<and> lsSec s \<noteq> '''' \<and> lsName s \<noteq> ''''"

subsection \<open>Parsing\<close>

text \<open>\<open>f.Section(name)\<close>: the first section of that name.\<close>

definition section_of :: "elfFile \<Rightarrow> string \<Rightarrow> elfSection option" where
  "section_of f name = find (\<lambda>s. seName s = name) (efSections f)"

definition readSec :: "string \<Rightarrow> elfFile \<Rightarrow> string \<Rightarrow> linkError + bytes" where
  "readSec path f name =
     (case section_of f name of
        None \<Rightarrow> Inr []
      | Some s \<Rightarrow> if seType s = SHT_NOBITS then Inr []
                  else (case seData s of None \<Rightarrow> Inl (SectionError path name) | Some d \<Rightarrow> Inr d))"

text \<open>Appending zeros until the length is a multiple of \<open>k\<close>.\<close>

definition pad_to :: "nat \<Rightarrow> bytes \<Rightarrow> bytes" where
  "pad_to k b = b @ replicate ((k - length b mod k) mod k) (CHR 0x00)"

text \<open>
  Custom allocatable sections are folded into the four standard ones; the map from the section index
  (a 16-bit number) says where.
\<close>

type_synonym folds = "nat \<Rightarrow> (string \<times> 64 word) option"

definition fold_section :: "string \<Rightarrow> nat \<times> elfSection \<Rightarrow> objFile \<times> folds \<Rightarrow> linkError + objFile \<times> folds" where
  "fold_section path = (\<lambda>(i, sec) (obj, folds).
     if seName sec \<in> {'''', ''.text'', ''.rodata'', ''.data'', ''.bss''} then Inr (obj, folds)
     else if seType sec \<noteq> SHT_PROGBITS \<and> seType sec \<noteq> SHT_NOBITS then Inr (obj, folds)
     else if seFlags sec AND 2 = 0 then Inr (obj, folds)
     else if seFlags sec AND 4 \<noteq> 0 then
       (let text = pad_to 4 (obText obj); off = word_of_nat (length text)
        in andThen (if seType sec = SHT_PROGBITS
                    then (case seData sec of None \<Rightarrow> Inl (SectionError path (seName sec)) | Some d \<Rightarrow> Inr (text @ d))
                    else Inr text)
             (\<lambda>t. Inr (obj\<lparr>obText := t\<rparr>, folds(i mod 2 ^ 16 \<mapsto> (''.text'', off)))))
     else if seType sec = SHT_NOBITS then
       (let off = (obBssSize obj + 15) AND NOT 15
        in Inr (obj\<lparr>obBssSize := off + seSize sec\<rparr>, folds(i mod 2 ^ 16 \<mapsto> (''.bss'', off))))
     else
       (let data = pad_to 16 (obData obj); off = word_of_nat (length data)
        in case seData sec of
             None \<Rightarrow> Inl (SectionError path (seName sec))
           | Some d \<Rightarrow> Inr (obj\<lparr>obData := data @ d\<rparr>, folds(i mod 2 ^ 16 \<mapsto> (''.data'', off)))))"

definition sym_name :: "bytes \<Rightarrow> nat \<Rightarrow> string" where
  "sym_name strData nameOff =
     (if nameOff < length strData then takeWhile (\<lambda>c. c \<noteq> CHR 0x00) (drop nameOff strData) else '''')"

definition parse_sym :: "folds \<Rightarrow> string list \<Rightarrow> bytes \<Rightarrow> bytes \<Rightarrow> lnkSym" where
  "parse_sym folds secNames strData raw =
     (let info = of_char (raw ! 4); shndx = le16 raw 6; value = le64 raw 8;
          (sec, value) =
            (if shndx = 0 then ('''', value)
             else if shndx = SHN_COMMON then (''COMMON'', value)
             else case folds shndx of
                    Some (t, off) \<Rightarrow> (t, value + off)
                  | None \<Rightarrow> (if shndx < length secNames then secNames ! shndx else '''', value))
      in \<lparr>lsName = sym_name strData (le32 raw 0), lsValue = value, lsSize = le64 raw 16, lsSec = sec,
          lsBinding = info div 16, lsType = info mod 16\<rparr>)"

definition chunks :: "nat \<Rightarrow> bytes \<Rightarrow> bytes list" where
  "chunks k b = map (\<lambda>i. take k (drop (i * k) b)) [0..<length b div k]"

definition sec_data :: "string \<Rightarrow> elfSection \<Rightarrow> linkError + bytes" where
  "sec_data path s = (case seData s of None \<Rightarrow> Inl (SectionError path (seName s)) | Some d \<Rightarrow> Inr d)"

definition parse_symtab :: "string \<Rightarrow> elfFile \<Rightarrow> folds \<Rightarrow> linkError + lnkSym list" where
  "parse_symtab path f folds =
     (case (section_of f ''.symtab'', section_of f ''.strtab'') of
        (Some st, Some str) \<Rightarrow>
          andThen (sec_data path st) (\<lambda>symData. andThen (sec_data path str) (\<lambda>strData.
            Inr (map (parse_sym folds (map seName (efSections f)) strData) (chunks 24 symData))))
      | _ \<Rightarrow> Inr [])"

definition parse_rela :: "64 word \<Rightarrow> bytes \<Rightarrow> lnkRela" where
  "parse_rela base raw =
     (let info = le64 raw 8
      in \<lparr>lrOffset = base + le64 raw 0, lrSymIdx = unat (drop_bit 32 info), lrType = unat (take_bit 32 info),
          lrAddend = le64 raw 16\<rparr>)"

definition parseRelas :: "string \<Rightarrow> elfFile \<Rightarrow> string \<Rightarrow> 64 word \<Rightarrow> linkError + lnkRela list" where
  "parseRelas path f secName base =
     (case section_of f secName of
        None \<Rightarrow> Inr []
      | Some s \<Rightarrow> andThen (sec_data path s) (\<lambda>d. Inr (map (parse_rela base) (chunks 24 d))))"

definition fold_relas :: "string \<Rightarrow> elfFile \<Rightarrow> folds \<Rightarrow> nat \<times> elfSection \<Rightarrow> objFile \<Rightarrow> linkError + objFile" where
  "fold_relas path f folds = (\<lambda>(i, sec) obj.
     case folds (i mod 2 ^ 16) of
       None \<Rightarrow> Inr obj
     | Some (target, off) \<Rightarrow>
         andThen (parseRelas path f (''.rela'' @ seName sec) off) (\<lambda>rs.
           Inr (if target = ''.text'' then obj\<lparr>obRelas := obRelas obj @ rs\<rparr>
                else if target = ''.data'' then obj\<lparr>obDataRelas := obDataRelas obj @ rs\<rparr>
                else obj)))"

definition parseObjELF :: "string \<Rightarrow> elfFile \<Rightarrow> linkError + objFile" where
  "parseObjELF path f =
     (if efType f \<noteq> ET_REL then Inl (NotRelocatable path) else
      andThen (readSec path f ''.text'') (\<lambda>text.
      andThen (readSec path f ''.rodata'') (\<lambda>rodata.
      andThen (readSec path f ''.data'') (\<lambda>data.
      let bss = (case section_of f ''.bss'' of None \<Rightarrow> 0 | Some s \<Rightarrow> seSize s);
          obj = \<lparr>obPath = path, obText = text, obRodata = rodata, obData = data, obBssSize = bss, obSyms = [],
                 obRelas = [], obDataRelas = [], obTextBase = 0, obRodataOff = 0, obDataOff = 0, obBssOff = 0,
                 obFromArchive = False\<rparr>;
          secs = List.enumerate 0 (efSections f)
      in
      andThen (foldE (fold_section path) secs (obj, Map.empty)) (\<lambda>(obj, folds).
      andThen (parse_symtab path f folds) (\<lambda>syms.
      andThen (parseRelas path f ''.rela.text'' 0) (\<lambda>rt.
      andThen (parseRelas path f ''.rela.data'' 0) (\<lambda>rd.
      foldE (fold_relas path f folds) secs
        (obj\<lparr>obSyms := syms, obRelas := rt, obDataRelas := rd\<rparr>)))))))))"

definition loadObjFromBytes :: "(bytes \<Rightarrow> elfFile option) \<Rightarrow> string \<Rightarrow> bytes \<Rightarrow> linkError + objFile" where
  "loadObjFromBytes newFile name data =
     (case newFile data of None \<Rightarrow> Inl (ElfError name) | Some f \<Rightarrow> parseObjELF name f)"

text \<open>The symbols of an archive member; a member that is no object file has none.\<close>

definition member_syms :: "(bytes \<Rightarrow> elfFile option) \<Rightarrow> string \<Rightarrow> bytes \<Rightarrow> lnkSym list" where
  "member_syms newFile name data = (case loadObjFromBytes newFile name data of Inl _ \<Rightarrow> [] | Inr obj \<Rightarrow> obSyms obj)"

end
