(* ===== verification/ArFmt.thy ===== *)
theory ArFmt
  imports ObjFile
begin

section \<open>\<open>arfmt.go\<close>: archives\<close>

text \<open>
  The writer and the reader of archives in the format of \<open>ar\<close>. The file system is the parameter
  \<open>readFile\<close>; \<open>archiveCreate\<close> gives the bytes that it writes. \<open>strconv.Itoa\<close>, \<open>strconv.Atoi\<close> on the
  fields of a header (at most ten characters) and the string functions are written out.
\<close>

subsection \<open>Strings and decimal numbers\<close>

definition TrimRight :: "string \<Rightarrow> string" where
  "TrimRight s = rev (dropWhile (\<lambda>c. c = CHR '' '') (rev s))"

definition TrimSuffix :: "string \<Rightarrow> string" where
  "TrimSuffix s = (if s \<noteq> [] \<and> last s = CHR ''/'' then butlast s else s)"

definition filepath_Base :: "string \<Rightarrow> string" where
  "filepath_Base p =
     (if p = [] then ''.''
      else let b = rev (takeWhile (\<lambda>c. c \<noteq> CHR ''/'') (dropWhile (\<lambda>c. c = CHR ''/'') (rev p)))
           in if b = [] then ''/'' else b)"

fun Itoa :: "nat \<Rightarrow> string" where
  "Itoa n = (if n < 10 then [char_of (48 + n)] else Itoa (n div 10) @ [char_of (48 + n mod 10)])"

declare Itoa.simps [simp del]

definition is_digit :: "char \<Rightarrow> bool" where
  "is_digit c \<longleftrightarrow> (48 :: nat) \<le> of_char c \<and> of_char c \<le> (57 :: nat)"

definition dec_val :: "string \<Rightarrow> nat" where
  "dec_val s = foldl (\<lambda>n c. n * 10 + (of_char c - 48)) 0 s"

text \<open>The result of \<open>Atoi\<close> when the error is ignored: 0 for anything but a number.\<close>

definition Atoi :: "string \<Rightarrow> int" where
  "Atoi s =
     (let body = (if s \<noteq> [] \<and> (hd s = CHR ''-'' \<or> hd s = CHR ''+'') then tl s else s)
      in if body = [] \<or> \<not> list_all is_digit body then 0
         else if hd s = CHR ''-'' then - int (dec_val body) else int (dec_val body))"

subsection \<open>Writing\<close>

record arMember =
  amName :: string
  amData :: bytes

definition arFileMagic :: bytes where
  "arFileMagic = ''!<arch>'' @ [CHR 0x0A]"

definition arHdrLen :: nat where
  "arHdrLen = 60"

definition arPadRight :: "string \<Rightarrow> nat \<Rightarrow> bytes" where
  "arPadRight s n = take n (s @ replicate n (CHR '' ''))"

definition writeHdr :: "string \<Rightarrow> nat \<Rightarrow> bytes" where
  "writeHdr name n =
     arPadRight name 16 @ arPadRight ''0'' 12 @ arPadRight ''0'' 6 @ arPadRight ''0'' 6 @ arPadRight ''644'' 8
     @ arPadRight (Itoa n) 10 @ [CHR 0x60, CHR 0x0A]"

definition pad_byte :: "nat \<Rightarrow> bytes" where
  "pad_byte n = (if n mod 2 \<noteq> 0 then [CHR 0x00] else [])"

definition write_member :: "arMember \<Rightarrow> bytes" where
  "write_member m = writeHdr (amName m @ ''/'') (length (amData m)) @ amData m @ pad_byte (length (amData m))"

definition allSyms :: "(bytes \<Rightarrow> elfFile option) \<Rightarrow> arMember list \<Rightarrow> (string \<times> nat) list" where
  "allSyms newFile members =
     concat (map (\<lambda>(i, m). map (\<lambda>s. (lsName s, i)) (filter isLinkableDef (member_syms newFile (amName m) (amData m))))
       (List.enumerate 0 members))"

fun member_offs :: "32 word \<Rightarrow> arMember list \<Rightarrow> 32 word list" where
  "member_offs off [] = []"
| "member_offs off (m # ms) =
     (let dataPadded = (let n = word_of_nat (length (amData m)) in if n mod 2 \<noteq> 0 then n + 1 else n)
      in off # member_offs (off + (word_of_nat arHdrLen + dataPadded)) ms)"

definition be32 :: "nat \<Rightarrow> bytes" where
  "be32 v = rev (lebytes 4 v)"

definition namesBlob :: "(string \<times> nat) list \<Rightarrow> bytes" where
  "namesBlob syms = concat (map (\<lambda>(s, i). s @ [CHR 0x00]) syms)"

definition symIdxSize :: "(string \<times> nat) list \<Rightarrow> nat" where
  "symIdxSize syms = 4 + length syms * 4 + length (namesBlob syms)"

definition symIdxData :: "arMember list \<Rightarrow> (string \<times> nat) list \<Rightarrow> bytes" where
  "symIdxData members syms =
     (let padded = (if symIdxSize syms mod 2 \<noteq> 0 then symIdxSize syms + 1 else symIdxSize syms);
          offs = member_offs (word_of_nat (8 + arHdrLen + padded)) members
      in be32 (length syms) @ concat (map (\<lambda>(s, i). be32 (unat (offs ! i))) syms) @ namesBlob syms)"

definition load_members :: "(string \<Rightarrow> bytes option) \<Rightarrow> string list \<Rightarrow> linkError + arMember list" where
  "load_members readFile objpaths =
     foldE (\<lambda>p ms. case readFile p of None \<Rightarrow> Inl (ReadFailed p) | Some d \<Rightarrow> Inr (ms @ [\<lparr>amName = filepath_Base p, amData = d\<rparr>]))
       objpaths []"

definition write_archive :: "(bytes \<Rightarrow> elfFile option) \<Rightarrow> arMember list \<Rightarrow> bytes" where
  "write_archive newFile members =
     (let syms = allSyms newFile members
      in arFileMagic @ writeHdr ''/'' (symIdxSize syms) @ symIdxData members syms @ pad_byte (symIdxSize syms)
         @ concat (map write_member members))"

definition archiveCreate :: "(bytes \<Rightarrow> elfFile option) \<Rightarrow> (string \<Rightarrow> bytes option) \<Rightarrow> string list \<Rightarrow> linkError + bytes" where
  "archiveCreate newFile readFile objpaths =
     andThen (load_members readFile objpaths) (\<lambda>members. Inr (write_archive newFile members))"

subsection \<open>Reading\<close>

function ar_loop :: "string \<Rightarrow> bytes \<Rightarrow> nat \<Rightarrow> arMember list \<Rightarrow> linkError + arMember list" where
  "ar_loop path data off members =
     (if off + arHdrLen \<le> length data then
        (let nameField = TrimRight (take 16 (drop off data));
             size = Atoi (TrimRight (take 10 (drop (off + 48) data)))
         in if size < 0 \<or> int (off + arHdrLen) + size > int (length data) then Inl (TruncatedMember path off)
            else let memberData = take (nat size) (drop (off + arHdrLen) data);
                     off' = off + arHdrLen + nat size + (if nat size mod 2 \<noteq> 0 then 1 else 0)
                 in if nameField = ''/'' \<or> nameField = ''//'' then ar_loop path data off' members
                    else ar_loop path data off' (members @ [\<lparr>amName = TrimSuffix nameField, amData = memberData\<rparr>]))
      else Inr members)"
  by pat_completeness auto
termination
  by (relation "measure (\<lambda>(path, data, off, ms). length data - off)") (auto simp: arHdrLen_def)

declare ar_loop.simps [simp del]

definition add_sym :: "nat \<Rightarrow> lnkSym \<Rightarrow> (string \<Rightarrow> nat option) \<Rightarrow> string \<Rightarrow> nat option" where
  "add_sym i s symMap = (if isLinkableDef s \<and> symMap (lsName s) = None then symMap(lsName s \<mapsto> i) else symMap)"

definition build_symMap :: "(bytes \<Rightarrow> elfFile option) \<Rightarrow> arMember list \<Rightarrow> string \<Rightarrow> nat option" where
  "build_symMap newFile members =
     fold (\<lambda>(i, m). fold (add_sym i) (member_syms newFile (amName m) (amData m))) (List.enumerate 0 members) Map.empty"

definition archiveRead ::
  "(bytes \<Rightarrow> elfFile option) \<Rightarrow> (string \<Rightarrow> bytes option) \<Rightarrow> string \<Rightarrow> linkError + arMember list \<times> (string \<Rightarrow> nat option)" where
  "archiveRead newFile readFile path =
     (case readFile path of
        None \<Rightarrow> Inl (ReadFailed path)
      | Some data \<Rightarrow>
          (if length data < 8 \<or> take 8 data \<noteq> arFileMagic then Inl (NotAnArchive path)
           else andThen (ar_loop path data 8 []) (\<lambda>members. Inr (members, build_symMap newFile members))))"

subsection \<open>Decimal numbers and fields\<close>

lemma of_char_digit [simp]: "d < 10 \<Longrightarrow> of_char (char_of (48 + d :: nat)) = (48 + d :: nat)"
  by simp

lemma is_digit_char [simp]: "d < 10 \<Longrightarrow> is_digit (char_of (48 + d :: nat))"
  by (simp add: is_digit_def)

lemma Itoa_digits: "list_all is_digit (Itoa n)" "Itoa n \<noteq> []"
  by (induction n rule: Itoa.induct; subst Itoa.simps; simp)+

lemma dec_val_Itoa: "dec_val (Itoa n) = n"
proof (induction n rule: Itoa.induct)
  case (1 n)
  then show ?case by (subst Itoa.simps) (simp add: dec_val_def)
qed

lemma length_Itoa: "n < 10 ^ k \<Longrightarrow> 0 < k \<Longrightarrow> length (Itoa n) \<le> k"
proof (induction n arbitrary: k rule: Itoa.induct)
  case (1 n)
  show ?case
  proof (cases "n < 10")
    case False
    then obtain j where k: "k = Suc j" "0 < j" using 1(2,3) by (cases k; cases "k = 1") auto
    have "n div 10 < 10 ^ j" using 1(2) k by (simp add: less_mult_imp_div_less mult.commute)
    then show ?thesis using 1(1) [OF False, of j] k False by (subst Itoa.simps) simp
  qed (use 1 in \<open>subst Itoa.simps, simp\<close>)
qed

lemma digit_not_space: "is_digit c \<Longrightarrow> c \<noteq> CHR '' '' \<and> c \<noteq> CHR ''-'' \<and> c \<noteq> CHR ''+''"
  by (auto simp: is_digit_def)

lemma Atoi_Itoa: "Atoi (Itoa n) = int n"
proof -
  have "is_digit (hd (Itoa n))" using Itoa_digits [of n] by (auto simp: list_all_iff)
  then show ?thesis using digit_not_space [of "hd (Itoa n)"] Itoa_digits [of n] dec_val_Itoa [of n] by (simp add: Atoi_def)
qed

lemma dropWhile_replicate: "dropWhile (\<lambda>c. c = a) (replicate k a @ s) = dropWhile (\<lambda>c. c = a) s"
  by (induction k) auto

lemma TrimRight_pad [simp]: "TrimRight (s @ replicate k (CHR '' '')) = TrimRight s"
  by (simp add: TrimRight_def dropWhile_replicate)

lemma TrimRight_id: "s = [] \<or> last s \<noteq> CHR '' '' \<Longrightarrow> TrimRight s = s"
  by (cases s rule: rev_cases) (auto simp: TrimRight_def)

lemma TrimRight_field: "length s \<le> n \<Longrightarrow> TrimRight (arPadRight s n) = TrimRight s"
  by (simp add: arPadRight_def)

lemma length_arPadRight [simp]: "length (arPadRight s n) = n"
  by (simp add: arPadRight_def)

lemma length_arFileMagic [simp]: "length arFileMagic = 8"
  by (simp add: arFileMagic_def)

lemma length_writeHdr [simp]: "length (writeHdr name n) = arHdrLen"
  by (simp add: writeHdr_def arHdrLen_def)

lemma writeHdr_name: "take 16 (writeHdr name n @ r) = arPadRight name 16"
  by (simp add: writeHdr_def)

lemma writeHdr_size: "take 10 (drop 48 (writeHdr name n @ r)) = arPadRight (Itoa n) 10"
proof -
  have "drop 48 (writeHdr name n @ r) = arPadRight (Itoa n) 10 @ [CHR 0x60, CHR 0x0A] @ r" by (simp add: writeHdr_def)
  then show ?thesis by simp
qed

lemma read_size:
  assumes "n < 10 ^ 10"
  shows "Atoi (TrimRight (take 10 (drop 48 (writeHdr name n @ r)))) = int n"
proof -
  have "is_digit (last (Itoa n))" using Itoa_digits [of n] by (auto simp: list_all_iff)
  then have "TrimRight (Itoa n) = Itoa n" using digit_not_space TrimRight_id by blast
  moreover have "length (Itoa n) \<le> 10" using length_Itoa [OF assms] by simp
  ultimately show ?thesis unfolding writeHdr_size by (simp add: TrimRight_field Atoi_Itoa)
qed

subsection \<open>One member\<close>

lemma ar_loop_member:
  assumes d: "drop off data = writeHdr name (length b) @ b @ pad_byte (length b) @ r" and n: "length b < 10 ^ 10"
  defines "nf \<equiv> TrimRight (arPadRight name 16)"
  shows "ar_loop path data off ms =
    ar_loop path data (off + length (writeHdr name (length b) @ b @ pad_byte (length b)))
      (if nf = ''/'' \<or> nf = ''//'' then ms else ms @ [\<lparr>amName = TrimSuffix nf, amData = b\<rparr>])"
proof -
  have l: "off + arHdrLen + length b \<le> length data"
    using arg_cong [OF d, of length] by (simp add: arHdrLen_def)
  have h: "take 16 (drop off data) = arPadRight name 16" by (simp only: d writeHdr_name)
  have s: "Atoi (TrimRight (take 10 (drop (off + 48) data))) = int (length b)"
    using read_size [OF n, of name "b @ pad_byte (length b) @ r"] by (simp add: d [symmetric] add.commute)
  have "drop (off + arHdrLen) data = b @ pad_byte (length b) @ r"
    by (metis add.commute append_eq_conv_conj d drop_drop length_writeHdr)
  then have b: "take (length b) (drop (off + arHdrLen) data) = b" by simp
  show ?thesis using l h s b
    by (subst ar_loop.simps) (simp add: nf_def Let_def pad_byte_def add.assoc)
qed

text \<open>What is left of a name in the sixteen bytes of its field.\<close>

definition stored_name :: "string \<Rightarrow> string" where
  "stored_name n = (if length n < 16 then n else TrimRight (take 16 n))"

lemma TrimRight_prefix: "\<exists>k. TrimRight s = take k s"
proof -
  have "TrimRight s = take (length s - length (takeWhile (\<lambda>c. c = CHR '' '') (rev s))) s"
    by (simp add: TrimRight_def dropWhile_eq_drop rev_drop)
  then show ?thesis ..
qed

lemma stored_field:
  assumes "n \<noteq> []" "CHR ''/'' \<notin> set n"
  defines "nf \<equiv> TrimRight (arPadRight (n @ ''/'') 16)"
  shows "nf \<noteq> ''/''" "nf \<noteq> ''//''" "TrimSuffix nf = stored_name n"
proof -
  have "nf \<noteq> ''/'' \<and> nf \<noteq> ''//'' \<and> TrimSuffix nf = stored_name n"
  proof (cases "length n < 16")
    case True
    then have "nf = n @ ''/''" unfolding nf_def by (subst TrimRight_field) (auto simp: TrimRight_id)
    then show ?thesis using True assms(1,2) by (auto simp: stored_name_def TrimSuffix_def append_eq_Cons_conv)
  next
    case False
    have "nf = TrimRight (take 16 n)" using False by (simp add: nf_def arPadRight_def)
    then obtain k where k: "nf = take k (take 16 n)" using TrimRight_prefix by metis
    then have "CHR ''/'' \<notin> set nf" using assms(2) by (meson in_set_takeD)
    then have "nf \<noteq> ''/'' \<and> nf \<noteq> ''//'' \<and> (nf \<noteq> [] \<longrightarrow> last nf \<noteq> CHR ''/'')"
      by (metis last_in_set list.set_intros(1))
    then show ?thesis using \<open>nf = TrimRight (take 16 n)\<close> False by (auto simp: TrimSuffix_def stored_name_def)
  qed
  then show "nf \<noteq> ''/''" "nf \<noteq> ''//''" "TrimSuffix nf = stored_name n" by auto
qed

lemma base_name:
  assumes "filepath_Base p \<noteq> ''/''"
  shows "filepath_Base p \<noteq> []" "CHR ''/'' \<notin> set (filepath_Base p)"
  using assms set_takeWhileD [of "CHR ''/''" "\<lambda>c. c \<noteq> CHR ''/''"]
  by (auto simp: filepath_Base_def Let_def split: if_splits)

subsection \<open>All members\<close>

definition read_member :: "arMember \<Rightarrow> arMember" where
  "read_member m = \<lparr>amName = stored_name (amName m), amData = amData m\<rparr>"

definition storable :: "arMember \<Rightarrow> bool" where
  "storable m \<longleftrightarrow> amName m \<noteq> [] \<and> CHR ''/'' \<notin> set (amName m) \<and> length (amData m) < 10 ^ 10"

lemma ar_loop_end: "drop off data = [] \<Longrightarrow> ar_loop path data off ms = Inr ms"
  by (subst ar_loop.simps) (simp add: arHdrLen_def)

lemma ar_loop_members:
  assumes "drop off data = concat (map write_member ms)" "\<forall>m \<in> set ms. storable m"
  shows "ar_loop path data off acc = Inr (acc @ map read_member ms)"
  using assms
proof (induction ms arbitrary: off acc)
  case (Cons m ms)
  let ?w = "writeHdr (amName m @ ''/'') (length (amData m)) @ amData m @ pad_byte (length (amData m))"
  have d: "drop off data = writeHdr (amName m @ ''/'') (length (amData m)) @ amData m @ pad_byte (length (amData m)) @ concat (map write_member ms)"
    using Cons.prems(1) by (simp add: write_member_def [of m])
  then have r: "drop (off + length ?w) data = concat (map write_member ms)"
    by (metis add.commute append.assoc append_eq_conv_conj drop_drop)
  have "amName m \<noteq> []" "CHR ''/'' \<notin> set (amName m)" "length (amData m) < 10 ^ 10" using Cons.prems(2) by (simp_all add: storable_def)
  then show ?case using ar_loop_member [OF d] stored_field [of "amName m"] Cons.IH [OF r] Cons.prems(2) by (simp add: read_member_def)
qed (simp add: ar_loop_end)

lemma length_be32 [simp]: "length (be32 v) = 4"
  by (simp add: be32_def)

lemma length_concat_const: "(\<And>x. x \<in> set xs \<Longrightarrow> length (f x) = k) \<Longrightarrow> length (concat (map f xs)) = length xs * k"
  by (induction xs) auto

lemma length_symIdxData [simp]: "length (symIdxData ms syms) = symIdxSize syms"
  unfolding symIdxData_def symIdxSize_def Let_def by (simp add: length_concat_const [where k = 4] split_def)

lemma write_archive_members:
  "drop (8 + (arHdrLen + (symIdxSize syms + length (pad_byte (symIdxSize syms))))) (arFileMagic @ writeHdr ''/'' (symIdxSize syms) @ symIdxData ms syms @ pad_byte (symIdxSize syms) @ r) = r"
  by simp

lemma archive_loop:
  assumes s: "symIdxSize (allSyms newFile ms) < 10 ^ 10" and m: "\<forall>m \<in> set ms. storable m"
  shows "ar_loop path (write_archive newFile ms) 8 [] = Inr (map read_member ms)"
proof -
  let ?syms = "allSyms newFile ms" and ?data = "write_archive newFile ms"
  have "drop 8 ?data = writeHdr ''/'' (length (symIdxData ms ?syms)) @ symIdxData ms ?syms @ pad_byte (length (symIdxData ms ?syms)) @ concat (map write_member ms)"
    by (simp add: write_archive_def Let_def arFileMagic_def)
  then have "ar_loop path ?data 8 [] = ar_loop path ?data (8 + (arHdrLen + (symIdxSize ?syms + length (pad_byte (symIdxSize ?syms))))) []"
    using s by (subst ar_loop_member) (auto simp: TrimRight_field TrimRight_id)
  moreover have "drop (8 + (arHdrLen + (symIdxSize ?syms + length (pad_byte (symIdxSize ?syms))))) ?data = concat (map write_member ms)"
    unfolding write_archive_def Let_def by (rule write_archive_members)
  ultimately show ?thesis using ar_loop_members m by simp
qed

subsection \<open>The symbol map\<close>

definition defines_sym :: "(bytes \<Rightarrow> elfFile option) \<Rightarrow> string \<Rightarrow> arMember \<Rightarrow> bool" where
  "defines_sym newFile n m \<longleftrightarrow> (\<exists>s \<in> set (member_syms newFile (amName m) (amData m)). isLinkableDef s \<and> lsName s = n)"

lemma fold_add_sym:
  "fold (add_sym i) ss sm n =
     (case sm n of Some j \<Rightarrow> Some j | None \<Rightarrow> if \<exists>s \<in> set ss. isLinkableDef s \<and> lsName s = n then Some i else None)"
  by (induction ss arbitrary: sm) (auto simp: add_sym_def split: option.split)

lemma find_append: "find P (xs @ ys) = (case find P xs of None \<Rightarrow> find P ys | Some x \<Rightarrow> Some x)"
  by (induction xs) auto

lemma build_symMap_first: "build_symMap newFile ms n = find (\<lambda>i. defines_sym newFile n (ms ! i)) [0..<length ms]"
proof (induction ms rule: rev_induct)
  case (snoc m ms)
  have "find (\<lambda>i. defines_sym newFile n ((ms @ [m]) ! i)) [0..<length ms] = find (\<lambda>i. defines_sym newFile n (ms ! i)) [0..<length ms]"
    by (rule find_cong) (auto simp: nth_append)
  then have "find (\<lambda>i. defines_sym newFile n ((ms @ [m]) ! i)) [0..<length (ms @ [m])] =
      (case build_symMap newFile ms n of None \<Rightarrow> if defines_sym newFile n m then Some (length ms) else None | Some j \<Rightarrow> Some j)"
    unfolding snoc.IH by (simp add: find_append split: option.split)
  then show ?case by (simp add: build_symMap_def enumerate_append_eq fold_add_sym defines_sym_def split: option.split)
qed (simp add: build_symMap_def)

subsection \<open>The symbol index\<close>

lemma member_offs_length [simp]: "length (member_offs off ms) = length ms"
  by (induction ms arbitrary: off) (auto simp: Let_def)

lemma padded_length:
  assumes "length (amData m) < 2 ^ 32"
  shows "(word_of_nat arHdrLen + (let n = word_of_nat (length (amData m)) in if n mod 2 \<noteq> 0 then n + 1 else n) :: 32 word)
    = word_of_nat (length (write_member m))"
proof -
  have "unat (word_of_nat (length (amData m)) mod 2 :: 32 word) = length (amData m) mod 2"
    using assms by (simp add: unat_mod_distrib unat_of_nat take_bit_nat_eq_self)
  then have "(word_of_nat (length (amData m)) mod 2 \<noteq> (0 :: 32 word)) \<longleftrightarrow> length (amData m) mod 2 \<noteq> 0"
    by (metis unat_eq_zero)
  then show ?thesis by (simp add: Let_def write_member_def pad_byte_def ac_simps)
qed

lemma member_offs_nth:
  assumes "unat off + length (concat (map write_member ms)) < 2 ^ 32" "i < length ms"
  shows "unat (member_offs off ms ! i) = unat off + length (concat (map write_member (take i ms)))"
  using assms
proof (induction ms arbitrary: off i)
  case (Cons m ms)
  have "length (amData m) < 2 ^ 32" using Cons.prems(1) by (simp add: write_member_def)
  note p = padded_length [OF this]
  have s: "unat off + length (write_member m) < 2 ^ 32" using Cons.prems(1) by simp
  then have u: "unat (off + word_of_nat (length (write_member m))) = unat off + length (write_member m)"
    by (simp add: unat_word_ariths unat_of_nat)
  show ?case
  proof (cases i)
    case (Suc j)
    then show ?thesis using Cons.IH [of "off + word_of_nat (length (write_member m))" j] Cons.prems u p by (simp add: Let_def)
  qed (simp add: Let_def)
qed simp

lemma concat_const_nth:
  assumes "k < length xs" "\<And>x. length (f x) = l"
  shows "take l (drop (k * l) (concat (map f xs) @ r)) = f (xs ! k)"
  using assms(1)
proof (induction xs arbitrary: k)
  case (Cons x xs)
  then show ?case by (cases k) (simp_all add: assms(2))
qed simp

definition read_be32 :: "bytes \<Rightarrow> nat \<Rightarrow> nat" where
  "read_be32 b i = leval (rev (take 4 (drop i b)))"

lemma read_be32_be32: "v < 2 ^ 32 \<Longrightarrow> read_be32 (be32 v @ r) 0 = v"
  by (simp add: read_be32_def be32_def)

lemma allSyms_index:
  assumes "(s, i) \<in> set (allSyms newFile ms)"
  shows "i < length ms \<and> defines_sym newFile s (ms ! i)"
  using assms unfolding allSyms_def by (auto simp: in_set_enumerate_eq defines_sym_def)

subsection \<open>Round trip\<close>

definition members_of :: "(string \<Rightarrow> bytes option) \<Rightarrow> string list \<Rightarrow> arMember list" where
  "members_of readFile ps = map (\<lambda>p. \<lparr>amName = filepath_Base p, amData = the (readFile p)\<rparr>) ps"

lemma load_members_ok:
  assumes "\<forall>p \<in> set ps. readFile p \<noteq> None"
  shows "load_members readFile ps = Inr (members_of readFile ps)"
proof -
  have "foldE (\<lambda>p ms. case readFile p of None \<Rightarrow> Inl (ReadFailed p) | Some d \<Rightarrow> Inr (ms @ [\<lparr>amName = filepath_Base p, amData = d\<rparr>])) ps acc
      = Inr (acc @ members_of readFile ps)" for acc
    using assms by (induction ps arbitrary: acc) (auto simp: members_of_def)
  then show ?thesis by (simp add: load_members_def)
qed

lemma load_members_fail:
  assumes "readFile p = None" "p \<in> set ps"
  shows "\<exists>q \<in> set ps. readFile q = None \<and> load_members readFile ps = Inl (ReadFailed q)"
proof -
  have "\<exists>q \<in> set ps. readFile q = None \<and>
      foldE (\<lambda>p ms. case readFile p of None \<Rightarrow> Inl (ReadFailed p) | Some d \<Rightarrow> Inr (ms @ [\<lparr>amName = filepath_Base p, amData = d\<rparr>])) ps acc
      = Inl (ReadFailed q)" for acc
    using assms(2)
  proof (induction ps arbitrary: acc)
    case (Cons a ps)
    then show ?case using assms(1) by (cases "readFile a"; cases "a = p") auto
  qed simp
  then show ?thesis by (simp add: load_members_def)
qed

lemma archive_read_back:
  assumes p: "\<forall>p \<in> set ps. filepath_Base p \<noteq> ''/'' \<and> (\<exists>d. readFile p = Some d \<and> length d < 10 ^ 10)"
    and s: "symIdxSize (allSyms newFile (members_of readFile ps)) < 10 ^ 10"
    and rf: "rf path = Some (write_archive newFile (members_of readFile ps))"
  shows "archiveRead newFile rf path =
    Inr (map read_member (members_of readFile ps), build_symMap newFile (map read_member (members_of readFile ps)))"
proof -
  have "\<forall>m \<in> set (members_of readFile ps). storable m" unfolding members_of_def storable_def using p base_name by fastforce
  note archive_loop [OF s this, of path]
  then show ?thesis using rf by (simp add: archiveRead_def) (simp add: write_archive_def Let_def)
qed

text \<open>Sample: two files, one of them an object with a global function \<open>f\<close>.\<close>

definition demo_elf :: elfFile where
  "demo_elf = \<lparr>efType = 1, efSections =
     [\<lparr>seName = '''', seType = 0, seFlags = 0, seSize = 0, seData = Some []\<rparr>,
      \<lparr>seName = ''.text'', seType = 1, seFlags = 6, seSize = 4, seData = Some [CHR 0xC0, CHR 0x03, CHR 0x5F, CHR 0xD6]\<rparr>,
      \<lparr>seName = ''.symtab'', seType = 2, seFlags = 0, seSize = 24,
       seData = Some ([CHR 0x01, CHR 0x00, CHR 0x00, CHR 0x00, CHR 0x12, CHR 0x00, CHR 0x01, CHR 0x00] @ replicate 16 (CHR 0x00))\<rparr>,
      \<lparr>seName = ''.strtab'', seType = 3, seFlags = 0, seSize = 3, seData = Some (CHR 0x00 # ''f'' @ [CHR 0x00])\<rparr>]\<rparr>"

definition demo_newFile :: "bytes \<Rightarrow> elfFile option" where
  "demo_newFile d = (if d = ''OBJ'' then Some demo_elf else None)"

definition demo_readFile :: "string \<Rightarrow> bytes option" where
  "demo_readFile p = (if p = ''a.txt'' then Some ''text'' else if p = ''lib/b.o'' then Some ''OBJ'' else None)"

lemma demo_syms:
  "member_syms demo_newFile n ''OBJ'' = [\<lparr>lsName = ''f'', lsValue = 0, lsSize = 0, lsSec = ''.text'', lsBinding = 1, lsType = 2\<rparr>]"
  "member_syms demo_newFile n ''text'' = []"
  by (simp_all add: demo_newFile_def member_syms_def loadObjFromBytes_def parseObjELF_def demo_elf_def readSec_def section_of_def
      elf_consts fold_section_def parse_symtab_def sec_data_def chunks_def parse_sym_def le16_def le32_def le64_def sym_name_def
      parseRelas_def fold_relas_def Let_def)

text \<open>C8: Reading back an archive that \<open>archiveCreate\<close> wrote gives the files in order with their contents, and
  with their names when these have less than sixteen characters (longer names are cut to sixteen). The symbol map
  sends a name to the first member with a global or weak definition of it. When an input file cannot be
  read, no archive is made.\<close>

theorem archive_roundtrip:
  assumes ms: "ms = members_of readFile ps"
  shows "((\<forall>p \<in> set ps. filepath_Base p \<noteq> ''/'' \<and> (\<exists>d. readFile p = Some d \<and> length d < 10 ^ 10)) \<and>
        symIdxSize (allSyms newFile ms) < 10 ^ 10 \<longrightarrow>
      (\<exists>ar. archiveCreate newFile readFile ps = Inr ar \<and>
        (\<forall>rf path. rf path = Some ar \<longrightarrow>
          (\<exists>symMap. archiveRead newFile rf path = Inr (map read_member ms, symMap) \<and>
            (\<forall>n. symMap n = find (\<lambda>i. defines_sym newFile n (map read_member ms ! i)) [0..<length ps])))))
    \<and> ((\<exists>p \<in> set ps. readFile p = None) \<longrightarrow> (\<exists>p \<in> set ps. readFile p = None \<and> archiveCreate newFile readFile ps = Inl (ReadFailed p)))"
proof (intro conjI impI; (elim conjE)?)
  assume p: "\<forall>p \<in> set ps. filepath_Base p \<noteq> ''/'' \<and> (\<exists>d. readFile p = Some d \<and> length d < 10 ^ 10)"
    and s: "symIdxSize (allSyms newFile ms) < 10 ^ 10"
  have "load_members readFile ps = Inr ms" unfolding ms using p by (intro load_members_ok) auto
  then have "archiveCreate newFile readFile ps = Inr (write_archive newFile ms)" by (simp add: archiveCreate_def)
  moreover have "length ps = length (map read_member ms)" by (simp add: ms members_of_def)
  ultimately show "\<exists>ar. archiveCreate newFile readFile ps = Inr ar \<and>
        (\<forall>rf path. rf path = Some ar \<longrightarrow>
          (\<exists>symMap. archiveRead newFile rf path = Inr (map read_member ms, symMap) \<and>
            (\<forall>n. symMap n = find (\<lambda>i. defines_sym newFile n (map read_member ms ! i)) [0..<length ps])))"
    using archive_read_back [OF p s [unfolded ms]] by (simp add: ms [symmetric] build_symMap_first)
next
  assume "\<exists>p \<in> set ps. readFile p = None"
  then show "\<exists>p \<in> set ps. readFile p = None \<and> archiveCreate newFile readFile ps = Inl (ReadFailed p)"
    unfolding archiveCreate_def using load_members_fail [of readFile _ ps] andThen_simps(1) by metis
qed

theorem archive_roundtrip_witness:
  "\<exists>ar symMap. archiveCreate demo_newFile demo_readFile [''a.txt'', ''lib/b.o''] = Inr ar
    \<and> archiveRead demo_newFile (\<lambda>_. Some ar) ''x.a'' =
        Inr ([\<lparr>amName = ''a.txt'', amData = ''text''\<rparr>, \<lparr>amName = ''b.o'', amData = ''OBJ''\<rparr>], symMap)
    \<and> symMap ''f'' = Some 1 \<and> symMap ''g'' = None"
proof -
  let ?ps = "[''a.txt'', ''lib/b.o'']" and ?ms = "[\<lparr>amName = ''a.txt'', amData = ''text''\<rparr>, \<lparr>amName = ''b.o'', amData = ''OBJ''\<rparr>]"
  have m: "?ms = members_of demo_readFile ?ps" "map read_member ?ms = ?ms"
    by (simp_all add: members_of_def demo_readFile_def filepath_Base_def read_member_def stored_name_def)
  have "(\<forall>p \<in> set ?ps. filepath_Base p \<noteq> ''/'' \<and> (\<exists>d. demo_readFile p = Some d \<and> length d < 10 ^ 10))
      \<and> symIdxSize (allSyms demo_newFile ?ms) < 10 ^ 10"
    by (simp add: filepath_Base_def symIdxSize_def allSyms_def namesBlob_def demo_syms isLinkableDef_def elf_consts demo_readFile_def)
  note R = mp [OF conjunct1 [OF archive_roundtrip [OF m(1), of demo_newFile]] this]
  have f: "find (\<lambda>i. defines_sym demo_newFile ''f'' (?ms ! i)) [0..<length ?ps] = Some 1"
    "find (\<lambda>i. defines_sym demo_newFile ''g'' (?ms ! i)) [0..<length ?ps] = None"
    by (simp_all add: defines_sym_def demo_syms isLinkableDef_def elf_consts upt_rec)
  obtain ar where A: "archiveCreate demo_newFile demo_readFile ?ps = Inr ar"
    "\<forall>rf path. rf path = Some ar \<longrightarrow> (\<exists>symMap. archiveRead demo_newFile rf path = Inr (map read_member ?ms, symMap)
       \<and> (\<forall>n. symMap n = find (\<lambda>i. defines_sym demo_newFile n (map read_member ?ms ! i)) [0..<length ?ps]))"
    using R by (elim exE conjE)
  obtain symMap where "archiveRead demo_newFile (\<lambda>_. Some ar) ''x.a'' = Inr (map read_member ?ms, symMap)"
    "\<forall>n. symMap n = find (\<lambda>i. defines_sym demo_newFile n (map read_member ?ms ! i)) [0..<length ?ps]"
    using A(2) [rule_format, of "\<lambda>_. Some ar" "''x.a''", OF refl] by (elim exE conjE)
  then show ?thesis using f A(1) unfolding m(2) by (intro exI [of _ ar] exI [of _ symMap]) (simp only: simp_thms)
qed

subsection \<open>The offsets of the index\<close>

definition idx_base :: "(string \<times> nat) list \<Rightarrow> nat" where
  "idx_base syms = 8 + (arHdrLen + (symIdxSize syms + length (pad_byte (symIdxSize syms))))"

lemma drop_archive:
  assumes "i < length ms" "length (write_archive newFile ms) < 2 ^ 32"
  shows "drop (unat (member_offs (word_of_nat (idx_base (allSyms newFile ms))) ms ! i)) (write_archive newFile ms) =
    concat (map write_member (drop i ms))"
proof -
  let ?syms = "allSyms newFile ms" and ?ar = "write_archive newFile ms"
  have al: "idx_base ?syms + length (concat (map write_member ms)) = length ?ar"
    unfolding write_archive_def by (simp add: Let_def idx_base_def)
  then have ub: "unat (word_of_nat (idx_base ?syms) :: 32 word) = idx_base ?syms" using assms(2) by (simp add: unat_of_nat)
  have "drop (idx_base ?syms) ?ar = concat (map write_member ms)"
    unfolding write_archive_def idx_base_def Let_def by (rule write_archive_members)
  moreover have "unat (member_offs (word_of_nat (idx_base ?syms)) ms ! i) = idx_base ?syms + length (concat (map write_member (take i ms)))"
    using member_offs_nth [OF _ assms(1), of "word_of_nat (idx_base ?syms)"] ub al assms(2) by simp
  ultimately have "drop (unat (member_offs (word_of_nat (idx_base ?syms)) ms ! i)) ?ar =
      drop (length (concat (map write_member (take i ms)))) (concat (map write_member ms))"
    by (metis add.commute drop_drop)
  also have "\<dots> = concat (map write_member (drop i ms))"
    by (metis append_eq_conv_conj append_take_drop_id concat_append map_append)
  finally show ?thesis .
qed

text \<open>C9: The symbol index of an archive below 4 GiB: its count is the number of linkable symbols, the offset of each
  entry is that of the header of the member that defines the symbol, with the contents behind it, and the names follow in
  the same order, each with its terminator.\<close>

theorem archive_index:
  assumes ar: "ar = write_archive newFile ms" and syms: "syms = allSyms newFile ms" and len: "length ar < 2 ^ 32"
  shows "read_be32 ar 68 = length syms
    \<and> (\<forall>k < length syms. \<exists>n i. syms ! k = (n, i) \<and> i < length ms \<and> defines_sym newFile n (ms ! i) \<and>
        take (arHdrLen + length (amData (ms ! i))) (drop (read_be32 ar (72 + k * 4)) ar) =
          writeHdr (amName (ms ! i) @ ''/'') (length (amData (ms ! i))) @ amData (ms ! i))
    \<and> take (length (namesBlob syms)) (drop (72 + length syms * 4) ar) = concat (map (\<lambda>(n, i). n @ [CHR 0x00]) syms)"
proof (intro conjI allI impI)
  let ?offs = "member_offs (word_of_nat (idx_base syms)) ms"
  let ?ents = "concat (map (\<lambda>(n, i). be32 (unat (?offs ! i))) syms)" and ?rest = "pad_byte (symIdxSize syms) @ concat (map write_member ms)"
  have b: "8 + arHdrLen + (if symIdxSize syms mod 2 \<noteq> 0 then symIdxSize syms + 1 else symIdxSize syms) = idx_base syms"
    by (simp add: pad_byte_def idx_base_def)
  have "ar = (arFileMagic @ writeHdr ''/'' (symIdxSize syms)) @ be32 (length syms) @ ?ents @ namesBlob syms @ ?rest"
    unfolding ar syms [symmetric] write_archive_def Let_def symIdxData_def b by simp
  then have d68: "drop 68 ar = be32 (length syms) @ ?ents @ namesBlob syms @ ?rest" by (simp add: arHdrLen_def)
  have "drop 72 ar = drop 4 (drop 68 ar)" by simp
  then have d72: "drop 72 ar = ?ents @ namesBlob syms @ ?rest" unfolding d68 by simp
  have le: "length ?ents = length syms * 4" by (auto intro!: length_concat_const)
  have "length (drop 72 ar) < 2 ^ 32" using len by simp
  then have "length syms < 2 ^ 32" unfolding d72 using le by simp
  then show "read_be32 ar 68 = length syms" using read_be32_be32 d68 by (simp add: read_be32_def)
  have "drop (72 + length syms * 4) ar = drop (length syms * 4) (drop 72 ar)" by (simp add: add.commute)
  then show "take (length (namesBlob syms)) (drop (72 + length syms * 4) ar) = concat (map (\<lambda>(n, i). n @ [CHR 0x00]) syms)"
    unfolding d72 by (simp add: le [symmetric] namesBlob_def)
  fix k assume k: "k < length syms"
  obtain n i where ni: "syms ! k = (n, i)" by force
  then have i: "i < length ms" "defines_sym newFile n (ms ! i)"
    using allSyms_index [of n i newFile ms] k by (auto simp: syms in_set_conv_nth)
  have "drop (72 + k * 4) ar = drop (k * 4) (drop 72 ar)" by (simp add: add.commute)
  then have "take 4 (drop (72 + k * 4) ar) = be32 (unat (?offs ! i))"
    unfolding d72 using concat_const_nth [OF k, of "\<lambda>(n, i). be32 (unat (?offs ! i))" 4 "namesBlob syms @ ?rest"] ni by (simp add: split_def)
  then have "read_be32 ar (72 + k * 4) = unat (?offs ! i)" using read_be32_be32 [of "unat (?offs ! i)" "[]"] unsigned_less [of "?offs ! i"]
    by (simp add: read_be32_def)
  then have "drop (read_be32 ar (72 + k * 4)) ar = concat (map write_member (drop i ms))"
    using drop_archive [OF i(1), of newFile] len by (simp add: ar syms)
  also have "drop i ms = ms ! i # drop (Suc i) ms" using i(1) by (rule Cons_nth_drop_Suc [symmetric])
  finally show "\<exists>n i. syms ! k = (n, i) \<and> i < length ms \<and> defines_sym newFile n (ms ! i) \<and>
        take (arHdrLen + length (amData (ms ! i))) (drop (read_be32 ar (72 + k * 4)) ar) =
          writeHdr (amName (ms ! i) @ ''/'') (length (amData (ms ! i))) @ amData (ms ! i)"
    using ni i by (intro exI [of _ n] exI [of _ i]) (simp add: write_member_def [of "ms ! i"])
qed

theorem archive_index_witness:
  "allSyms demo_newFile [\<lparr>amName = ''b.o'', amData = ''OBJ''\<rparr>] = [(''f'', 0)]
    \<and> read_be32 (write_archive demo_newFile [\<lparr>amName = ''b.o'', amData = ''OBJ''\<rparr>]) 68 = 1"
proof -
  have "allSyms demo_newFile [\<lparr>amName = ''b.o'', amData = ''OBJ''\<rparr>] = [(''f'', 0)]"
    "length (write_archive demo_newFile [\<lparr>amName = ''b.o'', amData = ''OBJ''\<rparr>]) < 2 ^ 32"
    by (simp_all add: allSyms_def demo_syms isLinkableDef_def elf_consts write_archive_def Let_def symIdxSize_def namesBlob_def
        write_member_def pad_byte_def arHdrLen_def)
  then show ?thesis using archive_index [OF refl refl, of demo_newFile "[\<lparr>amName = ''b.o'', amData = ''OBJ''\<rparr>]"] by simp
qed

end
