(* ===== verification/Linker.thy ===== *)
theory Linker
  imports ArFmt ElfGen "HOL-Library.AList" "HOL-Library.Char_ord" "HOL-Library.List_Lexorder"
begin

unbundle bit_operations_syntax

section \<open>\<open>linker.go\<close>: linking an executable\<close>

text \<open>
  \<open>linkWithObjs\<close>, phase by phase: loading objects and archives, pulling archive members, the layout of the
  merged sections, strong, tentative and weak definitions, virtual addresses and the global symbol
  table, relocation, and the bytes of the executable. Unsigned 64-bit values are \<open>64 word\<close>; an object is
  named by its position in link order where the code keeps a pointer to it; an index outside a slice is the
  error \<open>IndexPanic\<close>. Warnings on standard error are left out.
\<close>

subsection \<open>Phase 1: objects and archives\<close>

record archiveState =
  arsMembers :: "arMember list"
  arsSymMap :: "string \<Rightarrow> nat option"
  arsUsed :: "bool list"

type_synonym loaded = "objFile list \<times> archiveState list"

definition HasSuffix_a :: "string \<Rightarrow> bool" where
  "HasSuffix_a p \<longleftrightarrow> 2 \<le> length p \<and> drop (length p - 2) p = ''.a''"

definition loadObjFile :: "(bytes \<Rightarrow> elfFile option) \<Rightarrow> (string \<Rightarrow> bytes option) \<Rightarrow> string \<Rightarrow> linkError + objFile" where
  "loadObjFile newFile readFile path =
     (case readFile path of None \<Rightarrow> Inl (ReadFailed path) | Some d \<Rightarrow> loadObjFromBytes newFile path d)"

definition load_input :: "(bytes \<Rightarrow> elfFile option) \<Rightarrow> (string \<Rightarrow> bytes option) \<Rightarrow> string \<Rightarrow> loaded \<Rightarrow> linkError + loaded" where
  "load_input newFile readFile p = (\<lambda>(objs, archives).
     if HasSuffix_a p then
       andThen (archiveRead newFile readFile p) (\<lambda>(members, symMap).
         Inr (objs, archives @ [\<lparr>arsMembers = members, arsSymMap = symMap, arsUsed = replicate (length members) False\<rparr>]))
     else andThen (loadObjFile newFile readFile p) (\<lambda>obj. Inr (objs @ [obj], archives)))"

subsection \<open>Phase 2: pulling archive members\<close>

definition pull :: "(bytes \<Rightarrow> elfFile option) \<Rightarrow> nat \<Rightarrow> nat \<Rightarrow> loaded \<Rightarrow> linkError + loaded" where
  "pull newFile ai mi = (\<lambda>(objs, archives).
     let a = archives ! ai; m = arsMembers a ! mi
     in case loadObjFromBytes newFile (amName m) (amData m) of
          Inl e \<Rightarrow> Inl (BadMember (amName m) e)
        | Inr obj \<Rightarrow> Inr (objs @ [obj\<lparr>obFromArchive := True\<rparr>], archives[ai := a\<lparr>arsUsed := (arsUsed a)[mi := True]\<rparr>]))"

text \<open>The forced symbol is pulled from every archive that has it.\<close>

definition force_pull :: "(bytes \<Rightarrow> elfFile option) \<Rightarrow> string \<Rightarrow> loaded \<Rightarrow> linkError + loaded" where
  "force_pull newFile forceSym st =
     foldE (\<lambda>ai st.
       let a = snd st ! ai
       in case arsSymMap a forceSym of
            None \<Rightarrow> Inr st
          | Some mi \<Rightarrow> if length (arsUsed a) \<le> mi then Inl (IndexPanic mi)
                       else if arsUsed a ! mi then Inr st else pull newFile ai mi st)
       [0..<length (snd st)] st"

text \<open>The first archive with an unused member for the name.\<close>

fun search_archives :: "string \<Rightarrow> nat \<Rightarrow> archiveState list \<Rightarrow> linkError + (nat \<times> nat) option" where
  "search_archives name ai [] = Inr None"
| "search_archives name ai (a # as) =
     (case arsSymMap a name of
        None \<Rightarrow> search_archives name (ai + 1) as
      | Some mi \<Rightarrow> if length (arsUsed a) \<le> mi then Inl (IndexPanic mi)
                   else if arsUsed a ! mi then search_archives name (ai + 1) as
                   else Inr (Some (ai, mi)))"

definition pull_for :: "(bytes \<Rightarrow> elfFile option) \<Rightarrow> string \<Rightarrow> loaded \<times> bool \<Rightarrow> linkError + loaded \<times> bool" where
  "pull_for newFile name = (\<lambda>(st, added).
     case search_archives name 0 (snd st) of
       Inl e \<Rightarrow> Inl e
     | Inr None \<Rightarrow> Inr (st, added)
     | Inr (Some (ai, mi)) \<Rightarrow> andThen (pull newFile ai mi st) (\<lambda>st. Inr (st, True)))"

definition is_defined :: "objFile list \<Rightarrow> string \<Rightarrow> bool" where
  "is_defined objs n \<longleftrightarrow> (\<exists>obj \<in> set objs. \<exists>s \<in> set (obSyms obj). isLinkableDef s \<and> lsName s = n)"

text \<open>
  One round: the defined names are computed at its start, and the loops run over the objects that were
  loaded by then, so the references to look at are a fixed list.
\<close>

definition undefs :: "objFile list \<Rightarrow> string list" where
  "undefs objs =
     filter (\<lambda>n. \<not> is_defined objs n)
       (map lsName (filter (\<lambda>s. lsBinding s = STB_GLOBAL \<and> lsSec s = '''' \<and> lsName s \<noteq> '''') (concat (map obSyms objs))))"

definition pull_round :: "(bytes \<Rightarrow> elfFile option) \<Rightarrow> loaded \<Rightarrow> linkError + loaded \<times> bool" where
  "pull_round newFile st = foldE (pull_for newFile) (undefs (fst st)) (st, False)"

definition unused :: "archiveState list \<Rightarrow> nat" where
  "unused archives = sum_list (map (\<lambda>a. length (filter Not (arsUsed a))) archives)"

lemma search_archives_some:
  "search_archives name ai as = Inr (Some (k, mi)) \<Longrightarrow>
     ai \<le> k \<and> k < ai + length as \<and> arsSymMap (as ! (k - ai)) name = Some mi \<and> mi < length (arsUsed (as ! (k - ai)))
     \<and> \<not> arsUsed (as ! (k - ai)) ! mi"
proof (induction as arbitrary: ai)
  case (Cons a as)
  show ?case
  proof (cases "k = ai")
    case False
    then have "search_archives name (ai + 1) as = Inr (Some (k, mi))" using Cons.prems by (auto split: option.splits if_splits)
    from Cons.IH [OF this] show ?thesis by (auto simp: nth_Cons' Suc_diff_le)
  next
    case True
    have "False" if "search_archives name (ai + 1) as = Inr (Some (k, mi))" using Cons.IH [OF that] True by simp
    then show ?thesis using Cons.prems True by (auto split: option.splits if_splits)
  qed
qed simp

lemma count_use: "i < length us \<Longrightarrow> \<not> us ! i \<Longrightarrow> length (filter Not (us[i := True])) < length (filter Not us)"
proof (induction us arbitrary: i)
  case (Cons u us)
  then show ?case by (cases i) auto
qed simp

lemma unused_update:
  assumes "ai < length as" "length (filter Not (arsUsed b)) < length (filter Not (arsUsed (as ! ai)))"
  shows "unused (as[ai := b]) < unused as"
proof -
  have e: "as = take ai as @ as ! ai # drop (Suc ai) as" using assms(1) by (rule id_take_nth_drop)
  have u: "as[ai := b] = take ai as @ b # drop (Suc ai) as" using assms(1) by (rule upd_conv_take_nth_drop)
  have "unused as = unused (take ai as @ as ! ai # drop (Suc ai) as)" using e by simp
  then show ?thesis using assms(2) unfolding u by (simp add: unused_def)
qed

lemma pull_unused:
  assumes "pull newFile ai mi st = Inr st'" "ai < length (snd st)" "mi < length (arsUsed (snd st ! ai))" "\<not> arsUsed (snd st ! ai) ! mi"
  shows "unused (snd st') < unused (snd st)"
proof -
  obtain objs as where st: "st = (objs, as)" by force
  then have "snd st' = as[ai := (as ! ai)\<lparr>arsUsed := (arsUsed (as ! ai))[mi := True]\<rparr>]"
    using assms(1) by (auto simp: pull_def Let_def split: sum.splits)
  then show ?thesis using assms(2-4) st by (simp add: unused_update count_use)
qed

lemma pull_for_unused:
  assumes "pull_for newFile n (st, added) = Inr (st', added')"
  shows "unused (snd st') \<le> unused (snd st) \<and> (added' \<noteq> added \<longrightarrow> added' \<and> unused (snd st') < unused (snd st))"
proof (cases "search_archives n 0 (snd st)")
  case (Inr r)
  show ?thesis
  proof (cases r)
    case (Some p)
    obtain ai mi where p: "p = (ai, mi)" by force
    have s: "search_archives n 0 (snd st) = Inr (Some (ai, mi))" using Inr Some p by simp
    then have "pull newFile ai mi st = Inr st'" "added'" using assms by (auto simp: pull_for_def andThen_eq_Inr)
    then show ?thesis using pull_unused search_archives_some [OF s] by fastforce
  qed (use assms Inr in \<open>auto simp: pull_for_def\<close>)
qed (use assms in \<open>auto simp: pull_for_def\<close>)

lemma pull_round_unused:
  assumes "pull_round newFile st = Inr (st', True)"
  shows "unused (snd st') < unused (snd st)"
proof -
  have "unused (snd (fst (st', True))) \<le> unused (snd st) \<and> (snd (st', True) \<longrightarrow> unused (snd (fst (st', True))) < unused (snd st))"
    using assms unfolding pull_round_def
  proof (rule foldE_inv)
    fix n t t' assume "unused (snd (fst t)) \<le> unused (snd st) \<and> (snd t \<longrightarrow> unused (snd (fst t)) < unused (snd st))"
      and "pull_for newFile n t = Inr t'"
    then show "unused (snd (fst t')) \<le> unused (snd st) \<and> (snd t' \<longrightarrow> unused (snd (fst t')) < unused (snd st))"
      using pull_for_unused [of newFile n "fst t" "snd t" "fst t'" "snd t'"] by auto
  qed simp
  then show ?thesis by simp
qed

text \<open>The loop ends, since each further round has used up a member.\<close>

function lazy_loop :: "(bytes \<Rightarrow> elfFile option) \<Rightarrow> loaded \<Rightarrow> linkError + loaded" where
  "lazy_loop newFile st =
     (case pull_round newFile st of
        Inl e \<Rightarrow> Inl e
      | Inr (st', added) \<Rightarrow> if added then lazy_loop newFile st' else Inr st')"
  by pat_completeness auto
termination
  by (relation "measure (\<lambda>(newFile, st). unused (snd st))") (auto dest: pull_round_unused)

declare lazy_loop.simps [simp del]

definition collect :: "(bytes \<Rightarrow> elfFile option) \<Rightarrow> (string \<Rightarrow> bytes option) \<Rightarrow> objFile list \<Rightarrow> string list \<Rightarrow> linkError + loaded" where
  "collect newFile readFile preObjs inputpaths =
     andThen (foldE (load_input newFile readFile) inputpaths (preObjs, [])) (\<lambda>st.
     andThen (force_pull newFile ''__posix_stdio_init'' st) (lazy_loop newFile))"

subsection \<open>Layout of the merged sections\<close>

definition text_words :: "bytes \<Rightarrow> 32 word list" where
  "text_words b = map (\<lambda>i. word_of_nat (le32 b (4 * i))) [0..<length b div 4]"

fun layout_text :: "nat \<Rightarrow> objFile list \<Rightarrow> objFile list" where
  "layout_text acc [] = []"
| "layout_text acc (obj # objs) = obj\<lparr>obTextBase := acc\<rparr> # layout_text (acc + length (obText obj) div 4) objs"

definition align16 :: "64 word \<Rightarrow> 64 word" where
  "align16 v = (v + 15) AND NOT 15"

record lnkTotals =
  ltRodata :: "64 word"
  ltData :: "64 word"
  ltBss :: "64 word"

fun layout_secs :: "lnkTotals \<Rightarrow> objFile list \<Rightarrow> objFile list \<times> lnkTotals" where
  "layout_secs t [] = ([], t)"
| "layout_secs t (obj # objs) =
     (let obj = obj\<lparr>obRodataOff := align16 (ltRodata t), obDataOff := align16 (ltData t), obBssOff := align16 (ltBss t)\<rparr>;
          t = \<lparr>ltRodata = obRodataOff obj + word_of_nat (length (obRodata obj)),
               ltData = obDataOff obj + word_of_nat (length (obData obj)),
               ltBss = obBssOff obj + obBssSize obj\<rparr>;
          (objs', t') = layout_secs t objs
      in (obj # objs', t'))"

subsection \<open>Strong, tentative and weak definitions\<close>

record commonInfo =
  ciSize :: "64 word"
  ciAlign :: "64 word"

record merged =
  mgCommons :: "(string \<times> commonInfo) list"
  mgReal :: "string \<Rightarrow> nat option"
  mgWeak :: "string \<Rightarrow> nat option"

definition storage :: "string \<Rightarrow> bool" where
  "storage sec \<longleftrightarrow> sec = ''.text'' \<or> sec = ''.rodata'' \<or> sec = ''.data'' \<or> sec = ''.bss''"

definition common_align :: "64 word \<Rightarrow> 64 word" where
  "common_align al = (if al = 0 \<or> al AND (al - 1) \<noteq> 0 \<or> al > 4096 then 8 else al)"

definition add_common :: "lnkSym \<Rightarrow> commonInfo option \<Rightarrow> commonInfo" where
  "add_common s old =
     (let ci = (case old of None \<Rightarrow> \<lparr>ciSize = 0, ciAlign = 0\<rparr> | Some ci \<Rightarrow> ci);
          ci = (if lsSize s > ciSize ci then ci\<lparr>ciSize := lsSize s\<rparr> else ci);
          al = common_align (lsValue s)
      in if al > ciAlign ci then ci\<lparr>ciAlign := al\<rparr> else ci)"

definition merge_sym :: "objFile list \<Rightarrow> nat \<times> lnkSym \<Rightarrow> merged \<Rightarrow> linkError + merged" where
  "merge_sym objs = (\<lambda>(k, s) st.
     if lsName s = '''' then Inr st
     else if lsBinding s = STB_GLOBAL then
       (if storage (lsSec s) then
          (case mgReal st (lsName s) of
             Some prev \<Rightarrow>
               (if \<not> obFromArchive (objs ! prev) \<and> \<not> obFromArchive (objs ! k)
                then Inl (DuplicateDef (lsName s) (obPath (objs ! prev)) (obPath (objs ! k)))
                else let winner = (if \<not> obFromArchive (objs ! prev) \<and> obFromArchive (objs ! k) then prev else k)
                     in Inr (st\<lparr>mgReal := (mgReal st)(lsName s \<mapsto> winner)\<rparr>))
           | None \<Rightarrow> Inr (st\<lparr>mgReal := (mgReal st)(lsName s \<mapsto> k)\<rparr>))
        else if lsSec s = ''COMMON'' then
          Inr (st\<lparr>mgCommons := AList.update (lsName s) (add_common s (map_of (mgCommons st) (lsName s))) (mgCommons st)\<rparr>)
        else Inr st)
     else if lsBinding s = STB_WEAK \<and> storage (lsSec s) \<and> mgWeak st (lsName s) = None
       then Inr (st\<lparr>mgWeak := (mgWeak st)(lsName s \<mapsto> k)\<rparr>)
     else Inr st)"

text \<open>The symbols of all objects in link order, each with the number of its object.\<close>

definition link_syms :: "objFile list \<Rightarrow> (nat \<times> lnkSym) list" where
  "link_syms objs = concat (map (\<lambda>(k, obj). map (Pair k) (obSyms obj)) (List.enumerate 0 objs))"

text \<open>Strong definitions supersede tentative ones, and both supersede weak ones.\<close>

definition merge_syms :: "objFile list \<Rightarrow> linkError + merged" where
  "merge_syms objs =
     andThen (foldE (merge_sym objs) (link_syms objs) \<lparr>mgCommons = [], mgReal = Map.empty, mgWeak = Map.empty\<rparr>) (\<lambda>st.
       let commons = filter (\<lambda>(n, ci). mgReal st n = None) (mgCommons st)
       in Inr (st\<lparr>mgCommons := commons,
                  mgWeak := (\<lambda>n. if mgReal st n \<noteq> None \<or> map_of commons n \<noteq> None then None else mgWeak st n)\<rparr>))"

fun alloc_commons :: "(string \<times> commonInfo) list \<Rightarrow> string list \<Rightarrow> 64 word \<Rightarrow> (string \<times> 64 word) list \<times> 64 word" where
  "alloc_commons commons [] tot = ([], tot)"
| "alloc_commons commons (n # ns) tot =
     (let ci = (case map_of commons n of Some ci \<Rightarrow> ci | None \<Rightarrow> \<lparr>ciSize = 0, ciAlign = 0\<rparr>);
          off = (tot + ciAlign ci - 1) AND NOT (ciAlign ci - 1);
          (offs, tot') = alloc_commons commons ns (off + ciSize ci)
      in ((n, off) # offs, tot'))"

subsection \<open>Virtual addresses\<close>

record lnkAddrs =
  laCode :: "64 word"
  laRodata :: "64 word"
  laData :: "64 word"
  laBss :: "64 word"

definition nextPage :: "64 word \<Rightarrow> 64 word" where
  "nextPage addr = (addr + 4096 - 1) AND NOT (4096 - 1)"

definition linkerLoadBase :: "64 word" where
  "linkerLoadBase = 0x400000"

definition lnkHdrEnd :: "64 word" where
  "lnkHdrEnd = 64 + 4 * 56"

definition lnk_addrs :: "64 word \<Rightarrow> lnkTotals \<Rightarrow> lnkAddrs" where
  "lnk_addrs totalCodeBytes t =
     (let code = linkerLoadBase + lnkHdrEnd; rodata = nextPage (code + totalCodeBytes); data = nextPage (rodata + ltRodata t)
      in \<lparr>laCode = code, laRodata = rodata, laData = data, laBss = nextPage (data + ltData t)\<rparr>)"

definition sectionVA :: "lnkAddrs \<Rightarrow> objFile \<Rightarrow> lnkSym \<Rightarrow> 64 word option" where
  "sectionVA A obj s =
     (if lsSec s = ''.text'' then Some (laCode A + word_of_nat (obTextBase obj) * 4 + lsValue s)
      else if lsSec s = ''.rodata'' then Some (laRodata A + obRodataOff obj + lsValue s)
      else if lsSec s = ''.data'' then Some (laData A + obDataOff obj + lsValue s)
      else if lsSec s = ''.bss'' then Some (laBss A + obBssOff obj + lsValue s)
      else None)"

definition put_symVA :: "lnkAddrs \<Rightarrow> objFile \<Rightarrow> lnkSym \<Rightarrow> (string \<Rightarrow> 64 word option) \<Rightarrow> string \<Rightarrow> 64 word option" where
  "put_symVA A obj s symVA = (case sectionVA A obj s of Some va \<Rightarrow> symVA(lsName s \<mapsto> va) | None \<Rightarrow> symVA)"

definition add_symVA ::
  "lnkAddrs \<Rightarrow> merged \<Rightarrow> objFile list \<Rightarrow> nat \<times> lnkSym \<Rightarrow> (string \<Rightarrow> 64 word option) \<Rightarrow> string \<Rightarrow> 64 word option" where
  "add_symVA A mg objs = (\<lambda>(k, s) symVA.
     if lsName s = '''' then symVA
     else if lsBinding s = STB_GLOBAL then
       (case mgReal mg (lsName s) of
          Some w \<Rightarrow> if w \<noteq> k then symVA else put_symVA A (objs ! k) s symVA
        | None \<Rightarrow> put_symVA A (objs ! k) s symVA)
     else if lsBinding s = STB_WEAK then
       (if mgWeak mg (lsName s) = Some k then put_symVA A (objs ! k) s symVA else symVA)
     else symVA)"

definition symbol_table ::
  "lnkAddrs \<Rightarrow> merged \<Rightarrow> objFile list \<Rightarrow> (string \<Rightarrow> nat option) \<Rightarrow> (string \<times> 64 word) list \<Rightarrow> string \<Rightarrow> 64 word option" where
  "symbol_table A mg objs helperLabels commonOff =
     (let helpers = (\<lambda>n. map_option (\<lambda>w. laCode A + word_of_nat w * 4) (helperLabels n));
          user = fold (add_symVA A mg objs) (link_syms objs) helpers
      in fold (\<lambda>(n, off) m. m(n \<mapsto> laBss A + off)) commonOff user)"

subsection \<open>Relocations\<close>

definition weakInterposedVA :: "merged \<Rightarrow> (string \<Rightarrow> 64 word option) \<Rightarrow> nat \<Rightarrow> lnkSym \<Rightarrow> 64 word \<Rightarrow> 64 word" where
  "weakInterposedVA mg symVA k s va =
     (if lsBinding s \<noteq> STB_WEAK \<or> lsSec s = '''' \<or> lsName s = '''' then va
      else if mgWeak mg (lsName s) = Some k then va
      else case symVA (lsName s) of Some v \<Rightarrow> v | None \<Rightarrow> 0)"

definition lookup_va :: "(string \<Rightarrow> 64 word option) \<Rightarrow> string \<Rightarrow> 64 word" where
  "lookup_va symVA n = (case symVA n of Some v \<Rightarrow> v | None \<Rightarrow> 0)"

definition file_symVA :: "lnkAddrs \<Rightarrow> merged \<Rightarrow> (string \<Rightarrow> 64 word option) \<Rightarrow> nat \<Rightarrow> objFile \<Rightarrow> lnkSym \<Rightarrow> 64 word" where
  "file_symVA A mg symVA k obj s =
     weakInterposedVA mg symVA k s
       (case sectionVA A obj s of
          Some va \<Rightarrow> va
        | None \<Rightarrow>
            if lsSec s = ''COMMON'' \<and> lsBinding s = STB_GLOBAL then lookup_va symVA (lsName s)
            else if lsSec s = '''' \<and> lsBinding s = STB_GLOBAL \<and> lsName s \<noteq> '''' then lookup_va symVA (lsName s)
            else 0)"

text \<open>The address of a relocation's symbol: by the table of the file, and when that has 0, by name.\<close>

definition rela_va :: "lnkAddrs \<Rightarrow> merged \<Rightarrow> (string \<Rightarrow> 64 word option) \<Rightarrow> nat \<Rightarrow> objFile \<Rightarrow> nat \<Rightarrow> 64 word" where
  "rela_va A mg symVA k obj i =
     (if i < length (obSyms obj) then
        (let s = obSyms obj ! i; va = file_symVA A mg symVA k obj s
         in if va = 0 then lookup_va symVA (lsName s) else va)
      else 0)"

definition rAArch64Abs64 :: nat where "rAArch64Abs64 = 257"
definition rAArch64Call26 :: nat where "rAArch64Call26 = 283"

text \<open>The patched word of a call at an address: the low 26 bits are the distance in words.\<close>

definition call26_word :: "64 word \<Rightarrow> 64 word \<Rightarrow> 64 word \<Rightarrow> 32 word \<Rightarrow> 32 word" where
  "call26_word va instrVA addend old =
     (let offset = sint (va - instrVA + addend); wordOff = offset sdiv 4
      in (old AND 0xFC000000) OR (u32 wordOff AND 0x3FFFFFF))"

definition apply_rela :: "lnkAddrs \<Rightarrow> objFile \<Rightarrow> (nat \<Rightarrow> 64 word) \<Rightarrow> lnkRela \<Rightarrow> 32 word list \<Rightarrow> linkError + 32 word list" where
  "apply_rela A obj va r ws =
     (let wordIdx = obTextBase obj + unat (lrOffset r div 4); symVAval = va (lrSymIdx r)
      in if lrType r = rAArch64Abs64 then
           (let addr = symVAval + lrAddend r
            in if wordIdx + 1 < length ws then Inr (ws[wordIdx := ucast addr, wordIdx + 1 := ucast (drop_bit 32 addr)])
               else Inl (IndexPanic (wordIdx + 1)))
         else if lrType r = rAArch64Call26 then
           (if wordIdx < length ws
            then Inr (ws[wordIdx := call26_word symVAval (laCode A + word_of_nat wordIdx * 4) (lrAddend r) (ws ! wordIdx)])
            else Inl (IndexPanic wordIdx))
         else Inr ws)"

definition text_relas ::
  "lnkAddrs \<Rightarrow> merged \<Rightarrow> (string \<Rightarrow> 64 word option) \<Rightarrow> objFile list \<Rightarrow> 32 word list \<Rightarrow> linkError + 32 word list" where
  "text_relas A mg symVA objs =
     foldE (\<lambda>(k, obj). foldE (apply_rela A obj (rela_va A mg symVA k obj)) (obRelas obj)) (List.enumerate 0 objs)"

definition overlay :: "nat \<Rightarrow> bytes \<Rightarrow> bytes \<Rightarrow> bytes" where
  "overlay off src dst = take off dst @ take (length dst - off) src @ drop (off + length src) dst"

definition apply_data_rela :: "objFile \<Rightarrow> (nat \<Rightarrow> 64 word) \<Rightarrow> lnkRela \<Rightarrow> bytes \<Rightarrow> linkError + bytes" where
  "apply_data_rela obj va r db =
     (if lrType r = rAArch64Abs64 then
        (let addr = va (lrSymIdx r) + lrAddend r; byteOff = obDataOff obj + lrOffset r
         in if byteOff + 8 \<le> word_of_nat (length db) then
              (if unat byteOff + 8 \<le> length db then Inr (overlay (unat byteOff) (lebytes 8 (unat addr)) db)
               else Inl (IndexPanic (unat byteOff)))
            else Inr db)
      else Inr db)"

definition data_relas ::
  "lnkAddrs \<Rightarrow> merged \<Rightarrow> (string \<Rightarrow> 64 word option) \<Rightarrow> objFile list \<Rightarrow> bytes \<Rightarrow> linkError + bytes" where
  "data_relas A mg symVA objs =
     foldE (\<lambda>(k, obj). foldE (apply_data_rela obj (rela_va A mg symVA k obj)) (obDataRelas obj)) (List.enumerate 0 objs)"

subsection \<open>The image\<close>

record linkImage =
  liEntry :: "64 word"
  liAddrs :: lnkAddrs
  liCode :: "32 word list"
  liRodata :: bytes
  liData :: bytes
  liBssSize :: "64 word"

definition merge_bytes :: "64 word \<Rightarrow> (objFile \<Rightarrow> 64 word) \<Rightarrow> (objFile \<Rightarrow> bytes) \<Rightarrow> objFile list \<Rightarrow> bytes" where
  "merge_bytes tot off data objs =
     fold (\<lambda>obj. overlay (unat (off obj)) (data obj)) objs (replicate (unat tot) (CHR 0x00))"

text \<open>What the phases behind the loading compute before the relocations.\<close>

record linkTable =
  tbObjs :: "objFile list"
  tbMerged :: merged
  tbAddrs :: lnkAddrs
  tbSymVA :: "string \<Rightarrow> 64 word option"
  tbCommonOff :: "(string \<times> 64 word) list"
  tbTotals :: lnkTotals
  tbBuilder :: codeBuilder

definition build_table :: "objFile list \<Rightarrow> linkError + linkTable" where
  "build_table objs0 =
     (let cb = runtime_code; helperWords = length (instrs cb);
          (objs, t) = layout_secs \<lparr>ltRodata = 0, ltData = 0, ltBss = 0\<rparr> (layout_text helperWords objs0);
          cb = cb\<lparr>instrs := instrs cb @ concat (map (text_words \<circ> obText) objs)\<rparr>
      in andThen (merge_syms objs) (\<lambda>mg.
         let (commonOff, totalBss) = alloc_commons (mgCommons mg) (sort (map fst (mgCommons mg))) (ltBss t);
             A = lnk_addrs (word_of_nat (length (instrs cb)) * 4) t;
             cb = patchPool [(''sbrk_cur_brk'', laBss A + totalBss)] cb
         in Inr \<lparr>tbObjs = objs, tbMerged = mg, tbAddrs = A, tbSymVA = symbol_table A mg objs (labels cb) commonOff,
                 tbCommonOff = commonOff, tbTotals = t\<lparr>ltBss := totalBss + 8\<rparr>, tbBuilder = cb\<rparr>))"

definition label_of_va :: "lnkAddrs \<Rightarrow> 64 word \<Rightarrow> nat" where
  "label_of_va A va = unat ((va - laCode A) div 4)"

definition link_labels :: "linkTable \<Rightarrow> linkError + codeBuilder" where
  "link_labels tb =
     (let cb = tbBuilder tb
      in case tbSymVA tb ''main'' of
           None \<Rightarrow> Inl UndefinedMain
         | Some va \<Rightarrow>
             (let cb = cb\<lparr>labels := (labels cb)(''main'' \<mapsto> label_of_va (tbAddrs tb) va)\<rparr>
              in Inr (case tbSymVA tb ''__posix_stdio_init'' of
                        None \<Rightarrow> cb
                      | Some va \<Rightarrow> cb\<lparr>labels := (labels cb)(''__posix_stdio_init'' \<mapsto> label_of_va (tbAddrs tb) va)\<rparr>)))"

definition link_table :: "linkTable \<Rightarrow> linkError + linkImage" where
  "link_table tb =
     (let A = tbAddrs tb; mg = tbMerged tb; symVA = tbSymVA tb; objs = tbObjs tb; t = tbTotals tb
      in andThen (link_labels tb) (\<lambda>cb.
         case applyFixups cb of
           Inl e \<Rightarrow> Inl (FixupFailed e)
         | Inr cb \<Rightarrow>
             andThen (text_relas A mg symVA objs (instrs cb)) (\<lambda>code.
             andThen (data_relas A mg symVA objs (merge_bytes (ltData t) obDataOff obData objs)) (\<lambda>data.
             Inr \<lparr>liEntry = (case labels cb ''_start'' of Some w \<Rightarrow> laCode A + word_of_nat w * 4 | None \<Rightarrow> 0),
                  liAddrs = A, liCode = code, liRodata = merge_bytes (ltRodata t) obRodataOff obRodata objs,
                  liData = data, liBssSize = ltBss t\<rparr>))))"

definition link_objs :: "objFile list \<Rightarrow> linkError + linkImage" where
  "link_objs objs = andThen (build_table objs) link_table"

subsection \<open>The executable file\<close>

definition le_fields :: "(nat \<times> nat) list \<Rightarrow> bytes" where
  "le_fields fs = concat (map (\<lambda>(w, v). lebytes w v) fs)"

definition elf_header :: "64 word \<Rightarrow> bytes" where
  "elf_header entry =
     [CHR 0x7F, CHR ''E'', CHR ''L'', CHR ''F'', CHR 0x02, CHR 0x01, CHR 0x01, CHR 0x00] @ replicate 8 (CHR 0x00)
     @ le_fields [(2, 2), (2, 183), (4, 1), (8, unat entry), (8, 64), (8, 0), (4, 0), (2, 64), (2, 56), (2, 4), (2, 0), (2, 0), (2, 0)]"

definition prog64 :: "nat \<Rightarrow> 64 word \<Rightarrow> 64 word \<Rightarrow> 64 word \<Rightarrow> 64 word \<Rightarrow> bytes" where
  "prog64 flags off vaddr filesz memsz =
     le_fields [(4, 1), (4, flags), (8, unat off), (8, unat vaddr), (8, unat vaddr), (8, unat filesz), (8, unat memsz), (8, 4096)]"

definition write_exec :: "linkImage \<Rightarrow> bytes" where
  "write_exec im =
     (let A = liAddrs im; codeEnd = lnkHdrEnd + word_of_nat (length (liCode im)) * 4;
          rodataSz = word_of_nat (length (liRodata im)); dataSz = word_of_nat (length (liData im));
          rodataOff = nextPage codeEnd; dataOff = nextPage (rodataOff + rodataSz)
      in elf_header (liEntry im)
         @ prog64 5 0 linkerLoadBase codeEnd codeEnd
         @ prog64 4 rodataOff (laRodata A) rodataSz rodataSz
         @ prog64 6 dataOff (laData A) dataSz dataSz
         @ prog64 6 0 (laBss A) 0 (liBssSize im)
         @ concat (map (\<lambda>w. lebytes 4 (unat w)) (liCode im))
         @ replicate (unat (rodataOff - codeEnd)) (CHR 0x00) @ liRodata im
         @ replicate (unat (dataOff - (rodataOff + rodataSz))) (CHR 0x00) @ liData im)"

definition linkWithObjs ::
  "(bytes \<Rightarrow> elfFile option) \<Rightarrow> (string \<Rightarrow> bytes option) \<Rightarrow> objFile list \<Rightarrow> string list \<Rightarrow> linkError + bytes" where
  "linkWithObjs newFile readFile preObjs inputpaths =
     andThen (collect newFile readFile preObjs inputpaths) (\<lambda>(objs, archives).
     andThen (link_objs objs) (\<lambda>im. Inr (write_exec im)))"

end
