(* ===== verification/LinkPull.thy ===== *)
theory LinkPull
  imports Linker
begin

section \<open>Which archive members are linked\<close>

text \<open>
  The invariant of the pulling phase: behind the objects given by the user stand exactly the members marked as
  used, each once, and each was pulled for the forced symbol or for a name that some linked object refers to. When
  the loop ends, no archive can define a name that is still undefined.
\<close>

subsection \<open>References and members\<close>

definition refs :: "objFile list \<Rightarrow> string set" where
  "refs objs = {lsName s | s obj. obj \<in> set objs \<and> s \<in> set (obSyms obj) \<and> lsBinding s = STB_GLOBAL \<and> lsSec s = '''' \<and> lsName s \<noteq> ''''}"

lemma set_undefs: "set (undefs objs) = {n \<in> refs objs. \<not> is_defined objs n}"
  by (auto simp: undefs_def refs_def)

lemma refs_append [simp]: "refs (xs @ ys) = refs xs \<union> refs ys"
  by (auto simp: refs_def)

text \<open>The object that a member becomes when it is pulled.\<close>

definition member_obj :: "(bytes \<Rightarrow> elfFile option) \<Rightarrow> archiveState \<Rightarrow> nat \<Rightarrow> objFile \<Rightarrow> bool" where
  "member_obj newFile a mi obj \<longleftrightarrow> mi < length (arsMembers a) \<and>
     (\<exists>raw. loadObjFromBytes newFile (amName (arsMembers a ! mi)) (amData (arsMembers a ! mi)) = Inr raw \<and> obj = raw\<lparr>obFromArchive := True\<rparr>)"

lemma member_obj_defines:
  assumes "member_obj newFile a mi obj" "defines_sym newFile n (arsMembers a ! mi)" "obj \<in> set objs"
  shows "is_defined objs n"
proof -
  have "obSyms obj = member_syms newFile (amName (arsMembers a ! mi)) (amData (arsMembers a ! mi))"
    using assms(1) by (auto simp: member_obj_def member_syms_def)
  then show ?thesis using assms(2,3) unfolding defines_sym_def is_defined_def by metis
qed

definition uses :: "archiveState list \<Rightarrow> nat" where
  "uses as = sum_list (map (\<lambda>a. length (filter id (arsUsed a))) as)"

lemma count_used: "i < length us \<Longrightarrow> \<not> us ! i \<Longrightarrow> length (filter id (us[i := True])) = Suc (length (filter id us))"
proof (induction us arbitrary: i)
  case (Cons u us)
  then show ?case by (cases i) auto
qed simp

lemma uses_update:
  assumes "ai < length as" "length (filter id (arsUsed b)) = Suc (length (filter id (arsUsed (as ! ai))))"
  shows "uses (as[ai := b]) = Suc (uses as)"
proof -
  have "uses as = uses (take ai as @ as ! ai # drop (Suc ai) as)" using id_take_nth_drop [OF assms(1)] by simp
  then show ?thesis using assms(2) unfolding upd_conv_take_nth_drop [OF assms(1)] by (simp add: uses_def)
qed

lemma build_symMap_some:
  assumes "m \<in> set ms" "defines_sym newFile n m"
  shows "\<exists>mi. build_symMap newFile ms n = Some mi \<and> mi < length ms \<and> defines_sym newFile n (ms ! mi)"
proof (cases "build_symMap newFile ms n")
  case None
  then show ?thesis using assms unfolding build_symMap_first by (auto simp: find_None_iff in_set_conv_nth)
next
  case (Some mi)
  then show ?thesis unfolding build_symMap_first by (auto simp: find_Some_iff)
qed

subsection \<open>The invariant\<close>

definition archive_ok :: "(bytes \<Rightarrow> elfFile option) \<Rightarrow> string \<Rightarrow> objFile list \<Rightarrow> archiveState \<Rightarrow> bool" where
  "archive_ok newFile forced objs a \<longleftrightarrow> length (arsUsed a) = length (arsMembers a) \<and> arsSymMap a = build_symMap newFile (arsMembers a)
     \<and> (\<forall>mi < length (arsUsed a). arsUsed a ! mi \<longrightarrow>
          (\<exists>obj \<in> set objs. member_obj newFile a mi obj) \<and> (\<exists>n. arsSymMap a n = Some mi \<and> (n = forced \<or> n \<in> refs objs)))"

definition pulled_from :: "(bytes \<Rightarrow> elfFile option) \<Rightarrow> archiveState list \<Rightarrow> objFile \<Rightarrow> bool" where
  "pulled_from newFile as obj \<longleftrightarrow> (\<exists>a \<in> set as. \<exists>mi < length (arsUsed a). arsUsed a ! mi \<and> member_obj newFile a mi obj)"

definition pull_inv :: "(bytes \<Rightarrow> elfFile option) \<Rightarrow> string \<Rightarrow> loaded \<Rightarrow> loaded \<Rightarrow> bool" where
  "pull_inv newFile forced st0 st \<longleftrightarrow>
     (\<exists>pulled. fst st = fst st0 @ pulled \<and> length pulled = uses (snd st) \<and> (\<forall>obj \<in> set pulled. pulled_from newFile (snd st) obj))
     \<and> map arsMembers (snd st) = map arsMembers (snd st0) \<and> (\<forall>a \<in> set (snd st). archive_ok newFile forced (fst st) a)"

lemma archive_ok_mono: "archive_ok newFile forced objs a \<Longrightarrow> archive_ok newFile forced (objs @ xs) a"
  unfolding archive_ok_def by fastforce

lemma pulled_from_update:
  assumes "pulled_from newFile as obj" "ai < length as" "b = (as ! ai)\<lparr>arsUsed := (arsUsed (as ! ai))[mi := True]\<rparr>"
  shows "pulled_from newFile (as[ai := b]) obj"
proof -
  obtain k i where k: "k < length as" "i < length (arsUsed (as ! k))" "arsUsed (as ! k) ! i" "member_obj newFile (as ! k) i obj"
    using assms(1) by (auto simp: pulled_from_def in_set_conv_nth)
  have "arsUsed (as[ai := b] ! k) ! i \<and> i < length (arsUsed (as[ai := b] ! k)) \<and> member_obj newFile (as[ai := b] ! k) i obj"
    using k assms(2,3) by (cases "k = ai"; cases "i = mi") (auto simp: member_obj_def)
  then show ?thesis using k(1) unfolding pulled_from_def by (metis length_list_update nth_mem)
qed

lemma archive_ok_use:
  assumes ok: "archive_ok newFile forced objs a" and n: "arsSymMap a n = Some mi" "n = forced \<or> n \<in> refs objs"
    and o: "member_obj newFile a mi obj"
  shows "archive_ok newFile forced (objs @ [obj]) (a\<lparr>arsUsed := (arsUsed a)[mi := True]\<rparr>)"
proof -
  have "(\<exists>x \<in> set (objs @ [obj]). member_obj newFile a i x) \<and> (\<exists>n. arsSymMap a n = Some i \<and> (n = forced \<or> n \<in> refs (objs @ [obj])))"
    if "i < length (arsUsed a)" "(arsUsed a)[mi := True] ! i" for i
  proof (cases "i = mi")
    case False
    then show ?thesis using ok that unfolding archive_ok_def by fastforce
  qed (use n o in auto)
  moreover have "member_obj newFile (a\<lparr>arsUsed := u\<rparr>) i x = member_obj newFile a i x" for u i x by (simp add: member_obj_def)
  ultimately show ?thesis using ok unfolding archive_ok_def by simp
qed

lemma pull_keeps_inv:
  assumes inv: "pull_inv newFile forced st0 st" and p: "pull newFile ai mi st = Inr st'"
    and ai: "ai < length (snd st)" and mi: "mi < length (arsUsed (snd st ! ai))" "\<not> arsUsed (snd st ! ai) ! mi"
    and n: "arsSymMap (snd st ! ai) n = Some mi" "n = forced \<or> n \<in> refs (fst st)"
  shows "pull_inv newFile forced st0 st' \<and> (\<exists>obj. fst st' = fst st @ [obj])"
proof -
  obtain objs as where st: "st = (objs, as)" by force
  let ?a = "as ! ai" and ?b = "(as ! ai)\<lparr>arsUsed := (arsUsed (as ! ai))[mi := True]\<rparr>"
  have a: "archive_ok newFile forced objs ?a" and rest: "\<forall>a \<in> set as. archive_ok newFile forced objs a"
    using inv ai by (simp_all add: pull_inv_def st)
  obtain obj where o: "member_obj newFile ?a mi obj" "st' = (objs @ [obj], as[ai := ?b])"
    using p mi a by (auto simp: st pull_def Let_def member_obj_def archive_ok_def split: sum.splits)
  obtain pulled where pl: "objs = fst st0 @ pulled" "length pulled = uses as" "\<forall>x \<in> set pulled. pulled_from newFile as x" "map arsMembers as = map arsMembers (snd st0)"
    using inv by (auto simp: pull_inv_def st)
  have "member_obj newFile ?b mi obj" using o(1) by (simp add: member_obj_def)
  then have "pulled_from newFile (as[ai := ?b]) obj"
    unfolding pulled_from_def using ai mi by (intro bexI [of _ ?b] exI [of _ mi]) (auto simp: st set_update_memI)
  moreover have "uses (as[ai := ?b]) = Suc (uses as)" using ai mi by (intro uses_update) (simp_all add: st count_used)
  ultimately have "\<exists>pulled. fst st' = fst st0 @ pulled \<and> length pulled = uses (snd st') \<and> (\<forall>obj \<in> set pulled. pulled_from newFile (snd st') obj)"
    using pl ai by (intro exI [of _ "pulled @ [obj]"]) (auto simp: o(2) st intro: pulled_from_update)
  moreover have "\<forall>x \<in> set (as[ai := ?b]). archive_ok newFile forced (objs @ [obj]) x"
    using archive_ok_use [OF a _ _ o(1), of n] n rest archive_ok_mono set_update_subset_insert [of as ai ?b] by (auto simp: st)
  moreover have "map arsMembers (as[ai := ?b]) = map arsMembers as" using ai by (simp add: map_update st list_update_same_conv)
  ultimately show ?thesis using pl(4) unfolding pull_inv_def by (simp add: o(2) st)
qed

lemma pull_for_keeps_inv:
  assumes inv: "pull_inv newFile forced st0 st" and p: "pull_for newFile n (st, added) = Inr (st', added')" and n: "n \<in> refs (fst st)"
  shows "pull_inv newFile forced st0 st' \<and> (\<exists>xs. fst st' = fst st @ xs)"
proof (cases "search_archives n 0 (snd st)")
  case (Inr r)
  show ?thesis
  proof (cases r)
    case (Some q)
    obtain ai mi where q: "q = (ai, mi)" by force
    have s: "search_archives n 0 (snd st) = Inr (Some (ai, mi))" using Inr Some q by simp
    then have "pull newFile ai mi st = Inr st'" using p by (auto simp: pull_for_def andThen_eq_Inr)
    then show ?thesis using pull_keeps_inv [OF inv, of ai mi st' n] search_archives_some [OF s] n by auto
  qed (use p inv Inr in \<open>auto simp: pull_for_def\<close>)
qed (use p in \<open>auto simp: pull_for_def\<close>)

lemma pull_round_keeps_inv:
  assumes "pull_inv newFile forced st0 st" "pull_round newFile st = Inr (st', added)"
  shows "pull_inv newFile forced st0 st'"
proof -
  have "pull_inv newFile forced st0 (fst (st', added)) \<and> (\<exists>xs. fst (fst (st', added)) = fst st @ xs)"
    using assms(2) unfolding pull_round_def
  proof (rule foldE_inv)
    fix n t t' assume n: "n \<in> set (undefs (fst st))" and t: "pull_inv newFile forced st0 (fst t) \<and> (\<exists>xs. fst (fst t) = fst st @ xs)"
      and p: "pull_for newFile n t = Inr t'"
    then have "n \<in> refs (fst (fst t))" by (auto simp: set_undefs)
    then show "pull_inv newFile forced st0 (fst t') \<and> (\<exists>xs. fst (fst t') = fst st @ xs)"
      using pull_for_keeps_inv [of newFile forced st0 "fst t" n "snd t" "fst t'" "snd t'"] t p by auto
  qed (simp add: assms(1))
  then show ?thesis by simp
qed

subsection \<open>The end of the loop\<close>

lemma round_added: "foldE (pull_for newFile) ns (st, True) = Inr (st', added) \<Longrightarrow> added"
proof (induction ns arbitrary: st)
  case (Cons n ns)
  then obtain t a where t: "pull_for newFile n (st, True) = Inr (t, a)" "foldE (pull_for newFile) ns (t, a) = Inr (st', added)"
    by (auto simp: andThen_eq_Inr)
  have "a" using t(1) pull_for_unused by fastforce
  then show ?case using Cons.IH t(2) by simp
qed simp

lemma round_stable:
  "foldE (pull_for newFile) ns (st, False) = Inr (st', False) \<Longrightarrow> st' = st \<and> (\<forall>n \<in> set ns. search_archives n 0 (snd st) = Inr None)"
proof (induction ns)
  case (Cons n ns)
  then obtain t a where t: "pull_for newFile n (st, False) = Inr (t, a)" "foldE (pull_for newFile) ns (t, a) = Inr (st', False)"
    by (auto simp: andThen_eq_Inr)
  have "\<not> a" using t(2) round_added [of newFile ns t st' False] by (cases a) auto
  then have "search_archives n 0 (snd st) = Inr None \<and> t = st"
    using t(1) by (auto simp: pull_for_def andThen_eq_Inr split: sum.splits option.splits)
  then show ?case using t(2) \<open>\<not> a\<close> Cons.IH by simp
qed simp

lemma search_none:
  "search_archives n ai as = Inr None \<Longrightarrow> \<forall>a \<in> set as. \<forall>mi. arsSymMap a n = Some mi \<longrightarrow> mi < length (arsUsed a) \<and> arsUsed a ! mi"
  by (induction as arbitrary: ai) (auto split: option.splits if_splits)

lemma lazy_loop_inv:
  assumes "lazy_loop newFile st = Inr st'" "pull_inv newFile forced st0 st"
  shows "pull_inv newFile forced st0 st' \<and> (\<forall>n \<in> set (undefs (fst st')). search_archives n 0 (snd st') = Inr None)"
  using assms
proof (induction newFile st rule: lazy_loop.induct)
  case (1 newFile st)
  obtain t a where t: "pull_round newFile st = Inr (t, a)" "(if a then lazy_loop newFile t else Inr t) = Inr st'"
    using 1(2) by (subst (asm) lazy_loop.simps) (auto split: sum.splits)
  have i: "pull_inv newFile forced st0 t" using pull_round_keeps_inv [OF 1(3) t(1)] .
  show ?case
  proof (cases a)
    case False
    then have "st' = t" "pull_round newFile st = Inr (t, False)" using t by auto
    then show ?thesis using i round_stable [of newFile "undefs (fst st)" st t] by (auto simp: pull_round_def)
  qed (use 1(1) [OF t(1) refl] i t in auto)
qed

lemma force_pull_inv:
  assumes "force_pull newFile forced st = Inr st'" "pull_inv newFile forced st0 st"
  shows "pull_inv newFile forced st0 st'"
proof -
  have "pull_inv newFile forced st0 st' \<and> length (snd st') = length (snd st)"
    using assms(1) unfolding force_pull_def
  proof (rule foldE_inv)
    fix ai t t' assume ai: "ai \<in> set [0..<length (snd st)]" and t: "pull_inv newFile forced st0 t \<and> length (snd t) = length (snd st)"
      and p: "(let a = snd t ! ai in case arsSymMap a forced of None \<Rightarrow> Inr t
        | Some mi \<Rightarrow> if length (arsUsed a) \<le> mi then Inl (IndexPanic mi) else if arsUsed a ! mi then Inr t else pull newFile ai mi t) = Inr t'"
    then have "t' = t \<or> (\<exists>mi. arsSymMap (snd t ! ai) forced = Some mi \<and> mi < length (arsUsed (snd t ! ai)) \<and> \<not> arsUsed (snd t ! ai) ! mi
        \<and> pull newFile ai mi t = Inr t')" by (auto simp: Let_def split: option.splits if_splits)
    moreover have "length (snd t') = length (snd t)" if "pull newFile ai mi t = Inr t'" for mi
      using that by (auto simp: pull_def Let_def split: prod.splits sum.splits)
    ultimately show "pull_inv newFile forced st0 t' \<and> length (snd t') = length (snd st)"
      using t ai pull_keeps_inv [of newFile forced st0 t ai _ t' forced] by auto
  qed (simp add: assms(2))
  then show ?thesis by simp
qed

text \<open>Loading gives archives with all members unused, so the invariant holds with nothing pulled.\<close>

lemma load_inputs_inv:
  assumes "foldE (load_input newFile readFile) ps (pre, []) = Inr st"
  shows "pull_inv newFile forced st st"
proof -
  have "\<forall>a \<in> set (snd st). arsSymMap a = build_symMap newFile (arsMembers a) \<and> arsUsed a = replicate (length (arsMembers a)) False"
    using assms
  proof (rule foldE_inv)
    fix p t t' assume t: "\<forall>a \<in> set (snd t). arsSymMap a = build_symMap newFile (arsMembers a) \<and> arsUsed a = replicate (length (arsMembers a)) False"
      and "load_input newFile readFile p t = Inr t'"
    then have "snd t' = snd t \<or> (\<exists>ms sm. archiveRead newFile readFile p = Inr (ms, sm)
        \<and> snd t' = snd t @ [\<lparr>arsMembers = ms, arsSymMap = sm, arsUsed = replicate (length ms) False\<rparr>])"
      by (auto simp: load_input_def andThen_eq_Inr split: prod.splits if_splits)
    moreover have "sm = build_symMap newFile ms" if "archiveRead newFile readFile p = Inr (ms, sm)" for ms sm
      using that by (auto simp: archiveRead_def andThen_eq_Inr split: option.splits if_splits)
    ultimately show "\<forall>a \<in> set (snd t'). arsSymMap a = build_symMap newFile (arsMembers a) \<and> arsUsed a = replicate (length (arsMembers a)) False"
      using t by auto
  qed simp
  then have "uses (snd st) = 0" "\<forall>a \<in> set (snd st). archive_ok newFile forced (fst st) a" by (auto simp: uses_def archive_ok_def)
  then show ?thesis by (auto simp: pull_inv_def)
qed

subsection \<open>Properties\<close>

text \<open>C7: What the linker links: behind the user's objects stand exactly the archive members marked as used, each
  once, and each member was pulled for the start-up routine or for a name that a linked object refers to. Pulling ends, and
  then no member of any archive defines a name that is still undefined.\<close>

theorem lazy_link_complete:
  assumes c: "collect newFile readFile preObjs paths = Inr (objs, archives)"
  shows "(\<exists>users as0 pulled. foldE (load_input newFile readFile) paths (preObjs, []) = Inr (users, as0)
        \<and> map arsMembers archives = map arsMembers as0 \<and> objs = users @ pulled
        \<and> length pulled = uses archives \<and> (\<forall>obj \<in> set pulled. pulled_from newFile archives obj))
    \<and> (\<forall>a \<in> set archives. \<forall>mi < length (arsUsed a). arsUsed a ! mi \<longrightarrow>
        (\<exists>n. arsSymMap a n = Some mi \<and> (n = ''__posix_stdio_init'' \<or> n \<in> refs objs)))
    \<and> (\<forall>n \<in> refs objs. is_defined objs n \<or> (\<forall>a \<in> set archives. \<forall>m \<in> set (arsMembers a). \<not> defines_sym newFile n m))"
proof -
  obtain st0 st1 where l: "foldE (load_input newFile readFile) paths (preObjs, []) = Inr st0"
    "force_pull newFile ''__posix_stdio_init'' st0 = Inr st1" "lazy_loop newFile st1 = Inr (objs, archives)"
    using c by (auto simp: collect_def andThen_eq_Inr)
  note I = lazy_loop_inv [OF l(3) force_pull_inv [OF l(2) load_inputs_inv [OF l(1)]]]
  then have inv: "pull_inv newFile ''__posix_stdio_init'' st0 (objs, archives)" by simp
  then have ok: "\<forall>a \<in> set archives. archive_ok newFile ''__posix_stdio_init'' objs a" by (simp add: pull_inv_def)
  have "False" if "n \<in> refs objs" "\<not> is_defined objs n" and am: "a \<in> set archives" "m \<in> set (arsMembers a)" "defines_sym newFile n m" for n a m
  proof -
    have "search_archives n 0 archives = Inr None" using I that(1,2) by (simp add: set_undefs)
    moreover obtain mi where mi: "arsSymMap a n = Some mi" "mi < length (arsMembers a)" "defines_sym newFile n (arsMembers a ! mi)"
      using ok am build_symMap_some [of m "arsMembers a" newFile n] by (auto simp: archive_ok_def)
    ultimately have "mi < length (arsUsed a) \<and> arsUsed a ! mi" using search_none am(1) by blast
    then obtain obj where "obj \<in> set objs" "member_obj newFile a mi obj" using ok am(1) unfolding archive_ok_def by blast
    then show False using member_obj_defines mi(3) that(2) by blast
  qed
  then show ?thesis using inv l(1) unfolding pull_inv_def archive_ok_def by (cases st0) fastforce
qed

text \<open>Sample objects: \<open>REF\<close> refers to \<open>f\<close> and \<open>OBJ\<close> defines it.\<close>

definition ref_elf :: elfFile where
  "ref_elf = \<lparr>efType = 1, efSections =
     [\<lparr>seName = ''.symtab'', seType = 2, seFlags = 0, seSize = 24,
       seData = Some ([CHR 0x01, CHR 0x00, CHR 0x00, CHR 0x00, CHR 0x10, CHR 0x00, CHR 0x00, CHR 0x00] @ replicate 16 (CHR 0x00))\<rparr>,
      \<lparr>seName = ''.strtab'', seType = 3, seFlags = 0, seSize = 3, seData = Some (CHR 0x00 # ''f'' @ [CHR 0x00])\<rparr>]\<rparr>"

definition link_newFile :: "bytes \<Rightarrow> elfFile option" where
  "link_newFile d = (if d = ''REF'' then Some ref_elf else demo_newFile d)"

definition sample_obj :: "string \<Rightarrow> bytes \<Rightarrow> string \<Rightarrow> nat \<Rightarrow> objFile" where
  "sample_obj path text sec typ = \<lparr>obPath = path, obText = text, obRodata = [], obData = [], obBssSize = 0,
     obSyms = [\<lparr>lsName = ''f'', lsValue = 0, lsSize = 0, lsSec = sec, lsBinding = STB_GLOBAL, lsType = typ\<rparr>], obRelas = [], obDataRelas = [],
     obTextBase = 0, obRodataOff = 0, obDataOff = 0, obBssOff = 0, obFromArchive = False\<rparr>"

definition ref_f :: "string \<Rightarrow> objFile" where
  "ref_f path = sample_obj path [] '''' 0"

definition def_f :: "string \<Rightarrow> objFile" where
  "def_f path = sample_obj path [CHR 0xC0, CHR 0x03, CHR 0x5F, CHR 0xD6] ''.text'' 2"

lemma sample_load:
  "loadObjFromBytes link_newFile p ''REF'' = Inr (ref_f p)" "loadObjFromBytes link_newFile p ''OBJ'' = Inr (def_f p)"
  by (simp_all add: link_newFile_def ref_f_def def_f_def sample_obj_def demo_newFile_def loadObjFromBytes_def parseObjELF_def demo_elf_def ref_elf_def
      readSec_def section_of_def elf_consts fold_section_def parse_symtab_def sec_data_def chunks_def parse_sym_def le16_def le32_def le64_def
      sym_name_def parseRelas_def fold_relas_def Let_def)

definition lib_f :: "string \<Rightarrow> bool \<Rightarrow> archiveState" where
  "lib_f name u = \<lparr>arsMembers = [\<lparr>amName = name, amData = ''OBJ''\<rparr>], arsSymMap = build_symMap link_newFile [\<lparr>amName = name, amData = ''OBJ''\<rparr>],
     arsUsed = [u]\<rparr>"

lemma lib_f_simps [simp]:
  "arsUsed (lib_f p u) = [u]" "arsMembers (lib_f p u) = [\<lparr>amName = p, amData = ''OBJ''\<rparr>]" "(lib_f p u)\<lparr>arsUsed := [v]\<rparr> = lib_f p v"
  "arsSymMap (lib_f p u) n = (if n = ''f'' then Some 0 else None)"
  by (auto simp: lib_f_def build_symMap_first defines_sym_def member_syms_def sample_load def_f_def sample_obj_def isLinkableDef_def elf_consts)

lemma sample_refs:
  "undefs [ref_f p] = [''f'']" "undefs [ref_f p, ref_f q] = [''f'', ''f'']"
  "undefs [ref_f p, (def_f q)\<lparr>obFromArchive := True\<rparr>] = []"
  "undefs [ref_f p, ref_f q, (def_f r)\<lparr>obFromArchive := True\<rparr>, (def_f s)\<lparr>obFromArchive := True\<rparr>] = []"
  by (auto simp: undefs_def is_defined_def ref_f_def def_f_def sample_obj_def isLinkableDef_def elf_consts)

lemmas lazy_eval = lazy_loop.simps pull_round_def pull_for_def pull_def sample_refs sample_load


text \<open>The sample files: an object that refers to \<open>f\<close> and an archive with a member that defines it.\<close>

definition link_files :: "string \<Rightarrow> bytes option" where
  "link_files p = (if p = ''m.o'' then Some ''REF''
     else if p = ''l.a'' then Some (write_archive link_newFile [\<lparr>amName = ''a.o'', amData = ''OBJ''\<rparr>]) else None)"

lemma sample_archive: "archiveRead link_newFile link_files ''l.a'' = Inr ([\<lparr>amName = ''a.o'', amData = ''OBJ''\<rparr>], arsSymMap (lib_f ''a.o'' False))"
proof -
  have "symIdxSize (allSyms link_newFile [\<lparr>amName = ''a.o'', amData = ''OBJ''\<rparr>]) < 10 ^ 10"
    by (simp add: symIdxSize_def allSyms_def member_syms_def sample_load def_f_def sample_obj_def isLinkableDef_def elf_consts namesBlob_def)
  moreover have "\<forall>m \<in> set [\<lparr>amName = ''a.o'', amData = ''OBJ''\<rparr>]. storable m" by (simp add: storable_def)
  ultimately have "ar_loop ''l.a'' (write_archive link_newFile [\<lparr>amName = ''a.o'', amData = ''OBJ''\<rparr>]) 8 [] =
      Inr (map read_member [\<lparr>amName = ''a.o'', amData = ''OBJ''\<rparr>])" by (rule archive_loop)
  then show ?thesis by (simp add: archiveRead_def link_files_def read_member_def stored_name_def lib_f_def) (simp add: write_archive_def Let_def)
qed

lemma sample_collect:
  "collect link_newFile link_files [] [''m.o'', ''l.a''] = Inr ([ref_f ''m.o'', (def_f ''a.o'')\<lparr>obFromArchive := True\<rparr>], [lib_f ''a.o'' True])"
proof -
  have a: "\<lparr>arsMembers = [\<lparr>amName = ''a.o'', amData = ''OBJ''\<rparr>], arsSymMap = arsSymMap (lib_f ''a.o'' False), arsUsed = [False]\<rparr> = lib_f ''a.o'' False"
    by (simp add: lib_f_def)
  have "loadObjFile link_newFile link_files ''m.o'' = Inr (ref_f ''m.o'')" by (simp add: loadObjFile_def link_files_def sample_load)
  then have l: "foldE (load_input link_newFile link_files) [''m.o'', ''l.a''] ([], []) = Inr ([ref_f ''m.o''], [lib_f ''a.o'' False])"
    using a by (simp add: load_input_def HasSuffix_a_def sample_archive)
  have "force_pull link_newFile ''__posix_stdio_init'' ([ref_f ''m.o''], [lib_f ''a.o'' False]) = Inr ([ref_f ''m.o''], [lib_f ''a.o'' False])"
    by (simp add: force_pull_def)
  then show ?thesis unfolding collect_def l by (simp add: lazy_eval)
qed

theorem lazy_link_complete_witness:
  "collect link_newFile link_files [] [''m.o'', ''l.a''] = Inr ([ref_f ''m.o'', (def_f ''a.o'')\<lparr>obFromArchive := True\<rparr>], [lib_f ''a.o'' True])
    \<and> (\<exists>n. arsSymMap (lib_f ''a.o'' True) n = Some 0 \<and> (n = ''__posix_stdio_init'' \<or> n \<in> refs [ref_f ''m.o'', (def_f ''a.o'')\<lparr>obFromArchive := True\<rparr>]))"
  using lazy_link_complete [OF sample_collect] sample_collect by simp

end
