(* ===== verification/LinkSyms.thy ===== *)
theory LinkSyms
  imports LinkPull
begin

section \<open>Which definition a name is resolved to\<close>

text \<open>
  The specification of symbol resolution: a strong definition in a user's object beats one in an archive
  member, the last archive member beats the earlier ones, a strong definition beats a tentative one, and that
  beats a weak one, of which the first object's counts. The scan of the linker and its symbol table refine it.
\<close>

subsection \<open>Specification\<close>

definition defs_of :: "nat \<Rightarrow> string \<Rightarrow> (nat \<times> lnkSym) list \<Rightarrow> (nat \<times> lnkSym) list" where
  "defs_of binding n xs = filter (\<lambda>(k, s). lsName s = n \<and> lsBinding s = binding \<and> storage (lsSec s)) xs"

definition in_user :: "objFile list \<Rightarrow> nat \<times> lnkSym \<Rightarrow> bool" where
  "in_user objs x \<longleftrightarrow> \<not> obFromArchive (objs ! fst x)"

definition strong_winner :: "objFile list \<Rightarrow> (nat \<times> lnkSym) list \<Rightarrow> (nat \<times> lnkSym) option" where
  "strong_winner objs ds =
     (if ds = [] then None else if filter (in_user objs) ds = [] then Some (last ds) else Some (last (filter (in_user objs) ds)))"

definition weak_winner :: "(nat \<times> lnkSym) list \<Rightarrow> (nat \<times> lnkSym) option" where
  "weak_winner ds = (if ds = [] then None else Some (last (filter (\<lambda>(k, s). k = fst (hd ds)) ds)))"

definition tentative :: "string \<Rightarrow> (nat \<times> lnkSym) list \<Rightarrow> lnkSym list" where
  "tentative n xs = map snd (filter (\<lambda>(k, s). lsName s = n \<and> lsBinding s = STB_GLOBAL \<and> lsSec s = ''COMMON'') xs)"

subsection \<open>The scan\<close>

definition scan_inv :: "objFile list \<Rightarrow> (nat \<times> lnkSym) list \<Rightarrow> merged \<Rightarrow> bool" where
  "scan_inv objs xs st \<longleftrightarrow> distinct (map fst (mgCommons st)) \<and> (\<forall>n. n \<noteq> '''' \<longrightarrow>
     mgReal st n = map_option fst (strong_winner objs (defs_of STB_GLOBAL n xs))
     \<and> length (filter (in_user objs) (defs_of STB_GLOBAL n xs)) \<le> 1
     \<and> mgWeak st n = (case defs_of STB_WEAK n xs of [] \<Rightarrow> None | d # _ \<Rightarrow> Some (fst d))
     \<and> map_of (mgCommons st) n = fold (\<lambda>s ci. Some (add_common s ci)) (tentative n xs) None)
     \<and> mgReal st '''' = None \<and> mgWeak st '''' = None \<and> map_of (mgCommons st) '''' = None"

lemma defs_of_snoc:
  "defs_of b n (xs @ [(k, s)]) = defs_of b n xs @ (if lsName s = n \<and> lsBinding s = b \<and> storage (lsSec s) then [(k, s)] else [])"
  by (simp add: defs_of_def)

lemma tentative_snoc:
  "tentative n (xs @ [(k, s)]) =
     tentative n xs @ (if lsName s = n \<and> lsBinding s = STB_GLOBAL \<and> lsSec s = ''COMMON'' then [s] else [])"
  by (simp add: tentative_def)

lemma strong_winner_snoc:
  "strong_winner objs (ds @ [(k, s)]) =
     (case strong_winner objs ds of
        None \<Rightarrow> Some (k, s)
      | Some d \<Rightarrow> if obFromArchive (objs ! k) \<and> \<not> obFromArchive (objs ! fst d) then Some d else Some (k, s))"
proof -
  have u: "in_user objs (last (filter (in_user objs) ds))" if "filter (in_user objs) ds \<noteq> []"
    using last_in_set [OF that] by simp
  have a: "\<not> in_user objs (last ds)" if "ds \<noteq> []" "filter (in_user objs) ds = []"
    using last_in_set [OF that(1)] that(2) by (auto simp: filter_empty_conv)
  show ?thesis
    by (cases "ds = []"; cases "filter (in_user objs) ds = []"; use u a in \<open>auto simp: strong_winner_def in_user_def\<close>)
qed

lemma strong_winner_user:
  assumes "strong_winner objs ds = Some d"
  shows "\<not> obFromArchive (objs ! fst d) \<longleftrightarrow> filter (in_user objs) ds \<noteq> []" "d \<in> set ds"
proof -
  have "filter (in_user objs) ds \<noteq> [] \<Longrightarrow> last (filter (in_user objs) ds) \<in> set (filter (in_user objs) ds)" by (rule last_in_set)
  moreover have "ds \<noteq> [] \<Longrightarrow> last ds \<in> set ds" by simp
  ultimately show "\<not> obFromArchive (objs ! fst d) \<longleftrightarrow> filter (in_user objs) ds \<noteq> []" "d \<in> set ds"
    using assms by (auto simp: strong_winner_def in_user_def filter_empty_conv split: if_splits)
qed

lemma not_both: "storage sec \<Longrightarrow> sec \<noteq> ''COMMON''" "STB_GLOBAL \<noteq> STB_WEAK"
  by (auto simp: storage_def elf_consts)

lemma merge_sym_step:
  assumes inv: "scan_inv objs xs st" and ok: "merge_sym objs (k, s) st = Inr st'"
  shows "scan_inv objs (xs @ [(k, s)]) st'"
proof (cases "lsName s = ''''")
  case True
  then have "st' = st" using ok by (simp add: merge_sym_def)
  moreover have "n \<noteq> '''' \<Longrightarrow> defs_of b n (xs @ [(k, s)]) = defs_of b n xs" "n \<noteq> '''' \<Longrightarrow> tentative n (xs @ [(k, s)]) = tentative n xs" for b n
    using True by (auto simp: defs_of_snoc tentative_snoc)
  ultimately show ?thesis using inv by (simp add: scan_inv_def)
next
  case name: False
  note I = inv [unfolded scan_inv_def]
  consider (strong) "lsBinding s = STB_GLOBAL" "storage (lsSec s)" | (common) "lsBinding s = STB_GLOBAL" "lsSec s = ''COMMON''"
    | (weak) "lsBinding s = STB_WEAK" "storage (lsSec s)"
    | (other) "\<not> (lsBinding s = STB_GLOBAL \<and> (storage (lsSec s) \<or> lsSec s = ''COMMON''))" "\<not> (lsBinding s = STB_WEAK \<and> storage (lsSec s))"
    by blast
  then show ?thesis
  proof cases
    case strong
    let ?ds = "defs_of STB_GLOBAL (lsName s) xs"
    have "st' = st\<lparr>mgReal := (mgReal st)(lsName s \<mapsto> fst (the (strong_winner objs (?ds @ [(k, s)]))))\<rparr>
      \<and> length (filter (in_user objs) (?ds @ [(k, s)])) \<le> 1"
    proof (cases "strong_winner objs ?ds")
      case None
      then have "?ds = []" by (auto simp: strong_winner_def split: if_splits)
      then show ?thesis using None I ok name strong by (auto simp: merge_sym_def strong_winner_def)
    next
      case (Some d)
      have w: "mgReal st (lsName s) = Some (fst d)" using I name Some by auto
      have l: "length (filter (in_user objs) ?ds) \<le> 1" using I name by blast
      have e: "obFromArchive (objs ! fst d) \<or> obFromArchive (objs ! k)" "st' = st\<lparr>mgReal := (mgReal st)(lsName s \<mapsto>
            (if \<not> obFromArchive (objs ! fst d) \<and> obFromArchive (objs ! k) then fst d else k))\<rparr>"
        using ok name strong w by (auto simp: merge_sym_def Let_def split: if_splits)
      then show ?thesis using Some l strong_winner_user(1) [OF Some] by (auto simp: strong_winner_snoc in_user_def)
    qed
    moreover have "\<exists>d. strong_winner objs (?ds @ [(k, s)]) = Some d" by (simp add: strong_winner_def)
    ultimately show ?thesis using I strong name not_both unfolding scan_inv_def by (auto simp: defs_of_snoc tentative_snoc)
  next
    case common
    then have st': "st' = st\<lparr>mgCommons := AList.update (lsName s) (add_common s (map_of (mgCommons st) (lsName s))) (mgCommons st)\<rparr>"
      using ok name by (auto simp: merge_sym_def storage_def)
    have "\<not> storage (lsSec s)" using common not_both by blast
    then show ?thesis using I common name unfolding scan_inv_def st'
      by (auto simp: defs_of_snoc tentative_snoc update_conv' distinct_update)
  next
    case weak
    then have st': "st' = (if mgWeak st (lsName s) = None then st\<lparr>mgWeak := (mgWeak st)(lsName s \<mapsto> k)\<rparr> else st)"
      using ok name not_both by (auto simp: merge_sym_def split: if_splits)
    then show ?thesis using I weak name not_both unfolding scan_inv_def
      by (auto simp: defs_of_snoc tentative_snoc split: list.splits)
  next
    case other
    then have "st' = st" using ok name by (auto simp: merge_sym_def split: if_splits)
    moreover have "defs_of STB_GLOBAL n (xs @ [(k, s)]) = defs_of STB_GLOBAL n xs" "defs_of STB_WEAK n (xs @ [(k, s)]) = defs_of STB_WEAK n xs"
      "tentative n (xs @ [(k, s)]) = tentative n xs" for n
      using other by (auto simp: defs_of_snoc tentative_snoc)
    ultimately show ?thesis using inv by (simp add: scan_inv_def)
  qed
qed

lemma merge_scan:
  "foldE (merge_sym objs) xs \<lparr>mgCommons = [], mgReal = Map.empty, mgWeak = Map.empty\<rparr> = Inr st \<Longrightarrow> scan_inv objs xs st"
proof (induction xs arbitrary: st rule: rev_induct)
  case Nil
  then show ?case by (auto simp: scan_inv_def defs_of_def tentative_def strong_winner_def)
next
  case (snoc x xs)
  then obtain st1 where "foldE (merge_sym objs) xs \<lparr>mgCommons = [], mgReal = Map.empty, mgWeak = Map.empty\<rparr> = Inr st1" "merge_sym objs x st1 = Inr st"
    by (auto simp: foldE_append andThen_eq_Inr)
  then show ?case using snoc.IH merge_sym_step by (cases x) blast
qed

lemma foldE_Inl: "foldE f xs s = Inl e \<Longrightarrow> \<exists>ys x zs t. xs = ys @ x # zs \<and> foldE f ys s = Inr t \<and> f x t = Inl e"
proof (induction xs arbitrary: s)
  case (Cons x xs)
  show ?case
  proof (cases "f x s")
    case (Inl e')
    then show ?thesis using Cons.prems by (intro exI [of _ "[]"]) auto
  next
    case (Inr s')
    then have "foldE f xs s' = Inl e" using Cons.prems by simp
    from Cons.IH [OF this] obtain ys y zs t where "xs = ys @ y # zs" "foldE f ys s' = Inr t" "f y t = Inl e" by blast
    then show ?thesis using Inr by (intro exI [of _ "x # ys"]) auto
  qed
qed simp

text \<open>The only error of the scan: a name with two strong definitions in user objects.\<close>

lemma merge_sym_error:
  assumes "scan_inv objs xs st" "merge_sym objs (k, s) st = Inl e"
  shows "\<exists>d. e = DuplicateDef (lsName s) (obPath (objs ! fst d)) (obPath (objs ! k)) \<and> lsName s \<noteq> '''' \<and>
    2 \<le> length (filter (in_user objs) (defs_of STB_GLOBAL (lsName s) (xs @ [(k, s)])))"
proof -
  have s: "lsName s \<noteq> ''''" "lsBinding s = STB_GLOBAL" "storage (lsSec s)"
    using assms(2) by (auto simp: merge_sym_def split: if_splits)
  then obtain d where d: "strong_winner objs (defs_of STB_GLOBAL (lsName s) xs) = Some d"
    "\<not> obFromArchive (objs ! fst d)" "\<not> obFromArchive (objs ! k)" "e = DuplicateDef (lsName s) (obPath (objs ! fst d)) (obPath (objs ! k))"
    using assms by (auto simp: merge_sym_def scan_inv_def Let_def split: option.splits if_splits)
  have "filter (in_user objs) (defs_of STB_GLOBAL (lsName s) xs) \<noteq> []" using strong_winner_user(1) [OF d(1)] d(2) by simp
  then have "1 \<le> length (filter (in_user objs) (defs_of STB_GLOBAL (lsName s) xs))" by (simp add: Suc_le_eq)
  then show ?thesis using d s by (auto simp: defs_of_snoc in_user_def)
qed

lemma merge_syms_error:
  "merge_syms objs = Inl e \<Longrightarrow> \<exists>n p q. e = DuplicateDef n p q \<and> n \<noteq> '''' \<and> 2 \<le> length (filter (in_user objs) (defs_of STB_GLOBAL n (link_syms objs)))"
proof -
  assume "merge_syms objs = Inl e"
  then have "foldE (merge_sym objs) (link_syms objs) \<lparr>mgCommons = [], mgReal = Map.empty, mgWeak = Map.empty\<rparr> = Inl e"
    by (auto simp: merge_syms_def andThen_def Let_def split: sum.splits)
  from foldE_Inl [OF this] obtain ys x zs t where x: "link_syms objs = ys @ x # zs"
    "foldE (merge_sym objs) ys \<lparr>mgCommons = [], mgReal = Map.empty, mgWeak = Map.empty\<rparr> = Inr t" "merge_sym objs x t = Inl e" by blast
  obtain k s where ks: "x = (k, s)" by force
  obtain d where "e = DuplicateDef (lsName s) (obPath (objs ! fst d)) (obPath (objs ! k))" "lsName s \<noteq> ''''"
    "2 \<le> length (filter (in_user objs) (defs_of STB_GLOBAL (lsName s) (ys @ [(k, s)])))"
    using merge_sym_error [OF merge_scan [OF x(2)]] x(3) ks by blast
  moreover have "length (filter (in_user objs) (defs_of STB_GLOBAL (lsName s) (ys @ [(k, s)]))) \<le>
      length (filter (in_user objs) (defs_of STB_GLOBAL (lsName s) (link_syms objs)))" unfolding x(1) ks by (simp add: defs_of_def)
  ultimately show ?thesis by (metis order_trans)
qed

subsection \<open>The result of the scan\<close>

lemma merge_syms_result:
  assumes "merge_syms objs = Inr mg" and n: "n \<noteq> ''''"
  defines "ds \<equiv> defs_of STB_GLOBAL n (link_syms objs)" and "ws \<equiv> defs_of STB_WEAK n (link_syms objs)"
  shows "mgReal mg n = map_option fst (strong_winner objs ds)" "length (filter (in_user objs) ds) \<le> 1"
    "map_of (mgCommons mg) n = (if ds = [] then fold (\<lambda>s ci. Some (add_common s ci)) (tentative n (link_syms objs)) None else None)"
    "mgWeak mg n = (if ds = [] \<and> map_of (mgCommons mg) n = None \<and> ws \<noteq> [] then Some (fst (hd ws)) else None)"
    "distinct (map fst (mgCommons mg))"
proof -
  obtain st where st: "foldE (merge_sym objs) (link_syms objs) \<lparr>mgCommons = [], mgReal = Map.empty, mgWeak = Map.empty\<rparr> = Inr st"
    and mg: "mg = st\<lparr>mgCommons := filter (\<lambda>(n, ci). mgReal st n = None) (mgCommons st),
         mgWeak := (\<lambda>n. if mgReal st n \<noteq> None \<or> map_of (filter (\<lambda>(n, ci). mgReal st n = None) (mgCommons st)) n \<noteq> None then None else mgWeak st n)\<rparr>"
    using assms(1) by (auto simp: merge_syms_def andThen_eq_Inr Let_def)
  note I = merge_scan [OF st, unfolded scan_inv_def]
  have sw: "strong_winner objs ds = None \<longleftrightarrow> ds = []" by (simp add: strong_winner_def)
  have mf: "map_of (filter (\<lambda>(n, ci). P n) c) m = (if P m then map_of c m else None)" for P and c :: "(string \<times> commonInfo) list" and m
    by (induction c) auto
  show "mgReal mg n = map_option fst (strong_winner objs ds)" "length (filter (in_user objs) ds) \<le> 1" using I n by (auto simp: mg ds_def)
  then show "map_of (mgCommons mg) n = (if ds = [] then fold (\<lambda>s ci. Some (add_common s ci)) (tentative n (link_syms objs)) None else None)"
    using I n sw by (auto simp: mg ds_def mf)
  show "mgWeak mg n = (if ds = [] \<and> map_of (mgCommons mg) n = None \<and> ws \<noteq> [] then Some (fst (hd ws)) else None)"
    using I n sw by (auto simp: mg ds_def ws_def mf split: list.splits)
  have "distinct (map fst (filter Q c))" if "distinct (map fst c)" for Q and c :: "(string \<times> commonInfo) list"
    using that by (induction c) auto
  then show "distinct (map fst (mgCommons mg))" using I by (simp add: mg)
qed

subsection \<open>The symbol table\<close>

lemma sectionVA_some: "sectionVA A obj s = None \<longleftrightarrow> \<not> storage (lsSec s)"
  by (auto simp: sectionVA_def storage_def)

definition owns :: "merged \<Rightarrow> string \<Rightarrow> nat \<times> lnkSym \<Rightarrow> bool" where
  "owns mg n = (\<lambda>(k, s). lsName s = n \<and> storage (lsSec s) \<and>
     (lsBinding s = STB_GLOBAL \<and> (mgReal mg n = None \<or> mgReal mg n = Some k) \<or> lsBinding s = STB_WEAK \<and> mgWeak mg n = Some k))"

lemma add_symVA_owns:
  assumes "n \<noteq> ''''"
  shows "add_symVA A mg objs (k, s) m n = (if owns mg n (k, s) then sectionVA A (objs ! k) s else m n)"
  using assms sectionVA_some [of A "objs ! k" s] not_both(2)
  by (auto simp: add_symVA_def owns_def put_symVA_def split: option.splits)

lemma fold_add_symVA:
  assumes "n \<noteq> ''''"
  shows "fold (add_symVA A mg objs) xs m n =
    (if filter (owns mg n) xs = [] then m n else let (k, s) = last (filter (owns mg n) xs) in sectionVA A (objs ! k) s)"
proof (induction xs rule: rev_induct)
  case (snoc x xs)
  then show ?case using add_symVA_owns [OF assms] by (cases x) auto
qed simp

lemma fold_commonOff:
  "distinct (map fst co) \<Longrightarrow> fold (\<lambda>(n, off) m. m(n \<mapsto> b + off)) co m n = (case map_of co n of Some off \<Rightarrow> Some (b + off) | None \<Rightarrow> m n)"
proof (induction co arbitrary: m)
  case (Cons c co)
  obtain k v where c: "c = (k, v)" by force
  have IH: "fold (\<lambda>(n, off) m. m(n \<mapsto> b + off)) co (m(k \<mapsto> b + v)) n = (case map_of co n of Some off \<Rightarrow> Some (b + off) | None \<Rightarrow> (m(k \<mapsto> b + v)) n)"
    by (rule Cons.IH) (use Cons.prems in simp)
  show ?case
  proof (cases "k = n")
    case True
    then have "map_of co n = None" using Cons.prems c by (simp add: map_of_eq_None_iff)
    then show ?thesis using IH True c by (simp del: fun_upd_apply add: fun_upd_same)
  next
    case False
    then have "map_of (c # co) n = map_of co n" "(m(k \<mapsto> b + v)) n = m n" using c by auto
    then show ?thesis using IH c by (simp del: fun_upd_apply map_of.simps split: option.split)
  qed
qed simp

lemma alloc_commons_names: "map fst (fst (alloc_commons c ns t)) = ns"
  by (induction ns arbitrary: t) (simp_all add: Let_def split_beta)

lemma last_filter_last: "xs \<noteq> [] \<Longrightarrow> P (last xs) \<Longrightarrow> last (filter P xs) = last xs"
  by (cases xs rule: rev_cases) auto

text \<open>The strong definition that wins is the last one in its object.\<close>

lemma strong_winner_last:
  assumes "strong_winner objs ds = Some d" "length (filter (in_user objs) ds) \<le> 1"
  shows "filter (\<lambda>x. fst x = fst d) ds \<noteq> []" "last (filter (\<lambda>x. fst x = fst d) ds) = d"
proof -
  have d: "d \<in> set ds" using strong_winner_user(2) [OF assms(1)] .
  then show "filter (\<lambda>x. fst x = fst d) ds \<noteq> []" by (auto simp: filter_empty_conv)
  show "last (filter (\<lambda>x. fst x = fst d) ds) = d"
  proof (cases "filter (in_user objs) ds = []")
    case True
    then show ?thesis using assms(1) last_filter_last [of ds "\<lambda>x. fst x = fst d"] by (auto simp: strong_winner_def split: if_splits)
  next
    case False
    then obtain y where y: "filter (in_user objs) ds = [y]" using assms(2) by (cases "filter (in_user objs) ds") auto
    then have "d = y" "in_user objs y" using assms(1) by (auto simp: strong_winner_def filter_eq_Cons_iff split: if_splits)
    then have "filter (\<lambda>x. fst x = fst d) ds = filter (\<lambda>x. fst x = fst d) (filter (in_user objs) ds)"
      unfolding filter_filter by (intro filter_cong) (auto simp: in_user_def)
    then show ?thesis using y \<open>d = y\<close> by simp
  qed
qed

subsection \<open>The table refines the specification\<close>

definition resolve :: "linkTable \<Rightarrow> string \<Rightarrow> 64 word option" where
  "resolve tb n =
     (let L = link_syms (tbObjs tb); A = tbAddrs tb
      in case strong_winner (tbObjs tb) (defs_of STB_GLOBAL n L) of
           Some (k, s) \<Rightarrow> sectionVA A (tbObjs tb ! k) s
         | None \<Rightarrow>
             if tentative n L \<noteq> [] then map_option (\<lambda>off. laBss A + off) (map_of (tbCommonOff tb) n)
             else case weak_winner (defs_of STB_WEAK n L) of
                    Some (k, s) \<Rightarrow> sectionVA A (tbObjs tb ! k) s
                  | None \<Rightarrow> map_option (\<lambda>w. laCode A + word_of_nat w * 4) (labels runtime_code n))"

lemma fold_some: "fold (\<lambda>s ci. Some (f s ci)) xs None = None \<longleftrightarrow> xs = []"
  by (cases xs rule: rev_cases) auto

lemma symbol_table_resolves:
  assumes mg: "merge_syms objs = Inr mg" and n: "n \<noteq> ''''"
    and co: "co = fst (alloc_commons (mgCommons mg) (sort (map fst (mgCommons mg))) b)"
  shows "symbol_table A mg objs labs co n =
    (case strong_winner objs (defs_of STB_GLOBAL n (link_syms objs)) of
       Some (k, s) \<Rightarrow> sectionVA A (objs ! k) s
     | None \<Rightarrow> if tentative n (link_syms objs) \<noteq> [] then map_option (\<lambda>off. laBss A + off) (map_of co n)
               else case weak_winner (defs_of STB_WEAK n (link_syms objs)) of
                      Some (k, s) \<Rightarrow> sectionVA A (objs ! k) s
                    | None \<Rightarrow> map_option (\<lambda>w. laCode A + word_of_nat w * 4) (labs n))"
proof -
  let ?L = "link_syms objs" and ?ds = "defs_of STB_GLOBAL n (link_syms objs)" and ?ws = "defs_of STB_WEAK n (link_syms objs)"
  let ?own = "filter (owns mg n) (link_syms objs)"
  note M = merge_syms_result [OF mg n]
  have names: "map fst co = sort (map fst (mgCommons mg))" unfolding co by (rule alloc_commons_names)
  then have dist: "distinct (map fst co)" using M(5) by simp
  have dom: "map_of co n = None \<longleftrightarrow> map_of (mgCommons mg) n = None"
    using arg_cong [OF names, of set] by (simp add: map_of_eq_None_iff)
  have T: "symbol_table A mg objs labs co n = (case map_of co n of Some off \<Rightarrow> Some (laBss A + off)
      | None \<Rightarrow> if ?own = [] then map_option (\<lambda>w. laCode A + word_of_nat w * 4) (labs n) else let (k, s) = last ?own in sectionVA A (objs ! k) s)"
    unfolding symbol_table_def Let_def fold_commonOff [OF dist] fold_add_symVA [OF n] by simp
  show ?thesis
  proof (cases "strong_winner objs ?ds")
    case (Some d)
    then have ds: "?ds \<noteq> []" by (auto simp: strong_winner_def)
    have real: "mgReal mg n = Some (fst d)" "mgWeak mg n = None" using M(1,4) Some ds by auto
    have "?own = filter (\<lambda>x. fst x = fst d) ?ds"
      unfolding defs_of_def filter_filter by (intro filter_cong) (auto simp: owns_def real)
    then have "?own \<noteq> []" "last ?own = d" using strong_winner_last [OF Some M(2)] by auto
    then show ?thesis using Some ds M(3) dom T by (cases d) auto
  next
    case None
    then have ds: "?ds = []" by (auto simp: strong_winner_def split: if_splits)
    then have real: "mgReal mg n = None" using M(1) by (simp add: strong_winner_def)
    have own: "?own = filter (\<lambda>(k, s). mgWeak mg n = Some k) ?ws"
      unfolding defs_of_def filter_filter using ds not_both(2) by (intro filter_cong) (auto simp: owns_def real defs_of_def filter_empty_conv)
    show ?thesis
    proof (cases "tentative n ?L = []")
      case False
      then have "map_of co n \<noteq> None" using M(3) ds dom by (simp add: fold_some)
      then show ?thesis using None T False by auto
    next
      case True
      then have c: "map_of co n = None" "map_of (mgCommons mg) n = None" using M(3) ds dom by (simp_all add: fold_some)
      show ?thesis
      proof (cases "?ws = []")
        case False
        then have "?own = filter (\<lambda>(k, s). k = fst (hd ?ws)) ?ws" unfolding own using M(4) ds c by (intro filter_cong) auto
        moreover have "\<dots> \<noteq> []" using False by (cases ?ws) (auto simp: split_beta)
        ultimately show ?thesis using T c None True False by (simp add: weak_winner_def Let_def)
      qed (use T own c None True in \<open>simp add: weak_winner_def\<close>)
    qed
  qed
qed

subsection \<open>The layout keeps the symbols\<close>

lemma layout_text_map: "map obSyms (layout_text w objs) = map obSyms objs" "map obFromArchive (layout_text w objs) = map obFromArchive objs"
  "map obText (layout_text w objs) = map obText objs"
  by (induction objs arbitrary: w) auto

lemma layout_secs_map: "map obSyms (fst (layout_secs t objs)) = map obSyms objs"
  "map obFromArchive (fst (layout_secs t objs)) = map obFromArchive objs" "map obText (fst (layout_secs t objs)) = map obText objs"
  by (induction objs arbitrary: t) (simp_all add: Let_def split_beta)

lemma link_syms_cong: "map obSyms objs = map obSyms objs' \<Longrightarrow> link_syms objs = link_syms objs'"
proof -
  have e: "link_syms xs = concat (map (\<lambda>(k, ss). map (Pair k) ss) (List.enumerate 0 (map obSyms xs)))" for xs
    by (simp add: link_syms_def enumerate_eq_zip zip_map2 split_def comp_def)
  show "link_syms objs = link_syms objs'" if "map obSyms objs = map obSyms objs'" unfolding e that ..
qed

definition placed :: "objFile list \<Rightarrow> objFile list \<times> lnkTotals" where
  "placed objs = layout_secs \<lparr>ltRodata = 0, ltData = 0, ltBss = 0\<rparr> (layout_text (length (instrs runtime_code)) objs)"

text \<open>The fields of the table.\<close>

lemma build_table_fields:
  assumes "build_table objs = Inr tb"
  shows "tbObjs tb = fst (placed objs)" "merge_syms (tbObjs tb) = Inr (tbMerged tb)"
    "tbAddrs tb = lnk_addrs (word_of_nat (length (instrs runtime_code @ concat (map (text_words \<circ> obText) (tbObjs tb)))) * 4) (snd (placed objs))"
    "tbCommonOff tb = fst (alloc_commons (mgCommons (tbMerged tb)) (sort (map fst (mgCommons (tbMerged tb)))) (ltBss (snd (placed objs))))"
    "tbTotals tb = (snd (placed objs))\<lparr>ltBss :=
       snd (alloc_commons (mgCommons (tbMerged tb)) (sort (map fst (mgCommons (tbMerged tb)))) (ltBss (snd (placed objs)))) + 8\<rparr>"
    "tbBuilder tb = patchPool [(''sbrk_cur_brk'', laBss (tbAddrs tb) +
         snd (alloc_commons (mgCommons (tbMerged tb)) (sort (map fst (mgCommons (tbMerged tb)))) (ltBss (snd (placed objs)))))]
       (runtime_code\<lparr>instrs := instrs runtime_code @ concat (map (text_words \<circ> obText) (tbObjs tb))\<rparr>)"
    "tbSymVA tb = symbol_table (tbAddrs tb) (tbMerged tb) (tbObjs tb) (labels (tbBuilder tb)) (tbCommonOff tb)"
  using assms unfolding build_table_def Let_def split_beta placed_def [symmetric]
  by (auto simp: andThen_eq_Inr)

lemma build_table_objs:
  assumes "build_table objs = Inr tb"
  shows "link_syms (tbObjs tb) = link_syms objs" "map obFromArchive (tbObjs tb) = map obFromArchive objs" "map obText (tbObjs tb) = map obText objs"
    "labels (tbBuilder tb) = labels runtime_code"
proof -
  have "map obSyms (tbObjs tb) = map obSyms objs" unfolding build_table_fields(1) [OF assms] by (simp add: placed_def layout_secs_map layout_text_map)
  then show "link_syms (tbObjs tb) = link_syms objs" by (rule link_syms_cong)
  show "map obFromArchive (tbObjs tb) = map obFromArchive objs" "map obText (tbObjs tb) = map obText objs"
    unfolding build_table_fields(1) [OF assms] by (simp_all add: placed_def layout_secs_map layout_text_map)
  show "labels (tbBuilder tb) = labels runtime_code" unfolding build_table_fields(6) [OF assms] by (simp add: patchPool_def)
qed

lemma in_user_cong:
  assumes "map obFromArchive objs = map obFromArchive objs'"
  shows "filter (in_user objs) (defs_of b n (link_syms objs)) = filter (in_user objs') (defs_of b n (link_syms objs))"
proof (rule filter_cong)
  fix x assume "x \<in> set (defs_of b n (link_syms objs))"
  then have k: "fst x < length objs" by (auto simp: defs_of_def link_syms_def in_set_enumerate_eq)
  then have "fst x < length objs'" using map_eq_imp_length_eq [OF assms] by simp
  then show "in_user objs x = in_user objs' x" unfolding in_user_def using k arg_cong [OF assms, of "\<lambda>l. l ! fst x"] by simp
qed simp

lemma build_table_error: "build_table objs = Inl e \<longleftrightarrow> merge_syms (fst (placed objs)) = Inl e"
  unfolding build_table_def Let_def split_beta placed_def [symmetric] by (cases "merge_syms (fst (placed objs))") auto

text \<open>C4: The symbol table gives every name the address of the definition that the rules of precedence choose: a strong
  definition in a user object, else the last strong one in an archive member, else the common storage of the tentative ones,
  else the weak definition of the first object that has one, else the linker's own helper. The table is refused exactly when
  two user objects, or one twice, have a strong definition of a name, and the error names it.\<close>

theorem symbol_resolution:
  "(\<forall>tb. build_table objs = Inr tb \<longrightarrow> (\<forall>n. n \<noteq> '''' \<longrightarrow> tbSymVA tb n = resolve tb n))
    \<and> ((\<exists>tb. build_table objs = Inr tb) \<longleftrightarrow> (\<forall>n. n \<noteq> '''' \<longrightarrow> length (filter (in_user objs) (defs_of STB_GLOBAL n (link_syms objs))) \<le> 1))
    \<and> (\<forall>e. build_table objs = Inl e \<longrightarrow> (\<exists>n p q. e = DuplicateDef n p q \<and> n \<noteq> '''' \<and>
         2 \<le> length (filter (in_user objs) (defs_of STB_GLOBAL n (link_syms objs)))))"
proof -
  have P: "link_syms (fst (placed objs)) = link_syms objs" "map obFromArchive (fst (placed objs)) = map obFromArchive objs"
    by (auto simp: placed_def layout_secs_map layout_text_map intro!: link_syms_cong)
  have U: "filter (in_user (fst (placed objs))) (defs_of STB_GLOBAL n (link_syms objs)) = filter (in_user objs) (defs_of STB_GLOBAL n (link_syms objs))" for n
    using in_user_cong [OF P(2), of STB_GLOBAL n] by (simp add: P(1))
  have r: "tbSymVA tb n = resolve tb n" if tb: "build_table objs = Inr tb" and n: "n \<noteq> ''''" for tb n
    using symbol_table_resolves [OF build_table_fields(2) [OF tb] n build_table_fields(4) [OF tb]] build_table_fields(7) [OF tb]
    by (simp add: resolve_def Let_def build_table_objs(4) [OF tb])
  have l: "length (filter (in_user objs) (defs_of STB_GLOBAL n (link_syms objs))) \<le> 1" if tb: "build_table objs = Inr tb" and n: "n \<noteq> ''''" for tb n
    using merge_syms_result(2) [OF build_table_fields(2) [OF tb] n] unfolding build_table_fields(1) [OF tb] P(1) U .
  have e: "\<exists>n p q. e = DuplicateDef n p q \<and> n \<noteq> '''' \<and> 2 \<le> length (filter (in_user objs) (defs_of STB_GLOBAL n (link_syms objs)))"
    if "build_table objs = Inl e" for e
    using merge_syms_error [of "fst (placed objs)" e] that unfolding build_table_error P(1) U .
  have "\<exists>tb. build_table objs = Inr tb" if "\<forall>n. n \<noteq> '''' \<longrightarrow> length (filter (in_user objs) (defs_of STB_GLOBAL n (link_syms objs))) \<le> 1"
  proof (cases "build_table objs")
    case (Inl er)
    from e [OF this] that show ?thesis by fastforce
  qed blast
  then show ?thesis using r l e by blast
qed

lemma link_syms_sample:
  "link_syms [def_f ''m.o'', (def_f ''a.o'')\<lparr>obFromArchive := True\<rparr>] =
     [(0, \<lparr>lsName = ''f'', lsValue = 0, lsSize = 0, lsSec = ''.text'', lsBinding = STB_GLOBAL, lsType = 2\<rparr>),
      (1, \<lparr>lsName = ''f'', lsValue = 0, lsSize = 0, lsSec = ''.text'', lsBinding = STB_GLOBAL, lsType = 2\<rparr>)]"
  by (simp add: link_syms_def def_f_def sample_obj_def)

theorem symbol_resolution_witness:
  "\<exists>tb. build_table [def_f ''m.o'', (def_f ''a.o'')\<lparr>obFromArchive := True\<rparr>] = Inr tb
     \<and> tbSymVA tb ''f'' = Some (laCode (tbAddrs tb) + word_of_nat (obTextBase (tbObjs tb ! 0)) * 4)"
proof -
  let ?objs = "[def_f ''m.o'', (def_f ''a.o'')\<lparr>obFromArchive := True\<rparr>]"
  note R = symbol_resolution [of ?objs]
  have "\<forall>n. n \<noteq> '''' \<longrightarrow> length (filter (in_user ?objs) (defs_of STB_GLOBAL n (link_syms ?objs))) \<le> 1"
    unfolding link_syms_sample by (auto simp: defs_of_def in_user_def def_f_def sample_obj_def)
  then obtain tb where tb: "build_table ?objs = Inr tb" using R by blast
  have m: "map obFromArchive (tbObjs tb) = [False, True]" using build_table_objs(2) [OF tb] by (simp add: def_f_def sample_obj_def)
  then obtain a b where o: "tbObjs tb = [a, b]" "\<not> obFromArchive a" "obFromArchive b" by (auto simp: Cons_eq_map_conv map_eq_Cons_conv)
  have "tbSymVA tb ''f'' = resolve tb ''f''" using R tb by blast
  also have "\<dots> = Some (laCode (tbAddrs tb) + word_of_nat (obTextBase (tbObjs tb ! 0)) * 4)"
    unfolding resolve_def Let_def build_table_objs(1) [OF tb] link_syms_sample
    using o by (simp add: defs_of_def storage_def strong_winner_def in_user_def sectionVA_def)
  finally show ?thesis using tb by blast
qed

end
