(* ===== verification/LinkLayout.thy ===== *)
theory LinkLayout
  imports LinkSyms
begin

unbundle bit_operations_syntax

section \<open>The memory map of the executable\<close>

text \<open>
  The layout of the linker on addresses: the helpers, the texts, the read-only data, the data, the zero data, the common
  storage and the break pointer follow each other without overlap, and the segments start on pages of their own.
\<close>

subsection \<open>Rounding up\<close>

lemma unat_and_not_mask:
  fixes x :: "64 word"
  shows "unat (x AND NOT (mask n)) = unat x div 2 ^ n * 2 ^ n"
proof -
  have "x AND NOT (mask n) = push_bit n (drop_bit n x)"
    by (rule bit_word_eqI) (auto simp: bit_simps)
  moreover have "take_bit 64 (unat x) = unat x" using unsigned_less [of x] by (intro take_bit_nat_eq_self) simp
  ultimately have "unat (x AND NOT (mask n)) = take_bit 64 (push_bit n (drop_bit n (unat x)))"
    by (simp add: unsigned_push_bit_eq unsigned_drop_bit_eq)
  also have "push_bit n (drop_bit n (unat x)) = unat x div 2 ^ n * 2 ^ n" by (simp add: push_bit_eq_mult drop_bit_eq_div)
  also have "take_bit 64 (unat x div 2 ^ n * 2 ^ n) = unat x div 2 ^ n * 2 ^ n"
  proof (rule take_bit_nat_eq_self)
    have "unat x div 2 ^ n * 2 ^ n \<le> unat x" by simp
    also have "unat x < 2 ^ LENGTH(64)" by (rule unsigned_less)
    finally show "unat x div 2 ^ n * 2 ^ n < 2 ^ 64" by simp
  qed
  finally show ?thesis .
qed

definition round_up :: "nat \<Rightarrow> nat \<Rightarrow> nat" where
  "round_up n v = (v + (2 ^ n - 1)) div 2 ^ n * 2 ^ n"

lemma round_up_bounds: "v \<le> round_up n v" "round_up n v < v + 2 ^ n" "2 ^ n dvd round_up n v"
proof -
  let ?x = "v + (2 ^ n - 1)"
  have "?x div 2 ^ n * 2 ^ n + ?x mod 2 ^ n = ?x" by (rule div_mult_mod_eq)
  moreover have "?x mod 2 ^ n < 2 ^ n" by simp
  ultimately show "v \<le> round_up n v" "round_up n v < v + 2 ^ n" unfolding round_up_def by linarith+
qed (simp add: round_up_def)

lemma unat_word_of_nat: "k < 2 ^ 64 \<Longrightarrow> unat (word_of_nat k :: 64 word) = k"
  by (simp add: unat_of_nat)

lemma unat_sum: "unat (x :: 64 word) + unat y < 2 ^ 64 \<Longrightarrow> unat (x + y) = unat x + unat y"
  by (simp add: unat_word_ariths)

lemma unat_align:
  fixes v :: "64 word"
  assumes "al = 2 ^ n" "n \<le> 12" "unat v + 4096 \<le> 2 ^ 64"
  shows "unat ((v + al - 1) AND NOT (al - 1)) = round_up n (unat v)"
proof -
  have m: "al - 1 = mask n" by (simp add: assms(1) mask_eq_decr_exp)
  have p: "(2 :: nat) ^ n \<le> 4096" using power_increasing [OF assms(2), of "2 :: nat"] by simp
  have e: "v + al - 1 = v + word_of_nat (2 ^ n - 1)" by (simp add: assms(1) of_nat_diff)
  have w: "unat (word_of_nat (2 ^ n - 1) :: 64 word) = 2 ^ n - 1" by (rule unat_word_of_nat) (use p in simp)
  have "unat v + (2 ^ n - 1) < 2 ^ 64" using p assms(3) by linarith
  then have "unat (v + al - 1) = unat v + (2 ^ n - 1)" unfolding e by (subst unat_sum) (simp_all only: w)
  then show ?thesis unfolding m unat_and_not_mask by (simp add: round_up_def)
qed

lemma nextPage_up: "unat v + 4096 \<le> 2 ^ 64 \<Longrightarrow> unat (nextPage v) = round_up 12 (unat v)"
  using unat_align [of 4096 12 v] by (simp add: nextPage_def)

subsection \<open>Chains of intervals\<close>

fun chain :: "nat \<Rightarrow> (nat \<times> nat) list \<Rightarrow> nat \<Rightarrow> bool" where
  "chain lo [] hi \<longleftrightarrow> lo \<le> hi"
| "chain lo ((a, l) # xs) hi \<longleftrightarrow> lo \<le> a \<and> chain (a + l) xs hi"

lemma chain_le: "chain lo xs hi \<Longrightarrow> lo \<le> hi"
  by (induction lo xs hi rule: chain.induct) auto

lemma chain_append: "chain lo xs m \<Longrightarrow> chain m' ys hi \<Longrightarrow> m \<le> m' \<Longrightarrow> chain lo (xs @ ys) hi"
proof (induction lo xs m rule: chain.induct)
  case (1 lo m)
  then show ?case by (cases ys) auto
qed auto

lemma chain_affine: "chain lo xs hi \<Longrightarrow> chain (b + c * lo) (map (\<lambda>(a, l). (b + c * a, c * l)) xs) (b + c * hi)"
proof (induction lo xs hi rule: chain.induct)
  case (2 lo a l xs hi)
  then show ?case by (simp add: algebra_simps)
qed simp

lemma chain_in: "chain lo xs hi \<Longrightarrow> (a, l) \<in> set xs \<Longrightarrow> lo \<le> a \<and> a + l \<le> hi"
proof (induction lo xs hi rule: chain.induct)
  case (2 lo a' l' xs hi)
  then show ?case using chain_le [of "a' + l'" xs hi] by fastforce
qed simp

lemma chain_disjoint: "chain lo xs hi \<Longrightarrow> sorted_wrt (\<lambda>(a, l) (b, m). a + l \<le> b) xs"
proof (induction lo xs hi rule: chain.induct)
  case (2 lo a l xs hi)
  then show ?case using chain_in [of "a + l" xs hi] by auto
qed simp

subsection \<open>Placing blocks\<close>

fun place :: "64 word \<Rightarrow> (64 word \<times> 64 word) list \<Rightarrow> 64 word list \<times> 64 word" where
  "place t [] = ([], t)"
| "place t ((al, sz) # xs) =
     (let off = (t + al - 1) AND NOT (al - 1); (offs, t') = place (off + sz) xs in (off # offs, t'))"

definition pow_align :: "64 word \<Rightarrow> bool" where
  "pow_align al \<longleftrightarrow> (\<exists>n \<le> 12. al = 2 ^ n)"

definition blocks_size :: "(64 word \<times> 64 word) list \<Rightarrow> nat" where
  "blocks_size xs = sum_list (map (\<lambda>(al, sz). 4096 + unat sz) xs)"

lemma place_chain:
  assumes "\<forall>(al, sz) \<in> set xs. pow_align al" "unat t + blocks_size xs < 2 ^ 64"
  shows "chain (unat t) (zip (map unat (fst (place t xs))) (map (\<lambda>(al, sz). unat sz) xs)) (unat (snd (place t xs)))
    \<and> unat (snd (place t xs)) \<le> unat t + blocks_size xs \<and> length (fst (place t xs)) = length xs
    \<and> (\<forall>i < length xs. unat (fst (xs ! i)) dvd unat (fst (place t xs) ! i))"
  using assms
proof (induction xs arbitrary: t)
  case (Cons x xs)
  obtain al sz n where x: "x = (al, sz)" "al = 2 ^ n" "n \<le> 12" using Cons.prems(1) by (cases x) (auto simp: pow_align_def)
  let ?off = "(t + al - 1) AND NOT (al - 1)"
  have bs: "blocks_size (x # xs) = 4096 + unat sz + blocks_size xs" by (simp add: blocks_size_def x)
  then have u: "unat ?off = round_up n (unat t)" using unat_align [OF x(2,3), of t] Cons.prems(2) by linarith
  have p: "(2 :: nat) ^ n \<le> 4096" using power_increasing [OF x(3), of "2 :: nat"] by simp
  moreover have al: "unat al = 2 ^ n" using unat_word_of_nat [of "2 ^ n"] p by (simp add: x(2))
  ultimately have b: "unat t \<le> unat ?off" "unat ?off < unat t + 4096" "unat al dvd unat ?off"
    using round_up_bounds [where v = "unat t" and n = n] al unfolding u by auto
  then have "unat ?off + unat sz < 2 ^ 64" using Cons.prems(2) bs by linarith
  then have s: "unat (?off + sz) = unat ?off + unat sz" by (rule unat_sum)
  have "unat (?off + sz) + blocks_size xs < 2 ^ 64" using s b bs Cons.prems(2) by linarith
  note IH = Cons.IH [OF _ this]
  show ?case using IH Cons.prems(1) b s bs unfolding x(1) by (auto simp: Let_def split_beta nth_Cons split: nat.split)
qed simp

lemma layout_secs_place:
  "map obRodataOff (fst (layout_secs t objs)) = fst (place (ltRodata t) (map (\<lambda>o'. (16, word_of_nat (length (obRodata o')))) objs))"
  "ltRodata (snd (layout_secs t objs)) = snd (place (ltRodata t) (map (\<lambda>o'. (16, word_of_nat (length (obRodata o')))) objs))"
  "map obDataOff (fst (layout_secs t objs)) = fst (place (ltData t) (map (\<lambda>o'. (16, word_of_nat (length (obData o')))) objs))"
  "ltData (snd (layout_secs t objs)) = snd (place (ltData t) (map (\<lambda>o'. (16, word_of_nat (length (obData o')))) objs))"
  "map obBssOff (fst (layout_secs t objs)) = fst (place (ltBss t) (map (\<lambda>o'. (16, obBssSize o')) objs))"
  "ltBss (snd (layout_secs t objs)) = snd (place (ltBss t) (map (\<lambda>o'. (16, obBssSize o')) objs))"
  by (induction objs arbitrary: t) (simp_all add: Let_def split_beta align16_def add_diff_eq [symmetric])

lemma alloc_commons_place:
  "alloc_commons c ns t = (let (offs, t') = place t (map (\<lambda>n. let ci = (case map_of c n of Some ci \<Rightarrow> ci | None \<Rightarrow> \<lparr>ciSize = 0, ciAlign = 0\<rparr>) in (ciAlign ci, ciSize ci)) ns)
     in (zip ns offs, t'))"
  by (induction ns arbitrary: t) (simp_all add: Let_def split_beta)

subsection \<open>Alignment of common storage\<close>

lemma pow_of_and:
  fixes al :: "64 word"
  assumes "al \<noteq> 0" "al AND (al - 1) = 0" "al \<le> 4096"
  shows "pow_align al"
proof -
  let ?u = "unat al"
  have u: "0 < ?u" "?u \<le> 4096" using assms(1,3) by (auto simp: word_le_nat_alt unat_gt_0)
  then obtain n where n: "2 ^ n \<le> ?u" "?u < 2 ^ (n + 1)" using ex_power_ivl1 [of 2 ?u] by auto
  have n12: "n \<le> 12"
  proof (rule ccontr)
    assume "\<not> n \<le> 12"
    then have "(2 :: nat) ^ 13 \<le> 2 ^ n" by (intro power_increasing) auto
    then show False using n(1) u(2) by simp
  qed
  have "?u = 2 ^ n"
  proof (rule ccontr)
    assume "?u \<noteq> 2 ^ n"
    then have l: "2 ^ n \<le> ?u - 1" "?u - 1 < 2 ^ (n + 1)" using n by linarith+
    have one: "1 \<le> al" using assms(1) by (simp add: word_le_nat_alt unat_gt_0 Suc_le_eq)
    have s: "unat (al - 1) = ?u - 1" using one by (simp add: unat_sub)
    have b: "bit v n" if "2 ^ n \<le> unat v" "unat v < 2 ^ (n + 1)" for v :: "64 word"
    proof -
      have "unat v div 2 ^ n = 1" using that by (intro div_nat_eqI) auto
      then have "bit (unat v) n" by (simp add: bit_iff_odd)
      then show ?thesis using n12 by (simp add: bit_simps)
    qed
    have "bit (al AND (al - 1)) n" using b [of al] b [of "al - 1"] n l s by (simp add: bit_and_iff)
    then show False using assms(2) by simp
  qed
  then have "al = 2 ^ n" using unat_word_of_nat [of "2 ^ n"] u(2) by (intro word_unat_eq_iff [THEN iffD2]) simp
  then show ?thesis using n12 by (auto simp: pow_align_def)
qed

lemma common_align_pow: "pow_align (common_align al)"
proof (cases "al = 0 \<or> al AND (al - 1) \<noteq> 0 \<or> al > 4096")
  case True
  then show ?thesis by (auto simp: common_align_def pow_align_def intro!: exI [of _ 3])
qed (auto simp: common_align_def intro!: pow_of_and)

lemma unat_pow: "n \<le> 12 \<Longrightarrow> unat (2 ^ n :: 64 word) = 2 ^ n"
  using unat_word_of_nat [of "2 ^ n"] power_increasing [of n 12 "2 :: nat"] by simp

lemma pow_align_dvd: "pow_align a \<Longrightarrow> pow_align b \<Longrightarrow> a \<le> b \<Longrightarrow> unat a dvd unat b"
  by (auto simp: pow_align_def word_le_nat_alt unat_pow intro: le_imp_power_dvd)

lemma add_common_spec:
  assumes "case old of None \<Rightarrow> True | Some ci \<Rightarrow> pow_align (ciAlign ci)"
  shows "lsSize s \<le> ciSize (add_common s old) \<and> common_align (lsValue s) \<le> ciAlign (add_common s old) \<and> pow_align (ciAlign (add_common s old))
    \<and> (case old of None \<Rightarrow> True | Some ci \<Rightarrow> ciSize ci \<le> ciSize (add_common s old) \<and> ciAlign ci \<le> ciAlign (add_common s old))"
proof -
  have "common_align (lsValue s) \<noteq> 0" using common_align_pow [of "lsValue s"] by (auto simp: pow_align_def)
  then have "0 < common_align (lsValue s)" by (simp add: word_gt_0)
  then show ?thesis using assms common_align_pow [of "lsValue s"]
    by (cases old; cases "lsSize s > ciSize (case old of None \<Rightarrow> \<lparr>ciSize = 0, ciAlign = 0\<rparr> | Some ci \<Rightarrow> ci)";
        cases "common_align (lsValue s) > ciAlign (case old of None \<Rightarrow> \<lparr>ciSize = 0, ciAlign = 0\<rparr> | Some ci \<Rightarrow> ci)")
      (auto simp: add_common_def Let_def word_gt_0 intro: less_imp_le leI)
qed

lemma tentative_merge:
  "fold (\<lambda>s ci. Some (add_common s ci)) xs None = Some ci \<Longrightarrow>
     pow_align (ciAlign ci) \<and> (\<forall>s \<in> set xs. lsSize s \<le> ciSize ci \<and> common_align (lsValue s) \<le> ciAlign ci)"
proof (induction xs arbitrary: ci rule: rev_induct)
  case (snoc x xs)
  let ?old = "fold (\<lambda>s ci. Some (add_common s ci)) xs None"
  have ci: "ci = add_common x ?old" using snoc.prems by simp
  show ?case
  proof (cases ?old)
    case None
    then have "xs = []" by (simp add: fold_some)
    then show ?thesis using add_common_spec [of None x] ci by simp
  next
    case (Some c)
    then show ?thesis using snoc.IH [OF Some] add_common_spec [of "Some c" x] ci by (auto intro: order_trans)
  qed
qed simp

lemma merge_syms_unnamed: "merge_syms objs = Inr mg \<Longrightarrow> map_of (mgCommons mg) '''' = None"
proof -
  assume "merge_syms objs = Inr mg"
  then obtain st where st: "foldE (merge_sym objs) (link_syms objs) \<lparr>mgCommons = [], mgReal = Map.empty, mgWeak = Map.empty\<rparr> = Inr st"
    and mg: "mgCommons mg = filter (\<lambda>(n, ci). mgReal st n = None) (mgCommons st)" by (auto simp: merge_syms_def andThen_eq_Inr Let_def)
  have "map_of (mgCommons st) '''' = None" using merge_scan [OF st] by (simp add: scan_inv_def)
  then show ?thesis by (auto simp: mg map_of_eq_None_iff)
qed

text \<open>Every merged tentative definition gets the size and the alignment that each of its objects asked for.\<close>

lemma commons_ok:
  assumes "merge_syms objs = Inr mg" "map_of (mgCommons mg) n = Some ci"
  shows "pow_align (ciAlign ci) \<and> (\<forall>s \<in> set (tentative n (link_syms objs)). lsSize s \<le> ciSize ci \<and> common_align (lsValue s) \<le> ciAlign ci)"
proof -
  have "n \<noteq> ''''" using assms merge_syms_unnamed by fastforce
  then show ?thesis using merge_syms_result(3) [OF assms(1)] assms(2) tentative_merge by (auto split: if_splits)
qed

subsection \<open>Sections at their addresses\<close>

lemma place_chain_at:
  assumes al: "\<forall>(al, sz) \<in> set xs. pow_align al" and b: "unat base + unat t + blocks_size xs < 2 ^ 64"
  shows "chain (unat base + unat t) (zip (map (\<lambda>off. unat (base + off)) (fst (place t xs))) (map (\<lambda>(al, sz). unat sz) xs))
    (unat base + unat (snd (place t xs)))"
proof -
  let ?offs = "fst (place t xs)" and ?szs = "map (\<lambda>(al, sz). unat sz) xs"
  have "unat t + blocks_size xs < 2 ^ 64" using b by linarith
  note P = place_chain [OF al this]
  have "chain (unat base + unat t) (map (\<lambda>(a, l). (unat base + 1 * a, 1 * l)) (zip (map unat ?offs) ?szs)) (unat base + unat (snd (place t xs)))"
    using chain_affine [of "unat t" _ "unat (snd (place t xs))" "unat base" 1] P by simp
  moreover have "map (\<lambda>(a, l). (unat base + 1 * a, 1 * l)) (zip (map unat ?offs) ?szs) = zip (map (\<lambda>off. unat (base + off)) ?offs) ?szs"
  proof (rule nth_equalityI)
    fix i assume i: "i < length (map (\<lambda>(a, l). (unat base + 1 * a, 1 * l)) (zip (map unat ?offs) ?szs))"
    then have i': "i < length ?offs" "i < length xs" by auto
    then have "(unat (?offs ! i), ?szs ! i) \<in> set (zip (map unat ?offs) ?szs)" by (auto simp: in_set_zip intro!: exI [of _ i])
    then have "unat (?offs ! i) \<le> unat (snd (place t xs))" using chain_in P by fastforce
    then have "unat (base + ?offs ! i) = unat base + unat (?offs ! i)" using P b by (intro unat_sum) linarith
    then show "map (\<lambda>(a, l). (unat base + 1 * a, 1 * l)) (zip (map unat ?offs) ?szs) ! i = zip (map (\<lambda>off. unat (base + off)) ?offs) ?szs ! i"
      using i' by simp
  qed simp
  ultimately show ?thesis by simp
qed

lemma layout_secs_keep: "map obRodata (fst (layout_secs t objs)) = map obRodata objs" "map obData (fst (layout_secs t objs)) = map obData objs"
  "map obBssSize (fst (layout_secs t objs)) = map obBssSize objs" "map obTextBase (fst (layout_secs t objs)) = map obTextBase objs"
  by (induction objs arbitrary: t) (simp_all add: Let_def split_beta)

lemma layout_text_chain:
  "chain w (map (\<lambda>o'. (obTextBase o', length (obText o') div 4)) (layout_text w objs)) (w + sum_list (map (\<lambda>o'. length (obText o') div 4) objs))"
proof (induction objs arbitrary: w)
  case (Cons o' objs)
  show ?case using Cons.IH [of "w + length (obText o') div 4"] by (simp add: add.assoc)
qed simp

subsection \<open>The map\<close>

definition text_iv :: "lnkAddrs \<Rightarrow> objFile \<Rightarrow> nat \<times> nat" where
  "text_iv A obj = (unat (laCode A + word_of_nat (obTextBase obj) * 4), 4 * (length (obText obj) div 4))"

definition rodata_iv :: "lnkAddrs \<Rightarrow> objFile \<Rightarrow> nat \<times> nat" where
  "rodata_iv A obj = (unat (laRodata A + obRodataOff obj), length (obRodata obj))"

definition data_iv :: "lnkAddrs \<Rightarrow> objFile \<Rightarrow> nat \<times> nat" where
  "data_iv A obj = (unat (laData A + obDataOff obj), length (obData obj))"

definition bss_iv :: "lnkAddrs \<Rightarrow> objFile \<Rightarrow> nat \<times> nat" where
  "bss_iv A obj = (unat (laBss A + obBssOff obj), unat (obBssSize obj))"

definition common_iv :: "lnkAddrs \<Rightarrow> merged \<Rightarrow> string \<times> 64 word \<Rightarrow> nat \<times> nat" where
  "common_iv A mg c = (unat (laBss A + snd c), case map_of (mgCommons mg) (fst c) of Some ci \<Rightarrow> unat (ciSize ci) | None \<Rightarrow> 0)"

text \<open>All storage of the image in order, with an empty interval at the start of each segment.\<close>

definition memory_map :: "linkTable \<Rightarrow> (nat \<times> nat) list" where
  "memory_map tb =
     (let A = tbAddrs tb; objs = tbObjs tb
      in (unat (laCode A), 4 * length (instrs runtime_code)) # map (text_iv A) objs
         @ (unat (laRodata A), 0) # map (rodata_iv A) objs
         @ (unat (laData A), 0) # map (data_iv A) objs
         @ (unat (laBss A), 0) # map (bss_iv A) objs
         @ map (common_iv A (tbMerged tb)) (tbCommonOff tb)
         @ [(unat (laBss A + (ltBss (tbTotals tb) - 8)), 8)])"

definition link_size :: "linkTable \<Rightarrow> nat" where
  "link_size tb =
     4 * length (instrs runtime_code)
     + sum_list (map (\<lambda>o'. length (obText o') + (4096 + length (obRodata o')) + (4096 + length (obData o')) + (4096 + unat (obBssSize o'))) (tbObjs tb))
     + sum_list (map (\<lambda>(n, ci). 4096 + unat (ciSize ci)) (mgCommons (tbMerged tb)))"

definition words_in :: "objFile list \<Rightarrow> nat" where
  "words_in objs = sum_list (map (\<lambda>o'. length (obText o') div 4) objs)"

lemma length_text_words: "length (concat (map (text_words \<circ> obText) objs)) = words_in objs"
  by (induction objs) (auto simp: words_in_def text_words_def)

lemma page_pow: "pow_align 16"
  unfolding pow_align_def by (rule exI [of _ 4]) simp

lemma code_chain:
  assumes w: "chain H (map (\<lambda>o'. (obTextBase o', length (obText o') div 4)) objs) (H + words_in objs)"
    and c: "laCode A = 0x400120" and s: "4 * (H + words_in objs) < 2 ^ 62"
  shows "chain 0x400120 ((unat (laCode A), 4 * H) # map (text_iv A) objs) (0x400120 + 4 * (H + words_in objs))"
proof -
  have "text_iv A o' = (0x400120 + 4 * obTextBase o', 4 * (length (obText o') div 4))" if "o' \<in> set objs" for o'
  proof -
    have "(obTextBase o', length (obText o') div 4) \<in> set (map (\<lambda>o'. (obTextBase o', length (obText o') div 4)) objs)" using that by auto
    then have "obTextBase o' \<le> H + words_in objs" using chain_in [OF w] by fastforce
    then have b: "0x400120 + 4 * obTextBase o' < 2 ^ 64" using s by simp
    have "laCode A + word_of_nat (obTextBase o') * 4 = word_of_nat (0x400120 + 4 * obTextBase o')" by (simp add: c)
    then show ?thesis unfolding text_iv_def using unat_word_of_nat [OF b] by (simp only:)
  qed
  then have m: "map (text_iv A) objs = map (\<lambda>(a, l). (0x400120 + 4 * a, 4 * l)) (map (\<lambda>o'. (obTextBase o', length (obText o') div 4)) objs)" by simp
  show ?thesis using chain_affine [OF w, of "0x400120" 4] unfolding m [symmetric] by (simp add: c)
qed

lemma sec_chain:
  assumes offs: "map off objs = fst (place 0 (map (\<lambda>o'. (16, sz o')) objs))"
    and b: "unat base + sum_list (map (\<lambda>o'. 4096 + unat (sz o')) objs) < 2 ^ 64"
  shows "chain (unat base) (map (\<lambda>o'. (unat (base + off o'), unat (sz o'))) objs) (unat base + unat (snd (place 0 (map (\<lambda>o'. (16, sz o')) objs))))
    \<and> unat (snd (place 0 (map (\<lambda>o'. (16, sz o')) objs))) \<le> sum_list (map (\<lambda>o'. 4096 + unat (sz o')) objs)
    \<and> (\<forall>o' \<in> set objs. 16 dvd unat (off o'))"
proof -
  let ?xs = "map (\<lambda>o'. (16 :: 64 word, sz o')) objs"
  have bs: "blocks_size ?xs = sum_list (map (\<lambda>o'. 4096 + unat (sz o')) objs)" by (simp add: blocks_size_def comp_def)
  have al: "\<forall>(al, z) \<in> set ?xs. pow_align al" using page_pow by auto
  have "zip (map (\<lambda>o'. unat (base + o')) (map off objs)) (map (\<lambda>(al, z). unat z) ?xs) = map (\<lambda>o'. (unat (base + off o'), unat (sz o'))) objs"
    by (simp add: zip_map_map zip_same_conv_map comp_def)
  then have "chain (unat base) (map (\<lambda>o'. (unat (base + off o'), unat (sz o'))) objs) (unat base + unat (snd (place 0 ?xs)))"
    using place_chain_at [OF al, of base 0] b bs by (simp add: offs [symmetric])
  moreover have P: "unat (snd (place 0 ?xs)) \<le> blocks_size ?xs" "\<forall>i < length ?xs. unat (fst (?xs ! i)) dvd unat (fst (place 0 ?xs) ! i)"
    using place_chain [OF al, of 0] b bs by simp_all
  moreover have "16 dvd unat (off o')" if "o' \<in> set objs" for o'
  proof -
    obtain i where i: "i < length objs" "o' = objs ! i" using \<open>o' \<in> set objs\<close> by (auto simp: in_set_conv_nth)
    then have "fst (place 0 ?xs) ! i = off o'" using offs [symmetric] by simp
    then show ?thesis using P(2) i by auto
  qed
  ultimately show ?thesis using bs by simp
qed

lemma sum_insort: "sum_list (map f (insort x xs)) = (f x + sum_list (map f xs) :: nat)"
  by (induction xs) auto

lemma sum_sort: "sum_list (map f (sort xs)) = (sum_list (map f xs) :: nat)"
  by (induction xs) (simp_all add: sum_insort)

lemma common_chain:
  assumes mg: "merge_syms objs = Inr mg" and a: "alloc_commons (mgCommons mg) (sort (map fst (mgCommons mg))) t = (co, t')"
    and b: "unat base + unat t + sum_list (map (\<lambda>(n, ci). 4096 + unat (ciSize ci)) (mgCommons mg)) < 2 ^ 64" and A: "laBss A = base"
  shows "chain (unat base + unat t) (map (common_iv A mg) co) (unat base + unat t')
    \<and> unat t' \<le> unat t + sum_list (map (\<lambda>(n, ci). 4096 + unat (ciSize ci)) (mgCommons mg))
    \<and> (\<forall>(n, off) \<in> set co. \<exists>ci. map_of (mgCommons mg) n = Some ci \<and> unat (ciAlign ci) dvd unat off)"
proof -
  let ?ci = "\<lambda>n. (case map_of (mgCommons mg) n of Some ci \<Rightarrow> ci | None \<Rightarrow> \<lparr>ciSize = 0, ciAlign = 0\<rparr>)"
  let ?ns = "sort (map fst (mgCommons mg))" and ?xs = "map (\<lambda>n. (ciAlign (?ci n), ciSize (?ci n))) (sort (map fst (mgCommons mg)))"
  have d: "distinct (map fst (mgCommons mg))" using merge_syms_result(5) [OF mg, of "''x''"] by simp
  have p: "place t ?xs = (map snd co, t')" and co: "co = zip ?ns (map snd co)" and l: "length co = length ?ns" and nm: "map fst co = ?ns"
  proof -
    have e: "co = zip ?ns (fst (place t ?xs))" "t' = snd (place t ?xs)"
      using a unfolding alloc_commons_place by (auto simp: Let_def split_beta)
    show nm: "map fst co = ?ns" using alloc_commons_names [of "mgCommons mg" ?ns t] a by simp
    have "length (fst (place s zs)) = length zs" for s zs by (induction s zs rule: place.induct) (auto simp: Let_def split_beta)
    then have "map snd co = fst (place t ?xs)" unfolding e(1) by simp
    then show "place t ?xs = (map snd co, t')" "co = zip ?ns (map snd co)" using e by (simp_all add: prod_eq_iff)
    show "length co = length ?ns" using arg_cong [OF nm, of length] by simp
  qed
  have some: "map_of (mgCommons mg) n = Some (?ci n)" if "n \<in> set ?ns" for n
    using that by (auto simp: map_of_eq_None_iff split: option.split)
  have al: "\<forall>(al, sz) \<in> set ?xs. pow_align al" using commons_ok [OF mg some] by auto
  have bs: "blocks_size ?xs = sum_list (map (\<lambda>(n, ci). 4096 + unat (ciSize ci)) (mgCommons mg))"
  proof -
    have "sum_list (map (\<lambda>n. 4096 + unat (ciSize (?ci n))) ?ns) = sum_list (map (\<lambda>n. 4096 + unat (ciSize (?ci n))) (map fst (mgCommons mg)))"
      by (rule sum_sort)
    also have "\<dots> = sum_list (map (\<lambda>(n, ci). 4096 + unat (ciSize ci)) (mgCommons mg))"
      unfolding map_map by (rule arg_cong [of _ _ sum_list], rule map_cong) (auto simp: d)
    finally show ?thesis by (simp add: blocks_size_def comp_def)
  qed
  have iv: "zip (map (\<lambda>off. unat (base + off)) (map snd co)) (map (\<lambda>(al, sz). unat sz) ?xs) = map (common_iv A mg) co"
  proof (rule nth_equalityI)
    fix i assume "i < length (zip (map (\<lambda>off. unat (base + off)) (map snd co)) (map (\<lambda>(al, sz). unat sz) ?xs))"
    then have i: "i < length co" "i < length ?ns" by auto
    then have "fst (co ! i) = ?ns ! i" using arg_cong [OF nm, of "\<lambda>z. z ! i"] by simp
    then show "zip (map (\<lambda>off. unat (base + off)) (map snd co)) (map (\<lambda>(al, sz). unat sz) ?xs) ! i = map (common_iv A mg) co ! i"
      using i by (simp add: common_iv_def A split: option.split)
  qed (simp add: l)
  have "unat t + blocks_size ?xs < 2 ^ 64" using b bs by linarith
  note P = place_chain [OF al this, unfolded p]
  have "\<exists>ci. map_of (mgCommons mg) n = Some ci \<and> unat (ciAlign ci) dvd unat off" if no: "(n, off) \<in> set co" for n off
  proof -
    obtain i where i: "i < length co" "co ! i = (n, off)" using no by (auto simp: in_set_conv_nth)
    then have "n = ?ns ! i" "off = map snd co ! i" using arg_cong [OF nm, of "\<lambda>z. z ! i"] by simp_all
    moreover have "i < length ?ns" using i(1) l by simp
    moreover from this have "map_of (mgCommons mg) n = Some (?ci n)" unfolding \<open>n = ?ns ! i\<close> by (intro some nth_mem)
    moreover have "\<forall>i < length ?xs. unat (fst (?xs ! i)) dvd unat (map snd co ! i)" using P [THEN conjunct2, THEN conjunct2, THEN conjunct2] by (simp only: fst_conv)
    ultimately show ?thesis by (intro exI [of _ "?ci n"]) simp
  qed
  moreover have "unat base + unat t + blocks_size ?xs < 2 ^ 64" using b bs by simp
  from place_chain_at [OF al this] have "chain (unat base + unat t) (map (common_iv A mg) co) (unat base + unat t')" unfolding p fst_conv snd_conv iv .
  moreover have "unat t' \<le> unat t + blocks_size ?xs" using P [THEN conjunct2, THEN conjunct1] by (simp only: snd_conv)
  ultimately show ?thesis unfolding bs by blast
qed

lemma placed_place:
  assumes "os = fst (placed objs)"
  shows "map obRodataOff os = fst (place 0 (map (\<lambda>o'. (16, word_of_nat (length (obRodata o')))) os))"
    "ltRodata (snd (placed objs)) = snd (place 0 (map (\<lambda>o'. (16, word_of_nat (length (obRodata o')))) os))"
    "map obDataOff os = fst (place 0 (map (\<lambda>o'. (16, word_of_nat (length (obData o')))) os))"
    "ltData (snd (placed objs)) = snd (place 0 (map (\<lambda>o'. (16, word_of_nat (length (obData o')))) os))"
    "map obBssOff os = fst (place 0 (map (\<lambda>o'. (16, obBssSize o')) os))"
    "ltBss (snd (placed objs)) = snd (place 0 (map (\<lambda>o'. (16, obBssSize o')) os))"
    "chain (length (instrs runtime_code)) (map (\<lambda>o'. (obTextBase o', length (obText o') div 4)) os) (length (instrs runtime_code) + words_in os)"
proof -
  let ?t = "\<lparr>ltRodata = 0, ltData = 0, ltBss = 0\<rparr>" and ?xs = "layout_text (length (instrs runtime_code)) objs"
  have os: "os = fst (layout_secs ?t ?xs)" by (simp add: assms placed_def)
  have k: "map (\<lambda>o'. g (obRodata o')) os = map (\<lambda>o'. g (obRodata o')) ?xs" "map (\<lambda>o'. g (obData o')) os = map (\<lambda>o'. g (obData o')) ?xs" for g :: "bytes \<Rightarrow> 64 word \<times> 64 word"
    using arg_cong [OF layout_secs_keep(1) [of ?t ?xs], of "map g"] arg_cong [OF layout_secs_keep(2) [of ?t ?xs], of "map g"] by (simp_all add: os comp_def)
  have kb: "map (\<lambda>o'. g (obBssSize o')) os = map (\<lambda>o'. g (obBssSize o')) ?xs" for g :: "64 word \<Rightarrow> 64 word \<times> 64 word"
    using arg_cong [OF layout_secs_keep(3) [of ?t ?xs], of "map g"] by (simp add: os comp_def)
  note P = layout_secs_place [of ?t ?xs, folded os]
  show "map obRodataOff os = fst (place 0 (map (\<lambda>o'. (16, word_of_nat (length (obRodata o')))) os))"
    "map obDataOff os = fst (place 0 (map (\<lambda>o'. (16, word_of_nat (length (obData o')))) os))"
    using P(1,3) k(1) [of "\<lambda>b. (16, word_of_nat (length b))"] k(2) [of "\<lambda>b. (16, word_of_nat (length b))"] by simp_all
  show "map obBssOff os = fst (place 0 (map (\<lambda>o'. (16, obBssSize o')) os))" using P(5) kb [of "\<lambda>z. (16, z)"] by simp
  show "ltRodata (snd (placed objs)) = snd (place 0 (map (\<lambda>o'. (16, word_of_nat (length (obRodata o')))) os))"
    "ltData (snd (placed objs)) = snd (place 0 (map (\<lambda>o'. (16, word_of_nat (length (obData o')))) os))"
    "ltBss (snd (placed objs)) = snd (place 0 (map (\<lambda>o'. (16, obBssSize o')) os))"
    using P(2,4,6) k(1) [of "\<lambda>b. (16, word_of_nat (length b))"] k(2) [of "\<lambda>b. (16, word_of_nat (length b))"] kb [of "\<lambda>z. (16, z)"]
    by (simp_all add: placed_def)
  have "map (\<lambda>o'. (obTextBase o', length (obText o') div 4)) os = map (\<lambda>o'. (obTextBase o', length (obText o') div 4)) ?xs"
    using arg_cong [OF arg_cong2 [OF layout_secs_keep(4) layout_secs_map(3), of zip ?t ?xs ?t ?xs], of "map (\<lambda>(a, b). (a, length b div 4))"] unfolding os
    by (simp add: zip_map_map zip_same_conv_map comp_def)
  moreover have "words_in os = words_in objs"
    using arg_cong [of _ _ "map (\<lambda>b. length b div 4)", OF layout_secs_map(3) [of ?t ?xs]] arg_cong [of _ _ "map (\<lambda>b. length b div 4)", OF layout_text_map(3)]
    by (simp add: words_in_def os comp_def)
  ultimately show "chain (length (instrs runtime_code)) (map (\<lambda>o'. (obTextBase o', length (obText o') div 4)) os) (length (instrs runtime_code) + words_in os)"
    using layout_text_chain [of "length (instrs runtime_code)" objs] by (simp add: words_in_def)
qed

lemma words_le: "4 * words_in os \<le> sum_list (map (\<lambda>o'. length (obText o')) os)"
  by (induction os) (auto simp: words_in_def)

lemma page_chain:
  assumes "unat e + 4096 \<le> 2 ^ 64"
  shows "unat e \<le> unat (nextPage e)" "unat (nextPage e) < unat e + 4096" "4096 dvd unat (nextPage e)"
  using round_up_bounds [where v = "unat e" and n = 12] nextPage_up [OF assms] by simp_all

lemma sum_unat_length:
  assumes "sum_list (map (\<lambda>o'. 4096 + length (f o')) os) < 2 ^ 63"
  shows "o' \<in> set os \<Longrightarrow> unat (word_of_nat (length (f o')) :: 64 word) = length (f o')"
    "sum_list (map (\<lambda>o'. 4096 + unat (word_of_nat (length (f o')) :: 64 word)) os) = sum_list (map (\<lambda>o'. 4096 + length (f o')) os)"
proof -
  show u: "unat (word_of_nat (length (f o')) :: 64 word) = length (f o')" if "o' \<in> set os" for o'
  proof (rule unat_word_of_nat)
    have "4096 + length (f o') \<le> sum_list (map (\<lambda>o'. 4096 + length (f o')) os)" using that by (intro member_le_sum_list) auto
    then show "length (f o') < 2 ^ 64" using assms by simp
  qed
  show "sum_list (map (\<lambda>o'. 4096 + unat (word_of_nat (length (f o')) :: 64 word)) os) = sum_list (map (\<lambda>o'. 4096 + length (f o')) os)"
    by (rule arg_cong [of _ _ sum_list], rule map_cong) (auto simp: u)
qed

lemma len_sec_chain:
  assumes offs: "map off os = fst (place 0 (map (\<lambda>o'. (16, word_of_nat (length (f o')))) os))"
    and b: "unat base + sum_list (map (\<lambda>o'. 4096 + length (f o')) os) < 2 ^ 63"
    and t: "t = snd (place 0 (map (\<lambda>o'. (16, word_of_nat (length (f o')))) os))"
  shows "chain (unat base) (map (\<lambda>o'. (unat (base + off o'), length (f o'))) os) (unat base + unat t)
    \<and> unat t \<le> sum_list (map (\<lambda>o'. 4096 + length (f o')) os) \<and> (\<forall>o' \<in> set os. 16 dvd unat (off o'))"
proof -
  have s: "sum_list (map (\<lambda>o'. 4096 + length (f o')) os) < 2 ^ 63" using b by linarith
  have m: "map (\<lambda>o'. (unat (base + off o'), unat (word_of_nat (length (f o')) :: 64 word))) os = map (\<lambda>o'. (unat (base + off o'), length (f o'))) os"
    by (rule map_cong) (auto simp: sum_unat_length(1) [OF s])
  have "unat base + sum_list (map (\<lambda>o'. 4096 + unat (word_of_nat (length (f o')) :: 64 word)) os) < 2 ^ 64"
    unfolding sum_unat_length(2) [OF s] using b by simp
  from sec_chain [OF offs this] show ?thesis unfolding m sum_unat_length(2) [OF s] t .
qed

text \<open>The storage of the image, segment by segment.\<close>

lemma memory_map_chain:
  assumes tb: "build_table objs = Inr tb" and s: "link_size tb < 2 ^ 62"
  shows "chain 0x400120 (memory_map tb) (2 ^ 64 - 1)
    \<and> 4096 dvd unat (laRodata (tbAddrs tb)) \<and> 4096 dvd unat (laData (tbAddrs tb)) \<and> 4096 dvd unat (laBss (tbAddrs tb))
    \<and> (\<forall>obj \<in> set (tbObjs tb). 16 dvd unat (obRodataOff obj) \<and> 16 dvd unat (obDataOff obj) \<and> 16 dvd unat (obBssOff obj))
    \<and> (\<forall>(n, off) \<in> set (tbCommonOff tb). \<exists>ci. map_of (mgCommons (tbMerged tb)) n = Some ci \<and> unat (ciAlign ci) dvd unat off)"
proof -
  define A os H where "A = tbAddrs tb" and "os = tbObjs tb" and "H = length (instrs runtime_code)"
  define rs ds bs cs where "rs = sum_list (map (\<lambda>o'. 4096 + length (obRodata o')) os)" and "ds = sum_list (map (\<lambda>o'. 4096 + length (obData o')) os)"
    and "bs = sum_list (map (\<lambda>o'. 4096 + unat (obBssSize o')) os)" and "cs = sum_list (map (\<lambda>(n, ci). 4096 + unat (ciSize ci)) (mgCommons (tbMerged tb)))"
  define tR tD tB where "tR = ltRodata (snd (placed objs))" and "tD = ltData (snd (placed objs))" and "tB = ltBss (snd (placed objs))"
  obtain co tC where co: "alloc_commons (mgCommons (tbMerged tb)) (sort (map fst (mgCommons (tbMerged tb)))) tB = (co, tC)" by force
  note F = build_table_fields [OF tb] and P = placed_place [OF build_table_fields(1) [OF tb]]
  have "link_size tb = 4 * H + sum_list (map (\<lambda>o'. length (obText o')) os) + rs + ds + bs + cs"
    unfolding link_size_def sum_list_addf by (simp add: sum_list_addf H_def rs_def ds_def bs_def cs_def os_def)
  then have "4 * (H + words_in os) + rs + ds + bs + cs \<le> link_size tb" using words_le [of os] by simp
  then have tot: "4 * (H + words_in os) + rs + ds + bs + cs < 2 ^ 62" using s by (rule le_less_trans)
  define e1 e2 e3 where "e1 = laCode A + word_of_nat (H + words_in os) * 4" and "e2 = laRodata A + tR" and "e3 = laData A + tD"
  have A: "laCode A = 0x400120" "laRodata A = nextPage e1" "laData A = nextPage e2" "laBss A = nextPage e3"
    by (simp_all add: A_def F(3) lnk_addrs_def Let_def linkerLoadBase_def lnkHdrEnd_def e1_def e2_def e3_def tR_def tD_def H_def os_def length_text_words)
  have "e1 = word_of_nat (0x400120 + 4 * (H + words_in os))" by (simp add: e1_def A)
  then have u1: "unat e1 = 0x400120 + 4 * (H + words_in os)" using tot by (simp only:) (rule unat_word_of_nat, simp)
  have C1: "chain 0x400120 ((unat (laCode A), 4 * H) # map (text_iv A) os) (unat e1)"
    using code_chain [of H os A] P(7) A(1) tot unfolding u1 by (simp add: H_def os_def)
  have p1: "unat e1 \<le> unat (laRodata A)" "unat (laRodata A) < unat e1 + 4096" "4096 dvd unat (laRodata A)"
    using page_chain [of e1] u1 tot unfolding A by simp_all
  have R: "chain (unat (laRodata A)) (map (rodata_iv A) os) (unat (laRodata A) + unat tR) \<and> unat tR \<le> rs \<and> (\<forall>o' \<in> set os. 16 dvd unat (obRodataOff o'))"
    using len_sec_chain [OF P(1), of "laRodata A" tR] p1 u1 tot P(2) by (simp add: rodata_iv_def [abs_def] os_def rs_def tR_def)
  have u2: "unat e2 = unat (laRodata A) + unat tR" unfolding e2_def using R p1 u1 tot by (intro unat_sum) simp
  have p2: "unat e2 \<le> unat (laData A)" "unat (laData A) < unat e2 + 4096" "4096 dvd unat (laData A)"
    using page_chain [of e2] u1 u2 p1 R tot unfolding A(3) by simp_all
  have D: "chain (unat (laData A)) (map (data_iv A) os) (unat (laData A) + unat tD) \<and> unat tD \<le> ds \<and> (\<forall>o' \<in> set os. 16 dvd unat (obDataOff o'))"
    using len_sec_chain [OF P(3), of "laData A" tD] p1 p2 u1 u2 R tot P(4) by (simp add: data_iv_def [abs_def] os_def ds_def tD_def)
  have u3: "unat e3 = unat (laData A) + unat tD" unfolding e3_def using D p2 u2 R p1 u1 tot by (intro unat_sum) simp
  have p3: "unat e3 \<le> unat (laBss A)" "unat (laBss A) < unat e3 + 4096" "4096 dvd unat (laBss A)"
    using page_chain [of e3] u1 u2 u3 p1 p2 R D tot unfolding A(4) by simp_all
  have bl: "unat (laBss A) + bs + cs < 2 ^ 62 + 2 ^ 24" using p1 p2 p3 u1 u2 u3 R D tot by simp
  have B: "chain (unat (laBss A)) (map (bss_iv A) os) (unat (laBss A) + unat tB) \<and> unat tB \<le> bs \<and> (\<forall>o' \<in> set os. 16 dvd unat (obBssOff o'))"
    using sec_chain [OF P(5), of "laBss A"] bl P(6) by (simp add: bss_iv_def [abs_def] os_def bs_def tB_def)
  have C: "chain (unat (laBss A) + unat tB) (map (common_iv A (tbMerged tb)) co) (unat (laBss A) + unat tC)
      \<and> unat tC \<le> unat tB + cs \<and> (\<forall>(n, off) \<in> set co. \<exists>ci. map_of (mgCommons (tbMerged tb)) n = Some ci \<and> unat (ciAlign ci) dvd unat off)"
    using common_chain [OF F(2) co, of "laBss A" A] bl B by (simp add: cs_def)
  have k: "tbCommonOff tb = co" "ltBss (tbTotals tb) - 8 = tC" using F(4,5) co by (simp_all add: tB_def)
  have u4: "unat (laBss A + tC) = unat (laBss A) + unat tC" using C B bl by (intro unat_sum) simp
  have end': "unat (laBss A) + unat tC + 8 \<le> 2 ^ 64 - 1" using C B bl by simp
  have "chain (unat (laBss A)) (map (bss_iv A) os @ map (common_iv A (tbMerged tb)) co @ [(unat (laBss A + tC), 8)]) (2 ^ 64 - 1)"
    using B C u4 end' by (intro chain_append [where m = "unat (laBss A) + unat tB" and m' = "unat (laBss A) + unat tB"]
      chain_append [where m = "unat (laBss A) + unat tC" and m' = "unat (laBss A) + unat tC"]) auto
  then have "chain (unat e3) ((unat (laBss A), 0) # map (bss_iv A) os @ map (common_iv A (tbMerged tb)) co @ [(unat (laBss A + tC), 8)]) (2 ^ 64 - 1)"
    using p3(1) by simp
  from chain_append [OF conjunct1 [OF D] this] have "chain (unat (laData A)) (map (data_iv A) os @ (unat (laBss A), 0) # map (bss_iv A) os
      @ map (common_iv A (tbMerged tb)) co @ [(unat (laBss A + tC), 8)]) (2 ^ 64 - 1)" using u3 by simp
  then have "chain (unat e2) ((unat (laData A), 0) # map (data_iv A) os @ (unat (laBss A), 0) # map (bss_iv A) os
      @ map (common_iv A (tbMerged tb)) co @ [(unat (laBss A + tC), 8)]) (2 ^ 64 - 1)" using p2(1) by simp
  from chain_append [OF conjunct1 [OF R] this] have "chain (unat e1) ((unat (laRodata A), 0) # map (rodata_iv A) os @ (unat (laData A), 0) # map (data_iv A) os
      @ (unat (laBss A), 0) # map (bss_iv A) os @ map (common_iv A (tbMerged tb)) co @ [(unat (laBss A + tC), 8)]) (2 ^ 64 - 1)" using u2 p1(1) by simp
  from chain_append [OF C1 this] have "chain 0x400120 (memory_map tb) (2 ^ 64 - 1)"
    unfolding memory_map_def Let_def A_def [symmetric] os_def [symmetric] k H_def by simp
  then show ?thesis using p1(3) p2(3) p3(3) R D B C k by (simp add: A_def os_def)
qed

text \<open>C5: The memory map of every executable smaller than \<open>2 ^ 62\<close> bytes: the runtime helpers, the texts of the objects, their
  read-only data, their data, their zero data, the storage of the tentative definitions and the break pointer are disjoint and
  in this order, the segments begin on page boundaries, every section begins at a multiple of 16, and the storage of a
  tentative definition has the size and the alignment that every object with it asks for.\<close>

theorem memory_map_disjoint:
  assumes tb: "build_table objs = Inr tb" and s: "link_size tb < 2 ^ 62"
  shows "sorted_wrt (\<lambda>(a, l) (b, m). a + l \<le> b) (memory_map tb) \<and> (\<forall>(a, l) \<in> set (memory_map tb). 0x400120 \<le> a \<and> a + l < 2 ^ 64)
    \<and> 4096 dvd unat (laRodata (tbAddrs tb)) \<and> 4096 dvd unat (laData (tbAddrs tb)) \<and> 4096 dvd unat (laBss (tbAddrs tb))
    \<and> (\<forall>obj \<in> set (tbObjs tb). 16 dvd unat (obRodataOff obj) \<and> 16 dvd unat (obDataOff obj) \<and> 16 dvd unat (obBssOff obj))
    \<and> (\<forall>(n, off) \<in> set (tbCommonOff tb). \<exists>ci. map_of (mgCommons (tbMerged tb)) n = Some ci \<and>
         (\<forall>s \<in> set (tentative n (link_syms objs)). lsSize s \<le> ciSize ci \<and> unat (common_align (lsValue s)) dvd unat off))"
proof -
  note M = memory_map_chain [OF tb s]
  have "\<exists>ci. map_of (mgCommons (tbMerged tb)) n = Some ci \<and>
      (\<forall>s \<in> set (tentative n (link_syms objs)). lsSize s \<le> ciSize ci \<and> unat (common_align (lsValue s)) dvd unat off)"
    if no: "(n, off) \<in> set (tbCommonOff tb)" for n off
  proof -
    obtain ci where ci: "map_of (mgCommons (tbMerged tb)) n = Some ci" "unat (ciAlign ci) dvd unat off" using M no by blast
    note K = commons_ok [OF build_table_fields(2) [OF tb] ci(1), unfolded build_table_objs(1) [OF tb]]
    then show ?thesis using ci pow_align_dvd [OF common_align_pow] by (blast intro: dvd_trans)
  qed
  then have c: "\<forall>(n, off) \<in> set (tbCommonOff tb). \<exists>ci. map_of (mgCommons (tbMerged tb)) n = Some ci \<and>
      (\<forall>s \<in> set (tentative n (link_syms objs)). lsSize s \<le> ciSize ci \<and> unat (common_align (lsValue s)) dvd unat off)" by blast
  have "\<forall>(a, l) \<in> set (memory_map tb). 0x400120 \<le> a \<and> a + l < 2 ^ 64" using chain_in [OF conjunct1 [OF M]] by fastforce
  then show ?thesis using M c chain_disjoint [OF conjunct1 [OF M]] by blast
qed

lemma runtime_length: "length (instrs runtime_code) = 86"
  by code_simp

theorem memory_map_disjoint_witness:
  "\<exists>tb. build_table [def_f ''m.o''] = Inr tb \<and> 4096 dvd unat (laData (tbAddrs tb)) \<and> sorted_wrt (\<lambda>(a, l) (b, m). a + l \<le> b) (memory_map tb)"
proof -
  obtain mg where mg: "merge_syms (fst (placed [def_f ''m.o''])) = Inr mg" "mgCommons mg = []"
    by (simp add: placed_def Let_def merge_syms_def link_syms_def merge_sym_def def_f_def sample_obj_def storage_def elf_consts)
  then obtain tb where tb: "build_table [def_f ''m.o''] = Inr tb"
    using build_table_error [of "[def_f ''m.o'']"] by (cases "build_table [def_f ''m.o'']") auto
  note F = build_table_fields [OF tb]
  have "tbMerged tb = mg" using F(1,2) mg(1) by simp
  then have "link_size tb < 2 ^ 62"
    unfolding link_size_def F(1) runtime_length using mg(2) by (simp add: placed_def Let_def def_f_def sample_obj_def)
  from memory_map_disjoint [OF tb this] tb show ?thesis by blast
qed

end
