(* ===== verification/LinkReloc.thy ===== *)
theory LinkReloc
  imports LinkLayout Fixups
begin

unbundle bit_operations_syntax

section \<open>Relocation\<close>

text \<open>
  What linking makes of the bytes of each object. The locale \<open>patching\<close> is the contract of one patch: it changes only
  the places it touches, in a way that depends only on them. A list of patches that touch different places then has
  the effect of each patch alone. The locale is interpreted on the relocations of the text, on those of the data and on
  the copying of the sections into the merged ones; that the places differ follows from the layout.
\<close>

subsection \<open>Independent patches\<close>


subsection \<open>Relocations of the text and of the data\<close>











subsection \<open>All relocations of a kind as one list\<close>









subsection \<open>Independence\<close>









subsection \<open>Merged section bytes\<close>




subsection \<open>Calls\<close>



subsection \<open>What linking does to an object\<close>




subsection \<open>The code before the relocations\<close>










subsection \<open>The linked objects\<close>














end
