(* ===== verification/Spec2Isabelle.thy ===== *)
theory Spec2Isabelle
  imports Mathbuiltins Stdio SscanfProps MpzProps Asm FrameProps BackendProps LinkReloc
begin

text \<open>
  A verification library for the gaston repository: a C compiler for ARM64 written in Go, its own
  C runtime library, and the programs it compiles.

  \<^bold>\<open>The program.\<close> The compiler reads C (lexer, preprocessor, parser, semantic checks), translates
  it to quads (\<open>irgen.go\<close>, \<open>ir.go\<close>), lays out a stack frame for every function (\<open>arm64.go\<close>) and emits
  ARM64 words through a code builder (\<open>elfgen.go\<close>, \<open>arm64enc.go\<close>). Object files (\<open>objgen.go\<close>) are
  linked with a runtime part that the linker emits (\<open>linker.go\<close>) and with the C library under
  \<open>src/libc\<close>. Micropython, one of the programs built with it, brings the big integers of \<open>py/mpz.c\<close>.

  \<^bold>\<open>The C library.\<close> \<open>CPrelude\<close> has C integers, strings with their terminators and decimal texts;
  \<open>Ieee754\<close> has doubles as bit patterns with correctly rounded arithmetic. \<open>Mathbuiltins\<close>
  (\<open>mathbuiltins.c\<close>), \<open>Printf\<close> (\<open>printf.c\<close>), \<open>Stdio\<close> (\<open>stdio.c\<close>) and \<open>Sscanf\<close> (\<open>sscanf.c\<close>)
  model every function of their files; read, write and the formatter of picolibc are parameters with
  their documented behaviour as hypotheses. \<open>SscanfProps\<close> states the contract of a scanner as the
  locale \<open>scanner\<close> (it stops at or before the terminator and does not look behind it) and interprets it
  on every loop of the file. The properties: what is printed and scanned, round trips between the
  two, saturation and wrap-around, bounds of every buffer, and the values on which \<open>round\<close> and the
  long printer are wrong.

  \<^bold>\<open>Big integers.\<close> \<open>Mpn\<close> and \<open>MpnDiv\<close> model the digit vectors, \<open>Mpz\<close> the objects on a heap where
  operands may be the same object; the locale \<open>mpz_binop\<close> of \<open>MpzBasic\<close> is the contract of an
  in-place operation, interpreted in \<open>MpzBasic\<close> and \<open>MpzArith\<close>. \<open>MpzProps\<close> has the properties. String and
  float conversions are not modelled.

  \<^bold>\<open>The back end.\<close> \<open>Arm64Enc\<close> has the encoders of \<open>arm64enc.go\<close>. \<open>Arm64Dec\<close> is a decoder written
  from the architecture manual and \<open>Arm64Exec\<close> the behaviour of the decoded instructions on a machine with
  registers, flags, memory and a read-only text; they give the emitted words their meaning. \<open>Asm\<close>
  shows that the encoders are inverse to the decoder. \<open>Ast\<close> and \<open>Ir\<close> have the type kinds, struct sizes
  and quads, \<open>Frame\<close> has \<open>buildFrame\<close>, \<open>CodeBuilder\<close> the builder with literal pool, labels, fixups and
  peephole, and \<open>ElfGen\<close> every case of \<open>genFunc\<close>, the calls, prologue and epilogue, the runtime helpers
  and the text of an object. A method that emits is a function from builder to builder, and \<open>emits\<close> runs
  a list of them in order. Go maps are functions to options, and a lookup of a missing key is the zero
  value, as in Go.

  \<open>IrSem\<close> says what a quad means on the memory, independent of registers. \<open>Block\<close> has the
  calculus of emitted code (\<open>impl\<close>: the words that a function emits take a state to another one), with
  the invariant that makes the peephole sound. \<open>Codegen\<close>, \<open>CodegenMem\<close> and \<open>CodegenW\<close> show that
  the code of each quad refines its meaning. \<open>Fixups\<close> shows that the builder only grows and what patching
  does. \<open>Simulate\<close> puts the quads of a function together: the locale \<open>forward_simulation\<close>, interpreted on
  the quads and the machine. \<open>FuncRefine\<close> adds entry and return; \<open>BackendProps\<close> and \<open>FrameProps\<close>
  have the properties, up to the refinement of a whole function.

  \<^bold>\<open>Archives and linker.\<close> \<open>ObjFile\<close> has the object files as the linker reads them
  (\<open>parseObjELF\<close> of \<open>linker.go\<close>: sections, symbols, relocations), \<open>ArFmt\<close> the writer and the reader of archives
  (\<open>arfmt.go\<close>), \<open>Linker\<close> the phases of \<open>linkWithObjs\<close> (\<open>linker.go\<close>) up to the bytes of the executable. The reader
  of ELF containers (\<open>debug/elf\<close>) and the file system are the parameters \<open>newFile\<close> and \<open>readFile\<close>; an
  error is a value of \<open>linkError\<close>. The properties: an archive reads back as what was put in and its index is right;
  pulling members ends and is complete (\<open>LinkPull\<close>, with the case in which the first archive does not win); the
  symbol table refines the rules of precedence (\<open>LinkSyms\<close>); the parts of the image are disjoint and
  aligned (\<open>LinkLayout\<close>); every object is relocated, with the contract of a patch as the locale \<open>patching\<close>
  (\<open>LinkReloc\<close>). The last two are for images smaller than \<open>2 ^ 62\<close> bytes, where no 64-bit sum wraps.

  \<^bold>\<open>Fuel.\<close> \<open>SizeBytes\<close> recurses through the struct definitions and counts the nesting depth down; a
  fuel above the rank of the struct is enough, as \<open>FrameProps\<close> shows. The machine and the quads have
  step relations without fuel; the refinement says that the machine does reach the return.

  \<^bold>\<open>The fragment of the refinement.\<close> Data quads, labels, jumps and returns of integers, in functions
  without struct parameters and variadic arguments. Calls, indirect jumps, struct copies and returns and
  stack allocation are generated by the model but are outside of the simulation. The text is smaller than
  \<open>2 ^ 18\<close> words, the reach of a literal load, which the code does not check.

  \<^bold>\<open>Not modelled.\<close> The front end (lexer, preprocessor, the generated parser, semantic checks) and
  the translation to quads; the textual assembly printer of \<open>arm64.go\<close>; the
  symbol and relocation tables that \<open>objgen.go\<close> writes; warnings of the linker on standard error; file and
  process handling of the drivers; conversions from double to float, whose rounding the machine model leaves open.
\<close>

end
